(* ===== verification/Prelude.thy ===== *)
theory Prelude
  imports Main "HOL-Library.Word"
begin

text \<open>
  Shared vocabulary of the development: the machine types of the C sources, fallible
  results, byte strings with their little-endian value, buffers that are written in place,
  and the arithmetic of bit fields inside a natural number.
\<close>

unbundle bit_operations_syntax

named_theorems le_simps \<open>little-endian values and byte strings\<close>
named_theorems field_simps_nat \<open>bit fields of natural numbers\<close>

subsection \<open>Machine types\<close>

type_synonym byte = "8 word"
type_synonym u16 = "16 word"
type_synonym u32 = "32 word"
type_synonym u64 = "64 word"
type_synonym bytes = "8 word list"

subsection \<open>Fallible results\<close>

text \<open>A C function that returns an error code or a value returns a sum here.\<close>

definition bind_res :: "'e + 'a \<Rightarrow> ('a \<Rightarrow> 'e + 'b) \<Rightarrow> 'e + 'b" where
  "bind_res m f = (case m of Inl e \<Rightarrow> Inl e | Inr x \<Rightarrow> f x)"

lemma bind_res_simps [simp]:
  "bind_res (Inl e) f = Inl e"
  "bind_res (Inr x) f = f x"
  by (simp_all add: bind_res_def)

lemma bind_res_Inr_iff: "bind_res m f = Inr y \<longleftrightarrow> (\<exists>x. m = Inr x \<and> f x = Inr y)"
  by (cases m) auto

lemma bind_res_Inl_iff:
  "bind_res m f = Inl e \<longleftrightarrow> m = Inl e \<or> (\<exists>x. m = Inr x \<and> f x = Inl e)"
  by (cases m) auto

lemma bind_res_InrE:
  assumes "bind_res m f = Inr y"
  obtains x where "m = Inr x" and "f x = Inr y"
  using assms by (auto simp: bind_res_Inr_iff)

subsection \<open>Reading memory\<close>

text \<open>
  A source buffer is a byte list and a pointer into it is an index. A read past the end is
  undefined in C; in the model it yields zero, and the components prove that their reads
  stay inside the buffer.
\<close>

definition byte_at :: "bytes \<Rightarrow> nat \<Rightarrow> byte" where
  "byte_at src i = (if i < length src then src ! i else 0)"

definition rd :: "bytes \<Rightarrow> nat \<Rightarrow> nat \<Rightarrow> bytes" where
  "rd src p n = map (byte_at src) [p..<p + n]"

lemma length_rd [simp]: "length (rd src p n) = n"
  by (simp add: rd_def)

lemma rd_nth [simp]: "i < n \<Longrightarrow> rd src p n ! i = byte_at src (p + i)"
  by (simp add: rd_def)

lemma rd_in_range: "p + n \<le> length src \<Longrightarrow> rd src p n = take n (drop p src)"
  by (rule nth_equalityI) (auto simp: byte_at_def)

lemma rd_add: "rd src p (m + n) = rd src p m @ rd src (p + m) n"
  by (rule nth_equalityI) (auto simp: nth_append)

lemma rd_0 [simp]: "rd src p 0 = []"
  by (simp add: rd_def)

lemma rd_Suc: "rd src p (Suc n) = byte_at src p # rd src (Suc p) n"
  by (simp add: rd_def upt_conv_Cons del: upt_Suc)

subsection \<open>Writing memory\<close>

definition write_at :: "'a list \<Rightarrow> nat \<Rightarrow> 'a list \<Rightarrow> 'a list" where
  "write_at buf p xs = take p buf @ xs @ drop (p + length xs) buf"

lemma length_write_at [simp]:
  "p + length xs \<le> length buf \<Longrightarrow> length (write_at buf p xs) = length buf"
  by (simp add: write_at_def)

lemma take_write_at_before: "q \<le> p \<Longrightarrow> p \<le> length buf \<Longrightarrow> take q (write_at buf p xs) = take q buf"
  by (simp add: write_at_def min_def)

lemma take_write_at_within:
  "p \<le> q \<Longrightarrow> q \<le> p + length xs \<Longrightarrow> p \<le> length buf \<Longrightarrow>
   take q (write_at buf p xs) = take p buf @ take (q - p) xs"
  by (simp add: write_at_def min_def)

lemma nth_write_at:
  "p + length xs \<le> length buf \<Longrightarrow> i < length buf \<Longrightarrow>
   write_at buf p xs ! i = (if p \<le> i \<and> i < p + length xs then xs ! (i - p) else buf ! i)"
  by (auto simp: write_at_def nth_append min_def)

subsection \<open>Little-endian values\<close>

fun le_val :: "bytes \<Rightarrow> nat" where
  "le_val [] = 0"
| "le_val (b # bs) = unat b + 256 * le_val bs"

fun le_bytes :: "nat \<Rightarrow> nat \<Rightarrow> bytes" where
  "le_bytes 0 v = []"
| "le_bytes (Suc n) v = of_nat (v mod 256) # le_bytes n (v div 256)"

lemma length_le_bytes [simp]: "length (le_bytes n v) = n"
  by (induction n arbitrary: v) auto

lemma le_bytes_numeral:
  "le_bytes (numeral k) v = of_nat (v mod 256) # le_bytes (pred_numeral k) (v div 256)"
  by (simp only: numeral_eq_Suc [of k] le_bytes.simps)

lemma rd_numeral: "rd src p (numeral k) = byte_at src p # rd src (Suc p) (pred_numeral k)"
  by (simp only: numeral_eq_Suc [of k] rd_Suc)

lemma unat_byte_less [simp]: "unat (b :: byte) < 256"
  using unsigned_less [of b, where ?'a = nat] by simp

lemma unat_of_nat_byte [simp]: "unat (of_nat (v mod 256) :: byte) = v mod 256"
  by (simp add: unat_of_nat)

lemma le_val_append [le_simps]: "le_val (xs @ ys) = le_val xs + 256 ^ length xs * le_val ys"
  by (induction xs) (auto simp: algebra_simps)

lemma le_val_bound: "le_val bs < 256 ^ length bs"
proof (induction bs)
  case (Cons b bs)
  have "unat b + 256 * le_val bs < 256 * (le_val bs + 1)"
    using unat_byte_less [of b] by simp
  also have "\<dots> \<le> 256 * 256 ^ length bs"
    using Cons.IH by (intro mult_le_mono2) simp
  finally show ?case by simp
qed simp

lemma le_val_le_bytes [le_simps]: "le_val (le_bytes n v) = v mod 256 ^ n"
  by (induction n arbitrary: v) (auto simp: mod_mult2_eq)

lemma le_bytes_le_val [le_simps]: "le_bytes (length bs) (le_val bs) = bs"
  by (induction bs) (auto simp: mod_mult_self2 add.commute [of "unat _"])

lemma le_bytes_mod [le_simps]: "le_bytes n (v mod 256 ^ n) = le_bytes n v"
proof -
  have "le_bytes (length (le_bytes n v)) (le_val (le_bytes n v)) = le_bytes n v"
    by (rule le_bytes_le_val)
  then show ?thesis by (simp add: le_val_le_bytes)
qed

lemma le_val_inj: "length xs = length ys \<Longrightarrow> le_val xs = le_val ys \<Longrightarrow> xs = ys"
  by (metis le_bytes_le_val)

lemma pow256: "(256 :: nat) ^ n = 2 ^ (8 * n)"
  by (simp add: power_mult)

lemma le_val_take: "le_val (take n bs) = le_val bs mod 256 ^ n"
proof (cases "n \<le> length bs")
  case True
  have "le_val bs = le_val (take n bs) + 256 ^ n * le_val (drop n bs)"
    using le_val_append [of "take n bs" "drop n bs"] True by simp
  moreover have "le_val (take n bs) < 256 ^ n"
    using le_val_bound [of "take n bs"] True by simp
  ultimately show ?thesis by simp
next
  case False
  then have "(256::nat) ^ length bs \<le> 256 ^ n" by (intro power_increasing) auto
  with le_val_bound [of bs] have "le_val bs < 256 ^ n" by (rule less_le_trans)
  with False show ?thesis by simp
qed

lemma le_val_drop: "le_val (drop n bs) = le_val bs div 256 ^ n"
proof (cases "n \<le> length bs")
  case True
  have "le_val bs = le_val (take n bs) + 256 ^ n * le_val (drop n bs)"
    using le_val_append [of "take n bs" "drop n bs"] True by simp
  moreover have "le_val (take n bs) < 256 ^ n"
    using le_val_bound [of "take n bs"] True by simp
  ultimately show ?thesis by simp
next
  case False
  then have "(256::nat) ^ length bs \<le> 256 ^ n" by (intro power_increasing) auto
  with le_val_bound [of bs] have "le_val bs < 256 ^ n" by (rule less_le_trans)
  with False show ?thesis by simp
qed

lemma le_bytes_append: "le_bytes (m + n) v = le_bytes m v @ le_bytes n (v div 256 ^ m)"
  by (induction m arbitrary: v) (auto simp: div_mult2_eq)

lemma take_le_bytes: "m \<le> n \<Longrightarrow> take m (le_bytes n v) = le_bytes m v"
  using le_bytes_append [of m "n - m" v] by simp

lemma le_val_replicate_0 [simp]: "le_val (replicate n 0) = 0"
  by (induction n) auto

lemma le_val_rd: "le_val (rd src p n) = le_val src div 256 ^ p mod 256 ^ n"
proof -
  have "rd src p n = take n (drop p (src @ replicate (p + n) 0))"
    by (rule nth_equalityI) (auto simp: byte_at_def nth_append)
  then show ?thesis
    by (simp only: le_val_take le_val_drop le_val_append) simp
qed

subsection \<open>Bit fields of a natural number\<close>

definition bits_of :: "nat \<Rightarrow> nat \<Rightarrow> nat \<Rightarrow> nat" where
  "bits_of v p n = v div 2 ^ p mod 2 ^ n"

lemma bits_of_less [simp]: "bits_of v p n < 2 ^ n"
  by (simp add: bits_of_def)

lemma bits_of_0 [simp]: "bits_of v p 0 = 0"
  by (simp add: bits_of_def)

lemma bits_of_div [field_simps_nat]: "bits_of (v div 2 ^ q) p n = bits_of v (p + q) n"
  by (simp add: bits_of_def div_mult2_eq [symmetric] power_add mult.commute)

lemma bits_of_mod [field_simps_nat]: "p + n \<le> m \<Longrightarrow> bits_of (v mod 2 ^ m) p n = bits_of v p n"
proof -
  assume "p + n \<le> m"
  then obtain k where m: "m = p + n + k" using le_Suc_ex by blast
  have "drop_bit p (take_bit m v) = take_bit (m - p) (drop_bit p v)"
    by (simp add: drop_bit_take_bit)
  then have "take_bit n (drop_bit p (take_bit m v)) = take_bit n (drop_bit p v)"
    by (simp add: m)
  then show ?thesis by (simp add: bits_of_def take_bit_eq_mod drop_bit_eq_div)
qed

lemma bits_of_add_high [field_simps_nat]:
  "p + n \<le> m \<Longrightarrow> bits_of (v + 2 ^ m * w) p n = bits_of v p n"
  using bits_of_mod [of p n m "v + 2 ^ m * w"] bits_of_mod [of p n m v] by simp

lemma bits_of_add_low [field_simps_nat]:
  "v < 2 ^ m \<Longrightarrow> bits_of (v + 2 ^ m * w) m n = w mod 2 ^ n"
  by (simp add: bits_of_def)

lemma bits_of_mask: "bits_of v p n = take_bit n (drop_bit p v)"
  by (simp add: bits_of_def take_bit_eq_mod drop_bit_eq_div)

lemma bits_of_split: "bits_of v p (m + n) = bits_of v p m + 2 ^ m * bits_of v (p + m) n"
proof -
  have "take_bit (m + n) (v div 2 ^ p) =
        take_bit m (v div 2 ^ p) + 2 ^ m * take_bit n (v div 2 ^ p div 2 ^ m)"
    by (simp add: take_bit_eq_mod mod_mult2_eq power_add)
  then show ?thesis
    by (simp add: bits_of_def take_bit_eq_mod div_mult2_eq [symmetric] power_add)
qed

subsection \<open>Words as bounded natural numbers\<close>

lemma unat_of_nat_id: "v < 2 ^ LENGTH('a) \<Longrightarrow> unat (of_nat v :: 'a::len word) = v"
  by (simp add: unat_of_nat)

lemma unat_drop_bit_word: "unat (drop_bit n (w :: 'a::len word)) = unat w div 2 ^ n"
  by (simp only: unsigned_drop_bit_eq) (simp add: take_bit_nat_eq_self drop_bit_eq_div)

lemma unat_take_bit_word: "unat (take_bit n (w :: 'a::len word)) = unat w mod 2 ^ n"
  by (simp only: unsigned_take_bit_eq) (simp add: take_bit_eq_mod)

lemma unat_and_mask:
  fixes w :: "'a::len word"
  shows "unat (w AND (2 ^ n - 1)) = unat w mod 2 ^ n"
proof -
  have "w AND (2 ^ n - 1) = take_bit n w"
    by (simp add: take_bit_eq_mask mask_eq_exp_minus_1)
  then show ?thesis
    by (simp only: unat_take_bit_word)
qed

lemma unat_push_bit_word:
  "unat w * 2 ^ n < 2 ^ LENGTH('a) \<Longrightarrow> unat (push_bit n (w :: 'a::len word)) = unat w * 2 ^ n"
  by (simp only: unsigned_push_bit_eq) (simp add: push_bit_eq_mult take_bit_nat_eq_self)

lemma or_eq_add_nat: "(a :: nat) < 2 ^ n \<Longrightarrow> a OR push_bit n b = a + push_bit n b"
proof -
  assume a: "a < 2 ^ n"
  then have "take_bit n a = a" by (simp add: take_bit_nat_eq_self)
  then have "a AND push_bit n b = 0"
    by (intro bit_eqI) (metis bit_and_iff bit_push_bit_iff bit_take_bit_iff bit_0_eq bot_apply bot_bool_def not_le)
  then show ?thesis by (simp add: disjunctive_add_eq_or)
qed

lemma unat_or_disjoint:
  fixes a b :: "'a::len word"
  assumes a: "unat a < 2 ^ n" and b: "unat b * 2 ^ n < 2 ^ LENGTH('a)"
  shows "unat (a OR push_bit n b) = unat a + 2 ^ n * unat b"
proof -
  have "unat (a OR push_bit n b) = unat a OR push_bit n (unat b)"
    by (simp only: unsigned_or_eq unat_push_bit_word [OF b]) (simp add: push_bit_eq_mult)
  also have "\<dots> = unat a + push_bit n (unat b)" using a by (rule or_eq_add_nat)
  finally show ?thesis by (simp add: push_bit_eq_mult)
qed

subsection \<open>Buffers as concatenations\<close>

lemma byte_at_append [simp]: "byte_at (xs @ ys) (length xs) = byte_at ys 0"
  by (simp add: byte_at_def nth_append)

lemma rd_append_right: "rd (xs @ ys) (length xs + i) n = rd ys i n"
  by (rule nth_equalityI) (simp_all add: byte_at_def nth_append)

lemma rd_append_left: "p + n \<le> length xs \<Longrightarrow> rd (xs @ ys) p n = rd xs p n"
  by (rule nth_equalityI) (simp_all add: byte_at_def nth_append)

lemma rd_field: "p = length xs \<Longrightarrow> n = length ys \<Longrightarrow> rd (xs @ ys @ zs) p n = ys"
  by (rule nth_equalityI) (simp_all add: byte_at_def nth_append)

lemma write_at_again:
  "p + length xs + length ys \<le> length b \<Longrightarrow>
   write_at (write_at b p xs) (p + length xs) ys = write_at b p (xs @ ys)"
  by (simp add: write_at_def ac_simps)

lemma list_update_write_at: "p < length b \<Longrightarrow> b[p := x] = write_at b p [x]"
  by (simp add: write_at_def upd_conv_take_nth_drop)

lemma write_at_0: "write_at b 0 xs = xs @ drop (length xs) b"
  by (simp add: write_at_def)

lemma le_bytes_unat_of_nat:
  "8 * n \<le> LENGTH('a) \<Longrightarrow> le_bytes n (unat (of_nat v :: 'a::len word)) = le_bytes n v"
proof -
  assume n: "8 * n \<le> LENGTH('a)"
  have "(unat (of_nat v :: 'a word)) mod 256 ^ n = v mod 256 ^ n"
    using n by (simp add: unat_of_nat pow256 mod_mod_cancel le_imp_power_dvd)
  then show ?thesis by (metis le_bytes_mod)
qed

lemma byte_at_take [simp]: "i < k \<Longrightarrow> byte_at (take k src) i = byte_at src i"
  by (simp add: byte_at_def)

lemma rd_take [simp]: "p + n \<le> k \<Longrightarrow> rd (take k src) p n = rd src p n"
  by (rule nth_equalityI) simp_all

end
