(* ===== verification/Zstd_Mem.thy ===== *)
theory Zstd_Mem
  imports Prelude
begin

text \<open>
  Unaligned memory access (\<open>mem.h\<close>). The native order of the machine is the parameter
  \<open>le\<close> (\<open>MEM_isLittleEndian\<close>); the accessors with an order in their name are defined by
  cases on it, as in the source, and proved independent of it. Memory is a byte list, a
  pointer an index.
\<close>

subsection \<open>Native reads and writes\<close>

text \<open>Every target the library is built for (the four Android ABIs) is little-endian.\<close>

definition MEM_isLittleEndian :: bool where
  "MEM_isLittleEndian \<longleftrightarrow> True"

definition native_val :: "bool \<Rightarrow> bytes \<Rightarrow> nat" where
  "native_val le bs = le_val (if le then bs else rev bs)"

definition native_bytes :: "bool \<Rightarrow> nat \<Rightarrow> nat \<Rightarrow> bytes" where
  "native_bytes le n v = (if le then le_bytes n v else rev (le_bytes n v))"

definition MEM_read16 :: "bool \<Rightarrow> bytes \<Rightarrow> nat \<Rightarrow> u16" where
  "MEM_read16 le mem p = of_nat (native_val le (rd mem p 2))"

definition MEM_read32 :: "bool \<Rightarrow> bytes \<Rightarrow> nat \<Rightarrow> u32" where
  "MEM_read32 le mem p = of_nat (native_val le (rd mem p 4))"

definition MEM_read64 :: "bool \<Rightarrow> bytes \<Rightarrow> nat \<Rightarrow> u64" where
  "MEM_read64 le mem p = of_nat (native_val le (rd mem p 8))"

definition MEM_write16 :: "bool \<Rightarrow> bytes \<Rightarrow> nat \<Rightarrow> u16 \<Rightarrow> bytes" where
  "MEM_write16 le mem p v = write_at mem p (native_bytes le 2 (unat v))"

definition MEM_write32 :: "bool \<Rightarrow> bytes \<Rightarrow> nat \<Rightarrow> u32 \<Rightarrow> bytes" where
  "MEM_write32 le mem p v = write_at mem p (native_bytes le 4 (unat v))"

definition MEM_write64 :: "bool \<Rightarrow> bytes \<Rightarrow> nat \<Rightarrow> u64 \<Rightarrow> bytes" where
  "MEM_write64 le mem p v = write_at mem p (native_bytes le 8 (unat v))"

subsection \<open>Byte swaps\<close>

definition MEM_swap32 :: "u32 \<Rightarrow> u32" where
  "MEM_swap32 x =
     ((push_bit 24 x) AND 0xff000000) OR
     ((push_bit 8 x) AND 0x00ff0000) OR
     ((drop_bit 8 x) AND 0x0000ff00) OR
     ((drop_bit 24 x) AND 0x000000ff)"

definition MEM_swap64 :: "u64 \<Rightarrow> u64" where
  "MEM_swap64 x =
     ((push_bit 56 x) AND 0xff00000000000000) OR
     ((push_bit 40 x) AND 0x00ff000000000000) OR
     ((push_bit 24 x) AND 0x0000ff0000000000) OR
     ((push_bit 8 x) AND 0x000000ff00000000) OR
     ((drop_bit 8 x) AND 0x00000000ff000000) OR
     ((drop_bit 24 x) AND 0x0000000000ff0000) OR
     ((drop_bit 40 x) AND 0x000000000000ff00) OR
     ((drop_bit 56 x) AND 0x00000000000000ff)"

subsection \<open>Little-endian access\<close>

definition MEM_readLE16 :: "bool \<Rightarrow> bytes \<Rightarrow> nat \<Rightarrow> u16" where
  "MEM_readLE16 le mem p =
     (if le then MEM_read16 le mem p
      else ucast (byte_at mem p) + push_bit 8 (ucast (byte_at mem (p + 1))))"

definition MEM_writeLE16 :: "bool \<Rightarrow> bytes \<Rightarrow> nat \<Rightarrow> u16 \<Rightarrow> bytes" where
  "MEM_writeLE16 le mem p v =
     (if le then MEM_write16 le mem p v
      else (mem[p := ucast v])[p + 1 := ucast (drop_bit 8 v)])"

definition MEM_readLE24 :: "bool \<Rightarrow> bytes \<Rightarrow> nat \<Rightarrow> u32" where
  "MEM_readLE24 le mem p =
     ucast (MEM_readLE16 le mem p) + push_bit 16 (ucast (byte_at mem (p + 2)))"

definition MEM_writeLE24 :: "bool \<Rightarrow> bytes \<Rightarrow> nat \<Rightarrow> u32 \<Rightarrow> bytes" where
  "MEM_writeLE24 le mem p v =
     (MEM_writeLE16 le mem p (ucast v))[p + 2 := ucast (drop_bit 16 v)]"

definition MEM_readLE32 :: "bool \<Rightarrow> bytes \<Rightarrow> nat \<Rightarrow> u32" where
  "MEM_readLE32 le mem p =
     (if le then MEM_read32 le mem p else MEM_swap32 (MEM_read32 le mem p))"

definition MEM_writeLE32 :: "bool \<Rightarrow> bytes \<Rightarrow> nat \<Rightarrow> u32 \<Rightarrow> bytes" where
  "MEM_writeLE32 le mem p v =
     (if le then MEM_write32 le mem p v else MEM_write32 le mem p (MEM_swap32 v))"

definition MEM_readLE64 :: "bool \<Rightarrow> bytes \<Rightarrow> nat \<Rightarrow> u64" where
  "MEM_readLE64 le mem p =
     (if le then MEM_read64 le mem p else MEM_swap64 (MEM_read64 le mem p))"

definition MEM_writeLE64 :: "bool \<Rightarrow> bytes \<Rightarrow> nat \<Rightarrow> u64 \<Rightarrow> bytes" where
  "MEM_writeLE64 le mem p v =
     (if le then MEM_write64 le mem p v else MEM_write64 le mem p (MEM_swap64 v))"

text \<open>\<open>size_t\<close> has 64 bits, so \<open>MEM_32bits()\<close> is false.\<close>

definition MEM_readLEST :: "bool \<Rightarrow> bytes \<Rightarrow> nat \<Rightarrow> u64" where
  "MEM_readLEST le mem p = MEM_readLE64 le mem p"

definition MEM_writeLEST :: "bool \<Rightarrow> bytes \<Rightarrow> nat \<Rightarrow> u64 \<Rightarrow> bytes" where
  "MEM_writeLEST le mem p v = MEM_writeLE64 le mem p v"

subsection \<open>Big-endian access\<close>

definition MEM_readBE32 :: "bool \<Rightarrow> bytes \<Rightarrow> nat \<Rightarrow> u32" where
  "MEM_readBE32 le mem p =
     (if le then MEM_swap32 (MEM_read32 le mem p) else MEM_read32 le mem p)"

definition MEM_readBE64 :: "bool \<Rightarrow> bytes \<Rightarrow> nat \<Rightarrow> u64" where
  "MEM_readBE64 le mem p =
     (if le then MEM_swap64 (MEM_read64 le mem p) else MEM_read64 le mem p)"

definition MEM_writeBE32 :: "bool \<Rightarrow> bytes \<Rightarrow> nat \<Rightarrow> u32 \<Rightarrow> bytes" where
  "MEM_writeBE32 le mem p v =
     (if le then MEM_write32 le mem p (MEM_swap32 v) else MEM_write32 le mem p v)"

definition MEM_writeBE64 :: "bool \<Rightarrow> bytes \<Rightarrow> nat \<Rightarrow> u64 \<Rightarrow> bytes" where
  "MEM_writeBE64 le mem p v =
     (if le then MEM_write64 le mem p (MEM_swap64 v) else MEM_write64 le mem p v)"

subsection \<open>The order in the name is the order in memory\<close>

lemma of_nat_le_val_Cons:
  "(of_nat (le_val (b # bs)) :: 'a::len word) = ucast b + push_bit 8 (of_nat (le_val bs))"
  by (simp add: push_bit_eq_mult)

lemma ucast_plus_push8:
  assumes "8 \<le> LENGTH('a)"
  shows "(ucast (b :: byte) :: 'a::len word) + push_bit 8 w = ucast b OR push_bit 8 w"
proof (rule disjunctive_add_eq_or)
  show "(ucast b :: 'a word) AND push_bit 8 w = 0"
    by (rule bit_word_eqI) (auto simp: bit_simps dest: bit_imp_le_length)
qed

lemma of_nat_le_val_or:
  "8 \<le> LENGTH('a) \<Longrightarrow>
   (of_nat (le_val (b # bs)) :: 'a::len word) = ucast b OR push_bit 8 (of_nat (le_val bs))"
  by (simp only: of_nat_le_val_Cons ucast_plus_push8)

lemma mask_shapes32:
  "(0xff000000 :: u32) = push_bit 24 (mask 8)" "(0xff0000 :: u32) = push_bit 16 (mask 8)"
  "(0xff00 :: u32) = push_bit 8 (mask 8)" "(0xff :: u32) = mask 8"
  by (simp_all add: mask_eq_exp_minus_1)

lemma mask_shapes64:
  "(0xff00000000000000 :: u64) = push_bit 56 (mask 8)"
  "(0xff000000000000 :: u64) = push_bit 48 (mask 8)"
  "(0xff0000000000 :: u64) = push_bit 40 (mask 8)"
  "(0xff00000000 :: u64) = push_bit 32 (mask 8)"
  "(0xff000000 :: u64) = push_bit 24 (mask 8)" "(0xff0000 :: u64) = push_bit 16 (mask 8)"
  "(0xff00 :: u64) = push_bit 8 (mask 8)" "(0xff :: u64) = mask 8"
  by (simp_all add: mask_eq_exp_minus_1)


lemma bit_le_val: "bit (le_val bs) n \<longleftrightarrow> n < 8 * length bs \<and> bit (bs ! (n div 8)) (n mod 8)"
proof (induction bs arbitrary: n)
  case (Cons b bs)
  have v: "le_val (b # bs) = unat b + 2 ^ 8 * le_val bs" by simp
  show ?case
  proof (cases "n < 8")
    case True
    have "bits_of (le_val (b # bs)) n 1 = bits_of (unat b) n 1"
      unfolding v by (rule bits_of_add_high) (use True in simp)
    then have "odd (le_val (b # bs) div 2 ^ n) \<longleftrightarrow> odd (unat b div 2 ^ n)"
      by (simp add: bits_of_def odd_iff_mod_2_eq_one)
    then have "bit (le_val (b # bs)) n \<longleftrightarrow> bit (unat b) n" by (simp only: bit_iff_odd)
    with True show ?thesis by (simp add: bit_unsigned_iff)
  next
    case False
    then obtain m where n: "n = 8 + m" using le_Suc_ex not_less by blast
    have "le_val (b # bs) div 2 ^ n = le_val bs div 2 ^ m"
      unfolding v n power_add div_mult2_eq by simp
    then have "bit (le_val (b # bs)) n \<longleftrightarrow> bit (le_val bs) m" by (simp only: bit_iff_odd)
    with Cons.IH [of m] n show ?thesis by (simp add: div_add_self1 )
  qed
qed simp

lemma bit_of_nat_le_val:
  "8 * length bs \<le> LENGTH('a) \<Longrightarrow>
   bit (of_nat (le_val bs) :: 'a::len word) n \<longleftrightarrow> n < 8 * length bs \<and> bit (bs ! (n div 8)) (n mod 8)"
  by (auto simp: bit_of_nat_iff bit_le_val dest: bit_imp_le_length)

lemma bit_swap32:
  assumes "n < 32"
  shows "bit (MEM_swap32 x) n \<longleftrightarrow> bit x (8 * (3 - n div 8) + n mod 8)"
proof -
  define q r where "q = n div 8" and "r = n mod 8"
  then have n: "n = 8 * q + r" and r: "r < 8" by auto
  with assms have "q = 0 \<or> q = 1 \<or> q = 2 \<or> q = 3" by linarith
  then have "bit (MEM_swap32 x) (8 * q + r) \<longleftrightarrow> bit x (8 * (3 - q) + r)"
    using r by (elim disjE) (simp_all add: MEM_swap32_def mask_shapes32 bit_simps)
  then show ?thesis by (simp only: n [symmetric] flip: q_def r_def)
qed

lemma bit_swap64:
  assumes "n < 64"
  shows "bit (MEM_swap64 x) n \<longleftrightarrow> bit x (8 * (7 - n div 8) + n mod 8)"
proof -
  define q r where "q = n div 8" and "r = n mod 8"
  then have n: "n = 8 * q + r" and r: "r < 8" by auto
  with assms have "q = 0 \<or> q = 1 \<or> q = 2 \<or> q = 3 \<or> q = 4 \<or> q = 5 \<or> q = 6 \<or> q = 7" by linarith
  then have "bit (MEM_swap64 x) (8 * q + r) \<longleftrightarrow> bit x (8 * (7 - q) + r)"
    using r by (elim disjE) (simp_all add: MEM_swap64_def mask_shapes64 bit_simps)
  then show ?thesis by (simp only: n [symmetric] flip: q_def r_def)
qed

lemma swap32_le_val:
  assumes "length bs = 4"
  shows "MEM_swap32 (of_nat (le_val bs)) = of_nat (le_val (rev bs))"
proof (rule bit_word_eqI)
  fix n assume "n < LENGTH(32)"
  then have n: "n < 32" and q: "n div 8 \<le> 3" by simp_all
  have "8 * (3 - n div 8) + n mod 8 < 32" using q by simp
  then show "bit (MEM_swap32 (of_nat (le_val bs))) n = bit (of_nat (le_val (rev bs)) :: u32) n"
    using n assms by (simp add: bit_swap32 bit_of_nat_le_val rev_nth)
qed

lemma swap64_le_val:
  assumes "length bs = 8"
  shows "MEM_swap64 (of_nat (le_val bs)) = of_nat (le_val (rev bs))"
proof (rule bit_word_eqI)
  fix n assume "n < LENGTH(64)"
  then have n: "n < 64" and q: "n div 8 \<le> 7" by simp_all
  have "8 * (7 - n div 8) + n mod 8 < 64" using q by simp
  then show "bit (MEM_swap64 (of_nat (le_val bs))) n = bit (of_nat (le_val (rev bs)) :: u64) n"
    using n assms by (simp add: bit_swap64 bit_of_nat_le_val rev_nth)
qed

text \<open>On either machine the little-endian reads give the little-endian value of the bytes
  in memory, and the big-endian reads the big-endian one.\<close>

lemma MEM_readLE16_eq [le_simps]: "MEM_readLE16 le mem p = of_nat (le_val (rd mem p 2))"
  by (simp add: MEM_readLE16_def MEM_read16_def native_val_def rd_Suc numeral_2_eq_2 push_bit_eq_mult)

lemma MEM_readLE24_eq [le_simps]: "MEM_readLE24 le mem p = of_nat (le_val (rd mem p 3))"
proof -
  have "le_val (rd mem p 2) < 2 ^ 16"
    using le_val_bound [of "rd mem p 2"] by simp
  then have "(ucast (of_nat (le_val (rd mem p 2)) :: u16) :: u32) = of_nat (le_val (rd mem p 2))"
    by (simp add: unsigned_of_nat take_bit_nat_eq_self)
  moreover have "rd mem p 3 = rd mem p 2 @ [byte_at mem (p + 2)]"
    using rd_add [of mem p 2 1] by (simp add: rd_Suc)
  ultimately show ?thesis
    by (simp add: MEM_readLE24_def MEM_readLE16_eq le_val_append push_bit_eq_mult)
qed

lemma MEM_readLE32_eq [le_simps]: "MEM_readLE32 le mem p = of_nat (le_val (rd mem p 4))"
  by (simp add: MEM_readLE32_def MEM_read32_def native_val_def swap32_le_val)

lemma MEM_readLE64_eq [le_simps]: "MEM_readLE64 le mem p = of_nat (le_val (rd mem p 8))"
  by (simp add: MEM_readLE64_def MEM_read64_def native_val_def swap64_le_val)

lemma MEM_readLEST_eq [le_simps]: "MEM_readLEST le mem p = of_nat (le_val (rd mem p 8))"
  by (simp add: MEM_readLEST_def MEM_readLE64_eq)

lemma MEM_readBE32_eq [le_simps]: "MEM_readBE32 le mem p = of_nat (le_val (rev (rd mem p 4)))"
  by (simp add: MEM_readBE32_def MEM_read32_def native_val_def swap32_le_val)

lemma MEM_readBE64_eq [le_simps]: "MEM_readBE64 le mem p = of_nat (le_val (rev (rd mem p 8)))"
  by (simp add: MEM_readBE64_def MEM_read64_def native_val_def swap64_le_val)

lemma le_bytes_unat_swap32: "le_bytes 4 (unat (MEM_swap32 v)) = rev (le_bytes 4 (unat v))"
proof -
  have v: "v = of_nat (le_val (le_bytes 4 (unat v)))"
    using unsigned_less [of v, where ?'a = nat] by (simp add: le_val_le_bytes pow256)
  have "le_val (rev (le_bytes 4 (unat v))) < 2 ^ 32"
    using le_val_bound [of "rev (le_bytes 4 (unat v))"] by simp
  then have "unat (MEM_swap32 v) = le_val (rev (le_bytes 4 (unat v)))"
    by (subst v) (simp add: swap32_le_val unat_of_nat_id)
  then show ?thesis
    using le_bytes_le_val [of "rev (le_bytes 4 (unat v))"] by simp
qed

lemma le_bytes_unat_swap64: "le_bytes 8 (unat (MEM_swap64 v)) = rev (le_bytes 8 (unat v))"
proof -
  have v: "v = of_nat (le_val (le_bytes 8 (unat v)))"
    using unsigned_less [of v, where ?'a = nat] by (simp add: le_val_le_bytes pow256)
  have "le_val (rev (le_bytes 8 (unat v))) < 2 ^ 64"
    using le_val_bound [of "rev (le_bytes 8 (unat v))"] by simp
  then have "unat (MEM_swap64 v) = le_val (rev (le_bytes 8 (unat v)))"
    by (subst v) (simp add: swap64_le_val unat_of_nat_id)
  then show ?thesis
    using le_bytes_le_val [of "rev (le_bytes 8 (unat v))"] by simp
qed

lemma MEM_writeLE32_eq [le_simps]: "MEM_writeLE32 le mem p v = write_at mem p (le_bytes 4 (unat v))"
  by (simp add: MEM_writeLE32_def MEM_write32_def native_bytes_def le_bytes_unat_swap32)

lemma MEM_writeLE64_eq [le_simps]: "MEM_writeLE64 le mem p v = write_at mem p (le_bytes 8 (unat v))"
  by (simp add: MEM_writeLE64_def MEM_write64_def native_bytes_def le_bytes_unat_swap64)

lemma MEM_writeLEST_eq [le_simps]: "MEM_writeLEST le mem p v = write_at mem p (le_bytes 8 (unat v))"
  by (simp add: MEM_writeLEST_def MEM_writeLE64_eq)

lemma MEM_writeBE32_eq [le_simps]:
  "MEM_writeBE32 le mem p v = write_at mem p (rev (le_bytes 4 (unat v)))"
  by (simp add: MEM_writeBE32_def MEM_write32_def native_bytes_def le_bytes_unat_swap32)

lemma MEM_writeBE64_eq [le_simps]:
  "MEM_writeBE64 le mem p v = write_at mem p (rev (le_bytes 8 (unat v)))"
  by (simp add: MEM_writeBE64_def MEM_write64_def native_bytes_def le_bytes_unat_swap64)

lemma rd_write_at:
  "p + length xs \<le> length mem \<Longrightarrow> rd (write_at mem p xs) p (length xs) = xs"
  by (rule nth_equalityI) (auto simp: byte_at_def nth_write_at)

lemma write_at_updates:
  "p + 1 < length mem \<Longrightarrow> write_at mem p [a, b] = (mem[p := a])[p + 1 := b]"
  by (rule nth_equalityI) (auto simp: nth_write_at nth_list_update nth_Cons' split: if_splits)

lemma write_at_updates3:
  "p + 2 < length mem \<Longrightarrow> write_at mem p [a, b, c] = ((mem[p := a])[p + 1 := b])[p + 2 := c]"
  by (rule nth_equalityI) (auto simp: nth_write_at nth_list_update nth_Cons' split: if_splits)

lemma ucast_byte_eq: "(ucast (v :: 'a::len word) :: byte) = of_nat (unat v mod 256)"
  by (rule word_unat_eq_iff [THEN iffD2]) (simp add: unsigned_ucast_eq take_bit_eq_mod unat_of_nat)

lemma le_bytes_2: "le_bytes 2 v = [of_nat (v mod 256), of_nat (v div 256 mod 256)]"
  by (simp add: numeral_2_eq_2)

lemma le_bytes_3:
  "le_bytes 3 v = [of_nat (v mod 256), of_nat (v div 256 mod 256), of_nat (v div 65536 mod 256)]"
  by (simp add: numeral_3_eq_3 div_mult2_eq [symmetric])

lemma MEM_writeLE16_eq [le_simps]:
  assumes "p + 2 \<le> length mem"
  shows "MEM_writeLE16 le mem p v = write_at mem p (le_bytes 2 (unat v))"
proof -
  have "ucast (drop_bit 8 v) = (of_nat (unat v div 256 mod 256) :: byte)"
    by (simp only: ucast_byte_eq unat_drop_bit_word) simp
  then show ?thesis
    using assms write_at_updates [of p mem]
    by (simp add: MEM_writeLE16_def MEM_write16_def native_bytes_def le_bytes_2 ucast_byte_eq
        del: drop_bit_eq_div)
qed

lemma MEM_writeLE24_eq [le_simps]:
  assumes "p + 3 \<le> length mem"
  shows "MEM_writeLE24 le mem p v = write_at mem p (le_bytes 3 (unat v))"
proof -
  have c: "ucast (drop_bit 16 v) = (of_nat (unat v div 65536 mod 256) :: byte)"
    by (simp only: ucast_byte_eq unat_drop_bit_word) simp
  have d: "unat (ucast v :: u16) = unat v mod 65536"
    by (simp add: unsigned_ucast_eq take_bit_eq_mod)
  have "le_bytes 2 (unat v mod 65536) = le_bytes 2 (unat v)"
    using le_bytes_mod [of 2 "unat v"] by simp
  then show ?thesis
    using assms write_at_updates [of p mem] write_at_updates3 [of p mem]
    by (simp add: MEM_writeLE24_def MEM_writeLE16_eq le_bytes_2 le_bytes_3 c d del: drop_bit_eq_div)
qed

text \<open>What one platform writes, every platform reads back: on machines of either byte
  order, a value stored with a little-endian (big-endian) writer at a position inside the
  buffer is what the little-endian (big-endian) reader of any machine returns there, for
  the widths 16, 24 (of the low 24 bits), 32 and 64.\<close>

lemma MEM_endian_roundtrip:
  assumes "p + 8 \<le> length mem"
  shows "MEM_readLE16 le' (MEM_writeLE16 le mem p a) p = a \<and>
         MEM_readLE24 le' (MEM_writeLE24 le mem p b) p = take_bit 24 b \<and>
         MEM_readLE32 le' (MEM_writeLE32 le mem p b) p = b \<and>
         MEM_readLE64 le' (MEM_writeLE64 le mem p c) p = c \<and>
         MEM_readBE32 le' (MEM_writeBE32 le mem p b) p = b \<and>
         MEM_readBE64 le' (MEM_writeBE64 le mem p c) p = c"
proof -
  have r: "rd (write_at mem p xs) p n = xs" if "length xs = n" "n \<le> 8" for xs :: bytes and n
    using rd_write_at [of p xs mem] that assms by simp
  have b24: "(of_nat (unat b mod 16777216) :: u32) = take_bit 24 b"
    by (rule word_unat_eq_iff [THEN iffD2]) (simp add: unat_of_nat take_bit_eq_mod unat_mod)
  have bounds: "unat a < 65536" "unat b < 4294967296" "unat c < 18446744073709551616"
    using unsigned_less [of a, where ?'a = nat] unsigned_less [of b, where ?'a = nat]
      unsigned_less [of c, where ?'a = nat] by simp_all
  show ?thesis
    using assms bounds by (simp add: le_simps r b24)
qed

end
