(* ===== verification/Zstd_Bits.thy ===== *)
theory Zstd_Bits
  imports Prelude
begin

text \<open>
  Bit counting and rotation (\<open>bits.h\<close>). The portable branches are modelled: the De Bruijn
  tables of the 32-bit counts and the word halves of the 64-bit ones. Each count is proved
  to be the position of the lowest or highest set bit, so a compiler builtin with that
  meaning gives the same result.
\<close>

subsection \<open>Definitions\<close>

definition DeBruijnBytePos :: "nat list" where
  "DeBruijnBytePos =
    [0, 1, 28, 2, 29, 14, 24, 3,
     30, 22, 20, 15, 25, 17, 4, 8,
     31, 27, 13, 23, 21, 19, 16, 7,
     26, 12, 18, 6, 11, 5, 10, 9]"

definition ZSTD_countTrailingZeros32 :: "u32 \<Rightarrow> nat" where
  "ZSTD_countTrailingZeros32 val =
     DeBruijnBytePos ! unat (drop_bit 27 ((val AND - val) * 0x077CB531))"

definition DeBruijnClz :: "nat list" where
  "DeBruijnClz =
    [0, 9, 1, 10, 13, 21, 2, 29,
     11, 14, 16, 18, 22, 25, 3, 30,
     8, 12, 20, 28, 15, 17, 24, 7,
     19, 27, 23, 6, 26, 5, 4, 31]"

definition ZSTD_countLeadingZeros32 :: "u32 \<Rightarrow> nat" where
  "ZSTD_countLeadingZeros32 val =
     (let v1 = val OR drop_bit 1 val;
          v2 = v1 OR drop_bit 2 v1;
          v3 = v2 OR drop_bit 4 v2;
          v4 = v3 OR drop_bit 8 v3;
          v5 = v4 OR drop_bit 16 v4
      in 31 - DeBruijnClz ! unat (drop_bit 27 (v5 * 0x07C4ACDD)))"

definition ZSTD_countTrailingZeros64 :: "u64 \<Rightarrow> nat" where
  "ZSTD_countTrailingZeros64 val =
     (let mostSignificantWord = ucast (drop_bit 32 val);
          leastSignificantWord = ucast val
      in if leastSignificantWord = 0
         then 32 + ZSTD_countTrailingZeros32 mostSignificantWord
         else ZSTD_countTrailingZeros32 leastSignificantWord)"

definition ZSTD_countLeadingZeros64 :: "u64 \<Rightarrow> nat" where
  "ZSTD_countLeadingZeros64 val =
     (let mostSignificantWord = ucast (drop_bit 32 val);
          leastSignificantWord = ucast val
      in if mostSignificantWord = 0
         then 32 + ZSTD_countLeadingZeros32 leastSignificantWord
         else ZSTD_countLeadingZeros32 mostSignificantWord)"

text \<open>The little-endian 64-bit branch and the big-endian one; \<open>size_t\<close> has 64 bits.\<close>

definition ZSTD_NbCommonBytes :: "bool \<Rightarrow> u64 \<Rightarrow> nat" where
  "ZSTD_NbCommonBytes le val =
     (if le then ZSTD_countTrailingZeros64 val div 2 ^ 3
      else ZSTD_countLeadingZeros64 val div 2 ^ 3)"

definition ZSTD_highbit32 :: "u32 \<Rightarrow> nat" where
  "ZSTD_highbit32 val = 31 - ZSTD_countLeadingZeros32 val"

definition ZSTD_rotateRight_U64 :: "u64 \<Rightarrow> u32 \<Rightarrow> u64" where
  "ZSTD_rotateRight_U64 value count =
     (let count = count AND 0x3F
      in drop_bit (unat count) value OR push_bit (unat ((0 - count) AND 0x3F)) value)"

definition ZSTD_rotateRight_U32 :: "u32 \<Rightarrow> u32 \<Rightarrow> u32" where
  "ZSTD_rotateRight_U32 value count =
     (let count = count AND 0x1F
      in drop_bit (unat count) value OR push_bit (unat ((0 - count) AND 0x1F)) value)"

definition ZSTD_rotateRight_U16 :: "u16 \<Rightarrow> u32 \<Rightarrow> u16" where
  "ZSTD_rotateRight_U16 value count =
     (let count = count AND 0x0F
      in drop_bit (unat count) value OR push_bit (unat ((0 - count) AND 0x0F)) value)"

subsection \<open>The highest set bit\<close>

lemma bit_or_drop_double:
  fixes a v :: "'a::len word"
  assumes "\<And>n. bit a n \<longleftrightarrow> (\<exists>j<m. bit v (n + j))"
  shows "bit (a OR drop_bit m a) n \<longleftrightarrow> (\<exists>j<2 * m. bit v (n + j))"
proof
  assume "bit (a OR drop_bit m a) n"
  then consider "bit a n" | "bit a (m + n)"
    by (auto simp: bit_or_iff bit_drop_bit_eq)
  then show "\<exists>j<2 * m. bit v (n + j)"
  proof cases
    case 1
    then show ?thesis using assms by force
  next
    case 2
    then obtain j where "j < m" "bit v (m + n + j)" using assms by blast
    then have "m + j < 2 * m" "bit v (n + (m + j))" by (simp_all add: ac_simps)
    then show ?thesis by blast
  qed
next
  assume "\<exists>j<2 * m. bit v (n + j)"
  then obtain j where j: "j < 2 * m" "bit v (n + j)" by blast
  show "bit (a OR drop_bit m a) n"
  proof (cases "j < m")
    case True
    with j assms show ?thesis by (auto simp: bit_or_iff)
  next
    case False
    then have "bit v ((m + n) + (j - m))" "j - m < m" using j by (simp_all add: ac_simps)
    with assms have "bit a (m + n)" by blast
    then show ?thesis by (simp add: bit_or_iff bit_drop_bit_eq)
  qed
qed

definition is_highbit :: "'a::len word \<Rightarrow> nat \<Rightarrow> bool" where
  "is_highbit w h \<longleftrightarrow> 2 ^ h \<le> unat w \<and> unat w < 2 ^ Suc h"

lemma is_highbit_bit:
  assumes "is_highbit w h"
  shows "bit w h" and "h < n \<Longrightarrow> \<not> bit w n"
proof -
  from assms have "unat w div 2 ^ h = 1"
    by (intro div_nat_eqI) (simp_all add: is_highbit_def)
  then have "bit (unat w) h" by (simp add: bit_iff_odd)
  then show "bit w h" by (simp add: bit_unsigned_iff)
  assume "h < n"
  then have "(2::nat) ^ Suc h \<le> 2 ^ n" by (intro power_increasing) auto
  with assms have "unat w < 2 ^ n" by (simp add: is_highbit_def)
  then have "\<not> bit (unat w) n" by (simp add: bit_iff_odd)
  then show "\<not> bit w n" by (auto simp: bit_unsigned_iff dest: bit_imp_le_length)
qed

lemma is_highbit_less: "is_highbit (w :: 'a::len word) h \<Longrightarrow> h < LENGTH('a)"
  using is_highbit_bit(1) bit_imp_le_length by blast

lemma is_highbit_unique: "is_highbit w h \<Longrightarrow> is_highbit w k \<Longrightarrow> h = k"
  by (metis is_highbit_bit nat_neq_iff)

lemma is_highbit_exists:
  assumes "w \<noteq> (0 :: 'a::len word)"
  shows "\<exists>h. is_highbit w h"
proof -
  from assms have "0 < unat w" by (simp add: unat_gt_0)
  then obtain h where "2 ^ h \<le> unat w" "unat w < 2 ^ (h + 1)"
    using ex_power_ivl1 [of 2 "unat w"] by (metis Suc_leI One_nat_def le_refl)
  then show ?thesis by (auto simp: is_highbit_def)
qed


lemma smear32:
  assumes "is_highbit (val :: u32) h"
  shows "(let v1 = val OR drop_bit 1 val;
          v2 = v1 OR drop_bit 2 v1;
          v3 = v2 OR drop_bit 4 v2;
          v4 = v3 OR drop_bit 8 v3
      in v4 OR drop_bit 16 v4) = mask (Suc h)"
proof -
  define v1 where "v1 = val OR drop_bit 1 val"
  define v2 where "v2 = v1 OR drop_bit 2 v1"
  define v3 where "v3 = v2 OR drop_bit 4 v2"
  define v4 where "v4 = v3 OR drop_bit 8 v3"
  have 1: "bit v1 n \<longleftrightarrow> (\<exists>j<2. bit val (n + j))" for n
    using bit_or_drop_double [of val 1 val n] by (simp add: v1_def)
  have 2: "bit v2 n \<longleftrightarrow> (\<exists>j<4. bit val (n + j))" for n
    using bit_or_drop_double [OF 1] by (simp add: v2_def)
  have 3: "bit v3 n \<longleftrightarrow> (\<exists>j<8. bit val (n + j))" for n
    using bit_or_drop_double [OF 2] by (simp add: v3_def)
  have 4: "bit v4 n \<longleftrightarrow> (\<exists>j<16. bit val (n + j))" for n
    using bit_or_drop_double [OF 3] by (simp add: v4_def)
  have 5: "bit (v4 OR drop_bit 16 v4) n \<longleftrightarrow> (\<exists>j<32. bit val (n + j))" for n
    using bit_or_drop_double [OF 4] by simp
  have "v4 OR drop_bit 16 v4 = mask (Suc h)"
  proof (rule bit_word_eqI)
    fix n assume n: "n < LENGTH(32)"
    have "(\<exists>j<32. bit val (n + j)) \<longleftrightarrow> n \<le> h"
    proof
      assume "\<exists>j<32. bit val (n + j)"
      then show "n \<le> h" using is_highbit_bit(2) [OF assms] by (meson le_add1 linorder_not_le order.trans)
    next
      assume "n \<le> h"
      then have "bit val (n + (h - n))" using is_highbit_bit(1) [OF assms] by simp
      moreover have "h - n < 32" using is_highbit_less [OF assms] by simp
      ultimately show "\<exists>j<32. bit val (n + j)" by blast
    qed
    with n show "bit (v4 OR drop_bit 16 v4) n = bit (mask (Suc h) :: u32) n"
      unfolding 5 by (simp add: bit_mask_iff less_Suc_eq_le)
  qed
  then show ?thesis by (simp add: Let_def v1_def v2_def v3_def v4_def)
qed

lemma DeBruijnClz_table:
  "list_all (\<lambda>h. DeBruijnClz ! unat (drop_bit 27 ((2 ^ Suc h - 1 :: u32) * 0x07C4ACDD)) = h) [0..<32]"
  by code_simp

lemma DeBruijnBytePos_table:
  "list_all (\<lambda>k. DeBruijnBytePos ! unat (drop_bit 27 ((2 ^ k :: u32) * 0x077CB531)) = k) [0..<32]"
  by code_simp

lemma ZSTD_highbit32_is_highbit:
  assumes "val \<noteq> 0"
  shows "is_highbit val (ZSTD_highbit32 val)"
proof -
  obtain h where h: "is_highbit val h" using is_highbit_exists [OF assms] by blast
  then have "h < 32" using is_highbit_less [OF h] by simp
  then have "DeBruijnClz ! unat (drop_bit 27 ((2 ^ Suc h - 1 :: u32) * 0x07C4ACDD)) = h"
    using DeBruijnClz_table by (simp only: list_all_iff set_upt) auto
  then have "ZSTD_countLeadingZeros32 val = 31 - h"
    using smear32 [OF h] by (simp add: ZSTD_countLeadingZeros32_def Let_def mask_eq_exp_minus_1)
  with \<open>h < 32\<close> have "ZSTD_highbit32 val = h" by (simp add: ZSTD_highbit32_def)
  with h show ?thesis by simp
qed

lemma ZSTD_highbit32_eqI: "is_highbit val h \<Longrightarrow> ZSTD_highbit32 val = h"
proof -
  assume h: "is_highbit val h"
  then have "val \<noteq> 0" by (auto simp: is_highbit_def)
  then show ?thesis using ZSTD_highbit32_is_highbit is_highbit_unique h by blast
qed

subsection \<open>The lowest set bit\<close>

lemma odd_and_minus:
  fixes u :: "'a::len word"
  assumes "odd u"
  shows "u AND - u = 1"
proof (rule bit_word_eqI)
  fix n assume n: "n < LENGTH('a)"
  have m: "- u = NOT (u - 1)" by (simp add: not_eq_complement)
  show "bit (u AND - u) n = bit (1 :: 'a word) n"
  proof (cases n)
    case 0
    have "even (u - 1)" using assms by simp
    then show ?thesis using assms 0 by (simp add: m bit_0 even_and_iff even_not_iff)
  next
    case (Suc k)
    have "u \<noteq> 0" using assms by auto
    then have "unat (u - 1) = unat u - 1" by (rule unat_minus_one)
    moreover have "odd (unat u)" using assms by (simp add: bit_0 [symmetric] bit_unsigned_iff)
    then have "(unat u - 1) div 2 = unat u div 2" by (elim oddE) simp
    ultimately have "bit (unat (u - 1)) n \<longleftrightarrow> bit (unat u) n" by (simp add: Suc bit_Suc)
    then have "bit (u - 1) n \<longleftrightarrow> bit u n" using n by (simp add: bit_unsigned_iff)
    then show ?thesis using n by (simp add: m bit_simps Suc bit_1_iff)
  qed
qed

definition is_lowbit :: "'a::len word \<Rightarrow> nat \<Rightarrow> bool" where
  "is_lowbit w k \<longleftrightarrow> bit w k \<and> (\<forall>j<k. \<not> bit w j)"

lemma is_lowbit_exists: "w \<noteq> (0 :: 'a::len word) \<Longrightarrow> \<exists>k. is_lowbit w k"
proof -
  assume "w \<noteq> 0"
  then obtain n where "bit w n" using bit_word_eqI [of w 0] by auto
  then have "is_lowbit w (LEAST n. bit w n)"
    unfolding is_lowbit_def by (metis LeastI_ex not_less_Least)
  then show ?thesis ..
qed

lemma is_lowbit_less: "is_lowbit (w :: 'a::len word) k \<Longrightarrow> k < LENGTH('a)"
  unfolding is_lowbit_def using bit_imp_le_length by blast

lemma is_lowbit_unique: "is_lowbit w k \<Longrightarrow> is_lowbit w l \<Longrightarrow> k = l"
  unfolding is_lowbit_def by (metis nat_neq_iff)

lemma and_minus_lowbit:
  fixes w :: "'a::len word"
  assumes "is_lowbit w k"
  shows "w AND - w = 2 ^ k"
proof -
  define u where "u = drop_bit k w"
  have "take_bit k w = 0"
    by (rule bit_word_eqI) (use assms in \<open>auto simp: bit_take_bit_iff is_lowbit_def\<close>)
  then have w: "w = push_bit k u"
    using bits_ident [of k w] by (simp add: u_def)
  have "odd u" using assms by (simp add: u_def is_lowbit_def bit_0 [symmetric] bit_drop_bit_eq del: drop_bit_eq_div)
  have "- w = push_bit k (- u)" by (simp add: w push_bit_eq_mult)
  then have "w AND - w = push_bit k (u AND - u)" by (simp add: w)
  with odd_and_minus [OF \<open>odd u\<close>] show ?thesis by (simp add: push_bit_of_1)
qed

lemma ZSTD_countTrailingZeros32_is_lowbit:
  assumes "val \<noteq> 0"
  shows "is_lowbit val (ZSTD_countTrailingZeros32 val)"
proof -
  obtain k where k: "is_lowbit val k" using is_lowbit_exists [OF assms] by blast
  then have "k < 32" using is_lowbit_less [OF k] by simp
  then have "DeBruijnBytePos ! unat (drop_bit 27 ((2 ^ k :: u32) * 0x077CB531)) = k"
    using DeBruijnBytePos_table by (simp only: list_all_iff set_upt) auto
  then have "ZSTD_countTrailingZeros32 val = k"
    by (simp only: ZSTD_countTrailingZeros32_def and_minus_lowbit [OF k])
  with k show ?thesis by simp
qed

lemma ZSTD_countTrailingZeros32_eqI: "is_lowbit val k \<Longrightarrow> ZSTD_countTrailingZeros32 val = k"
proof -
  assume k: "is_lowbit val k"
  then have "val \<noteq> 0" by (auto simp: is_lowbit_def)
  then show ?thesis using ZSTD_countTrailingZeros32_is_lowbit is_lowbit_unique k by blast
qed

subsection \<open>The 64-bit counts\<close>

lemma ZSTD_countTrailingZeros64_is_lowbit:
  assumes "val \<noteq> 0"
  shows "is_lowbit val (ZSTD_countTrailingZeros64 val)"
proof (cases "(ucast val :: u32) = 0")
  case True
  have lo: "\<not> bit val j" if "j < 32" for j
  proof -
    have "bit (ucast val :: u32) j \<longleftrightarrow> bit val j" using that by (simp add: bit_ucast_iff)
    with True show ?thesis by simp
  qed
  have hi: "bit (ucast (drop_bit 32 val) :: u32) j \<longleftrightarrow> bit val (32 + j)" for j
    by (auto simp: bit_ucast_iff bit_drop_bit_eq dest: bit_imp_le_length)
  have "(ucast (drop_bit 32 val) :: u32) \<noteq> 0"
  proof
    assume "(ucast (drop_bit 32 val) :: u32) = 0"
    then have "\<not> bit val (32 + j)" for j using hi [of j] by simp
    then have "\<not> bit val n" for n
      using lo [of n] le_Suc_ex [of 32 n] by (cases "n < 32") auto
    with assms show False using bit_word_eqI [of val 0] by auto
  qed
  from ZSTD_countTrailingZeros32_is_lowbit [OF this]
  have "is_lowbit val (32 + ZSTD_countTrailingZeros32 (ucast (drop_bit 32 val)))"
    unfolding is_lowbit_def hi
  proof (intro conjI allI impI)
    fix j assume a: "j < 32 + ZSTD_countTrailingZeros32 (ucast (drop_bit 32 val))"
      and *: "bit val (32 + ZSTD_countTrailingZeros32 (ucast (drop_bit 32 val))) \<and>
        (\<forall>j<ZSTD_countTrailingZeros32 (ucast (drop_bit 32 val)). \<not> bit val (32 + j))"
    show "\<not> bit val j"
    proof (cases "j < 32")
      case False
      then have "j - 32 < ZSTD_countTrailingZeros32 (ucast (drop_bit 32 val))" using a by simp
      with * have "\<not> bit val (32 + (j - 32))" by blast
      with False show ?thesis by simp
    qed (rule lo)
  qed simp
  with True show ?thesis by (simp add: ZSTD_countTrailingZeros64_def Let_def)
next
  case False
  from ZSTD_countTrailingZeros32_is_lowbit [OF this]
  have "is_lowbit val (ZSTD_countTrailingZeros32 (ucast val))"
    unfolding is_lowbit_def by (auto simp: bit_ucast_iff dest: bit_imp_le_length)
  with False show ?thesis by (simp add: ZSTD_countTrailingZeros64_def Let_def)
qed

lemma ZSTD_countLeadingZeros64_is_highbit:
  assumes "val \<noteq> 0"
  shows "is_highbit val (63 - ZSTD_countLeadingZeros64 val)"
proof -
  have hi: "unat (ucast (drop_bit 32 val) :: u32) = unat val div 2 ^ 32"
  proof -
    have "unat val div 2 ^ 32 < 2 ^ 32"
      using unsigned_less [of val, where ?'a = nat] by (intro less_mult_imp_div_less) simp
    then show ?thesis
      by (simp add: unsigned_ucast_eq unat_drop_bit_word take_bit_nat_eq_self del: drop_bit_eq_div)
  qed
  have lo: "unat (ucast val :: u32) = unat val mod 2 ^ 32"
    by (simp add: unsigned_ucast_eq take_bit_eq_mod)
  show ?thesis
  proof (cases "(ucast (drop_bit 32 val) :: u32) = 0")
    case True
    then have "unat val div 2 ^ 32 = 0" using hi by simp
    then have v: "unat (ucast val :: u32) = unat val" using lo by (simp add: div_eq_0_iff)
    with assms have "(ucast val :: u32) \<noteq> 0" by (metis unat_eq_zero unat_0)
    from ZSTD_highbit32_is_highbit [OF this] have "is_highbit val (ZSTD_highbit32 (ucast val))"
      by (simp add: is_highbit_def v)
    with True show ?thesis
      by (simp add: ZSTD_countLeadingZeros64_def Let_def ZSTD_highbit32_def)
  next
    case False
    define h where "h = ZSTD_highbit32 (ucast (drop_bit 32 val))"
    from ZSTD_highbit32_is_highbit [OF False]
    have h: "2 ^ h \<le> unat val div 2 ^ 32" "unat val div 2 ^ 32 < 2 ^ Suc h"
      by (simp_all only: is_highbit_def hi h_def)
    have "2 ^ (32 + h) \<le> unat val"
      using h(1) by (simp add: power_add less_eq_div_iff_mult_less_eq mult.commute)
    moreover have "unat val < 2 ^ Suc (32 + h)"
      using h(2) by (simp add: power_add div_less_iff_less_mult mult.commute)
    ultimately have "is_highbit val (32 + h)" by (simp add: is_highbit_def)
    moreover have "63 - ZSTD_countLeadingZeros64 val = 32 + h"
    proof -
      have "ZSTD_countLeadingZeros32 (ucast (drop_bit 32 val)) \<le> 31"
        by (simp add: ZSTD_countLeadingZeros32_def Let_def)
      with False show ?thesis
        by (simp add: ZSTD_countLeadingZeros64_def Let_def h_def ZSTD_highbit32_def)
    qed
    ultimately show ?thesis by simp
  qed
qed


subsection \<open>Rotations\<close>

lemma rotate_eq_rotr:
  fixes v :: "'a::len word"
  assumes "c < LENGTH('a)"
  shows "drop_bit c v OR push_bit ((LENGTH('a) - c) mod LENGTH('a)) v = word_rotr c v"
proof (rule bit_word_eqI)
  fix n assume n: "n < LENGTH('a)"
  show "bit (drop_bit c v OR push_bit ((LENGTH('a) - c) mod LENGTH('a)) v) n = bit (word_rotr c v) n"
  proof (cases "c = 0")
    case True
    then show ?thesis by (simp add: bit_word_rotr_iff n)
  next
    case False
    then have "(LENGTH('a) - c) mod LENGTH('a) = LENGTH('a) - c" using assms by simp
    moreover have "(n + c) mod LENGTH('a) = (if n + c < LENGTH('a) then n + c else n + c - LENGTH('a))"
      using n assms by (simp add: mod_if)
    ultimately show ?thesis
      using n assms by (auto simp: bit_simps bit_word_rotr_iff add.commute dest: bit_imp_le_length)
  qed
qed

lemma unat_neg_and_mask:
  fixes c :: u32
  assumes "unat c < 2 ^ k" "k \<le> 6"
  shows "unat ((0 - c) AND (2 ^ k - 1)) = (2 ^ k - unat c) mod 2 ^ k"
proof (cases "c = 0")
  case False
  have "unat (0 - c) = 2 ^ 32 - unat c"
    using False by (simp only: unat_sub_if') (simp add: unat_eq_zero)
  also have "(2::nat) ^ 32 = 2 ^ k * 2 ^ (32 - k)" using assms(2) by (simp flip: power_add)
  also have "(2::nat) ^ k * 2 ^ (32 - k) - unat c = (2 ^ k - unat c) + 2 ^ k * (2 ^ (32 - k) - 1)"
    using assms(1) by (simp add: algebra_simps)
  finally show ?thesis unfolding unat_and_mask by simp
qed simp

lemma ZSTD_rotateRight_U64_eq:
  assumes "unat c < 64"
  shows "ZSTD_rotateRight_U64 v c = word_rotr (unat c) v"
proof -
  have m: "(0x3F :: u32) = 2 ^ 6 - 1" by simp
  have "unat (c AND 0x3F) = unat c" unfolding m unat_and_mask using assms by simp
  then have c: "c AND 0x3F = c" by (simp only: word_unat_eq_iff)
  have "unat ((0 - c) AND 0x3F) = (64 - unat c) mod 64"
    unfolding m using unat_neg_and_mask [of c 6] assms by simp
  then show ?thesis
    using rotate_eq_rotr [of "unat c" v] assms
    by (simp only: ZSTD_rotateRight_U64_def Let_def c) simp
qed

lemma ZSTD_rotateRight_U32_eq:
  assumes "unat c < 32"
  shows "ZSTD_rotateRight_U32 v c = word_rotr (unat c) v"
proof -
  have m: "(0x1F :: u32) = 2 ^ 5 - 1" by simp
  have "unat (c AND 0x1F) = unat c" unfolding m unat_and_mask using assms by simp
  then have c: "c AND 0x1F = c" by (simp only: word_unat_eq_iff)
  have "unat ((0 - c) AND 0x1F) = (32 - unat c) mod 32"
    unfolding m using unat_neg_and_mask [of c 5] assms by simp
  then show ?thesis
    using rotate_eq_rotr [of "unat c" v] assms
    by (simp only: ZSTD_rotateRight_U32_def Let_def c) simp
qed

lemma ZSTD_rotateRight_U16_eq:
  assumes "unat c < 16"
  shows "ZSTD_rotateRight_U16 v c = word_rotr (unat c) v"
proof -
  have m: "(0xF :: u32) = 2 ^ 4 - 1" by simp
  have "unat (c AND 0xF) = unat c" unfolding m unat_and_mask using assms by simp
  then have c: "c AND 0xF = c" by (simp only: word_unat_eq_iff)
  have "unat ((0 - c) AND 0xF) = (16 - unat c) mod 16"
    unfolding m using unat_neg_and_mask [of c 4] assms by simp
  then show ?thesis
    using rotate_eq_rotr [of "unat c" v] assms
    by (simp only: ZSTD_rotateRight_U16_def Let_def c) simp
qed

subsection \<open>Summary\<close>

lemma ZSTD_highbit32_of_nat:
  assumes "0 < x" "x < 2 ^ 32"
  shows "2 ^ ZSTD_highbit32 (of_nat x) \<le> x" "x < 2 ^ Suc (ZSTD_highbit32 (of_nat x))"
proof -
  have u: "unat (of_nat x :: u32) = x" using assms(2) by (intro unat_of_nat_id) simp
  then have "of_nat x \<noteq> (0 :: u32)" using assms(1) by (intro notI) simp
  from ZSTD_highbit32_is_highbit [OF this] u
  show "2 ^ ZSTD_highbit32 (of_nat x) \<le> x" "x < 2 ^ Suc (ZSTD_highbit32 (of_nat x))"
    by (simp_all add: is_highbit_def)
qed

text \<open>The table-driven counts are exact: for non-zero arguments \<open>ZSTD_highbit32\<close> is the
  position of the highest set bit (the integer logarithm), \<open>ZSTD_countTrailingZeros32/64\<close>
  the position of the lowest one, \<open>ZSTD_countLeadingZeros64\<close> counts the zeros above the
  highest set bit, and the three rotations rotate by any count below the width.\<close>

lemma bit_counts_exact:
  assumes "v \<noteq> 0" and "w \<noteq> 0" and "unat c < 16"
  shows "2 ^ ZSTD_highbit32 v \<le> unat v \<and> unat v < 2 ^ Suc (ZSTD_highbit32 v) \<and>
         bit v (ZSTD_countTrailingZeros32 v) \<and> (\<forall>j. j < ZSTD_countTrailingZeros32 v \<longrightarrow> \<not> bit v j) \<and>
         bit w (ZSTD_countTrailingZeros64 w) \<and> (\<forall>j. j < ZSTD_countTrailingZeros64 w \<longrightarrow> \<not> bit w j) \<and>
         2 ^ (63 - ZSTD_countLeadingZeros64 w) \<le> unat w \<and>
         unat w < 2 ^ Suc (63 - ZSTD_countLeadingZeros64 w) \<and>
         ZSTD_rotateRight_U64 w c = word_rotr (unat c) w \<and>
         ZSTD_rotateRight_U32 v c = word_rotr (unat c) v \<and>
         ZSTD_rotateRight_U16 h c = word_rotr (unat c) h"
  using assms ZSTD_highbit32_is_highbit [OF assms(1)] ZSTD_countTrailingZeros32_is_lowbit [OF assms(1)]
    ZSTD_countTrailingZeros64_is_lowbit [OF assms(2)] ZSTD_countLeadingZeros64_is_highbit [OF assms(2)]
  by (simp add: is_highbit_def is_lowbit_def ZSTD_rotateRight_U64_eq ZSTD_rotateRight_U32_eq
      ZSTD_rotateRight_U16_eq)

end
