(* ===== verification/Zstd_Errors.thy ===== *)
theory Zstd_Errors
  imports Prelude
begin

text \<open>
  Error codes (\<open>zstd_errors.h\<close>, \<open>error_private.h\<close>, \<open>error_private.c\<close>): a function that can
  fail returns a \<open>size_t\<close> whose topmost values encode an error. The other theories return
  the sum type \<open>res\<close> instead; the lemmas here show that the encoding loses nothing.
\<close>

datatype ZSTD_ErrorCode =
    ZSTD_error_no_error
  | ZSTD_error_GENERIC
  | ZSTD_error_prefix_unknown
  | ZSTD_error_version_unsupported
  | ZSTD_error_frameParameter_unsupported
  | ZSTD_error_frameParameter_windowTooLarge
  | ZSTD_error_corruption_detected
  | ZSTD_error_checksum_wrong
  | ZSTD_error_literals_headerWrong
  | ZSTD_error_dictionary_corrupted
  | ZSTD_error_dictionary_wrong
  | ZSTD_error_dictionaryCreation_failed
  | ZSTD_error_parameter_unsupported
  | ZSTD_error_parameter_combination_unsupported
  | ZSTD_error_parameter_outOfBound
  | ZSTD_error_tableLog_tooLarge
  | ZSTD_error_maxSymbolValue_tooLarge
  | ZSTD_error_maxSymbolValue_tooSmall
  | ZSTD_error_cannotProduce_uncompressedBlock
  | ZSTD_error_stabilityCondition_notRespected
  | ZSTD_error_stage_wrong
  | ZSTD_error_init_missing
  | ZSTD_error_memory_allocation
  | ZSTD_error_workSpace_tooSmall
  | ZSTD_error_dstSize_tooSmall
  | ZSTD_error_srcSize_wrong
  | ZSTD_error_dstBuffer_null
  | ZSTD_error_noForwardProgress_destFull
  | ZSTD_error_noForwardProgress_inputEmpty
  | ZSTD_error_frameIndex_tooLarge
  | ZSTD_error_seekableIO
  | ZSTD_error_dstBuffer_wrong
  | ZSTD_error_srcBuffer_wrong
  | ZSTD_error_sequenceProducer_failed
  | ZSTD_error_externalSequences_invalid
  | ZSTD_error_maxCode

type_synonym 'a res = "ZSTD_ErrorCode + 'a"

text \<open>The value the enumeration gives each constant.\<close>

fun err_value :: "ZSTD_ErrorCode \<Rightarrow> nat" where
  "err_value ZSTD_error_no_error = 0"
| "err_value ZSTD_error_GENERIC = 1"
| "err_value ZSTD_error_prefix_unknown = 10"
| "err_value ZSTD_error_version_unsupported = 12"
| "err_value ZSTD_error_frameParameter_unsupported = 14"
| "err_value ZSTD_error_frameParameter_windowTooLarge = 16"
| "err_value ZSTD_error_corruption_detected = 20"
| "err_value ZSTD_error_checksum_wrong = 22"
| "err_value ZSTD_error_literals_headerWrong = 24"
| "err_value ZSTD_error_dictionary_corrupted = 30"
| "err_value ZSTD_error_dictionary_wrong = 32"
| "err_value ZSTD_error_dictionaryCreation_failed = 34"
| "err_value ZSTD_error_parameter_unsupported = 40"
| "err_value ZSTD_error_parameter_combination_unsupported = 41"
| "err_value ZSTD_error_parameter_outOfBound = 42"
| "err_value ZSTD_error_tableLog_tooLarge = 44"
| "err_value ZSTD_error_maxSymbolValue_tooLarge = 46"
| "err_value ZSTD_error_maxSymbolValue_tooSmall = 48"
| "err_value ZSTD_error_cannotProduce_uncompressedBlock = 49"
| "err_value ZSTD_error_stabilityCondition_notRespected = 50"
| "err_value ZSTD_error_stage_wrong = 60"
| "err_value ZSTD_error_init_missing = 62"
| "err_value ZSTD_error_memory_allocation = 64"
| "err_value ZSTD_error_workSpace_tooSmall = 66"
| "err_value ZSTD_error_dstSize_tooSmall = 70"
| "err_value ZSTD_error_srcSize_wrong = 72"
| "err_value ZSTD_error_dstBuffer_null = 74"
| "err_value ZSTD_error_noForwardProgress_destFull = 80"
| "err_value ZSTD_error_noForwardProgress_inputEmpty = 82"
| "err_value ZSTD_error_frameIndex_tooLarge = 100"
| "err_value ZSTD_error_seekableIO = 102"
| "err_value ZSTD_error_dstBuffer_wrong = 104"
| "err_value ZSTD_error_srcBuffer_wrong = 105"
| "err_value ZSTD_error_sequenceProducer_failed = 106"
| "err_value ZSTD_error_externalSequences_invalid = 107"
| "err_value ZSTD_error_maxCode = 120"

text \<open>\<open>ERROR(name)\<close> is \<open>(size_t)-ZSTD_error_name\<close>; \<open>size_t\<close> has 64 bits.\<close>

definition ERROR :: "ZSTD_ErrorCode \<Rightarrow> u64" where
  "ERROR e = - of_nat (err_value e)"

definition ERR_isError :: "u64 \<Rightarrow> bool" where
  "ERR_isError code \<longleftrightarrow> code > ERROR ZSTD_error_maxCode"

text \<open>The C enumeration is an integer, which need not be one of its named constants.\<close>

definition ERR_getErrorCode :: "u64 \<Rightarrow> nat" where
  "ERR_getErrorCode code = (if \<not> ERR_isError code then 0 else unat (0 - code))"

definition ERR_getErrorString :: "nat \<Rightarrow> string" where
  "ERR_getErrorString code =
    (if code = err_value ZSTD_error_no_error then ''No error detected''
     else if code = err_value ZSTD_error_GENERIC then ''Error (generic)''
     else if code = err_value ZSTD_error_prefix_unknown then ''Unknown frame descriptor''
     else if code = err_value ZSTD_error_version_unsupported then ''Version not supported''
     else if code = err_value ZSTD_error_frameParameter_unsupported then ''Unsupported frame parameter''
     else if code = err_value ZSTD_error_frameParameter_windowTooLarge
       then ''Frame requires too much memory for decoding''
     else if code = err_value ZSTD_error_corruption_detected then ''Data corruption detected''
     else if code = err_value ZSTD_error_checksum_wrong
       then ''Restored data doesn'' @ [CHR 0x27] @ ''t match checksum''
     else if code = err_value ZSTD_error_literals_headerWrong
       then ''Header of Literals'' @ [CHR 0x27] @ '' block doesn'' @ [CHR 0x27] @
            ''t respect format specification''
     else if code = err_value ZSTD_error_parameter_unsupported then ''Unsupported parameter''
     else if code = err_value ZSTD_error_parameter_combination_unsupported
       then ''Unsupported combination of parameters''
     else if code = err_value ZSTD_error_parameter_outOfBound then ''Parameter is out of bound''
     else if code = err_value ZSTD_error_init_missing then ''Context should be init first''
     else if code = err_value ZSTD_error_memory_allocation then ''Allocation error : not enough memory''
     else if code = err_value ZSTD_error_workSpace_tooSmall then ''workSpace buffer is not large enough''
     else if code = err_value ZSTD_error_stage_wrong
       then ''Operation not authorized at current processing stage''
     else if code = err_value ZSTD_error_tableLog_tooLarge
       then ''tableLog requires too much memory : unsupported''
     else if code = err_value ZSTD_error_maxSymbolValue_tooLarge
       then ''Unsupported max Symbol Value : too large''
     else if code = err_value ZSTD_error_maxSymbolValue_tooSmall
       then ''Specified maxSymbolValue is too small''
     else if code = err_value ZSTD_error_cannotProduce_uncompressedBlock
       then ''This mode cannot generate an uncompressed block''
     else if code = err_value ZSTD_error_stabilityCondition_notRespected
       then ''pledged buffer stability condition is not respected''
     else if code = err_value ZSTD_error_dictionary_corrupted then ''Dictionary is corrupted''
     else if code = err_value ZSTD_error_dictionary_wrong then ''Dictionary mismatch''
     else if code = err_value ZSTD_error_dictionaryCreation_failed
       then ''Cannot create Dictionary from provided samples''
     else if code = err_value ZSTD_error_dstSize_tooSmall then ''Destination buffer is too small''
     else if code = err_value ZSTD_error_srcSize_wrong then ''Src size is incorrect''
     else if code = err_value ZSTD_error_dstBuffer_null then ''Operation on NULL destination buffer''
     else if code = err_value ZSTD_error_noForwardProgress_destFull
       then ''Operation made no progress over multiple calls, due to output buffer being full''
     else if code = err_value ZSTD_error_noForwardProgress_inputEmpty
       then ''Operation made no progress over multiple calls, due to input being empty''
     else if code = err_value ZSTD_error_frameIndex_tooLarge then ''Frame index is too large''
     else if code = err_value ZSTD_error_seekableIO then ''An I/O error occurred when reading/seeking''
     else if code = err_value ZSTD_error_dstBuffer_wrong then ''Destination buffer is wrong''
     else if code = err_value ZSTD_error_srcBuffer_wrong then ''Source buffer is wrong''
     else if code = err_value ZSTD_error_sequenceProducer_failed
       then ''Block-level external sequence producer returned an error code''
     else if code = err_value ZSTD_error_externalSequences_invalid then ''External sequences are not valid''
     else ''Unspecified error code'')"

definition ERR_getErrorName :: "u64 \<Rightarrow> string" where
  "ERR_getErrorName code = ERR_getErrorString (ERR_getErrorCode code)"

text \<open>
  How a \<open>res\<close> is returned in C: an error as \<open>ERROR(e)\<close>, a size as itself. A caller tests
  it with \<open>ERR_isError\<close> and reads the code back with \<open>ERR_getErrorCode\<close>.
\<close>

fun res_code :: "nat res \<Rightarrow> u64" where
  "res_code (Inl e) = ERROR e"
| "res_code (Inr n) = of_nat n"

subsection \<open>The encoding is faithful\<close>

lemma err_value_inj: "err_value a = err_value b \<Longrightarrow> a = b"
  by (cases a; cases b) simp_all

lemma err_value_le: "err_value e \<le> 120"
  by (cases e) simp_all

lemma err_value_less: "e \<noteq> ZSTD_error_maxCode \<Longrightarrow> err_value e < 120"
  by (cases e) simp_all

lemma err_value_pos: "e \<noteq> ZSTD_error_no_error \<Longrightarrow> 0 < err_value e"
  by (cases e) simp_all

lemma unat_ERROR: "e \<noteq> ZSTD_error_no_error \<Longrightarrow> unat (ERROR e) = 2 ^ 64 - err_value e"
  by (cases e) (simp_all add: ERROR_def unsigned_minus_1_eq_mask mask_eq_exp_minus_1)

lemma ERR_isError_iff: "ERR_isError code \<longleftrightarrow> 2 ^ 64 - 120 < unat code"
  using unat_ERROR [of ZSTD_error_maxCode] by (simp add: ERR_isError_def word_less_nat_alt)

lemma ERR_isError_ERROR:
  "e \<noteq> ZSTD_error_no_error \<Longrightarrow> e \<noteq> ZSTD_error_maxCode \<Longrightarrow> ERR_isError (ERROR e)"
  using err_value_less [of e] by (simp add: ERR_isError_iff unat_ERROR)

lemma ERR_getErrorCode_ERROR:
  assumes "e \<noteq> ZSTD_error_no_error" and "e \<noteq> ZSTD_error_maxCode"
  shows "ERR_getErrorCode (ERROR e) = err_value e"
proof -
  have "unat (0 - ERROR e) = unat (of_nat (err_value e) :: u64)"
    by (simp add: ERROR_def)
  also have "\<dots> = err_value e"
    using err_value_le [of e] by (intro unat_of_nat_id) simp
  finally show ?thesis
    using ERR_isError_ERROR [OF assms] by (simp add: ERR_getErrorCode_def)
qed

text \<open>A returned size is never mistaken for an error, and a returned error is always
  recognised with the code that was raised: for a result that is an error constant other
  than \<open>no_error\<close> and \<open>maxCode\<close>, or a size up to \<open>2^64 - 120\<close>, \<open>ERR_isError\<close> holds exactly
  for the errors and \<open>ERR_getErrorCode\<close> recovers the enumeration value (0 for a size).\<close>

lemma error_code_faithful:
  assumes "r \<noteq> Inl ZSTD_error_no_error" and "r \<noteq> Inl ZSTD_error_maxCode"
    and "\<And>n. r = Inr n \<Longrightarrow> n \<le> 2 ^ 64 - 120"
  shows "(ERR_isError (res_code r) \<longleftrightarrow> isl r) \<and>
         ERR_getErrorCode (res_code r) = (case r of Inl e \<Rightarrow> err_value e | Inr n \<Rightarrow> 0)"
proof (cases r)
  case (Inl e)
  with assms(1,2) show ?thesis
    by (simp add: ERR_isError_ERROR ERR_getErrorCode_ERROR)
next
  case (Inr n)
  with assms(3) have "unat (of_nat n :: u64) \<le> 2 ^ 64 - 120"
    by (subst unat_of_nat_id) auto
  then have "\<not> ERR_isError (of_nat n)" by (simp add: ERR_isError_iff)
  with Inr show ?thesis by (simp add: ERR_getErrorCode_def)
qed

end
