(* ===== verification/Zstd_Bitstream.thy ===== *)
theory Zstd_Bitstream
  imports Zstd_Mem Zstd_Bits Zstd_Errors
begin

text \<open>
  The bit stream of the entropy coders (\<open>bitstream.h\<close>): a writer that appends bit fields
  through a 64-bit register to a buffer, and a reader that takes them back from the end,
  last field first. The destination and source buffers are part of the stream records;
  pointers are indices into them, so \<open>startPtr\<close> and \<open>start\<close> are 0 and \<open>limitPtr\<close> is 8.
  The counters stay far below \<open>2^32\<close>, so \<open>unsigned\<close> is \<open>nat\<close>.
\<close>

subsection \<open>Writer\<close>

record BIT_CStream_t =
  c_bitContainer :: u64
  c_bitPos :: nat
  c_buf :: bytes
  c_ptr :: nat
  c_endPtr :: nat

definition BIT_mask :: "nat list" where
  "BIT_mask =
    [0,          1,         3,         7,         0xF,       0x1F,
     0x3F,       0x7F,      0xFF,      0x1FF,     0x3FF,     0x7FF,
     0xFFF,      0x1FFF,    0x3FFF,    0x7FFF,    0xFFFF,    0x1FFFF,
     0x3FFFF,    0x7FFFF,   0xFFFFF,   0x1FFFFF,  0x3FFFFF,  0x7FFFFF,
     0xFFFFFF,   0x1FFFFFF, 0x3FFFFFF, 0x7FFFFFF, 0xFFFFFFF, 0x1FFFFFFF,
     0x3FFFFFFF, 0x7FFFFFFF]"

definition BIT_initCStream :: "bytes \<Rightarrow> BIT_CStream_t res" where
  "BIT_initCStream dst =
     (if length dst \<le> 8 then Inl ZSTD_error_dstSize_tooSmall
      else Inr \<lparr>c_bitContainer = 0, c_bitPos = 0, c_buf = dst, c_ptr = 0,
                c_endPtr = length dst - 8\<rparr>)"

definition BIT_getLowerBits :: "u64 \<Rightarrow> nat \<Rightarrow> u64" where
  "BIT_getLowerBits bitContainer nbBits = bitContainer AND of_nat (BIT_mask ! nbBits)"

definition BIT_addBits :: "BIT_CStream_t \<Rightarrow> u64 \<Rightarrow> nat \<Rightarrow> BIT_CStream_t" where
  "BIT_addBits bitC value nbBits =
     bitC\<lparr>c_bitContainer :=
             c_bitContainer bitC OR push_bit (c_bitPos bitC) (BIT_getLowerBits value nbBits),
          c_bitPos := c_bitPos bitC + nbBits\<rparr>"

definition BIT_addBitsFast :: "BIT_CStream_t \<Rightarrow> u64 \<Rightarrow> nat \<Rightarrow> BIT_CStream_t" where
  "BIT_addBitsFast bitC value nbBits =
     bitC\<lparr>c_bitContainer := c_bitContainer bitC OR push_bit (c_bitPos bitC) value,
          c_bitPos := c_bitPos bitC + nbBits\<rparr>"

definition BIT_flushBitsFast :: "BIT_CStream_t \<Rightarrow> BIT_CStream_t" where
  "BIT_flushBitsFast bitC =
     (let nbBytes = c_bitPos bitC div 2 ^ 3
      in bitC\<lparr>c_buf := MEM_writeLEST MEM_isLittleEndian (c_buf bitC) (c_ptr bitC) (c_bitContainer bitC),
              c_ptr := c_ptr bitC + nbBytes,
              c_bitPos := c_bitPos bitC mod 8,
              c_bitContainer := drop_bit (nbBytes * 8) (c_bitContainer bitC)\<rparr>)"

definition BIT_flushBits :: "BIT_CStream_t \<Rightarrow> BIT_CStream_t" where
  "BIT_flushBits bitC =
     (let nbBytes = c_bitPos bitC div 2 ^ 3;
          ptr = c_ptr bitC + nbBytes
      in bitC\<lparr>c_buf := MEM_writeLEST MEM_isLittleEndian (c_buf bitC) (c_ptr bitC) (c_bitContainer bitC),
              c_ptr := (if ptr > c_endPtr bitC then c_endPtr bitC else ptr),
              c_bitPos := c_bitPos bitC mod 8,
              c_bitContainer := drop_bit (nbBytes * 8) (c_bitContainer bitC)\<rparr>)"

text \<open>The size of the stream in bytes, 0 when it did not fit, and the closed stream.\<close>

definition BIT_closeCStream :: "BIT_CStream_t \<Rightarrow> nat \<times> BIT_CStream_t" where
  "BIT_closeCStream bitC =
     (let bitC = BIT_flushBits (BIT_addBitsFast bitC 1 1)
      in if c_ptr bitC \<ge> c_endPtr bitC then (0, bitC)
         else (c_ptr bitC + (if c_bitPos bitC > 0 then 1 else 0), bitC))"

subsection \<open>Reader\<close>

text \<open>\<open>d_zeroFilled\<close> says that \<open>ptr\<close> was redirected to the static zero container, which
  the reader does once more bits were requested than the stream holds.\<close>

record BIT_DStream_t =
  d_bitContainer :: u64
  d_bitsConsumed :: nat
  d_src :: bytes
  d_ptr :: nat
  d_zeroFilled :: bool

datatype BIT_DStream_status =
    BIT_DStream_unfinished | BIT_DStream_endOfBuffer | BIT_DStream_completed | BIT_DStream_overflow

definition BIT_limitPtr :: nat where
  "BIT_limitPtr = 8"

definition BIT_initDStream :: "bytes \<Rightarrow> BIT_DStream_t res" where
  "BIT_initDStream src =
     (let srcSize = length src in
      if srcSize < 1 then Inl ZSTD_error_srcSize_wrong
      else if srcSize \<ge> 8 then
        (let ptr = srcSize - 8;
             container = MEM_readLEST MEM_isLittleEndian src ptr;
             lastByte = byte_at src (srcSize - 1);
             bitsConsumed = (if lastByte \<noteq> 0 then 8 - ZSTD_highbit32 (ucast lastByte) else 0)
         in if lastByte = 0 then Inl ZSTD_error_GENERIC
            else Inr \<lparr>d_bitContainer = container, d_bitsConsumed = bitsConsumed, d_src = src,
                      d_ptr = ptr, d_zeroFilled = False\<rparr>)
      else
        (let container0 = ucast (byte_at src 0);
             container1 = (if srcSize \<ge> 7 then container0 + push_bit 48 (ucast (byte_at src 6)) else container0);
             container2 = (if srcSize \<ge> 6 then container1 + push_bit 40 (ucast (byte_at src 5)) else container1);
             container3 = (if srcSize \<ge> 5 then container2 + push_bit 32 (ucast (byte_at src 4)) else container2);
             container4 = (if srcSize \<ge> 4 then container3 + push_bit 24 (ucast (byte_at src 3)) else container3);
             container5 = (if srcSize \<ge> 3 then container4 + push_bit 16 (ucast (byte_at src 2)) else container4);
             container6 = (if srcSize \<ge> 2 then container5 + push_bit 8 (ucast (byte_at src 1)) else container5);
             lastByte = byte_at src (srcSize - 1);
             bitsConsumed = (if lastByte \<noteq> 0 then 8 - ZSTD_highbit32 (ucast lastByte) else 0)
         in if lastByte = 0 then Inl ZSTD_error_corruption_detected
            else Inr \<lparr>d_bitContainer = container6,
                      d_bitsConsumed = bitsConsumed + (8 - srcSize) * 8,
                      d_src = src, d_ptr = 0, d_zeroFilled = False\<rparr>))"

definition BIT_getUpperBits :: "u64 \<Rightarrow> nat \<Rightarrow> u64" where
  "BIT_getUpperBits bitContainer start = drop_bit start bitContainer"

text \<open>The start position is computed in unsigned arithmetic and masked with 63, which is the
  integer result modulo 64. The x86-64 form of the mask is used; the table form of the other
  targets is equal to it (\<open>BIT_mask_eq\<close> below).\<close>

definition BIT_getMiddleBits :: "u64 \<Rightarrow> int \<Rightarrow> nat \<Rightarrow> u64" where
  "BIT_getMiddleBits bitContainer start nbBits =
     drop_bit (nat (start mod 64)) bitContainer AND (push_bit nbBits 1 - 1)"

definition BIT_lookBits :: "BIT_DStream_t \<Rightarrow> nat \<Rightarrow> u64" where
  "BIT_lookBits bitD nbBits =
     BIT_getMiddleBits (d_bitContainer bitD) (64 - int (d_bitsConsumed bitD) - int nbBits) nbBits"

definition BIT_lookBitsFast :: "BIT_DStream_t \<Rightarrow> nat \<Rightarrow> u64" where
  "BIT_lookBitsFast bitD nbBits =
     drop_bit (nat ((64 - int nbBits) mod 64)) (push_bit (d_bitsConsumed bitD mod 64) (d_bitContainer bitD))"

definition BIT_skipBits :: "BIT_DStream_t \<Rightarrow> nat \<Rightarrow> BIT_DStream_t" where
  "BIT_skipBits bitD nbBits = bitD\<lparr>d_bitsConsumed := d_bitsConsumed bitD + nbBits\<rparr>"

definition BIT_readBits :: "BIT_DStream_t \<Rightarrow> nat \<Rightarrow> u64 \<times> BIT_DStream_t" where
  "BIT_readBits bitD nbBits = (BIT_lookBits bitD nbBits, BIT_skipBits bitD nbBits)"

definition BIT_readBitsFast :: "BIT_DStream_t \<Rightarrow> nat \<Rightarrow> u64 \<times> BIT_DStream_t" where
  "BIT_readBitsFast bitD nbBits = (BIT_lookBitsFast bitD nbBits, BIT_skipBits bitD nbBits)"

definition BIT_reloadDStream_internal :: "BIT_DStream_t \<Rightarrow> BIT_DStream_status \<times> BIT_DStream_t" where
  "BIT_reloadDStream_internal bitD =
     (let ptr = d_ptr bitD - d_bitsConsumed bitD div 2 ^ 3
      in (BIT_DStream_unfinished,
          bitD\<lparr>d_ptr := ptr,
               d_bitsConsumed := d_bitsConsumed bitD mod 8,
               d_bitContainer := MEM_readLEST MEM_isLittleEndian (d_src bitD) ptr\<rparr>))"

definition BIT_reloadDStreamFast :: "BIT_DStream_t \<Rightarrow> BIT_DStream_status \<times> BIT_DStream_t" where
  "BIT_reloadDStreamFast bitD =
     (if d_ptr bitD < BIT_limitPtr then (BIT_DStream_overflow, bitD)
      else BIT_reloadDStream_internal bitD)"

definition BIT_reloadDStream :: "BIT_DStream_t \<Rightarrow> BIT_DStream_status \<times> BIT_DStream_t" where
  "BIT_reloadDStream bitD =
     (if d_bitsConsumed bitD > 64 then (BIT_DStream_overflow, bitD\<lparr>d_zeroFilled := True\<rparr>)
      else if d_ptr bitD \<ge> BIT_limitPtr then BIT_reloadDStream_internal bitD
      else if d_ptr bitD = 0 then
        (if d_bitsConsumed bitD < 64 then (BIT_DStream_endOfBuffer, bitD)
         else (BIT_DStream_completed, bitD))
      else
        (let nbBytes = d_bitsConsumed bitD div 2 ^ 3;
             (nbBytes, result) =
               (if int (d_ptr bitD) - int nbBytes < 0
                then (d_ptr bitD, BIT_DStream_endOfBuffer)
                else (nbBytes, BIT_DStream_unfinished));
             ptr = d_ptr bitD - nbBytes
         in (result,
             bitD\<lparr>d_ptr := ptr,
                  d_bitsConsumed := d_bitsConsumed bitD - nbBytes * 8,
                  d_bitContainer := MEM_readLEST MEM_isLittleEndian (d_src bitD) ptr\<rparr>)))"

definition BIT_endOfDStream :: "BIT_DStream_t \<Rightarrow> bool" where
  "BIT_endOfDStream DStream \<longleftrightarrow>
     d_ptr DStream = 0 \<and> \<not> d_zeroFilled DStream \<and> d_bitsConsumed DStream = 64"

subsection \<open>The masks\<close>

lemma BIT_mask_table: "BIT_mask = map (\<lambda>n. 2 ^ n - 1) [0..<32]"
  by (simp add: BIT_mask_def upt_rec)

lemma BIT_mask_nth: "n < 32 \<Longrightarrow> BIT_mask ! n = 2 ^ n - 1"
  by (simp add: BIT_mask_table)

lemma of_nat_BIT_mask: "n < 32 \<Longrightarrow> (of_nat (BIT_mask ! n) :: u64) = 2 ^ n - 1"
  using of_nat_diff [of 1 "2 ^ n", where ?'a = u64] by (simp add: BIT_mask_nth)

lemma BIT_mask_eq: "n < 32 \<Longrightarrow> (of_nat (BIT_mask ! n) :: u64) = push_bit n 1 - 1"
  by (simp add: of_nat_BIT_mask push_bit_of_1)

lemma unat_BIT_getLowerBits: "n < 32 \<Longrightarrow> unat (BIT_getLowerBits v n) = unat v mod 2 ^ n"
  by (simp only: BIT_getLowerBits_def of_nat_BIT_mask unat_and_mask)


subsection \<open>Writer: the bits written so far\<close>

definition c_val :: "BIT_CStream_t \<Rightarrow> nat" where
  "c_val cs = le_val (take (c_ptr cs) (c_buf cs)) + 2 ^ (8 * c_ptr cs) * unat (c_bitContainer cs)"

definition c_bits :: "BIT_CStream_t \<Rightarrow> nat" where
  "c_bits cs = 8 * c_ptr cs + c_bitPos cs"

definition c_inv :: "BIT_CStream_t \<Rightarrow> bool" where
  "c_inv cs \<longleftrightarrow> c_endPtr cs + 8 = length (c_buf cs) \<and> unat (c_bitContainer cs) < 2 ^ c_bitPos cs"

lemma c_inv_init: "BIT_initCStream dst = Inr cs \<Longrightarrow> c_inv cs \<and> c_val cs = 0 \<and> c_bits cs = 0"
  by (auto simp: BIT_initCStream_def c_inv_def c_val_def c_bits_def split: if_splits)

lemma or_field:
  fixes a v :: u64
  assumes "unat a < 2 ^ p" and "unat v < 2 ^ n" and "p + n \<le> 64"
  shows "unat (a OR push_bit p v) = unat a + 2 ^ p * unat v" and "unat (a OR push_bit p v) < 2 ^ (p + n)"
proof -
  have "unat v * 2 ^ p < 2 ^ n * 2 ^ p" using assms(2) by simp
  also have "\<dots> = 2 ^ (n + p)" by (simp add: power_add)
  also have "(2::nat) ^ (n + p) \<le> 2 ^ 64" using assms(3) by (intro power_increasing) auto
  finally show eq: "unat (a OR push_bit p v) = unat a + 2 ^ p * unat v"
    by (intro unat_or_disjoint assms(1)) simp
  have "unat a + 2 ^ p * unat v < 2 ^ p * (unat v + 1)" using assms(1) by simp
  also have "\<dots> \<le> 2 ^ p * 2 ^ n" using assms(2) by (intro mult_le_mono2) simp
  finally show "unat (a OR push_bit p v) < 2 ^ (p + n)" by (simp add: eq power_add)
qed

lemma BIT_addBits_spec:
  assumes "c_inv cs" and "nb < 32" and "nb + c_bitPos cs < 64"
  shows "c_inv (BIT_addBits cs v nb)"
    and "c_val (BIT_addBits cs v nb) = c_val cs + 2 ^ c_bits cs * (unat v mod 2 ^ nb)"
    and "c_bits (BIT_addBits cs v nb) = c_bits cs + nb"
proof -
  have *: "unat (c_bitContainer cs OR push_bit (c_bitPos cs) (BIT_getLowerBits v nb)) =
         unat (c_bitContainer cs) + 2 ^ c_bitPos cs * (unat v mod 2 ^ nb)"
    "unat (c_bitContainer cs OR push_bit (c_bitPos cs) (BIT_getLowerBits v nb)) < 2 ^ (c_bitPos cs + nb)"
    using or_field [of "c_bitContainer cs" "c_bitPos cs" "BIT_getLowerBits v nb" nb] assms
    by (simp_all add: c_inv_def unat_BIT_getLowerBits)
  show "c_inv (BIT_addBits cs v nb)"
    using assms * by (simp add: c_inv_def BIT_addBits_def)
  show "c_val (BIT_addBits cs v nb) = c_val cs + 2 ^ c_bits cs * (unat v mod 2 ^ nb)"
    by (simp add: c_val_def c_bits_def BIT_addBits_def * power_add algebra_simps)
  show "c_bits (BIT_addBits cs v nb) = c_bits cs + nb"
    by (simp add: c_bits_def BIT_addBits_def)
qed

lemma BIT_addBitsFast_spec:
  assumes "c_inv cs" and "unat v < 2 ^ nb" and "nb + c_bitPos cs < 64"
  shows "c_inv (BIT_addBitsFast cs v nb)"
    and "c_val (BIT_addBitsFast cs v nb) = c_val cs + 2 ^ c_bits cs * unat v"
    and "c_bits (BIT_addBitsFast cs v nb) = c_bits cs + nb"
proof -
  have *: "unat (c_bitContainer cs OR push_bit (c_bitPos cs) v) =
         unat (c_bitContainer cs) + 2 ^ c_bitPos cs * unat v"
    "unat (c_bitContainer cs OR push_bit (c_bitPos cs) v) < 2 ^ (c_bitPos cs + nb)"
    using or_field [of "c_bitContainer cs" "c_bitPos cs" v nb] assms
    by (simp_all add: c_inv_def)
  show "c_inv (BIT_addBitsFast cs v nb)"
    using assms * by (simp add: c_inv_def BIT_addBitsFast_def)
  show "c_val (BIT_addBitsFast cs v nb) = c_val cs + 2 ^ c_bits cs * unat v"
    by (simp add: c_val_def c_bits_def BIT_addBitsFast_def * power_add algebra_simps)
  show "c_bits (BIT_addBitsFast cs v nb) = c_bits cs + nb"
    by (simp add: c_bits_def BIT_addBitsFast_def)
qed

text \<open>A flush that stays below the end pointer moves whole bytes from the register to the
  buffer and changes neither the value nor the number of bits written.\<close>

lemma flush_core:
  assumes "c_inv cs" and "c_bitPos cs < 64" and "c_ptr cs \<le> c_endPtr cs"
    and "c_ptr cs + c_bitPos cs div 8 \<le> c_endPtr cs + 8"
  defines "cs' \<equiv> BIT_flushBitsFast cs"
  shows "c_inv cs'" and "c_val cs' = c_val cs" and "c_bits cs' = c_bits cs" and "c_bitPos cs' < 8"
proof -
  define p w k where "p = c_ptr cs" and "w = c_bitContainer cs" and "k = c_bitPos cs div 8"
  have k: "k \<le> 8" using assms(2) by (simp add: k_def)
  have p: "p + 8 \<le> length (c_buf cs)" using assms by (simp add: p_def c_inv_def)
  have w: "unat w < 2 ^ (8 * k + c_bitPos cs mod 8)"
    using assms(1) by (simp add: c_inv_def w_def k_def)
  have buf: "c_buf cs' = write_at (c_buf cs) p (le_bytes 8 (unat w))"
    by (simp add: cs'_def BIT_flushBitsFast_def Let_def MEM_writeLEST_eq p_def w_def)
  have fields: "c_ptr cs' = p + k" "c_bitPos cs' = c_bitPos cs mod 8"
    "c_bitContainer cs' = drop_bit (k * 8) w" "c_endPtr cs' = c_endPtr cs"
    by (simp_all add: cs'_def BIT_flushBitsFast_def Let_def p_def w_def k_def)
  have unat': "unat (c_bitContainer cs') = unat w div 2 ^ (8 * k)"
    by (simp only: fields unat_drop_bit_word mult.commute)
  have "unat w div 2 ^ (8 * k) < 2 ^ (c_bitPos cs mod 8)"
    using w by (intro less_mult_imp_div_less) (simp add: power_add mult.commute)
  then show "c_inv cs'"
    using assms(1) p by (simp add: c_inv_def fields buf unat' [unfolded fields])
  have "take (p + k) (c_buf cs') = take p (c_buf cs) @ le_bytes k (unat w)"
    unfolding buf using k p by (subst take_write_at_within) (simp_all add: take_le_bytes)
  then have "le_val (take (p + k) (c_buf cs')) =
      le_val (take p (c_buf cs)) + 2 ^ (8 * p) * (unat w mod 2 ^ (8 * k))"
    using p by (simp add: le_val_append le_val_le_bytes pow256)
  then have "c_val cs' = le_val (take p (c_buf cs)) + 2 ^ (8 * p) * (unat w mod 2 ^ (8 * k))
       + 2 ^ (8 * (p + k)) * (unat w div 2 ^ (8 * k))"
    by (simp only: c_val_def fields(1) unat')
  also have "\<dots> = le_val (take p (c_buf cs)) +
      2 ^ (8 * p) * (unat w mod 2 ^ (8 * k) + 2 ^ (8 * k) * (unat w div 2 ^ (8 * k)))"
    by (simp only: distrib_left power_add mult.assoc add.assoc)
  also have "unat w mod 2 ^ (8 * k) + 2 ^ (8 * k) * (unat w div 2 ^ (8 * k)) = unat w"
    by (rule mod_mult_div_eq)
  finally show "c_val cs' = c_val cs" by (simp add: c_val_def p_def w_def)
  show "c_bits cs' = c_bits cs"
    by (simp add: c_bits_def fields p_def k_def)
  show "c_bitPos cs' < 8" by (simp add: fields)
qed


lemma BIT_flushBits_eq:
  "c_ptr cs + c_bitPos cs div 8 \<le> c_endPtr cs \<Longrightarrow> BIT_flushBits cs = BIT_flushBitsFast cs"
  by (simp add: BIT_flushBits_def BIT_flushBitsFast_def Let_def)

lemma BIT_flushBits_saturates:
  "c_ptr cs + c_bitPos cs div 8 > c_endPtr cs \<Longrightarrow> c_ptr (BIT_flushBits cs) = c_endPtr cs"
  by (simp add: BIT_flushBits_def Let_def)

lemma flush_endPtr [simp]:
  "c_endPtr (BIT_flushBits cs) = c_endPtr cs" "c_endPtr (BIT_flushBitsFast cs) = c_endPtr cs"
  "c_endPtr (BIT_addBits cs v n) = c_endPtr cs" "c_endPtr (BIT_addBitsFast cs v n) = c_endPtr cs"
  by (simp_all add: BIT_flushBits_def BIT_flushBitsFast_def BIT_addBits_def BIT_addBitsFast_def Let_def)

lemma add_ptr [simp]:
  "c_ptr (BIT_addBits cs v n) = c_ptr cs" "c_ptr (BIT_addBitsFast cs v n) = c_ptr cs"
  "c_bitPos (BIT_addBits cs v n) = c_bitPos cs + n" "c_bitPos (BIT_addBitsFast cs v n) = c_bitPos cs + n"
  by (simp_all add: BIT_addBits_def BIT_addBitsFast_def)

subsection \<open>Writer: sequences of operations\<close>

text \<open>The calls a coder makes between \<open>BIT_initCStream\<close> and \<open>BIT_closeCStream\<close>. \<open>cop_ok\<close>
  is the conjunction of the assertions in the body of the call.\<close>

datatype cop = AddBits u64 nat | AddBitsFast u64 nat | FlushBits | FlushBitsFast

fun cop_step :: "BIT_CStream_t \<Rightarrow> cop \<Rightarrow> BIT_CStream_t" where
  "cop_step cs (AddBits v n) = BIT_addBits cs v n"
| "cop_step cs (AddBitsFast v n) = BIT_addBitsFast cs v n"
| "cop_step cs FlushBits = BIT_flushBits cs"
| "cop_step cs FlushBitsFast = BIT_flushBitsFast cs"

fun cop_ok :: "BIT_CStream_t \<Rightarrow> cop \<Rightarrow> bool" where
  "cop_ok cs (AddBits v n) \<longleftrightarrow> n < 32 \<and> n + c_bitPos cs < 64"
| "cop_ok cs (AddBitsFast v n) \<longleftrightarrow> drop_bit n v = 0 \<and> n + c_bitPos cs < 64"
| "cop_ok cs FlushBits \<longleftrightarrow> c_bitPos cs < 64 \<and> c_ptr cs \<le> c_endPtr cs"
| "cop_ok cs FlushBitsFast \<longleftrightarrow> c_bitPos cs < 64 \<and> c_ptr cs \<le> c_endPtr cs"

fun cop_run :: "BIT_CStream_t \<Rightarrow> cop list \<Rightarrow> BIT_CStream_t" where
  "cop_run cs [] = cs"
| "cop_run cs (x # xs) = cop_run (cop_step cs x) xs"

fun cop_run_ok :: "BIT_CStream_t \<Rightarrow> cop list \<Rightarrow> bool" where
  "cop_run_ok cs [] \<longleftrightarrow> c_bitPos cs + 1 < 64 \<and> c_ptr cs \<le> c_endPtr cs"
| "cop_run_ok cs (x # xs) \<longleftrightarrow> cop_ok cs x \<and> cop_run_ok (cop_step cs x) xs"

text \<open>What the calls mean: a list of bit fields (value, width), in order of writing, and
  the number they form, first field in the lowest bits.\<close>

fun cop_fields :: "cop list \<Rightarrow> (nat \<times> nat) list" where
  "cop_fields [] = []"
| "cop_fields (AddBits v n # xs) = (unat v mod 2 ^ n, n) # cop_fields xs"
| "cop_fields (AddBitsFast v n # xs) = (unat v, n) # cop_fields xs"
| "cop_fields (FlushBits # xs) = cop_fields xs"
| "cop_fields (FlushBitsFast # xs) = cop_fields xs"

fun fields_val :: "(nat \<times> nat) list \<Rightarrow> nat" where
  "fields_val [] = 0"
| "fields_val ((v, n) # fs) = v + 2 ^ n * fields_val fs"

fun fields_bits :: "(nat \<times> nat) list \<Rightarrow> nat" where
  "fields_bits [] = 0"
| "fields_bits ((v, n) # fs) = n + fields_bits fs"

lemma fields_val_append: "fields_val (fs @ gs) = fields_val fs + 2 ^ fields_bits fs * fields_val gs"
  by (induction fs) (auto simp: algebra_simps power_add)

lemma fields_bits_append: "fields_bits (fs @ gs) = fields_bits fs + fields_bits gs"
  by (induction fs) auto

definition fields_ok :: "(nat \<times> nat) list \<Rightarrow> bool" where
  "fields_ok fs \<longleftrightarrow> (\<forall>(v, n) \<in> set fs. v < 2 ^ n)"

lemma fields_val_bound: "fields_ok fs \<Longrightarrow> fields_val fs < 2 ^ fields_bits fs"
proof (induction fs)
  case (Cons f fs)
  obtain v n where f: "f = (v, n)" by (cases f)
  from Cons have v: "v < 2 ^ n" and r: "fields_val fs < 2 ^ fields_bits fs"
    by (auto simp: fields_ok_def f)
  have "v + 2 ^ n * fields_val fs < 2 ^ n * (fields_val fs + 1)" using v by simp
  also have "\<dots> \<le> 2 ^ n * 2 ^ fields_bits fs" using r by (intro mult_le_mono2) simp
  finally show ?case by (simp add: f power_add)
qed simp

text \<open>As long as the write pointer is below the end pointer, everything written is there.\<close>

definition c_written :: "BIT_CStream_t \<Rightarrow> (nat \<times> nat) list \<Rightarrow> bool" where
  "c_written cs fs \<longleftrightarrow>
     c_endPtr cs \<le> c_ptr cs \<or>
     c_inv cs \<and> c_val cs = fields_val fs \<and> c_bits cs = fields_bits fs"

lemma drop_bit_0_unat: "drop_bit n (v :: u64) = 0 \<Longrightarrow> unat v < 2 ^ n"
proof -
  assume "drop_bit n v = 0"
  then have "unat v div 2 ^ n = 0" using unat_drop_bit_word [of n v] by simp
  then show ?thesis by (simp add: div_eq_0_iff)
qed

lemma cop_step_written:
  assumes "c_written cs fs" and "cop_ok cs x"
  shows "c_written (cop_step cs x) (fs @ cop_fields [x])"
proof (cases "c_endPtr cs \<le> c_ptr cs")
  case True
  have "c_endPtr cs \<le> c_ptr (cop_step cs x)"
    using True by (cases x) (auto simp: BIT_flushBits_def BIT_flushBitsFast_def Let_def)
  then show ?thesis by (cases x) (auto simp: c_written_def)
next
  case False
  with assms(1) have w: "c_inv cs" "c_val cs = fields_val fs" "c_bits cs = fields_bits fs"
    by (auto simp: c_written_def)
  show ?thesis
  proof (cases x)
    case (AddBits v n)
    then show ?thesis
      using w assms(2) BIT_addBits_spec [of cs n v]
      by (simp add: c_written_def fields_val_append fields_bits_append)
  next
    case (AddBitsFast v n)
    then show ?thesis
      using w assms(2) BIT_addBitsFast_spec [of cs v n] drop_bit_0_unat [of n v]
      by (simp add: c_written_def fields_val_append fields_bits_append)
  next
    case FlushBits
    show ?thesis
    proof (cases "c_ptr cs + c_bitPos cs div 8 \<le> c_endPtr cs")
      case True
      then show ?thesis
        using w assms(2) FlushBits flush_core [of cs]
        by (simp add: c_written_def BIT_flushBits_eq)
    next
      case False
      then show ?thesis using FlushBits by (simp add: c_written_def BIT_flushBits_saturates)
    qed
  next
    case FlushBitsFast
    show ?thesis
    proof (cases "c_ptr cs + c_bitPos cs div 8 \<le> c_endPtr cs")
      case True
      then show ?thesis
        using w assms(2) FlushBitsFast flush_core [of cs] by (simp add: c_written_def)
    next
      case False
      then show ?thesis
        using FlushBitsFast by (simp add: c_written_def BIT_flushBitsFast_def Let_def)
    qed
  qed
qed

lemma cop_fields_Cons: "cop_fields (x # xs) = cop_fields [x] @ cop_fields xs"
  by (cases x) auto

lemma cop_fields_append: "cop_fields (xs @ ys) = cop_fields xs @ cop_fields ys"
  by (induction xs rule: cop_fields.induct) auto

lemma cop_run_written:
  "c_written cs fs \<Longrightarrow> cop_run_ok cs xs \<Longrightarrow>
   c_written (cop_run cs xs) (fs @ cop_fields xs) \<and> cop_run_ok (cop_run cs xs) []"
proof (induction xs arbitrary: cs fs)
  case (Cons x xs)
  then have "c_written (cop_step cs x) (fs @ cop_fields [x])"
    by (simp add: cop_step_written del: cop_fields.simps)
  from Cons.IH [OF this] Cons.prems show ?case
    by (simp only: cop_run.simps cop_run_ok.simps(2) cop_fields_Cons [of x xs] append_assoc)
qed simp

lemma flush_tail:
  assumes "c_inv cs" and "c_bitPos cs < 64" and "c_ptr cs \<le> c_endPtr cs"
  defines "cs' \<equiv> BIT_flushBitsFast cs"
  shows "le_val (take (Suc (c_ptr cs')) (c_buf cs')) = c_val cs"
proof -
  define p w k where "p = c_ptr cs" and "w = c_bitContainer cs" and "k = c_bitPos cs div 8"
  have k: "k < 8" using assms(2) by (simp add: k_def)
  have p: "p + 8 \<le> length (c_buf cs)" using assms by (simp add: p_def c_inv_def)
  have "unat w < 2 ^ c_bitPos cs" using assms(1) by (simp add: c_inv_def w_def)
  also have "(2::nat) ^ c_bitPos cs \<le> 2 ^ (8 * Suc k)"
    by (intro power_increasing) (simp_all add: k_def)
  finally have w: "unat w mod 256 ^ Suc k = unat w" by (simp only: pow256 mod_less)
  have "take (p + Suc k) (c_buf cs') = take p (c_buf cs) @ le_bytes (Suc k) (unat w)"
    unfolding cs'_def BIT_flushBitsFast_def Let_def
    using k p by (simp add: MEM_writeLEST_eq p_def [symmetric] w_def [symmetric]
        take_write_at_within take_le_bytes del: le_bytes.simps)
  then have "le_val (take (p + Suc k) (c_buf cs')) = le_val (take p (c_buf cs)) + 256 ^ p * unat w"
    using p by (simp only: le_val_append le_val_le_bytes w) simp
  moreover have "Suc (c_ptr cs') = p + Suc k"
    by (simp add: cs'_def BIT_flushBitsFast_def Let_def p_def k_def)
  ultimately show ?thesis by (simp only: c_val_def p_def w_def pow256)
qed

lemma BIT_closeCStream_spec:
  assumes w: "c_written cs fs" and ok: "cop_run_ok cs []"
    and close: "BIT_closeCStream cs = (sz, cs')" and "sz \<noteq> 0"
  shows "le_val (take sz (c_buf cs')) = fields_val fs + 2 ^ fields_bits fs"
    and "sz = Suc (fields_bits fs div 8)" and "sz \<le> length (c_buf cs')"
proof -
  define g where "g = BIT_addBitsFast cs 1 1"
  have g: "c_written g (fs @ [(1, 1)])"
    using cop_step_written [OF w, of "AddBitsFast 1 1"] ok by (simp add: g_def)
  have gpos: "c_bitPos g < 64" "c_ptr g \<le> c_endPtr g" using ok by (simp_all add: g_def)
  have cs': "cs' = BIT_flushBits g" and lt: "c_ptr cs' < c_endPtr cs'"
    and sz: "sz = c_ptr cs' + (if c_bitPos cs' > 0 then 1 else 0)"
    using close \<open>sz \<noteq> 0\<close> by (auto simp: BIT_closeCStream_def g_def Let_def split: if_splits)
  have fit: "c_ptr g + c_bitPos g div 8 \<le> c_endPtr g"
    using lt by (auto simp: cs' BIT_flushBits_def Let_def split: if_splits)
  then have fast: "cs' = BIT_flushBitsFast g" by (simp add: cs' BIT_flushBits_eq)
  have "c_ptr g < c_endPtr g" using lt by (simp add: fast BIT_flushBitsFast_def Let_def)
  with g have gi: "c_inv g" and gv: "c_val g = fields_val fs + 2 ^ fields_bits fs"
    and gb: "c_bits g = Suc (fields_bits fs)"
    by (auto simp: c_written_def fields_val_append fields_bits_append)
  note core = flush_core [OF gi gpos, folded fast]
  have fit8: "c_ptr g + c_bitPos g div 8 \<le> c_endPtr g + 8" using fit by simp
  note core = core [OF fit8]
  have bits: "8 * c_ptr cs' + c_bitPos cs' = Suc (fields_bits fs)"
    using core(3) gb by (simp add: c_bits_def)
  show "sz = Suc (fields_bits fs div 8)"
    using bits core(4) by (auto simp: sz)
  show "le_val (take sz (c_buf cs')) = fields_val fs + 2 ^ fields_bits fs"
  proof (cases "c_bitPos cs' > 0")
    case True
    then show ?thesis using flush_tail [OF gi gpos, folded fast] gv by (simp add: sz)
  next
    case False
    then have "c_bitContainer cs' = 0" using core(1) by (simp add: c_inv_def unat_eq_zero)
    then show ?thesis using core(2) gv False by (simp add: sz c_val_def)
  qed
  show "sz \<le> length (c_buf cs')"
    using lt core(1) by (auto simp: sz c_inv_def)
qed

end
