(* ===== verification/Zstd_FSE.thy ===== *)
theory Zstd_FSE
  imports Zstd_Bitstream
begin

text \<open>
  Finite State Entropy coding (\<open>fse.h\<close>, \<open>fse_decompress.c\<close>, \<open>fse_compress.c\<close>): the coding
  and decoding tables built from a normalized distribution, and one coding and one decoding
  step. The tables, which the C code packs into arrays of 32-bit cells, are records; a cell
  of 16 bits is a natural number reduced modulo \<open>2^16\<close> where it is stored. A distribution
  is an \<open>int list\<close> with one entry per symbol, where \<open>-1\<close> marks a symbol of probability less
  than one cell.
\<close>

subsection \<open>Constants\<close>

definition FSE_MAX_TABLELOG :: nat where "FSE_MAX_TABLELOG = 14 - 2"
definition FSE_MIN_TABLELOG :: nat where "FSE_MIN_TABLELOG = 5"
definition FSE_DEFAULT_TABLELOG :: nat where "FSE_DEFAULT_TABLELOG = 13 - 2"
definition FSE_TABLELOG_ABSOLUTE_MAX :: nat where "FSE_TABLELOG_ABSOLUTE_MAX = 15"
definition FSE_MAX_SYMBOL_VALUE :: nat where "FSE_MAX_SYMBOL_VALUE = 255"

definition FSE_TABLESTEP :: "nat \<Rightarrow> nat" where
  "FSE_TABLESTEP tableSize = tableSize div 2 + tableSize div 8 + 3"

definition FSE_BUILD_DTABLE_WKSP_SIZE :: "nat \<Rightarrow> nat \<Rightarrow> nat" where
  "FSE_BUILD_DTABLE_WKSP_SIZE maxTableLog maxSymbolValue =
     2 * (maxSymbolValue + 1) + 2 ^ maxTableLog + 8"

definition FSE_BUILD_CTABLE_WORKSPACE_SIZE :: "nat \<Rightarrow> nat \<Rightarrow> nat" where
  "FSE_BUILD_CTABLE_WORKSPACE_SIZE maxSymbolValue tableLog =
     4 * (((maxSymbolValue + 2) + 2 ^ tableLog) div 2 + 2)"

subsection \<open>Tables and states\<close>

record FSE_decode_t =
  newState :: nat
  symbol :: nat
  nbBits :: nat

record FSE_DTable =
  dt_tableLog :: nat
  dt_fastMode :: bool
  dt_cells :: "FSE_decode_t list"

record FSE_DState_t =
  ds_state :: nat
  ds_table :: "FSE_decode_t list"

record FSE_symbolCompressionTransform =
  deltaFindState :: int
  deltaNbBits :: u32

record FSE_CTable =
  ct_tableLog :: nat
  ct_maxSymbolValue :: nat
  ct_stateTable :: "nat list"
  ct_symbolTT :: "FSE_symbolCompressionTransform list"

record FSE_CState_t =
  cs_value :: nat
  cs_stateTable :: "nat list"
  cs_symbolTT :: "FSE_symbolCompressionTransform list"
  cs_stateLog :: nat

subsection \<open>Spreading the symbols over the table\<close>

text \<open>Low-probability symbols take the cells from the top of the table downwards. The
  threshold is an unsigned 32-bit counter.\<close>

fun fse_lay_low :: "int list \<Rightarrow> nat \<Rightarrow> nat list \<Rightarrow> nat \<Rightarrow> nat list \<times> nat" where
  "fse_lay_low [] s cells highThreshold = (cells, highThreshold)"
| "fse_lay_low (n # ns) s cells highThreshold =
     (if n = -1
      then fse_lay_low ns (Suc s) (cells[highThreshold := s mod 256])
             ((highThreshold + 2 ^ 32 - 1) mod 2 ^ 32)
      else fse_lay_low ns (Suc s) cells highThreshold)"

text \<open>Without low-probability symbols: lay the symbols down in order, eight bytes at a time,
  each store overwriting what the previous one wrote too much, then distribute them.\<close>

function fse_store_more :: "bytes \<Rightarrow> nat \<Rightarrow> nat \<Rightarrow> int \<Rightarrow> u64 \<Rightarrow> bytes" where
  "fse_store_more spread pos i n sv =
     (if int i < n then fse_store_more (MEM_write64 MEM_isLittleEndian spread (pos + i) sv) pos (i + 8) n sv
      else spread)"
  by pat_completeness auto
termination
  by (relation "measure (\<lambda>(spread, pos, i, n, sv). nat (n - int i))") auto

declare fse_store_more.simps [simp del]

fun fse_lay_down :: "int list \<Rightarrow> bytes \<Rightarrow> nat \<Rightarrow> u64 \<Rightarrow> bytes" where
  "fse_lay_down [] spread pos sv = spread"
| "fse_lay_down (n # ns) spread pos sv =
     fse_lay_down ns (fse_store_more (MEM_write64 MEM_isLittleEndian spread pos sv) pos 8 n sv)
       (pos + nat n) (sv + 0x0101010101010101)"

function fse_distribute :: "nat \<Rightarrow> nat \<Rightarrow> bytes \<Rightarrow> nat \<Rightarrow> nat \<Rightarrow> nat list \<Rightarrow> nat list" where
  "fse_distribute tableSize step spread s position cells =
     (if s < tableSize then
        (let cells = cells[(position + 0 * step) mod tableSize := unat (byte_at spread (s + 0))];
             cells = cells[(position + 1 * step) mod tableSize := unat (byte_at spread (s + 1))]
         in fse_distribute tableSize step spread (s + 2) ((position + 2 * step) mod tableSize) cells)
      else cells)"
  by pat_completeness auto
termination
  by (relation "measure (\<lambda>(tableSize, step, spread, s, position, cells). tableSize - s)") auto

declare fse_distribute.simps [simp del]

text \<open>With low-probability symbols: place one symbol at a time and step over the top of the
  table. The step visits every cell, so the inner loop ends within \<open>tableSize\<close> rounds.\<close>

fun fse_skip_low :: "nat \<Rightarrow> nat \<Rightarrow> nat \<Rightarrow> nat \<Rightarrow> nat \<Rightarrow> nat" where
  "fse_skip_low 0 tableSize step highThreshold position = position"
| "fse_skip_low (Suc fuel) tableSize step highThreshold position =
     (if position > highThreshold
      then fse_skip_low fuel tableSize step highThreshold ((position + step) mod tableSize)
      else position)"

definition fse_next_position :: "nat \<Rightarrow> nat \<Rightarrow> nat \<Rightarrow> nat \<Rightarrow> nat" where
  "fse_next_position tableSize step highThreshold position =
     fse_skip_low tableSize tableSize step highThreshold ((position + step) mod tableSize)"

fun fse_place :: "nat \<Rightarrow> nat \<Rightarrow> nat \<Rightarrow> nat \<Rightarrow> nat \<Rightarrow> nat \<times> nat list \<Rightarrow> nat \<times> nat list" where
  "fse_place tableSize step highThreshold s 0 (position, cells) = (position, cells)"
| "fse_place tableSize step highThreshold s (Suc i) (position, cells) =
     fse_place tableSize step highThreshold s i
       (fse_next_position tableSize step highThreshold position, cells[position := s mod 256])"

fun fse_place_all :: "nat \<Rightarrow> nat \<Rightarrow> nat \<Rightarrow> int list \<Rightarrow> nat \<Rightarrow> nat \<times> nat list \<Rightarrow> nat \<times> nat list" where
  "fse_place_all tableSize step highThreshold [] s pc = pc"
| "fse_place_all tableSize step highThreshold (n # ns) s pc =
     fse_place_all tableSize step highThreshold ns (Suc s)
       (fse_place tableSize step highThreshold s (nat n) pc)"

text \<open>The position at which the placement ends (0 in the first form) and the symbol of each
  cell. Both table builders contain these two loops.\<close>

definition fse_spread :: "int list \<Rightarrow> nat \<Rightarrow> nat \<times> nat list" where
  "fse_spread norm tableLog =
     (let tableSize = 2 ^ tableLog;
          step = FSE_TABLESTEP tableSize;
          (cells, highThreshold) = fse_lay_low norm 0 (replicate tableSize 0) (tableSize - 1)
      in if highThreshold = tableSize - 1
         then (0, fse_distribute tableSize step
                    (fse_lay_down norm (replicate (tableSize + 8) 0) 0 0) 0 0 cells)
         else fse_place_all tableSize step highThreshold norm 0 (0, cells))"

subsection \<open>Decoding table\<close>

definition fse_symbolNext :: "int list \<Rightarrow> nat list" where
  "fse_symbolNext norm = map (\<lambda>n. if n = -1 then 1 else nat (n mod 2 ^ 16)) norm"

fun fse_build_cells :: "nat \<Rightarrow> nat list \<Rightarrow> nat list \<Rightarrow> FSE_decode_t list" where
  "fse_build_cells tableLog [] symbolNext = []"
| "fse_build_cells tableLog (s # ss) symbolNext =
     (let nextState = symbolNext ! s;
          nb = tableLog - ZSTD_highbit32 (of_nat nextState)
      in \<lparr>newState = nat ((int (nextState * 2 ^ nb) - 2 ^ tableLog) mod 2 ^ 16), symbol = s, nbBits = nb\<rparr>
         # fse_build_cells tableLog ss (symbolNext[s := (nextState + 1) mod 2 ^ 16]))"

definition FSE_buildDTable_internal :: "int list \<Rightarrow> nat \<Rightarrow> nat \<Rightarrow> nat \<Rightarrow> FSE_DTable res" where
  "FSE_buildDTable_internal norm maxSymbolValue tableLog wkspSize =
     (if FSE_BUILD_DTABLE_WKSP_SIZE tableLog maxSymbolValue > wkspSize
        then Inl ZSTD_error_maxSymbolValue_tooLarge
      else if maxSymbolValue > FSE_MAX_SYMBOL_VALUE then Inl ZSTD_error_maxSymbolValue_tooLarge
      else if tableLog > FSE_MAX_TABLELOG then Inl ZSTD_error_tableLog_tooLarge
      else
        (let norm = take (maxSymbolValue + 1) norm;
             largeLimit = 2 ^ (tableLog - 1);
             fastMode = list_all (\<lambda>n. n = -1 \<or> n < largeLimit) norm;
             (position, cells) = fse_spread norm tableLog
         in if position \<noteq> 0 then Inl ZSTD_error_GENERIC
            else Inr \<lparr>dt_tableLog = tableLog, dt_fastMode = fastMode,
                      dt_cells = fse_build_cells tableLog cells (fse_symbolNext norm)\<rparr>))"

subsection \<open>Decoding steps\<close>

definition FSE_initDState :: "BIT_DStream_t \<Rightarrow> FSE_DTable \<Rightarrow> FSE_DState_t \<times> BIT_DStream_t" where
  "FSE_initDState bitD dt =
     (let (st, bitD) = BIT_readBits bitD (dt_tableLog dt);
          (_, bitD) = BIT_reloadDStream bitD
      in (\<lparr>ds_state = unat st, ds_table = dt_cells dt\<rparr>, bitD))"

definition FSE_peekSymbol :: "FSE_DState_t \<Rightarrow> nat" where
  "FSE_peekSymbol st = symbol (ds_table st ! ds_state st)"

definition FSE_updateState :: "FSE_DState_t \<Rightarrow> BIT_DStream_t \<Rightarrow> FSE_DState_t \<times> BIT_DStream_t" where
  "FSE_updateState st bitD =
     (let DInfo = ds_table st ! ds_state st;
          (lowBits, bitD) = BIT_readBits bitD (nbBits DInfo)
      in (st\<lparr>ds_state := newState DInfo + unat lowBits\<rparr>, bitD))"

definition FSE_decodeSymbol :: "FSE_DState_t \<Rightarrow> BIT_DStream_t \<Rightarrow> nat \<times> FSE_DState_t \<times> BIT_DStream_t" where
  "FSE_decodeSymbol st bitD =
     (let DInfo = ds_table st ! ds_state st;
          (lowBits, bitD) = BIT_readBits bitD (nbBits DInfo)
      in (symbol DInfo, st\<lparr>ds_state := newState DInfo + unat lowBits\<rparr>, bitD))"

definition FSE_decodeSymbolFast :: "FSE_DState_t \<Rightarrow> BIT_DStream_t \<Rightarrow> nat \<times> FSE_DState_t \<times> BIT_DStream_t" where
  "FSE_decodeSymbolFast st bitD =
     (let DInfo = ds_table st ! ds_state st;
          (lowBits, bitD) = BIT_readBitsFast bitD (nbBits DInfo)
      in (symbol DInfo, st\<lparr>ds_state := newState DInfo + unat lowBits\<rparr>, bitD))"

definition FSE_endOfDState :: "FSE_DState_t \<Rightarrow> bool" where
  "FSE_endOfDState st \<longleftrightarrow> ds_state st = 0"

subsection \<open>Coding table\<close>

fun fse_cumul :: "int list \<Rightarrow> nat \<Rightarrow> nat list" where
  "fse_cumul [] acc = [acc]"
| "fse_cumul (n # ns) acc =
     acc # fse_cumul ns ((if n = -1 then acc + 1 else acc + nat (n mod 2 ^ 16)) mod 2 ^ 16)"

fun fse_fill_states :: "nat \<Rightarrow> nat list \<Rightarrow> nat \<Rightarrow> nat list \<Rightarrow> nat list \<Rightarrow> nat list" where
  "fse_fill_states tableSize [] u cumul stateTable = stateTable"
| "fse_fill_states tableSize (s # ss) u cumul stateTable =
     fse_fill_states tableSize ss (Suc u) (cumul[s := (cumul ! s + 1) mod 2 ^ 16])
       (stateTable[cumul ! s := (tableSize + u) mod 2 ^ 16])"

fun fse_transforms :: "nat \<Rightarrow> int list \<Rightarrow> nat \<Rightarrow> FSE_symbolCompressionTransform list" where
  "fse_transforms tableLog [] tot = []"
| "fse_transforms tableLog (n # ns) tot =
     (if n = 0 then
        \<lparr>deltaFindState = 0, deltaNbBits = of_nat (tableLog + 1) * 2 ^ 16 - 2 ^ tableLog\<rparr>
        # fse_transforms tableLog ns tot
      else if n = -1 \<or> n = 1 then
        \<lparr>deltaFindState = int tot - 1, deltaNbBits = of_nat tableLog * 2 ^ 16 - 2 ^ tableLog\<rparr>
        # fse_transforms tableLog ns (tot + 1)
      else
        (let maxBitsOut = tableLog - ZSTD_highbit32 (of_int n - 1);
             minStatePlus = push_bit maxBitsOut (of_int n)
         in \<lparr>deltaFindState = int tot - n, deltaNbBits = of_nat maxBitsOut * 2 ^ 16 - minStatePlus\<rparr>
            # fse_transforms tableLog ns (tot + nat n)))"

definition FSE_buildCTable_wksp :: "int list \<Rightarrow> nat \<Rightarrow> nat \<Rightarrow> nat \<Rightarrow> FSE_CTable res" where
  "FSE_buildCTable_wksp norm maxSymbolValue tableLog wkspSize =
     (if FSE_BUILD_CTABLE_WORKSPACE_SIZE maxSymbolValue tableLog > wkspSize
        then Inl ZSTD_error_tableLog_tooLarge
      else
        (let norm = take (maxSymbolValue + 1) norm;
             tableSize = 2 ^ tableLog;
             cumul = (fse_cumul norm 0)[maxSymbolValue + 1 := (tableSize + 1) mod 2 ^ 16];
             (position, cells) = fse_spread norm tableLog
         in Inr \<lparr>ct_tableLog = tableLog, ct_maxSymbolValue = maxSymbolValue,
                 ct_stateTable = fse_fill_states tableSize cells 0 cumul (replicate tableSize 0),
                 ct_symbolTT = fse_transforms tableLog norm 0\<rparr>))"

definition FSE_buildCTable_rle :: "nat \<Rightarrow> FSE_CTable" where
  "FSE_buildCTable_rle symbolValue =
     \<lparr>ct_tableLog = 0, ct_maxSymbolValue = symbolValue, ct_stateTable = [0, 0],
      ct_symbolTT = replicate (symbolValue + 1) \<lparr>deltaFindState = 0, deltaNbBits = 0\<rparr>\<rparr>"

subsection \<open>Coding steps\<close>

definition FSE_initCState :: "FSE_CTable \<Rightarrow> FSE_CState_t" where
  "FSE_initCState ct =
     \<lparr>cs_value = 2 ^ ct_tableLog ct, cs_stateTable = ct_stateTable ct,
      cs_symbolTT = ct_symbolTT ct, cs_stateLog = ct_tableLog ct\<rparr>"

definition FSE_initCState2 :: "FSE_CTable \<Rightarrow> nat \<Rightarrow> FSE_CState_t" where
  "FSE_initCState2 ct s =
     (let st = FSE_initCState ct;
          tt = cs_symbolTT st ! s;
          nbBitsOut = unat (drop_bit 16 (deltaNbBits tt + 2 ^ 15));
          value = unat (push_bit 16 (of_nat nbBitsOut) - deltaNbBits tt)
      in st\<lparr>cs_value := cs_stateTable st ! nat (int (value div 2 ^ nbBitsOut) + deltaFindState tt)\<rparr>)"

definition FSE_encodeSymbol ::
    "BIT_CStream_t \<Rightarrow> FSE_CState_t \<Rightarrow> nat \<Rightarrow> BIT_CStream_t \<times> FSE_CState_t" where
  "FSE_encodeSymbol bitC st s =
     (let tt = cs_symbolTT st ! s;
          nbBitsOut = (cs_value st + unat (deltaNbBits tt)) div 2 ^ 16
      in (BIT_addBits bitC (of_nat (cs_value st)) nbBitsOut,
          st\<lparr>cs_value := cs_stateTable st ! nat (int (cs_value st div 2 ^ nbBitsOut) + deltaFindState tt)\<rparr>))"

definition FSE_flushCState :: "BIT_CStream_t \<Rightarrow> FSE_CState_t \<Rightarrow> BIT_CStream_t" where
  "FSE_flushCState bitC st = BIT_flushBits (BIT_addBits bitC (of_nat (cs_value st)) (cs_stateLog st))"

definition FSE_getMaxNbBits :: "FSE_symbolCompressionTransform list \<Rightarrow> nat \<Rightarrow> nat" where
  "FSE_getMaxNbBits symbolTT s = unat (drop_bit 16 (deltaNbBits (symbolTT ! s) + (2 ^ 16 - 1)))"

definition FSE_bitCost :: "FSE_symbolCompressionTransform list \<Rightarrow> nat \<Rightarrow> nat \<Rightarrow> nat \<Rightarrow> u32" where
  "FSE_bitCost symbolTT tableLog s accuracyLog =
     (let minNbBits = drop_bit 16 (deltaNbBits (symbolTT ! s));
          threshold = push_bit 16 (minNbBits + 1);
          tableSize = push_bit tableLog 1;
          deltaFromThreshold = threshold - (deltaNbBits (symbolTT ! s) + tableSize);
          normalizedDeltaFromThreshold = drop_bit tableLog (push_bit accuracyLog deltaFromThreshold);
          bitMultiplier = push_bit accuracyLog 1
      in (minNbBits + 1) * bitMultiplier - normalizedDeltaFromThreshold)"

end
