(* ===== verification/Zstd_FSE_Spread.thy ===== *)
theory Zstd_FSE_Spread
  imports Zstd_FSE "HOL-Library.Multiset"
begin

text \<open>
  The symbol spread of the FSE tables. Both forms of the loop, the unrolled one that lays the
  symbols down eight bytes at a time and the one that steps over the low-probability cells,
  give every symbol as many cells as the distribution says, because the step is odd and so
  visits each cell of the table once.
\<close>

subsection \<open>Distributions\<close>

definition fse_cells_of :: "int \<Rightarrow> nat" where
  "fse_cells_of n = (if n = -1 then 1 else nat n)"

definition fse_norm_ok :: "int list \<Rightarrow> nat \<Rightarrow> bool" where
  "fse_norm_ok norm tableLog \<longleftrightarrow>
     list_all (\<lambda>n. -1 \<le> n) norm \<and> sum_list (map fse_cells_of norm) = 2 ^ tableLog \<and>
     length norm \<le> 256"

fun fse_lows :: "int list \<Rightarrow> nat \<Rightarrow> nat list" where
  "fse_lows [] s = []"
| "fse_lows (n # ns) s = (if n = -1 then [s] else []) @ fse_lows ns (Suc s)"

fun fse_seq :: "int list \<Rightarrow> nat \<Rightarrow> nat list" where
  "fse_seq [] s = []"
| "fse_seq (n # ns) s = replicate (nat n) s @ fse_seq ns (Suc s)"

lemma length_lows_seq:
  "length (fse_lows ns s) + length (fse_seq ns s) = sum_list (map fse_cells_of ns)"
  by (induction ns arbitrary: s) (auto simp: fse_cells_of_def)

lemma set_lows_seq: "set (fse_lows ns s) \<union> set (fse_seq ns s) \<subseteq> {s..<s + length ns}"
proof (induction ns arbitrary: s)
  case (Cons n ns)
  show ?case using Cons [of "Suc s"] by (force simp: atLeastLessThan_def split: if_splits)
qed simp

lemma count_lows_seq:
  "count (mset (fse_lows ns s) + mset (fse_seq ns s)) x =
     (if s \<le> x \<and> x < s + length ns then fse_cells_of (ns ! (x - s)) else 0)"
proof (induction ns arbitrary: s)
  case (Cons n ns)
  have eq: "count (mset (fse_lows (n # ns) s) + mset (fse_seq (n # ns) s)) x =
      (if x = s then fse_cells_of n else 0) + count (mset (fse_lows ns (Suc s)) + mset (fse_seq ns (Suc s))) x"
    by (auto simp: fse_cells_of_def)
  show ?case unfolding eq Cons.IH by (auto simp: nth_Cons')
qed simp

lemma fse_no_lows:
  "list_all (\<lambda>n. -1 \<le> n) ns \<Longrightarrow> fse_lows ns s = [] \<Longrightarrow> list_all (\<lambda>n. 0 \<le> n) ns"
  by (induction ns arbitrary: s) (auto split: if_splits)

subsection \<open>The walk\<close>

definition fse_walk :: "nat \<Rightarrow> nat \<Rightarrow> nat \<Rightarrow> nat" where
  "fse_walk tableSize step i = (i * step) mod tableSize"

lemma fse_walk_0 [simp]: "fse_walk T step 0 = 0"
  by (simp add: fse_walk_def)

lemma fse_walk_self [simp]: "fse_walk T step T = 0"
  by (simp add: fse_walk_def)

lemma fse_walk_add: "(fse_walk T step i + k * step) mod T = fse_walk T step (i + k)"
  by (simp add: fse_walk_def mod_add_left_eq add_mult_distrib)

lemma fse_walk_less: "0 < T \<Longrightarrow> fse_walk T step i < T"
  by (simp add: fse_walk_def)

lemma fse_walk_inj:
  assumes "coprime step T"
  shows "inj_on (fse_walk T step) {..<T}"
proof -
  have *: "j = i" if "i \<le> j" "j < T" "fse_walk T step i = fse_walk T step j" for i j
  proof -
    have "T dvd j * step - i * step"
      using that mod_eq_dvd_iff_nat [of "i * step" "j * step" T] by (simp add: fse_walk_def)
    then have "T dvd (j - i) * step" by (simp add: diff_mult_distrib)
    then have "T dvd j - i"
      using assms by (simp add: coprime_commute coprime_dvd_mult_left_iff)
    with that show ?thesis by (auto dest: dvd_imp_le)
  qed
  show ?thesis
    by (rule inj_onI) (metis * lessThan_iff nat_le_linear)
qed

lemma fse_walk_bij:
  assumes "coprime step T" "0 < T"
  shows "fse_walk T step ` {..<T} = {..<T}"
  by (rule card_subset_eq)
     (auto simp: card_image [OF fse_walk_inj [OF assms(1)]] fse_walk_less [OF assms(2)])

lemma FSE_TABLESTEP_odd: "3 < k \<Longrightarrow> odd (FSE_TABLESTEP (2 ^ k))"
proof -
  assume "3 < k"
  then have "4 \<le> k" by simp
  then obtain j where k: "k = 4 + j" using le_Suc_ex by blast
  have "(2::nat) ^ k div 2 = 2 * (2 ^ j * 4)" "(2::nat) ^ k div 8 = 2 * 2 ^ j"
    by (simp_all add: k power_add)
  then show ?thesis by (simp add: FSE_TABLESTEP_def)
qed

lemma FSE_TABLESTEP_coprime: "3 < k \<Longrightarrow> coprime (FSE_TABLESTEP (2 ^ k)) (2 ^ k)"
  using FSE_TABLESTEP_odd [of k] by simp

subsection \<open>Writing a list of values through distinct indices\<close>

definition put_all :: "'a list \<Rightarrow> nat list \<Rightarrow> 'a list \<Rightarrow> 'a list" where
  "put_all cells ps xs = foldl (\<lambda>c (p, x). c[p := x]) cells (zip ps xs)"

lemma put_all_simps [simp]:
  "put_all cells [] xs = cells"
  "put_all cells ps [] = cells"
  "put_all cells (p # ps) (x # xs) = put_all (cells[p := x]) ps xs"
  by (simp_all add: put_all_def)

lemma length_put_all [simp]: "length (put_all cells ps xs) = length cells"
  by (induction ps xs arbitrary: cells rule: list_induct2') auto

lemma put_all_other: "i \<notin> set ps \<Longrightarrow> put_all cells ps xs ! i = cells ! i"
  by (induction ps xs arbitrary: cells rule: list_induct2') auto

lemma put_all_at:
  assumes "length ps = length xs" "distinct ps" "set ps \<subseteq> {..<length cells}"
  shows "map ((!) (put_all cells ps xs)) ps = xs"
  using assms
  by (induction ps xs arbitrary: cells rule: list_induct2) (auto simp: put_all_other)

lemma mset_put_all:
  assumes "length ps = length xs" "distinct ps" "set ps = {..<h}" "h \<le> length cells"
  shows "mset (put_all cells ps xs) = mset xs + mset (drop h cells)"
proof -
  let ?c = "put_all cells ps xs"
  have "mset [0..<h] = mset ps"
    using set_eq_iff_mset_eq_distinct [OF distinct_upt assms(2), of 0 h] assms(3)
    by (simp add: atLeast0LessThan)
  then have "mset (map ((!) ?c) [0..<h]) = mset (map ((!) ?c) ps)" by (metis mset_map)
  moreover have "take h ?c = map ((!) ?c) [0..<h]"
    using assms(4) by (intro nth_equalityI) auto
  moreover have "map ((!) ?c) ps = xs" using assms by (intro put_all_at) auto
  ultimately have "mset (take h ?c) = mset xs" by simp
  moreover have "drop h ?c = drop h cells"
    using assms(3) by (intro nth_equalityI) (auto simp: put_all_other)
  ultimately show ?thesis by (metis append_take_drop_id mset_append)
qed

subsection \<open>Low-probability symbols\<close>

lemma fse_lay_low_spec:
  assumes "length (fse_lows ns s) \<le> h" "h \<le> length cells" "h < 2 ^ 32" "s + length ns \<le> 256"
  shows "fse_lay_low ns s cells ((h + 2 ^ 32 - 1) mod 2 ^ 32) =
     (take (h - length (fse_lows ns s)) cells @ rev (fse_lows ns s) @ drop h cells,
      (h - length (fse_lows ns s) + 2 ^ 32 - 1) mod 2 ^ 32)"
  using assms
proof (induction ns arbitrary: s cells h)
  case (Cons n ns)
  show ?case
  proof (cases "n = -1")
    case True
    with Cons.prems have h: "0 < h" and len: "length (fse_lows ns (Suc s)) \<le> h - 1" by auto
    have pred: "(h + 2 ^ 32 - 1) mod 2 ^ 32 = h - 1"
      using h Cons.prems(3) by (simp add: mod_if)
    have dr: "drop (h - 1) (cells[h - 1 := s]) = s # drop h cells"
      using h Cons.prems(2) by (simp add: drop_update_swap flip: Cons_nth_drop_Suc)
    have IH: "fse_lay_low ns (Suc s) (cells[h - 1 := s]) ((h - 1 + 2 ^ 32 - 1) mod 2 ^ 32) =
       (take (h - 1 - length (fse_lows ns (Suc s))) (cells[h - 1 := s]) @ rev (fse_lows ns (Suc s)) @
          drop (h - 1) (cells[h - 1 := s]),
        (h - 1 - length (fse_lows ns (Suc s)) + 2 ^ 32 - 1) mod 2 ^ 32)"
      using Cons.prems len by (intro Cons.IH) auto
    show ?thesis using True IH Cons.prems(4) pred dr by simp
  next
    case False
    with Cons.prems show ?thesis using Cons.IH [of "Suc s" h cells] by simp
  qed
qed simp

subsection \<open>Placing with steps over the low-probability cells\<close>

definition fse_hits :: "nat \<Rightarrow> nat \<Rightarrow> nat \<Rightarrow> nat \<Rightarrow> nat list" where
  "fse_hits T step hT i = filter (\<lambda>j. fse_walk T step j \<le> hT) [i..<T]"

definition fse_hit :: "nat \<Rightarrow> nat \<Rightarrow> nat \<Rightarrow> nat \<Rightarrow> nat" where
  "fse_hit T step hT i = (case fse_hits T step hT i of [] \<Rightarrow> T | j # _ \<Rightarrow> j)"

lemma fse_hits_step:
  "fse_hits T step hT i =
     (if i < T then (if fse_walk T step i \<le> hT then [i] else []) @ fse_hits T step hT (Suc i) else [])"
  by (simp add: fse_hits_def upt_conv_Cons)

lemma fse_hits_end [simp]: "fse_hits T step hT T = []"
  by (simp add: fse_hits_def)

lemma fse_hits_hit: "fse_hits T step hT (fse_hit T step hT i) = fse_hits T step hT i"
proof (induction "T - i" arbitrary: i)
  case (Suc k)
  then have "fse_hits T step hT (fse_hit T step hT (Suc i)) = fse_hits T step hT (Suc i)" "i < T" by auto
  then show ?case by (auto simp: fse_hit_def fse_hits_step [of T step hT i])
qed (auto simp: fse_hit_def fse_hits_def)

lemma fse_hit_bounds: "fse_walk T step (fse_hit T step hT i) \<le> hT \<and> fse_hit T step hT i \<le> T"
proof (cases "fse_hits T step hT i")
  case (Cons j js)
  then have "j \<in> set (filter (\<lambda>j. fse_walk T step j \<le> hT) [i..<T])"
    unfolding fse_hits_def by (metis list.set_intros(1))
  with Cons show ?thesis by (simp add: fse_hit_def)
qed (simp add: fse_hit_def)

lemma fse_skip_low_spec:
  "\<lbrakk>i \<le> T; T - i \<le> fuel\<rbrakk> \<Longrightarrow>
     fse_skip_low fuel T step hT (fse_walk T step i) = fse_walk T step (fse_hit T step hT i)"
proof (induction fuel arbitrary: i)
  case (Suc fuel)
  show ?case
  proof (cases "fse_walk T step i \<le> hT")
    case True
    then show ?thesis using Suc.prems
      by (cases "i < T") (auto simp: fse_hit_def fse_hits_step [of T step hT i])
  next
    case False
    with Suc.prems have "i < T" by (cases "i = T") auto
    with False Suc show ?thesis
      using fse_walk_add [of T step i 1] by (simp add: fse_hit_def fse_hits_step [of T step hT i])
  qed
qed (simp add: fse_hit_def fse_hits_def)

lemma fse_next_position_spec:
  assumes "i < T"
  shows "fse_next_position T step hT (fse_walk T step i) = fse_walk T step (fse_hit T step hT (Suc i))"
  using assms fse_walk_add [of T step i 1] fse_skip_low_spec [of "Suc i" T T step hT]
  by (simp add: fse_next_position_def)

definition fse_put :: "nat \<Rightarrow> nat \<Rightarrow> nat \<Rightarrow> nat \<times> nat list \<Rightarrow> nat \<Rightarrow> nat \<times> nat list" where
  "fse_put T step hT pc s = (fse_next_position T step hT (fst pc), (snd pc)[fst pc := s])"

lemma fse_place_foldl:
  assumes "s < 256"
  shows "fse_place T step hT s m pc = foldl (fse_put T step hT) pc (replicate m s)"
proof -
  have "fse_place T step hT s m (p, c) = foldl (fse_put T step hT) (p, c) (replicate m s)" for p c
    using assms by (induction m arbitrary: p c) (simp_all add: fse_put_def)
  then show ?thesis by (cases pc) simp
qed

lemma fse_place_all_foldl:
  "s + length ns \<le> 256 \<Longrightarrow>
     fse_place_all T step hT ns s pc = foldl (fse_put T step hT) pc (fse_seq ns s)"
  by (induction ns arbitrary: s pc) (simp_all add: fse_place_foldl)

lemma foldl_fse_put:
  assumes "length ss \<le> length (fse_hits T step hT i)" "i \<le> T" "fse_walk T step i \<le> hT"
  shows "foldl (fse_put T step hT) (fse_walk T step i, cells) ss =
     (fse_walk T step (case drop (length ss) (fse_hits T step hT i) of [] \<Rightarrow> T | j # _ \<Rightarrow> j),
      put_all cells (map (fse_walk T step) (take (length ss) (fse_hits T step hT i))) ss)"
  using assms
proof (induction ss arbitrary: i cells)
  case Nil
  then show ?case by (cases "i < T") (auto simp: fse_hits_step [of T step hT i])
next
  case (Cons s ss)
  then have i: "i < T" by (cases "i < T") (auto simp: fse_hits_def)
  let ?j = "fse_hit T step hT (Suc i)"
  have hits: "fse_hits T step hT i = i # fse_hits T step hT ?j"
    using i Cons.prems by (simp add: fse_hits_step [of T step hT i] fse_hits_hit)
  show ?case
    using Cons.IH [of ?j "cells[fse_walk T step i := s]"] Cons.prems hits
    by (simp add: fse_put_def fse_next_position_spec [OF i] fse_hit_bounds)
qed

lemma fse_hits_positions:
  assumes "coprime step T" "0 < T" "hT < T"
  defines "ps \<equiv> map (fse_walk T step) (fse_hits T step hT 0)"
  shows "distinct ps \<and> set ps = {..<Suc hT}"
proof
  have sub: "set (fse_hits T step hT 0) \<subseteq> {..<T}" by (auto simp: fse_hits_def)
  then show "distinct ps"
    unfolding ps_def distinct_map
    using inj_on_subset [OF fse_walk_inj [OF assms(1)]] by (simp add: fse_hits_def)
  have "set ps = fse_walk T step ` {j. j < T \<and> fse_walk T step j \<le> hT}"
    by (simp add: ps_def fse_hits_def conj_commute)
  also have "\<dots> = {x \<in> fse_walk T step ` {..<T}. x \<le> hT}" by blast
  also have "\<dots> = {..<Suc hT}"
    unfolding fse_walk_bij [OF assms(1,2)] using assms(3) by (simp add: set_eq_iff, linarith)
  finally show "set ps = {..<Suc hT}" .
qed

subsection \<open>The unrolled form\<close>

lemma fse_distribute_spec:
  assumes "even T" "even s" "s \<le> T"
  shows "fse_distribute T step spread s (fse_walk T step s) cells =
     put_all cells (map (fse_walk T step) [s..<T]) (map (\<lambda>i. unat (byte_at spread i)) [s..<T])"
  using assms(2,3)
proof (induction "T - s" arbitrary: s cells rule: less_induct)
  case less
  show ?case
  proof (cases "s < T")
    case True
    with less.prems assms(1) have T: "Suc s < T" by (metis Suc_lessI even_Suc)
    then have upt: "[s..<T] = s # Suc s # [s + 2..<T]" by (simp add: upt_conv_Cons)
    show ?thesis
      using T less.hyps [of "s + 2"] less.prems
      by (simp add: fse_distribute.simps [of T step spread s] upt fse_walk_add Let_def
            fse_walk_add [of T step s 1, simplified] fse_walk_add [of T step s 0, simplified]
            fse_walk_add [of T step s 2, simplified])
  next
    case False
    then show ?thesis by (simp add: fse_distribute.simps [of T step spread s])
  qed
qed

lemma le_val_replicate: "255 * le_val (replicate n b) + unat b = unat b * 256 ^ n"
  by (induction n) auto

lemma MEM_write64_fill:
  assumes "s < 256"
  shows "MEM_write64 MEM_isLittleEndian buf p (of_nat s * 0x0101010101010101) =
     write_at buf p (replicate 8 (of_nat s))"
proof -
  have u: "unat (of_nat s * 0x0101010101010101 :: u64) = s * 0x0101010101010101"
    using assms unat_of_nat_id [of "s * 0x0101010101010101", where 'a = 64] by simp
  have "unat (of_nat s :: byte) = s"
    using assms by (simp add: unat_of_nat_id)
  then have "le_val (replicate 8 (of_nat s)) = s * 0x0101010101010101"
    using le_val_replicate [of 8 "of_nat s"] by simp
  then have "le_bytes 8 (s * 0x0101010101010101) = replicate 8 (of_nat s)"
    by (metis le_bytes_le_val length_replicate)
  then show ?thesis
    by (simp add: MEM_write64_def native_bytes_def MEM_isLittleEndian_def u)
qed

lemma fse_store_more_spec:
  assumes "s < 256" "pos + nat n + 8 \<le> length buf"
  shows "length (fse_store_more buf pos i n (of_nat s * 0x0101010101010101)) = length buf \<and>
    (\<forall>k < pos + max i (nat n). fse_store_more buf pos i n (of_nat s * 0x0101010101010101) ! k =
       (if k < pos + i then buf ! k else of_nat s))"
  using assms(2)
proof (induction "nat n - i" arbitrary: buf i rule: less_induct)
  case less
  show ?case
  proof (cases "int i < n")
    case True
    let ?b = "write_at buf (pos + i) (replicate 8 (of_nat s))"
    have step: "fse_store_more buf pos i n (of_nat s * 0x0101010101010101) =
        fse_store_more ?b pos (i + 8) n (of_nat s * 0x0101010101010101)"
      using True by (simp add: fse_store_more.simps [of buf] MEM_write64_fill [OF assms(1)])
    have len: "length ?b = length buf" using less.prems True by simp
    have "length (fse_store_more ?b pos (i + 8) n (of_nat s * 0x0101010101010101)) = length ?b \<and>
      (\<forall>k < pos + max (i + 8) (nat n).
         fse_store_more ?b pos (i + 8) n (of_nat s * 0x0101010101010101) ! k =
           (if k < pos + (i + 8) then ?b ! k else of_nat s))"
      using less.prems True by (intro less.hyps) (auto simp: len)
    then show ?thesis
      unfolding step using less.prems True by (auto simp: nth_write_at)
  next
    case False
    then show ?thesis by (simp add: fse_store_more.simps [of buf])
  qed
qed

lemma fse_lay_down_spec:
  assumes "list_all (\<lambda>n. 0 \<le> n) ns" "s + length ns \<le> 256"
    "pos + length (fse_seq ns s) + 8 \<le> length buf"
  shows "length (fse_lay_down ns buf pos (of_nat s * 0x0101010101010101)) = length buf \<and>
     take (pos + length (fse_seq ns s)) (fse_lay_down ns buf pos (of_nat s * 0x0101010101010101)) =
     take pos buf @ map of_nat (fse_seq ns s)"
  using assms
proof (induction ns arbitrary: buf pos s)
  case (Cons n ns)
  let ?sv = "of_nat s * 0x0101010101010101 :: u64"
  let ?b = "write_at buf pos (replicate 8 (of_nat s))"
  let ?r = "fse_store_more ?b pos 8 n ?sv"
  let ?n = "nat n"
  have s: "s < 256" and room: "pos + ?n + length (fse_seq ns (Suc s)) + 8 \<le> length buf"
    using Cons.prems by auto
  have r: "length ?r = length buf"
      "\<forall>k < pos + max 8 ?n. ?r ! k = (if k < pos + 8 then ?b ! k else of_nat s)"
    using fse_store_more_spec [OF s, of pos n ?b 8] room by auto
  have tk: "take (pos + ?n) ?r = take pos buf @ replicate ?n (of_nat s)"
    using r room by (intro nth_equalityI) (auto simp: nth_write_at nth_append)
  have sv: "?sv + 0x0101010101010101 = of_nat (Suc s) * 0x0101010101010101"
    by (simp add: algebra_simps)
  have "length (fse_lay_down ns ?r (pos + ?n) (of_nat (Suc s) * 0x0101010101010101)) = length ?r \<and>
     take (pos + ?n + length (fse_seq ns (Suc s)))
       (fse_lay_down ns ?r (pos + ?n) (of_nat (Suc s) * 0x0101010101010101)) =
     take (pos + ?n) ?r @ map of_nat (fse_seq ns (Suc s))"
    using Cons.prems room r(1) by (intro Cons.IH) auto
  then show ?case
    unfolding fse_lay_down.simps MEM_write64_fill [OF s] sv
    using tk r(1) by (simp add: map_replicate_const add.assoc)
qed simp

subsection \<open>Every symbol gets its share of the cells\<close>

lemma fse_unrolled_mset:
  assumes "coprime step T" "0 < T" "even T" "list_all (\<lambda>n. 0 \<le> n) norm" "length norm \<le> 256"
    "length (fse_seq norm 0) = T" "length cells = T"
  shows "mset (fse_distribute T step (fse_lay_down norm (replicate (T + 8) 0) 0 0) 0 0 cells) =
    mset (fse_seq norm 0)"
proof -
  let ?buf = "fse_lay_down norm (replicate (T + 8) 0) 0 0"
  have buf: "length ?buf = T + 8" "take T ?buf = map of_nat (fse_seq norm 0)"
    using fse_lay_down_spec [of norm 0 0 "replicate (T + 8) 0"] assms(4-6) by auto
  have "unat (byte_at ?buf i) = fse_seq norm 0 ! i" if "i < T" for i
  proof -
    have "?buf ! i = of_nat (fse_seq norm 0 ! i)"
      using that buf assms(6) by (metis nth_map nth_take)
    moreover have "fse_seq norm 0 ! i < 256"
    proof -
      have "fse_seq norm 0 ! i \<in> set (fse_seq norm 0)" using that assms(6) by simp
      then have "fse_seq norm 0 ! i \<in> {0..<length norm}" using set_lows_seq [of norm 0] by auto
      then show ?thesis using assms(5) by simp
    qed
    ultimately show ?thesis using that buf(1) by (simp add: byte_at_def unat_of_nat_id)
  qed
  then have vals: "map (\<lambda>i. unat (byte_at ?buf i)) [0..<T] = fse_seq norm 0"
    using assms(6) by (intro nth_equalityI) auto
  have "distinct (map (fse_walk T step) [0..<T])" "set (map (fse_walk T step) [0..<T]) = {..<T}"
    using fse_walk_inj [OF assms(1)] fse_walk_bij [OF assms(1,2)]
    by (simp_all add: distinct_map atLeast0LessThan)
  then show ?thesis
    using fse_distribute_spec [of T 0 step ?buf cells] assms(3,6,7) mset_put_all [of _ "fse_seq norm 0" T cells]
    by (simp add: vals)
qed

lemma fse_placed_mset:
  assumes "coprime step T" "hT < T" "length norm \<le> 256"
    "length (fse_seq norm 0) = Suc hT" "length cells = T"
  shows "fst (fse_place_all T step hT norm 0 (0, cells)) = 0 \<and>
    mset (snd (fse_place_all T step hT norm 0 (0, cells))) =
      mset (fse_seq norm 0) + mset (drop (Suc hT) cells)"
proof -
  let ?ps = "map (fse_walk T step) (fse_hits T step hT 0)"
  have ps: "distinct ?ps" "set ?ps = {..<Suc hT}"
    using fse_hits_positions [OF assms(1) _ assms(2)] assms(2) by simp_all
  then have len: "length (fse_hits T step hT 0) = Suc hT"
    using distinct_card [OF ps(1)] by simp
  show ?thesis
    using foldl_fse_put [of "fse_seq norm 0" T step hT 0 cells] len assms ps
    by (simp add: fse_place_all_foldl mset_put_all)
qed

lemma fse_spread_spec:
  assumes "fse_norm_ok norm k" "3 < k" "k < 32"
  shows "fst (fse_spread norm k) = 0 \<and>
    mset (snd (fse_spread norm k)) = mset (fse_lows norm 0) + mset (fse_seq norm 0)"
proof -
  let ?T = "2 ^ k :: nat" and ?l = "length (fse_lows norm 0)"
  note co = FSE_TABLESTEP_coprime [OF assms(2)]
  have T: "0 < ?T" "even ?T" "?T < 2 ^ 32" 
    using assms(2,3) power_strict_increasing [of k 32 "2::nat"] by auto
  have len: "?l + length (fse_seq norm 0) = ?T" "length norm \<le> 256" "list_all (\<lambda>n. -1 \<le> n) norm"
    using assms(1) by (auto simp: fse_norm_ok_def length_lows_seq)
  have start: "(?T + 2 ^ 32 - 1) mod 2 ^ 32 = ?T - 1" using T by (simp add: mod_if)
  define hT where "hT = (?T - ?l + 2 ^ 32 - 1) mod 2 ^ 32"
  let ?c = "take (?T - ?l) (replicate ?T 0) @ rev (fse_lows norm 0)"
  have lay: "fse_lay_low norm 0 (replicate ?T 0) (?T - 1) = (?c, hT)"
    using fse_lay_low_spec [of norm 0 ?T "replicate ?T 0"] T len start by (simp add: hT_def)
  have hT: "hT = (if ?l = ?T then 2 ^ 32 - 1 else ?T - ?l - 1)"
    using T len(1) by (auto simp: hT_def mod_if)
  consider (none) "?l = 0" | (some) "0 < ?l" "?l < ?T" | (full) "?l = ?T" using len(1) by linarith
  then show ?thesis
  proof cases
    case none
    then have "list_all (\<lambda>n. 0 \<le> n) norm"
      using fse_no_lows [OF len(3), of 0] by simp
    then show ?thesis
      using none lay hT T len fse_unrolled_mset [OF co T(1,2), of norm "replicate ?T 0"]
      by (simp add: fse_spread_def Let_def)
  next
    case some
    then have hT': "hT = ?T - ?l - 1" using hT by simp
    then have "hT < ?T" "length (fse_seq norm 0) = Suc hT" "hT \<noteq> ?T - 1" using some len(1) by linarith+
    moreover have "drop (Suc hT) ?c = rev (fse_lows norm 0)" using some hT' by simp
    ultimately show ?thesis
      using fse_placed_mset [OF co, of hT norm ?c] len lay by (simp add: fse_spread_def Let_def)
  next
    case full
    then have "fse_seq norm 0 = []" "hT \<noteq> ?T - 1" using len(1) hT T by auto
    then show ?thesis
      using full lay len(2) by (simp add: fse_spread_def Let_def fse_place_all_foldl)
  qed
qed

lemma fse_spread_count:
  assumes "fse_norm_ok norm k" "3 < k" "k < 32"
  shows "length (snd (fse_spread norm k)) = 2 ^ k"
    "count (mset (snd (fse_spread norm k))) s = (if s < length norm then fse_cells_of (norm ! s) else 0)"
    "set (snd (fse_spread norm k)) \<subseteq> {..<length norm}"
proof -
  note spec = fse_spread_spec [OF assms, THEN conjunct2]
  show "length (snd (fse_spread norm k)) = 2 ^ k"
    using arg_cong [OF spec, of size] length_lows_seq [of norm 0] assms(1) by (simp add: fse_norm_ok_def)
  show "count (mset (snd (fse_spread norm k))) s = (if s < length norm then fse_cells_of (norm ! s) else 0)"
    unfolding spec using count_lows_seq [of norm 0 s] by simp
  show "set (snd (fse_spread norm k)) \<subseteq> {..<length norm}"
    using arg_cong [OF spec, of set_mset] set_lows_seq [of norm 0] by auto
qed

end
