(* ===== verification/Zstd_Bit_Channel.thy ===== *)
theory Zstd_Bit_Channel
  imports Zstd_Bitstream
begin

text \<open>
  The reader of \<open>bitstream.h\<close> against its contract, and the two ends together. The source
  bytes are one little-endian number; the reader's position is the number of bits it has
  not consumed. A field of \<open>n\<close> bits read at position \<open>r\<close> is the bit field
  \<open>[r - n, r)\<close> of that number, a reload changes the register and not the position, and
  the fields come back in the reverse of the order in which they were written.
\<close>

subsection \<open>The reader's position\<close>

definition d_val :: "BIT_DStream_t \<Rightarrow> nat" where
  "d_val ds = le_val (d_src ds)"

definition d_rem :: "BIT_DStream_t \<Rightarrow> nat" where
  "d_rem ds = 8 * d_ptr ds + 64 - d_bitsConsumed ds"

definition d_inv :: "BIT_DStream_t \<Rightarrow> bool" where
  "d_inv ds \<longleftrightarrow>
     \<not> d_zeroFilled ds \<and> d_bitsConsumed ds \<le> 64 \<and>
     d_bitContainer ds = of_nat (le_val (rd (d_src ds) (d_ptr ds) 8)) \<and>
     (d_ptr ds = 0 \<or> d_ptr ds + 8 \<le> length (d_src ds))"

lemma unat_container:
  "d_inv ds \<Longrightarrow> unat (d_bitContainer ds) = bits_of (d_val ds) (8 * d_ptr ds) 64"
proof -
  assume "d_inv ds"
  moreover have "le_val (rd (d_src ds) (d_ptr ds) 8) < 2 ^ 64"
    using le_val_bound [of "rd (d_src ds) (d_ptr ds) 8"] by simp
  ultimately have "unat (d_bitContainer ds) = le_val (rd (d_src ds) (d_ptr ds) 8)"
    by (simp add: d_inv_def unat_of_nat_id)
  then show ?thesis by (simp add: le_val_rd d_val_def bits_of_def pow256)
qed

lemma bits_of_bits_of: "p + n \<le> m \<Longrightarrow> bits_of (bits_of v q m) p n = bits_of v (q + p) n"
proof -
  assume "p + n \<le> m"
  then have "bits_of (v div 2 ^ q mod 2 ^ m) p n = bits_of (v div 2 ^ q) p n" by (rule bits_of_mod)
  then show ?thesis by (simp add: bits_of_div add.commute bits_of_def [of v q m])
qed

lemma BIT_lookBits_spec:
  assumes "d_inv ds" and "d_bitsConsumed ds + n \<le> 64" and "n < 64"
  shows "unat (BIT_lookBits ds n) = bits_of (d_val ds) (d_rem ds - n) n"
proof (cases "n = 0")
  case False
  define s where "s = 64 - d_bitsConsumed ds - n"
  have "(64 - int (d_bitsConsumed ds) - int n) mod 64 = int s"
    using assms(2) False by (auto simp: s_def)
  then have "BIT_lookBits ds n = drop_bit s (d_bitContainer ds) AND (2 ^ n - 1)"
    by (simp add: BIT_lookBits_def BIT_getMiddleBits_def push_bit_of_1)
  then have "unat (BIT_lookBits ds n) = bits_of (unat (d_bitContainer ds)) s n"
    by (simp only: unat_and_mask unat_drop_bit_word bits_of_def)
  also have "\<dots> = bits_of (d_val ds) (8 * d_ptr ds + s) n"
    unfolding unat_container [OF assms(1)] using assms(2)
    by (intro bits_of_bits_of) (simp add: s_def)
  also have "8 * d_ptr ds + s = d_rem ds - n"
    using assms(2) by (simp add: s_def d_rem_def)
  finally show ?thesis .
qed (simp add: BIT_lookBits_def BIT_getMiddleBits_def)

lemma shift_pair_field:
  fixes w :: u64
  assumes "1 \<le> n" and "b + n \<le> 64"
  shows "unat (drop_bit (64 - n) (push_bit b w)) = bits_of (unat w) (64 - b - n) n"
proof -
  have "unat (push_bit b w) = (unat w * 2 ^ b) mod 2 ^ 64"
    by (simp only: unsigned_push_bit_eq) (simp add: push_bit_eq_mult take_bit_eq_mod)
  also have "(unat w * 2 ^ b) mod 2 ^ 64 = 2 ^ b * (unat w mod 2 ^ (64 - b))"
  proof -
    have "(2::nat) ^ 64 = 2 ^ b * 2 ^ (64 - b)" using assms by (simp flip: power_add)
    then show ?thesis by (simp only: mult.commute [of "unat w"] mult_mod_right)
  qed
  finally have "unat (drop_bit (64 - n) (push_bit b w)) = 2 ^ b * (unat w mod 2 ^ (64 - b)) div 2 ^ (64 - n)"
    by (simp only: unat_drop_bit_word)
  also have "2 ^ b * (unat w mod 2 ^ (64 - b)) div 2 ^ (64 - n)
      = (unat w mod 2 ^ (64 - b)) div 2 ^ (64 - b - n)"
  proof -
    have "64 - n = b + (64 - b - n)" using assms by simp
    then have "(2::nat) ^ (64 - n) = 2 ^ b * 2 ^ (64 - b - n)" by (metis power_add)
    then show ?thesis by (simp add: div_mult2_eq)
  qed
  also have "\<dots> = bits_of (unat w) (64 - b - n) n"
  proof -
    have "unat w mod 2 ^ (64 - b) div 2 ^ (64 - b - n) < 2 ^ n"
      using assms by (intro less_mult_imp_div_less) (simp flip: power_add)
    then have "unat w mod 2 ^ (64 - b) div 2 ^ (64 - b - n) =
        bits_of (unat w mod 2 ^ (64 - b)) (64 - b - n) n" by (simp add: bits_of_def)
    also have "\<dots> = bits_of (unat w) (64 - b - n) n"
      using assms by (intro bits_of_mod) simp
    finally show ?thesis .
  qed
  finally show ?thesis .
qed

lemma BIT_lookBitsFast_eq:
  assumes "1 \<le> n" and "n < 64" and "d_bitsConsumed ds + n \<le> 64"
  shows "BIT_lookBitsFast ds n = BIT_lookBits ds n"
proof -
  define s where "s = 64 - d_bitsConsumed ds - n"
  have "(64 - int n) mod 64 = 64 - int n" using assms by (intro mod_pos_pos_trivial) auto
  then have i: "nat ((64 - int n) mod 64) = 64 - n" using assms by simp
  have j: "nat ((64 - int (d_bitsConsumed ds) - int n) mod 64) = s"
    using assms by (auto simp: s_def)
  have "unat (BIT_lookBitsFast ds n) = bits_of (unat (d_bitContainer ds)) s n"
    unfolding BIT_lookBitsFast_def i using assms by (simp add: shift_pair_field s_def)
  moreover have "unat (BIT_lookBits ds n) = bits_of (unat (d_bitContainer ds)) s n"
    unfolding BIT_lookBits_def BIT_getMiddleBits_def j push_bit_of_1
    by (simp only: unat_and_mask unat_drop_bit_word bits_of_def)
  ultimately show ?thesis by (simp add: word_unat_eq_iff)
qed

lemma d_rem_skip: "d_bitsConsumed ds + n \<le> 64 \<Longrightarrow> d_rem (BIT_skipBits ds n) = d_rem ds - n"
  by (simp add: d_rem_def BIT_skipBits_def)

lemma d_inv_skip: "d_inv ds \<Longrightarrow> d_bitsConsumed ds + n \<le> 64 \<Longrightarrow> d_inv (BIT_skipBits ds n)"
  by (simp add: d_inv_def BIT_skipBits_def)

lemma skip_simps [simp]:
  "d_val (BIT_skipBits ds n) = d_val ds" "d_ptr (BIT_skipBits ds n) = d_ptr ds"
  "d_src (BIT_skipBits ds n) = d_src ds" "d_bitsConsumed (BIT_skipBits ds n) = d_bitsConsumed ds + n"
  by (simp_all add: d_val_def BIT_skipBits_def)

subsection \<open>Reloading\<close>

lemma reload_internal_spec:
  assumes "d_inv ds" and "8 \<le> d_ptr ds" and "BIT_reloadDStream_internal ds = (st, ds')"
  shows "d_inv ds' \<and> d_src ds' = d_src ds \<and> d_rem ds' = d_rem ds \<and>
         st = BIT_DStream_unfinished \<and> d_bitsConsumed ds' < 8"
proof -
  have "d_bitsConsumed ds div 8 \<le> 8"
    using assms(1) div_le_mono [of "d_bitsConsumed ds" 64 8] by (simp add: d_inv_def)
  moreover have "8 * (d_ptr ds - d_bitsConsumed ds div 8) + 64 - d_bitsConsumed ds mod 8
      = 8 * d_ptr ds + 64 - (8 * (d_bitsConsumed ds div 8) + d_bitsConsumed ds mod 8)"
    using calculation assms(2) by (simp only: diff_mult_distrib2)
  ultimately show ?thesis
    using assms by (auto simp: BIT_reloadDStream_internal_def Let_def d_inv_def d_rem_def MEM_readLEST_eq)
qed

text \<open>What a reload guarantees: the position is kept, the register is refilled up to at
  least 57 bits unless the start of the buffer is reached, and the status tells which.\<close>

definition reload_post :: "BIT_DStream_t \<Rightarrow> BIT_DStream_status \<Rightarrow> BIT_DStream_t \<Rightarrow> bool" where
  "reload_post ds st ds' \<longleftrightarrow>
     d_inv ds' \<and> d_src ds' = d_src ds \<and> d_rem ds' = d_rem ds \<and>
     (case st of
        BIT_DStream_unfinished \<Rightarrow> d_bitsConsumed ds' < 8
      | BIT_DStream_endOfBuffer \<Rightarrow> d_ptr ds' = 0 \<and> 0 < d_rem ds'
      | BIT_DStream_completed \<Rightarrow> d_ptr ds' = 0 \<and> d_rem ds' = 0
      | BIT_DStream_overflow \<Rightarrow> False)"

lemma BIT_reloadDStream_spec:
  assumes "d_inv ds" and "BIT_reloadDStream ds = (st, ds')"
  shows "reload_post ds st ds'"
proof -
  have bc: "d_bitsConsumed ds \<le> 64" using assms(1) by (simp add: d_inv_def)
  consider "8 \<le> d_ptr ds" | "d_ptr ds = 0" | "0 < d_ptr ds" "d_ptr ds < 8" by linarith
  then show ?thesis
  proof cases
    case 1
    with assms bc have "BIT_reloadDStream_internal ds = (st, ds')"
      by (simp add: BIT_reloadDStream_def BIT_limitPtr_def)
    from reload_internal_spec [OF assms(1) 1 this] show ?thesis
      by (simp add: reload_post_def)
  next
    case 2
    with assms bc show ?thesis
      by (auto simp: BIT_reloadDStream_def BIT_limitPtr_def reload_post_def d_rem_def split: if_splits)
  next
    case 3
    with assms bc show ?thesis
      by (auto simp: BIT_reloadDStream_def BIT_limitPtr_def reload_post_def d_rem_def d_inv_def
          MEM_readLEST_eq Let_def split: if_splits)
  qed
qed

lemma BIT_reloadDStream_never_overflows:
  "d_inv ds \<Longrightarrow> fst (BIT_reloadDStream ds) \<noteq> BIT_DStream_overflow"
  using BIT_reloadDStream_spec [of ds "fst (BIT_reloadDStream ds)" "snd (BIT_reloadDStream ds)"]
  by (auto simp: reload_post_def)

lemma reload_room:
  assumes "reload_post ds st ds'" and "n \<le> 56" and "n \<le> d_rem ds'"
  shows "d_bitsConsumed ds' + n \<le> 64"
  using assms by (cases st) (auto simp: reload_post_def d_rem_def d_inv_def)

lemma BIT_endOfDStream_iff: "d_inv ds \<Longrightarrow> BIT_endOfDStream ds \<longleftrightarrow> d_rem ds = 0"
  by (auto simp: BIT_endOfDStream_def d_inv_def d_rem_def)

subsection \<open>Opening a stream\<close>

lemma last_byte_highbit:
  assumes "b \<noteq> 0"
  shows "2 ^ ZSTD_highbit32 (ucast b) \<le> unat (b :: byte)" "unat b < 2 ^ Suc (ZSTD_highbit32 (ucast b))"
    and "ZSTD_highbit32 (ucast b) < 8"
proof -
  have u: "unat (ucast b :: u32) = unat b"
    by (simp add: unsigned_ucast_eq take_bit_nat_eq_self less_trans [OF unat_byte_less])
  then have "(ucast b :: u32) \<noteq> 0" using assms by (metis unat_eq_zero unat_0)
  from ZSTD_highbit32_is_highbit [OF this]
  show *: "2 ^ ZSTD_highbit32 (ucast b) \<le> unat (b :: byte)" "unat b < 2 ^ Suc (ZSTD_highbit32 (ucast b))"
    by (simp_all only: is_highbit_def u)
  have "(2::nat) ^ ZSTD_highbit32 (ucast b) < 2 ^ 8"
    using le_less_trans [OF *(1) unat_byte_less] by simp
  then show "ZSTD_highbit32 (ucast b) < 8" by (rule power_less_imp_less_exp [rotated]) simp
qed

lemma top_bit_of_bytes:
  assumes "bs \<noteq> []" and "last bs \<noteq> 0"
  defines "h \<equiv> 8 * (length bs - 1) + ZSTD_highbit32 (ucast (last bs))"
  shows "2 ^ h \<le> le_val bs" and "le_val bs < 2 ^ Suc h"
proof -
  define k where "k = length bs - 1"
  define l where "l = unat (last bs)"
  have v: "le_val bs = le_val (butlast bs) + 2 ^ (8 * k) * l"
    using le_val_append [of "butlast bs" "[last bs]"] assms(1) by (simp add: pow256 k_def l_def)
  have b: "le_val (butlast bs) < 2 ^ (8 * k)"
    using le_val_bound [of "butlast bs"] by (simp add: pow256 k_def)
  note hb = last_byte_highbit [OF assms(2), folded l_def]
  have "(2::nat) ^ h = 2 ^ (8 * k) * 2 ^ ZSTD_highbit32 (ucast (last bs))"
    by (simp add: h_def k_def power_add)
  also have "\<dots> \<le> 2 ^ (8 * k) * l" using hb(1) by (intro mult_le_mono2)
  also have "\<dots> \<le> le_val bs" by (simp add: v)
  finally show "2 ^ h \<le> le_val bs" .
  have "le_val bs < 2 ^ (8 * k) * (l + 1)" using b by (simp add: v)
  also have "\<dots> \<le> 2 ^ (8 * k) * 2 ^ Suc (ZSTD_highbit32 (ucast (last bs)))"
    using hb(2) by (intro mult_le_mono2) simp
  finally show "le_val bs < 2 ^ Suc h" by (simp add: h_def k_def power_add)
qed

lemma le_val_rd_short:
  assumes "length src \<le> 7" and "src \<noteq> []"
  shows "(of_nat (le_val (rd src 0 8)) :: u64) = ucast (byte_at src 0)
    + push_bit 8 (ucast (byte_at src 1)) + push_bit 16 (ucast (byte_at src 2))
    + push_bit 24 (ucast (byte_at src 3)) + push_bit 32 (ucast (byte_at src 4))
    + push_bit 40 (ucast (byte_at src 5)) + push_bit 48 (ucast (byte_at src 6))"
proof -
  have "byte_at src 7 = 0" using assms by (simp add: byte_at_def)
  then have "rd src 0 8 = [byte_at src 0, byte_at src 1, byte_at src 2, byte_at src 3,
      byte_at src 4, byte_at src 5, byte_at src 6, 0]"
    by (simp add: rd_def upt_rec eval_nat_numeral)
  then show ?thesis
    by (simp add: push_bit_eq_mult)
qed

lemma init_short_container:
  assumes "length src \<le> 7" and "src \<noteq> []" and "BIT_initDStream src = Inr ds"
  shows "d_bitContainer ds = of_nat (le_val (rd src 0 8))"
proof -
  have z: "byte_at src i = 0" if "length src \<le> i" for i using that by (simp add: byte_at_def)
  show ?thesis
    using assms z [of 1] z [of 2] z [of 3] z [of 4] z [of 5] z [of 6]
    unfolding le_val_rd_short [OF assms(1,2)]
    by (auto simp: BIT_initDStream_def Let_def split: if_splits)
qed


lemma BIT_initDStream_spec:
  assumes "src \<noteq> []" and "last src \<noteq> 0"
  obtains ds where "BIT_initDStream src = Inr ds" and "d_inv ds" and "d_src ds = src"
    and "2 ^ d_rem ds \<le> le_val src" and "le_val src < 2 ^ Suc (d_rem ds)"
proof -
  define l where "l = byte_at src (length src - 1)"
  have l: "l = last src" using assms(1) by (simp add: l_def byte_at_def last_conv_nth)
  then have nz: "l \<noteq> 0" using assms(2) by simp
  note hb = last_byte_highbit(3) [OF nz]
  have "\<not> length src < 1" using assms(1) by (cases src) auto
  then have "\<exists>ds. BIT_initDStream src = Inr ds"
    using nz by (cases "8 \<le> length src") (simp_all add: BIT_initDStream_def Let_def l_def)
  then obtain ds where ds: "BIT_initDStream src = Inr ds" by blast
  have "d_src ds = src" and "\<not> d_zeroFilled ds"
    and ptr: "d_ptr ds = length src - 8"
    and bc: "d_bitsConsumed ds = 8 - ZSTD_highbit32 (ucast l) + (8 - length src) * 8"
    and long: "8 \<le> length src \<Longrightarrow> d_bitContainer ds = of_nat (le_val (rd src (length src - 8) 8))"
    using ds by (auto simp: BIT_initDStream_def Let_def l_def MEM_readLEST_eq split: if_splits)
  have "d_bitContainer ds = of_nat (le_val (rd src (d_ptr ds) 8))"
    using long init_short_container [OF _ assms(1) ds] ptr by (cases "8 \<le> length src") auto
  then have "d_inv ds"
    using ptr bc hb assms(1) \<open>d_src ds = src\<close> \<open>\<not> d_zeroFilled ds\<close>
    by (cases src) (auto simp: d_inv_def)
  moreover have "d_rem ds = 8 * (length src - 1) + ZSTD_highbit32 (ucast (last src))"
    using ptr bc hb assms(1) by (cases src) (auto simp: d_rem_def l)
  ultimately show ?thesis
    using that ds \<open>d_src ds = src\<close> top_bit_of_bytes [OF assms] by simp
qed

lemma BIT_initDStream_errors:
  "BIT_initDStream [] = Inl ZSTD_error_srcSize_wrong"
  "src \<noteq> [] \<Longrightarrow> last src = 0 \<Longrightarrow> BIT_initDStream src =
     Inl (if length src \<ge> 8 then ZSTD_error_GENERIC else ZSTD_error_corruption_detected)"
  by (auto simp: BIT_initDStream_def Let_def byte_at_def last_conv_nth Suc_le_eq)


subsection \<open>The interface the entropy decoders rely on\<close>

text \<open>A reader hands out the fields of one number from the top. \<open>take_bits\<close> is a read
  followed by a reload; \<open>ready\<close> says that a field of up to \<open>max_bits\<close> bits can be taken
  whenever the stream still holds that many.\<close>

fun take_fields :: "('s \<Rightarrow> nat \<Rightarrow> nat \<times> 's) \<Rightarrow> 's \<Rightarrow> nat list \<Rightarrow> nat list \<times> 's" where
  "take_fields tk s [] = ([], s)"
| "take_fields tk s (n # ns) =
     (let (v, s') = tk s n; (vs, s'') = take_fields tk s' ns in (v # vs, s''))"

locale bit_reader =
  fixes ready :: "'s \<Rightarrow> bool"
    and stream_val :: "'s \<Rightarrow> nat"
    and bits_left :: "'s \<Rightarrow> nat"
    and take_bits :: "'s \<Rightarrow> nat \<Rightarrow> nat \<times> 's"
    and max_bits :: nat
  assumes take_value:
      "ready s \<Longrightarrow> n \<le> max_bits \<Longrightarrow> n \<le> bits_left s \<Longrightarrow>
       fst (take_bits s n) = bits_of (stream_val s) (bits_left s - n) n"
    and take_ready:
      "ready s \<Longrightarrow> n \<le> max_bits \<Longrightarrow> n \<le> bits_left s \<Longrightarrow> ready (snd (take_bits s n))"
    and take_stream:
      "ready s \<Longrightarrow> n \<le> max_bits \<Longrightarrow> n \<le> bits_left s \<Longrightarrow>
       stream_val (snd (take_bits s n)) = stream_val s"
    and take_left:
      "ready s \<Longrightarrow> n \<le> max_bits \<Longrightarrow> n \<le> bits_left s \<Longrightarrow>
       bits_left (snd (take_bits s n)) = bits_left s - n"
begin

lemma take_fields_reverses:
  assumes "ready s" and "fields_ok fs" and "\<forall>n\<in>set (map snd fs). n \<le> max_bits"
    and "bits_left s = fields_bits fs"
    and "bits_of (stream_val s) 0 (fields_bits fs) = fields_val fs"
  shows "\<exists>s'. take_fields take_bits s (rev (map snd fs)) = (rev (map fst fs), s') \<and>
              ready s' \<and> bits_left s' = 0"
  using assms
proof (induction fs arbitrary: s rule: rev_induct)
  case (snoc f fs)
  obtain v n where f: "f = (v, n)" by (cases f)
  have v: "v < 2 ^ n" and ok: "fields_ok fs" using snoc.prems(2) by (auto simp: fields_ok_def f)
  have n: "n \<le> max_bits" and left: "bits_left s = fields_bits fs + n"
    using snoc.prems by (auto simp: f fields_bits_append)
  then have nl: "n \<le> bits_left s" by simp
  have val: "bits_of (stream_val s) 0 (fields_bits fs + n) = fields_val fs + 2 ^ fields_bits fs * v"
    using snoc.prems(5) by (simp add: f fields_bits_append fields_val_append)
  have split: "bits_of (stream_val s) 0 (fields_bits fs + n) =
      bits_of (stream_val s) 0 (fields_bits fs) + 2 ^ fields_bits fs * bits_of (stream_val s) (fields_bits fs) n"
    using bits_of_split [of "stream_val s" 0 "fields_bits fs" n] by simp
  have lo: "bits_of (stream_val s) 0 (fields_bits fs) = fields_val fs"
  proof -
    have "(fields_val fs + 2 ^ fields_bits fs * v) mod 2 ^ fields_bits fs = fields_val fs"
      using fields_val_bound [OF ok] by simp
    moreover have "bits_of (stream_val s) 0 (fields_bits fs + n) mod 2 ^ fields_bits fs
        = bits_of (stream_val s) 0 (fields_bits fs)"
      unfolding split by simp
    ultimately show ?thesis by (simp only: val)
  qed
  have hi: "bits_of (stream_val s) (fields_bits fs) n = v"
    using val unfolding split lo by simp
  define s1 where "s1 = snd (take_bits s n)"
  have "fst (take_bits s n) = v"
    using take_value [OF snoc.prems(1) n nl] left hi by simp
  then have step: "take_bits s n = (v, s1)" by (metis s1_def prod.collapse)
  have s1: "ready s1" "bits_left s1 = fields_bits fs"
    "bits_of (stream_val s1) 0 (fields_bits fs) = fields_val fs"
    using take_ready [OF snoc.prems(1) n nl] take_left [OF snoc.prems(1) n nl]
      take_stream [OF snoc.prems(1) n nl] left lo by (simp_all add: s1_def)
  have "\<forall>n\<in>set (map snd fs). n \<le> max_bits" using snoc.prems(3) by auto
  from snoc.IH [OF s1(1) ok this s1(2,3)] obtain s' where
    "take_fields take_bits s1 (rev (map snd fs)) = (rev (map fst fs), s')" "ready s'" "bits_left s' = 0"
    by blast
  then show ?case by (auto simp: f step)
qed simp

end

text \<open>A channel adds the sending side: \<open>image fs b\<close> says that the bytes \<open>b\<close> are a closed
  stream of the fields \<open>fs\<close>, and opening such bytes gives a reader placed at their end.\<close>

locale bit_channel = bit_reader +
  fixes image :: "(nat \<times> nat) list \<Rightarrow> 'b \<Rightarrow> bool"
    and open_stream :: "'b \<Rightarrow> 'e + 's"
  assumes open_image:
    "image fs b \<Longrightarrow> fields_ok fs \<Longrightarrow>
     \<exists>s. open_stream b = Inr s \<and> ready s \<and> bits_left s = fields_bits fs \<and>
         bits_of (stream_val s) 0 (fields_bits fs) = fields_val fs"
begin

lemma channel_reverses:
  assumes "image fs b" and "fields_ok fs" and "\<forall>n\<in>set (map snd fs). n \<le> max_bits"
  shows "\<exists>s s'. open_stream b = Inr s \<and>
           take_fields take_bits s (rev (map snd fs)) = (rev (map fst fs), s') \<and>
           ready s' \<and> bits_left s' = 0"
  using open_image [OF assms(1,2)] take_fields_reverses [OF _ assms(2,3)] by blast

end

subsection \<open>The bit stream provides it\<close>

definition d_ready :: "BIT_DStream_t \<Rightarrow> bool" where
  "d_ready ds \<longleftrightarrow> d_inv ds \<and> (d_bitsConsumed ds \<le> 8 \<or> d_ptr ds = 0)"

definition d_take :: "BIT_DStream_t \<Rightarrow> nat \<Rightarrow> nat \<times> BIT_DStream_t" where
  "d_take ds n = (let (v, ds1) = BIT_readBits ds n in (unat v, snd (BIT_reloadDStream ds1)))"

definition c_image :: "(nat \<times> nat) list \<Rightarrow> bytes \<Rightarrow> bool" where
  "c_image fs bs \<longleftrightarrow> le_val bs = fields_val fs + 2 ^ fields_bits fs \<and>
                     length bs = Suc (fields_bits fs div 8)"

lemma d_ready_room: "d_ready ds \<Longrightarrow> n \<le> 56 \<Longrightarrow> n \<le> d_rem ds \<Longrightarrow> d_bitsConsumed ds + n \<le> 64"
  by (auto simp: d_ready_def d_rem_def d_inv_def)

lemma reload_ready:
  assumes "d_inv ds"
  shows "d_ready (snd (BIT_reloadDStream ds))"
proof -
  obtain st ds' where e: "BIT_reloadDStream ds = (st, ds')" by fastforce
  from BIT_reloadDStream_spec [OF assms e] have "d_ready ds'"
    by (cases st) (auto simp: reload_post_def d_ready_def)
  with e show ?thesis by simp
qed

lemma reload_keeps:
  assumes "d_inv ds"
  shows "d_inv (snd (BIT_reloadDStream ds))" "d_val (snd (BIT_reloadDStream ds)) = d_val ds"
    "d_rem (snd (BIT_reloadDStream ds)) = d_rem ds"
  using BIT_reloadDStream_spec [OF assms, of "fst (BIT_reloadDStream ds)" "snd (BIT_reloadDStream ds)"]
  by (auto simp: reload_post_def d_val_def)

lemma d_take_spec:
  assumes "d_ready ds" and "n \<le> 56" and "n \<le> d_rem ds"
  shows "fst (d_take ds n) = bits_of (d_val ds) (d_rem ds - n) n"
    and "d_ready (snd (d_take ds n))"
    and "d_val (snd (d_take ds n)) = d_val ds"
    and "d_rem (snd (d_take ds n)) = d_rem ds - n"
proof -
  have i: "d_inv ds" using assms(1) by (simp add: d_ready_def)
  have room: "d_bitsConsumed ds + n \<le> 64" by (rule d_ready_room [OF assms])
  note j = d_inv_skip [OF i room]
  show "fst (d_take ds n) = bits_of (d_val ds) (d_rem ds - n) n"
    using BIT_lookBits_spec [OF i room] assms(2) by (simp add: d_take_def BIT_readBits_def)
  show "d_ready (snd (d_take ds n))" "d_val (snd (d_take ds n)) = d_val ds"
    "d_rem (snd (d_take ds n)) = d_rem ds - n"
    using reload_ready [OF j] reload_keeps [OF j] d_rem_skip [OF room]
    by (simp_all add: d_take_def BIT_readBits_def)
qed

lemma c_image_top:
  assumes "c_image fs bs" and "fields_ok fs"
  shows "bs \<noteq> []" and "last bs \<noteq> 0"
proof -
  show ne: "bs \<noteq> []" using assms(1) by (auto simp: c_image_def)
  define k where "k = length bs - 1"
  have k: "k = fields_bits fs div 8" using assms(1) by (simp add: c_image_def k_def)
  have v: "le_val bs = le_val (butlast bs) + 2 ^ (8 * k) * unat (last bs)"
    using le_val_append [of "butlast bs" "[last bs]"] ne by (simp add: pow256 k_def)
  have "le_val (butlast bs) < 2 ^ (8 * k)"
    using le_val_bound [of "butlast bs"] by (simp add: pow256 k_def)
  moreover have "(2::nat) ^ (8 * k) \<le> 2 ^ fields_bits fs"
    by (intro power_increasing) (simp_all add: k)
  ultimately have "le_val (butlast bs) < 2 ^ fields_bits fs" by (rule less_le_trans)
  then have "le_val (butlast bs) < le_val bs"
    using assms(1) by (simp add: c_image_def)
  then show "last bs \<noteq> 0" by (auto simp: v)
qed

lemma open_c_image:
  assumes "c_image fs bs" and "fields_ok fs"
  shows "\<exists>ds. BIT_initDStream bs = Inr ds \<and> d_ready ds \<and> d_rem ds = fields_bits fs \<and>
              bits_of (d_val ds) 0 (fields_bits fs) = fields_val fs"
proof -
  obtain ds where ds: "BIT_initDStream bs = Inr ds" "d_inv ds" "d_src ds = bs"
    and lo: "2 ^ d_rem ds \<le> le_val bs" and hi: "le_val bs < 2 ^ Suc (d_rem ds)"
    using BIT_initDStream_spec [OF c_image_top [OF assms]] by blast
  have v: "le_val bs = fields_val fs + 2 ^ fields_bits fs" using assms(1) by (simp add: c_image_def)
  note b = fields_val_bound [OF assms(2)]
  have "(2::nat) ^ d_rem ds < 2 ^ Suc (fields_bits fs)" using lo b v by simp
  then have "d_rem ds \<le> fields_bits fs" by (simp only: power_strict_increasing_iff one_less_numeral_iff semiring_norm less_Suc_eq_le)
  moreover have "(2::nat) ^ fields_bits fs < 2 ^ Suc (d_rem ds)" using hi v by linarith
  then have "fields_bits fs \<le> d_rem ds" by (simp only: power_strict_increasing_iff one_less_numeral_iff semiring_norm less_Suc_eq_le)
  ultimately have r: "d_rem ds = fields_bits fs" by simp
  have "bits_of (d_val ds) 0 (fields_bits fs) = fields_val fs"
    using b by (simp add: d_val_def ds v bits_of_def)
  moreover have "d_ready ds"
  proof (cases "8 \<le> length bs")
    case True
    then have "d_bitsConsumed ds \<le> 8"
      using ds(1) by (auto simp: BIT_initDStream_def Let_def split: if_splits)
    with ds show ?thesis by (simp add: d_ready_def)
  next
    case False
    then have "d_ptr ds = 0"
      using ds(1) by (auto simp: BIT_initDStream_def Let_def split: if_splits)
    with ds show ?thesis by (simp add: d_ready_def)
  qed
  ultimately show ?thesis using ds r by blast
qed

interpretation bitD: bit_channel d_ready d_val d_rem d_take 56 c_image BIT_initDStream
  by unfold_locales (simp_all add: d_take_spec open_c_image)


subsection \<open>Properties of the two ends\<close>

lemma cop_run_ok_fields_ok: "cop_run_ok cs ops \<Longrightarrow> fields_ok (cop_fields ops)"
proof (induction cs ops rule: cop_run_ok.induct)
  case (2 cs x xs)
  then show ?case
    using drop_bit_0_unat by (cases x) (auto simp: fields_ok_def)
qed (simp add: fields_ok_def)






subsection \<open>The writer stays inside its buffer\<close>

text \<open>Without the unchecked flush only the register bounds are left of the assertions.\<close>

fun cop_safe :: "nat \<Rightarrow> cop list \<Rightarrow> bool" where
  "cop_safe pos [] \<longleftrightarrow> pos + 1 < 64"
| "cop_safe pos (AddBits v n # xs) \<longleftrightarrow> n < 32 \<and> n + pos < 64 \<and> cop_safe (pos + n) xs"
| "cop_safe pos (AddBitsFast v n # xs) \<longleftrightarrow> drop_bit n v = 0 \<and> n + pos < 64 \<and> cop_safe (pos + n) xs"
| "cop_safe pos (FlushBits # xs) \<longleftrightarrow> pos < 64 \<and> cop_safe (pos mod 8) xs"
| "cop_safe pos (FlushBitsFast # xs) \<longleftrightarrow> False"

text \<open>The write pointer is exact, or it has run into the end pointer, and then the bits
  written do not fit.\<close>

definition c_bounded :: "BIT_CStream_t \<Rightarrow> nat \<Rightarrow> nat \<Rightarrow> bool" where
  "c_bounded cs cap bits \<longleftrightarrow>
     c_endPtr cs = cap - 8 \<and> length (c_buf cs) = cap \<and> 8 < cap \<and>
     (c_ptr cs \<le> c_endPtr cs \<and> 8 * c_ptr cs + c_bitPos cs = bits \<or>
      c_ptr cs = c_endPtr cs \<and> 8 * c_ptr cs + c_bitPos cs \<le> bits)"

lemma c_bounded_flush:
  assumes "c_bounded cs cap bits"
  shows "c_bounded (BIT_flushBits cs) cap bits"
proof -
  have "8 * (c_ptr cs + c_bitPos cs div 8) + c_bitPos cs mod 8 = 8 * c_ptr cs + c_bitPos cs" by simp
  with assms show ?thesis
    by (auto simp: c_bounded_def BIT_flushBits_def Let_def MEM_writeLEST_eq)
qed

lemma cop_safe_run:
  assumes "c_bounded cs cap bits" and "cop_safe (c_bitPos cs) ops"
  shows "cop_run_ok cs ops \<and> c_bounded (cop_run cs ops) cap (bits + fields_bits (cop_fields ops))"
  using assms
proof (induction ops arbitrary: cs bits)
  case Nil
  then show ?case by (auto simp: c_bounded_def)
next
  case (Cons x xs)
  show ?case
  proof (cases x)
    case (AddBits v n)
    have "c_bounded (BIT_addBits cs v n) cap (bits + n)"
      using Cons.prems by (auto simp: c_bounded_def BIT_addBits_def)
    from Cons.IH [OF this] Cons.prems(2) AddBits show ?thesis by (simp add: add.assoc)
  next
    case (AddBitsFast v n)
    have "c_bounded (BIT_addBitsFast cs v n) cap (bits + n)"
      using Cons.prems by (auto simp: c_bounded_def BIT_addBitsFast_def)
    from Cons.IH [OF this] Cons.prems(2) AddBitsFast show ?thesis by (simp add: add.assoc)
  next
    case FlushBits
    have "c_bitPos (BIT_flushBits cs) = c_bitPos cs mod 8" by (simp add: BIT_flushBits_def Let_def)
    with Cons.IH [OF c_bounded_flush [OF Cons.prems(1)]] Cons.prems FlushBits
    show ?thesis by (auto simp: c_bounded_def)
  qed (use Cons.prems in simp)
qed

text \<open>C27. Writing with the checked flush is memory-safe and its overflow report is exact: if
  only the register bounds hold along the sequence of calls (never more than 63 bits in the
  register), then no flush writes outside the destination, whose size never changes, and
  \<open>BIT_closeCStream\<close> returns 0 if and only if the bits plus the end mark fill
  \<open>dstCapacity - 8\<close> whole bytes.\<close>

theorem bit_writer_safe:
  assumes "BIT_initCStream dst = Inr cs0" and "cop_safe 0 ops"
  shows "cop_run_ok cs0 ops \<and>
         length (c_buf (snd (BIT_closeCStream (cop_run cs0 ops)))) = length dst \<and>
         (fst (BIT_closeCStream (cop_run cs0 ops)) = 0 \<longleftrightarrow>
            length dst - 8 \<le> (fields_bits (cop_fields ops) + 1) div 8)"
proof -
  have "c_bounded cs0 (length dst) 0" and "c_bitPos cs0 = 0"
    using assms(1) by (auto simp: BIT_initCStream_def c_bounded_def split: if_splits)
  with cop_safe_run [OF this(1)] assms(2)
  have ok: "cop_run_ok cs0 ops" and b: "c_bounded (cop_run cs0 ops) (length dst) (fields_bits (cop_fields ops))"
    by simp_all
  define cs where "cs = cop_run cs0 ops"
  define f where "f = BIT_flushBits (BIT_addBitsFast cs 1 1)"
  have "c_bounded (BIT_addBitsFast cs 1 1) (length dst) (fields_bits (cop_fields ops) + 1)"
    using b by (auto simp: c_bounded_def BIT_addBitsFast_def cs_def)
  then have fb: "c_bounded f (length dst) (fields_bits (cop_fields ops) + 1)"
    unfolding f_def by (rule c_bounded_flush)
  have "c_bitPos f < 8" by (simp add: f_def BIT_flushBits_def Let_def)
  with fb have "c_endPtr f \<le> c_ptr f \<longleftrightarrow> length dst - 8 \<le> (fields_bits (cop_fields ops) + 1) div 8"
    by (auto simp: c_bounded_def)
  moreover have "fst (BIT_closeCStream cs) = 0 \<longleftrightarrow> c_endPtr f \<le> c_ptr f"
    using fb by (auto simp: BIT_closeCStream_def Let_def f_def c_bounded_def)
  moreover have "snd (BIT_closeCStream cs) = f"
    by (simp add: BIT_closeCStream_def Let_def f_def)
  ultimately show ?thesis using ok fb by (simp add: cs_def c_bounded_def)
qed

theorem bit_writer_safe_witness:
  "\<exists>cs0. BIT_initCStream (replicate 9 0) = Inr cs0 \<and>
     fst (BIT_closeCStream (cop_run cs0 [AddBits 0xABC 12, FlushBits])) = 0"
proof -
  obtain cs0 where i: "BIT_initCStream (replicate 9 0) = Inr cs0"
    by (simp add: BIT_initCStream_def)
  then show ?thesis
    using bit_writer_safe [OF i, of "[AddBits 0xABC 12, FlushBits]"] by auto
qed

end
