(* ===== verification/Zstd_FSE_Tables.thy ===== *)
theory Zstd_FSE_Tables
  imports Zstd_FSE_Spread Zstd_Bit_Channel
begin

text \<open>
  The FSE coding and decoding tables of one distribution are inverse to each other: the cell
  to which a coding step moves holds the coded symbol, the number of bits the step emitted
  and the base from which those bits lead back to the state before the step. The decoding
  table keeps every state inside the table whatever bits it reads.
\<close>

subsection \<open>Occurrences of a symbol\<close>

definition fse_rank :: "nat list \<Rightarrow> nat \<Rightarrow> nat" where
  "fse_rank ts u = count_list (take u ts) (ts ! u)"

lemma fse_rank_simps [simp]:
  "fse_rank (t # ts) 0 = 0"
  "fse_rank (t # ts) (Suc u) = (if ts ! u = t then 1 else 0) + fse_rank ts u"
  by (auto simp: fse_rank_def)

lemma count_list_mset: "count_list xs x = count (mset xs) x"
  by (induction xs) auto

lemma fse_rank_less: "u < length ts \<Longrightarrow> fse_rank ts u < count_list ts (ts ! u)"
proof (induction ts arbitrary: u)
  case (Cons t ts)
  then show ?case by (cases u) auto
qed simp

lemma fse_rank_exists: "k < count_list ts s \<Longrightarrow> \<exists>u < length ts. ts ! u = s \<and> fse_rank ts u = k"
proof (induction ts arbitrary: k)
  case (Cons t ts)
  show ?case
  proof (cases "t = s")
    case True
    show ?thesis
    proof (cases k)
      case 0
      with True show ?thesis by (intro exI [of _ 0]) simp
    next
      case (Suc j)
      with True Cons obtain u where "u < length ts" "ts ! u = s" "fse_rank ts u = j" by force
      with True Suc show ?thesis by (intro exI [of _ "Suc u"]) simp
    qed
  next
    case False
    with Cons obtain u where "u < length ts" "ts ! u = s" "fse_rank ts u = k" by force
    with False show ?thesis by (intro exI [of _ "Suc u"]) simp
  qed
qed simp

subsection \<open>Decoding cells\<close>

definition fse_cell :: "nat \<Rightarrow> nat \<Rightarrow> nat \<Rightarrow> FSE_decode_t" where
  "fse_cell tableLog s x =
     (let nb = tableLog - ZSTD_highbit32 (of_nat x)
      in \<lparr>newState = nat ((int (x * 2 ^ nb) - 2 ^ tableLog) mod 2 ^ 16), symbol = s, nbBits = nb\<rparr>)"

lemma length_fse_build_cells [simp]: "length (fse_build_cells L ts sn) = length ts"
  by (induction ts arbitrary: sn) (auto simp: Let_def)

lemma fse_build_cells_nth:
  assumes "u < length ts" "set ts \<subseteq> {..<length sn}" "\<forall>s < length sn. sn ! s + count_list ts s < 2 ^ 16"
  shows "fse_build_cells L ts sn ! u = fse_cell L (ts ! u) (sn ! (ts ! u) + fse_rank ts u)"
  using assms
proof (induction ts arbitrary: sn u)
  case (Cons t ts)
  have t: "t < length sn" "(sn ! t + 1) mod 2 ^ 16 = sn ! t + 1" using Cons.prems by auto
  show ?case
  proof (cases u)
    case 0
    then show ?thesis by (simp add: fse_cell_def Let_def)
  next
    case (Suc v)
    let ?sn = "sn[t := sn ! t + 1]"
    have ok: "\<forall>s < length ?sn. ?sn ! s + count_list ts s < 2 ^ 16"
      using Cons.prems(3) t(1) by (auto simp: nth_list_update split: if_splits) 
    then show ?thesis
      using Suc Cons.prems Cons.IH [of v ?sn] ok t
      by (simp add: Let_def nth_list_update) 
  qed
qed simp

lemma nat_int_mod16: "y < 2 ^ 16 \<Longrightarrow> nat (int y mod 2 ^ 16) = y"
  by simp

lemma fse_cell_fields:
  assumes "2 ^ (L - nb) \<le> x" "x < 2 ^ Suc (L - nb)" "nb \<le> L" "L \<le> 15"
  shows "symbol (fse_cell L s x) = s" "nbBits (fse_cell L s x) = nb"
    "newState (fse_cell L s x) = x * 2 ^ nb - 2 ^ L" "2 ^ L \<le> x * 2 ^ nb" "x * 2 ^ nb + 2 ^ nb \<le> 2 ^ Suc L"
proof -
  have "x < 2 ^ 32"
    using assms(2,4) power_increasing [of "Suc (L - nb)" 32 "2::nat"] by linarith
  then have "is_highbit (of_nat x :: u32) (L - nb)"
    using assms by (simp add: is_highbit_def unat_of_nat_id)
  then have hb: "ZSTD_highbit32 (of_nat x) = L - nb" by (rule ZSTD_highbit32_eqI)
  have pw: "(2::nat) ^ (L - nb) * 2 ^ nb = 2 ^ L" using assms(3) by (simp flip: power_add)
  show lo: "2 ^ L \<le> x * 2 ^ nb" using assms(1) mult_le_mono1 [of "2 ^ (L - nb)" x "2 ^ nb"] pw by simp
  have "(x + 1) * 2 ^ nb \<le> 2 ^ Suc (L - nb) * 2 ^ nb" using assms(2) by (intro mult_le_mono1) simp
  then show hi: "x * 2 ^ nb + 2 ^ nb \<le> 2 ^ Suc L" using pw by simp
  have "(2::nat) ^ L \<le> 2 ^ 15" using assms(4) by (intro power_increasing) auto
  then have small: "x * 2 ^ nb - 2 ^ L < 2 ^ 16" using hi by simp
  have "int (x * 2 ^ nb) - 2 ^ L = int (x * 2 ^ nb - 2 ^ L)"
    using lo by (simp only: of_nat_diff of_nat_power of_nat_numeral)
  then have "nat ((int (x * 2 ^ nb) - 2 ^ L) mod 2 ^ 16) = x * 2 ^ nb - 2 ^ L"
    by (simp only: nat_int_mod16 [OF small])
  then show "newState (fse_cell L s x) = x * 2 ^ nb - 2 ^ L"
    using assms(3) by (simp add: fse_cell_def Let_def hb)
  show "symbol (fse_cell L s x) = s" "nbBits (fse_cell L s x) = nb"
    using assms(3) by (simp_all add: fse_cell_def Let_def hb)
qed

subsection \<open>The state table\<close>

definition fse_ranges_ok :: "nat list \<Rightarrow> nat list \<Rightarrow> nat \<Rightarrow> bool" where
  "fse_ranges_ok ts cumul n \<longleftrightarrow>
     n \<le> length cumul \<and> set ts \<subseteq> {..<n} \<and>
     (\<forall>s' < n. \<forall>s < s'. cumul ! s + count_list ts s \<le> cumul ! s') \<and>
     (\<forall>s < n. cumul ! s + count_list ts s < 2 ^ 16)"

lemma fse_ranges_step:
  assumes "fse_ranges_ok (t # ts) cumul n"
  shows "t < n" "(cumul ! t + 1) mod 2 ^ 16 = cumul ! t + 1"
    "fse_ranges_ok ts (cumul[t := cumul ! t + 1]) n"
proof -
  have n: "n \<le> length cumul" and b: "\<forall>s < n. cumul ! s + count_list (t # ts) s < 2 ^ 16" "t < n"
    using assms by (auto simp: fse_ranges_ok_def)
  then show "t < n" "(cumul ! t + 1) mod 2 ^ 16 = cumul ! t + 1" by (auto dest: spec [of _ t])
  have sep: "cumul ! s + count_list (t # ts) s \<le> cumul ! s'" if "s' < n" "s < s'" for s s'
    using assms that by (simp add: fse_ranges_ok_def)
  have "(cumul[t := cumul ! t + 1]) ! s + count_list ts s \<le> (cumul[t := cumul ! t + 1]) ! s'"
    if "s' < n" "s < s'" for s s'
    using sep [OF that] n b(2) that by (auto simp: nth_list_update split: if_splits)
  moreover have "(cumul[t := cumul ! t + 1]) ! s + count_list ts s < 2 ^ 16" if "s < n" for s
    using b(1) [rule_format, OF that] n b(2) that by (auto simp: nth_list_update split: if_splits)
  ultimately show "fse_ranges_ok ts (cumul[t := cumul ! t + 1]) n"
    using assms by (auto simp: fse_ranges_ok_def)
qed

lemma length_fse_fill_states [simp]: "length (fse_fill_states T ts u cumul st) = length st"
  by (induction ts arbitrary: u cumul st) auto

lemma fse_fill_states_other:
  assumes "fse_ranges_ok ts cumul n"
    "\<forall>s < n. i < cumul ! s \<or> cumul ! s + count_list ts s \<le> i"
  shows "fse_fill_states T ts u cumul st ! i = st ! i"
  using assms
proof (induction ts arbitrary: u cumul st)
  case (Cons t ts)
  note step = fse_ranges_step [OF Cons.prems(1)]
  have i: "i < cumul ! s \<or> cumul ! s + count_list (t # ts) s \<le> i" if "s < n" for s
    using Cons.prems(2) that by blast
  have "\<forall>s < n. i < (cumul[t := cumul ! t + 1]) ! s \<or> (cumul[t := cumul ! t + 1]) ! s + count_list ts s \<le> i"
    using i step(1) Cons.prems(1) by (force simp: nth_list_update fse_ranges_ok_def)
  moreover have "cumul ! t \<noteq> i" using i [OF step(1)] by auto
  ultimately show ?case
    using Cons.IH [OF step(3)] by (simp add: step(2) [simplified])
qed simp

lemma fse_fill_states_nth:
  assumes "fse_ranges_ok ts cumul n" "v < length ts" "T + u + length ts \<le> 2 ^ 16"
    "\<forall>s < n. cumul ! s + count_list ts s \<le> length st"
  shows "fse_fill_states T ts u cumul st ! (cumul ! (ts ! v) + fse_rank ts v) = T + u + v"
  using assms
proof (induction ts arbitrary: u cumul st v)
  case (Cons t ts)
  note step = fse_ranges_step [OF Cons.prems(1)]
  have n: "n \<le> length cumul" using Cons.prems(1) by (simp add: fse_ranges_ok_def)
  have c: "(cumul ! t + 1) mod 2 ^ 16 = Suc (cumul ! t)" using step(2) by simp
  have val: "(T + u) mod 2 ^ 16 = T + u" using Cons.prems(3) by simp
  show ?case
  proof (cases v)
    case 0
    have "cumul ! t + count_list (t # ts) t \<le> length st" using Cons.prems(4) step(1) by blast
    then have "cumul ! t < length st" by simp
    moreover have "\<forall>s < n. cumul ! t < (cumul[t := cumul ! t + 1]) ! s \<or>
        (cumul[t := cumul ! t + 1]) ! s + count_list ts s \<le> cumul ! t"
    proof (intro allI impI)
      fix s assume s: "s < n"
      consider "s = t" | "s < t" | "t < s" by linarith
      then show "cumul ! t < (cumul[t := cumul ! t + 1]) ! s \<or>
        (cumul[t := cumul ! t + 1]) ! s + count_list ts s \<le> cumul ! t"
        using Cons.prems(1) s step(1) n by cases (force simp: fse_ranges_ok_def)+
    qed
    ultimately show ?thesis
      using 0 fse_fill_states_other [OF step(3)] by (simp add: c [simplified] val [simplified])
  next
    case (Suc w)
    have st: "\<forall>s < n. (cumul[t := cumul ! t + 1]) ! s + count_list ts s \<le> length (st[cumul ! t := T + u])"
      using Cons.prems(4) step(1) n by (auto simp: nth_list_update)
    have "t < length cumul" using step(1) n by simp
    then show ?thesis
      using Cons.IH [OF step(3) _ _ st, of w "Suc u"] Cons.prems(2,3) Suc n
      by (simp add: c [simplified] val [simplified] nth_list_update split: if_splits)
  qed
qed simp

lemma fse_cumul_nth:
  assumes "list_all (\<lambda>n. -1 \<le> n) norm" "acc + sum_list (map fse_cells_of norm) < 2 ^ 16" "s \<le> length norm"
  shows "fse_cumul norm acc ! s = acc + sum_list (map fse_cells_of (take s norm))"
  using assms
proof (induction norm arbitrary: acc s)
  case (Cons n ns)
  have "(if n = -1 then acc + 1 else acc + nat (n mod 2 ^ 16)) mod 2 ^ 16 = acc + fse_cells_of n"
    using Cons.prems by (auto simp: fse_cells_of_def)
  then show ?case
    using Cons.prems Cons.IH [of "acc + fse_cells_of n" "s - 1"] by (cases s) auto
qed simp

lemma length_fse_cumul [simp]: "length (fse_cumul norm acc) = Suc (length norm)"
  by (induction norm arbitrary: acc) auto

subsection \<open>Symbol transforms\<close>

definition fse_max_bits :: "nat \<Rightarrow> nat \<Rightarrow> nat" where
  "fse_max_bits L c = (if c = 1 then L else L - ZSTD_highbit32 (of_nat c - 1))"

lemma fse_transforms_nth:
  assumes "s < length norm" "norm ! s \<noteq> 0" "list_all (\<lambda>n. -1 \<le> n) norm"
  defines "c \<equiv> fse_cells_of (norm ! s)"
  shows "fse_transforms L norm tot ! s =
     \<lparr>deltaFindState = int tot + int (sum_list (map fse_cells_of (take s norm))) - int c,
      deltaNbBits = of_nat (fse_max_bits L c) * 2 ^ 16 - push_bit (fse_max_bits L c) (of_nat c)\<rparr>"
  using assms(1-3) unfolding c_def
proof (induction norm arbitrary: tot s)
  case (Cons n ns)
  show ?case
  proof (cases s)
    case 0
    have "(of_int n :: u32) = of_nat (nat n)" if "0 \<le> n" using that by (simp add: of_nat_nat)
    then show ?thesis
      using 0 Cons.prems by (auto simp: fse_cells_of_def fse_max_bits_def Let_def push_bit_eq_mult)
  next
    case (Suc w)
    have tot: "int tot + int (fse_cells_of n) = int (tot + fse_cells_of n)" by simp
    show ?thesis
      using Suc Cons.prems Cons.IH [of w "tot + fse_cells_of n"]
      by (auto simp: fse_cells_of_def Let_def)
  qed
qed simp

lemma fse_max_bits_facts:
  assumes c: "0 < c" "c \<le> 2 ^ L" and L: "1 \<le> L" "L \<le> 15"
  defines "mb \<equiv> fse_max_bits L c"
  shows "1 \<le> mb" "mb \<le> L" "2 ^ L \<le> c * 2 ^ mb" "c * 2 ^ mb \<le> 2 ^ Suc L"
    "c = 1 \<or> c * 2 ^ (mb - 1) \<le> 2 ^ L"
proof -
  have "1 \<le> mb \<and> mb \<le> L \<and> 2 ^ L \<le> c * 2 ^ mb \<and> c * 2 ^ mb \<le> 2 ^ Suc L \<and> (c = 1 \<or> c * 2 ^ (mb - 1) \<le> 2 ^ L)"
  proof (cases "c = 1")
    case True
    then show ?thesis using L by (simp add: mb_def fse_max_bits_def)
  next
    case False
    define h where "h = ZSTD_highbit32 (of_nat c - 1)"
    have "of_nat c - 1 = (of_nat (c - 1) :: u32)" using c by (simp add: of_nat_diff)
    moreover have "0 < c - 1" "c - 1 < 2 ^ 32" using False c L power_increasing [of L 15 "2::nat"] by auto
    ultimately have "2 ^ h \<le> c - 1" "c - 1 < 2 ^ Suc h"
      using ZSTD_highbit32_of_nat [of "c - 1"] by (simp_all add: h_def)
    then have h: "2 ^ h < c" "c \<le> 2 ^ Suc h" using c False by auto
    then have "2 ^ h < (2::nat) ^ L" using c by linarith
    then have hL: "h < L" by (simp add: power_less_imp_less_exp)
    have m: "mb = L - h" using False by (simp add: mb_def fse_max_bits_def h_def)
    have p: "(2::nat) ^ h * 2 ^ (L - h) = 2 ^ L" "(2::nat) ^ Suc h * 2 ^ (L - h - 1) = 2 ^ L"
      using hL power_add [of "2::nat" "Suc h" "L - h - 1"] by (simp_all flip: power_add)
    have lo: "2 ^ L \<le> c * 2 ^ (L - h)" using h(1) p(1) by (metis less_imp_le mult_le_mono1)
    have "c * 2 ^ (L - h) \<le> 2 ^ Suc h * 2 ^ (L - h)" using h(2) by (intro mult_le_mono1)
    also have "\<dots> = 2 ^ Suc L" using p(1) by simp
    finally have hi: "c * 2 ^ (L - h) \<le> 2 ^ Suc L" .
    have "c * 2 ^ (L - h - 1) \<le> 2 ^ L" using h(2) p(2) by (metis mult_le_mono1)
    then show ?thesis using hL lo hi by (simp add: m)
  qed
  then show "1 \<le> mb" "mb \<le> L" "2 ^ L \<le> c * 2 ^ mb" "c * 2 ^ mb \<le> 2 ^ Suc L"
    "c = 1 \<or> c * 2 ^ (mb - 1) \<le> 2 ^ L" by auto
qed

lemma fse_delta_unat:
  assumes c: "0 < c" "c \<le> 2 ^ L" and L: "1 \<le> L" "L \<le> 15"
  defines "mb \<equiv> fse_max_bits L c"
  shows "unat (of_nat mb * 2 ^ 16 - push_bit mb (of_nat c) :: u32) = mb * 2 ^ 16 - c * 2 ^ mb"
proof -
  note mb = fse_max_bits_facts [OF assms(1-4), folded mb_def]
  have X: "c * 2 ^ mb \<le> mb * 2 ^ 16" "mb * 2 ^ 16 < 2 ^ 32"
    using mb L power_increasing [of L 15 "2::nat"] by auto
  have "of_nat mb * 2 ^ 16 - push_bit mb (of_nat c) = (of_nat (mb * 2 ^ 16 - c * 2 ^ mb) :: u32)"
    using X(1) by (simp add: of_nat_diff push_bit_eq_mult)
  moreover have "mb * 2 ^ 16 - c * 2 ^ mb < 2 ^ LENGTH(32)" using X(2) by simp
  ultimately show ?thesis by (simp only: unat_of_nat_id)
qed

lemma fse_bits_out:
  assumes c: "0 < c" "c \<le> 2 ^ L" and L: "1 \<le> L" "L \<le> 15" and v: "2 ^ L \<le> v" "v < 2 ^ Suc L"
  defines "mb \<equiv> fse_max_bits L c"
  defines "d \<equiv> unat (of_nat mb * 2 ^ 16 - push_bit mb (of_nat c) :: u32)"
  shows "(v + d) div 2 ^ 16 = (if c * 2 ^ mb \<le> v then mb else mb - 1)"
    "c \<le> v div 2 ^ ((v + d) div 2 ^ 16)" "v div 2 ^ ((v + d) div 2 ^ 16) < 2 * c"
proof -
  note mb = fse_max_bits_facts [OF c L, folded mb_def]
  note d = fse_delta_unat [OF c L, folded mb_def, folded d_def]
  let ?X = "c * 2 ^ mb"
  have L2: "(2::nat) ^ L \<le> 2 ^ 15" using L by (intro power_increasing) auto
  have X: "?X \<le> mb * 2 ^ 16" "?X \<le> 2 ^ 16" using mb L2 by auto
  show nb: "(v + d) div 2 ^ 16 = (if ?X \<le> v then mb else mb - 1)"
  proof (cases "?X \<le> v")
    case True
    have "v - ?X < 2 ^ 16" "v + d = (v - ?X) + mb * 2 ^ 16" using True d X v L2 by auto
    then show ?thesis using True by (simp add: div_mult_self1 [of "2 ^ 16"])
  next
    case False
    have "1 \<le> mb" using mb by simp
    then have "2 ^ 16 - (?X - v) < 2 ^ 16" "v + d = (2 ^ 16 - (?X - v)) + (mb - 1) * 2 ^ 16"
      using False d X by (simp_all add: diff_mult_distrib)
    then show ?thesis using False by simp
  qed
  have "2 * c * 2 ^ (mb - 1) = ?X" using mb by (cases mb) auto
  then have "v < 2 * c * 2 ^ (mb - 1)" if "\<not> ?X \<le> v" using that by linarith
  then show "c \<le> v div 2 ^ ((v + d) div 2 ^ 16)" "v div 2 ^ ((v + d) div 2 ^ 16) < 2 * c"
    unfolding nb using mb v by (auto simp: less_eq_div_iff_mult_less_eq div_less_iff_less_mult)
qed

subsection \<open>Both tables of a distribution\<close>

definition fse_table_ok :: "int list \<Rightarrow> nat \<Rightarrow> bool" where
  "fse_table_ok norm L \<longleftrightarrow> fse_norm_ok norm L \<and> FSE_MIN_TABLELOG \<le> L \<and> L \<le> FSE_MAX_TABLELOG"

definition fse_dcells :: "int list \<Rightarrow> nat \<Rightarrow> FSE_decode_t list" where
  "fse_dcells norm L = fse_build_cells L (snd (fse_spread norm L)) (fse_symbolNext norm)"

definition fse_states :: "int list \<Rightarrow> nat \<Rightarrow> nat list" where
  "fse_states norm L =
     fse_fill_states (2 ^ L) (snd (fse_spread norm L)) 0
       ((fse_cumul norm 0)[length norm := (2 ^ L + 1) mod 2 ^ 16]) (replicate (2 ^ L) 0)"

lemma fse_table_ok_facts:
  assumes "fse_table_ok norm L"
  shows "3 < L" "L < 32" "L \<le> 12" "fse_norm_ok norm L" "(2::nat) ^ L \<le> 2 ^ 12"
    "list_all (\<lambda>n. -1 \<le> n) norm" "sum_list (map fse_cells_of norm) = 2 ^ L" "length norm \<le> 256"
  using assms power_increasing [of L 12 "2::nat"]
  by (auto simp: fse_table_ok_def FSE_MIN_TABLELOG_def FSE_MAX_TABLELOG_def fse_norm_ok_def)

lemma fse_cells_of_le:
  assumes "fse_table_ok norm L" "s < length norm"
  shows "sum_list (map fse_cells_of (take s norm)) + fse_cells_of (norm ! s) \<le> 2 ^ L"
proof -
  have "map fse_cells_of norm = map fse_cells_of (take s norm) @ fse_cells_of (norm ! s) # map fse_cells_of (drop (Suc s) norm)"
    using assms(2) by (metis id_take_nth_drop list.simps(9) map_append)
  then show ?thesis using fse_table_ok_facts(7) [OF assms(1)] by simp
qed

lemma fse_symbolNext_nth:
  assumes "fse_table_ok norm L" "s < length norm"
  shows "fse_symbolNext norm ! s = fse_cells_of (norm ! s)"
proof -
  have "-1 \<le> norm ! s" using fse_table_ok_facts(6) [OF assms(1)] assms(2) by (simp add: list_all_length)
  then show ?thesis
    using fse_cells_of_le [OF assms] fse_table_ok_facts(5) [OF assms(1)] assms(2)
    by (auto simp: fse_symbolNext_def fse_cells_of_def)
qed

lemma fse_spread_facts:
  assumes "fse_table_ok norm L"
  defines "ts \<equiv> snd (fse_spread norm L)"
  shows "length ts = 2 ^ L" "set ts \<subseteq> {..<length norm}"
    "s < length norm \<Longrightarrow> count_list ts s = fse_cells_of (norm ! s)"
  using fse_spread_count [OF fse_table_ok_facts(4,1,2) [OF assms(1)]]
  by (auto simp: ts_def count_list_mset)

lemma fse_dcells_nth:
  assumes "fse_table_ok norm L" "u < 2 ^ L"
  defines "ts \<equiv> snd (fse_spread norm L)"
  shows "ts ! u < length norm" "fse_rank ts u < fse_cells_of (norm ! (ts ! u))"
    "fse_dcells norm L ! u = fse_cell L (ts ! u) (fse_cells_of (norm ! (ts ! u)) + fse_rank ts u)"
proof -
  note ts = fse_spread_facts [OF assms(1), folded ts_def]
  have u: "u < length ts" using ts(1) assms(2) by simp
  show t: "ts ! u < length norm" using nth_mem [OF u] ts(2) by auto
  show "fse_rank ts u < fse_cells_of (norm ! (ts ! u))"
    using fse_rank_less [OF u] ts(3) [OF t] by simp
  have "fse_symbolNext norm ! s + count_list ts s < 2 ^ 16" if "s < length norm" for s
    using fse_symbolNext_nth [OF assms(1) that] ts(3) [OF that] fse_cells_of_le [OF assms(1) that]
      fse_table_ok_facts(5) [OF assms(1)] by simp
  then show "fse_dcells norm L ! u = fse_cell L (ts ! u) (fse_cells_of (norm ! (ts ! u)) + fse_rank ts u)"
    using fse_build_cells_nth [OF u, of "fse_symbolNext norm" L] ts(2) fse_symbolNext_nth [OF assms(1) t]
    by (simp add: fse_dcells_def ts_def fse_symbolNext_def)
qed

lemma length_fse_dcells: "fse_table_ok norm L \<Longrightarrow> length (fse_dcells norm L) = 2 ^ L"
  using fse_spread_facts(1) by (simp add: fse_dcells_def)

lemma fse_cumul_spread:
  assumes "fse_table_ok norm L"
  defines "cumul \<equiv> (fse_cumul norm 0)[length norm := (2 ^ L + 1) mod 2 ^ 16]"
  shows "s < length norm \<Longrightarrow> cumul ! s = sum_list (map fse_cells_of (take s norm))"
    "fse_ranges_ok (snd (fse_spread norm L)) cumul (length norm)"
proof -
  note ok = fse_table_ok_facts [OF assms(1)]
  note ts = fse_spread_facts [OF assms(1)]
  show c: "cumul ! s = sum_list (map fse_cells_of (take s norm))" if "s < length norm" for s
    using fse_cumul_nth [OF ok(6), of 0 s] ok(5,7) that by (simp add: cumul_def)
  have "sum_list (map fse_cells_of (take s norm)) + fse_cells_of (norm ! s) \<le> sum_list (map fse_cells_of (take s' norm))"
    if "s < s'" "s' < length norm" for s s'
  proof -
    have "take s' norm = take s norm @ norm ! s # take (s' - Suc s) (drop (Suc s) norm)"
      using that by (metis Suc_leI append_Cons append_Nil append_assoc le_add_diff_inverse less_trans take_Suc_conv_app_nth take_add)
    then show ?thesis by simp
  qed
  moreover have "sum_list (map fse_cells_of (take s norm)) + fse_cells_of (norm ! s) < 2 ^ 16"
    if "s < length norm" for s
    using fse_cells_of_le [OF assms(1) that] ok(5) by simp
  ultimately show "fse_ranges_ok (snd (fse_spread norm L)) cumul (length norm)"
    using c ts(2,3) by (auto simp: fse_ranges_ok_def cumul_def)
qed

text \<open>The state reached for symbol \<open>s\<close> with the sub-state \<open>x\<close>.\<close>

lemma fse_state_lookup:
  assumes "fse_table_ok norm L" "s < length norm" "norm ! s \<noteq> 0"
  defines "c \<equiv> fse_cells_of (norm ! s)"
  assumes "c \<le> x" "x < 2 * c"
  defines "v \<equiv> fse_states norm L ! nat (int x + deltaFindState (fse_transforms L norm 0 ! s))"
  shows "2 ^ L \<le> v" "v < 2 ^ Suc L" "fse_dcells norm L ! (v - 2 ^ L) = fse_cell L s x"
proof -
  let ?ts = "snd (fse_spread norm L)" and ?cum = "(fse_cumul norm 0)[length norm := (2 ^ L + 1) mod 2 ^ 16]"
  note ok = fse_table_ok_facts [OF assms(1)]
  note ts = fse_spread_facts [OF assms(1)]
  note cum = fse_cumul_spread [OF assms(1)]
  let ?C = "sum_list (map fse_cells_of (take s norm))"
  have "x - c < count_list ?ts s" using assms(5,6) ts(3) [OF assms(2)] by (simp add: c_def)
  then obtain u where u: "u < length ?ts" "?ts ! u = s" "fse_rank ?ts u = x - c"
    using fse_rank_exists by blast
  have "nat (int x + deltaFindState (fse_transforms L norm 0 ! s)) = ?C + (x - c)"
    using fse_transforms_nth [OF assms(2,3) ok(6), of L 0] assms(5) by (simp add: c_def)
  also have "\<dots> = ?cum ! (?ts ! u) + fse_rank ?ts u" using cum(1) [OF assms(2)] u by simp
  finally have "v = 2 ^ L + u"
    using fse_fill_states_nth [OF cum(2) u(1), of "2 ^ L" 0 "replicate (2 ^ L) 0"] ts cum(1)
      fse_cells_of_le [OF assms(1)] ok(5)
    by (simp add: v_def fse_states_def)
  then show "2 ^ L \<le> v" "v < 2 ^ Suc L" "fse_dcells norm L ! (v - 2 ^ L) = fse_cell L s x"
    using u ts(1) fse_dcells_nth(3) [OF assms(1), of u] assms(5) by (simp_all add: c_def)
qed

lemma fse_cells_of_pos:
  assumes "fse_table_ok norm L" "s < length norm" "norm ! s \<noteq> 0"
  shows "0 < fse_cells_of (norm ! s)" "fse_cells_of (norm ! s) \<le> 2 ^ L"
proof -
  have "-1 \<le> norm ! s" using fse_table_ok_facts(6) [OF assms(1)] assms(2) by (simp add: list_all_length)
  then show "0 < fse_cells_of (norm ! s)" using assms(3) by (auto simp: fse_cells_of_def)
  show "fse_cells_of (norm ! s) \<le> 2 ^ L" using fse_cells_of_le [OF assms(1,2)] by simp
qed

definition fse_nb_out :: "int list \<Rightarrow> nat \<Rightarrow> nat \<Rightarrow> nat \<Rightarrow> nat" where
  "fse_nb_out norm L v s = (v + unat (deltaNbBits (fse_transforms L norm 0 ! s))) div 2 ^ 16"

definition fse_next :: "int list \<Rightarrow> nat \<Rightarrow> nat \<Rightarrow> nat \<Rightarrow> nat" where
  "fse_next norm L v s =
     fse_states norm L ! nat (int (v div 2 ^ fse_nb_out norm L v s) + deltaFindState (fse_transforms L norm 0 ! s))"

lemma fse_step_inverse:
  assumes "fse_table_ok norm L" "s < length norm" "norm ! s \<noteq> 0" "2 ^ L \<le> v" "v < 2 ^ Suc L"
  defines "cell \<equiv> fse_dcells norm L ! (fse_next norm L v s - 2 ^ L)" and "nb \<equiv> fse_nb_out norm L v s"
  shows "2 ^ L \<le> fse_next norm L v s" "fse_next norm L v s < 2 ^ Suc L" "nb \<le> L"
    "symbol cell = s" "nbBits cell = nb" "newState cell + v mod 2 ^ nb = v - 2 ^ L"
proof -
  note ok = fse_table_ok_facts [OF assms(1)]
  define c where "c = fse_cells_of (norm ! s)"
  define x where "x = v div 2 ^ nb"
  note cp = fse_cells_of_pos [OF assms(1-3), folded c_def]
  have nb_eq: "nb = (v + unat (of_nat (fse_max_bits L c) * 2 ^ 16 - push_bit (fse_max_bits L c) (of_nat c) :: u32)) div 2 ^ 16"
    using fse_transforms_nth [OF assms(2,3) ok(6), of L 0] by (simp add: nb_def fse_nb_out_def c_def)
  have "1 \<le> L" "L \<le> 15" using ok(1,3) by auto
  note out = fse_bits_out [OF cp this assms(4,5), folded nb_eq, folded x_def]
  show nbL: "nb \<le> L"
    using out(1) fse_max_bits_facts(2) [OF cp \<open>1 \<le> L\<close> \<open>L \<le> 15\<close>] by (auto split: if_splits)
  note look = fse_state_lookup [OF assms(1-3), folded c_def, OF out(2,3)]
  have v': "fse_next norm L v s = fse_states norm L ! nat (int x + deltaFindState (fse_transforms L norm 0 ! s))"
    by (simp add: fse_next_def x_def nb_def)
  show "2 ^ L \<le> fse_next norm L v s" "fse_next norm L v s < 2 ^ Suc L" using look(1,2) by (simp_all add: v')
  have p: "(2::nat) ^ (L - nb) * 2 ^ nb = 2 ^ L" using nbL by (simp flip: power_add)
  have xb: "2 ^ (L - nb) \<le> x" "x < 2 ^ Suc (L - nb)"
    unfolding x_def using assms(4,5) p
    by (simp_all add: less_eq_div_iff_mult_less_eq div_less_iff_less_mult mult.assoc)
  note cell = fse_cell_fields [OF xb nbL \<open>L \<le> 15\<close>]
  have "cell = fse_cell L s x" using look(3) by (simp add: cell_def v')
  moreover have "x * 2 ^ nb + v mod 2 ^ nb = v" unfolding x_def by (rule div_mult_mod_eq)
  ultimately show "symbol cell = s" "nbBits cell = nb" "newState cell + v mod 2 ^ nb = v - 2 ^ L"
    using cell by auto
qed

lemma fse_init_inverse:
  assumes "fse_table_ok norm L" "s < length norm" "norm ! s \<noteq> 0"
    "ct_tableLog ct = L" "ct_stateTable ct = fse_states norm L" "ct_symbolTT ct = fse_transforms L norm 0"
  defines "v \<equiv> cs_value (FSE_initCState2 ct s)"
  shows "2 ^ L \<le> v" "v < 2 ^ Suc L" "symbol (fse_dcells norm L ! (v - 2 ^ L)) = s"
    "fse_cells_of (norm ! s) < 2 ^ L \<Longrightarrow> 0 < nbBits (fse_dcells norm L ! (v - 2 ^ L))"
proof -
  note ok = fse_table_ok_facts [OF assms(1)]
  define c where "c = fse_cells_of (norm ! s)"
  note cp = fse_cells_of_pos [OF assms(1-3), folded c_def]
  define mb where "mb = fse_max_bits L c"
  define d where "d = deltaNbBits (fse_transforms L norm 0 ! s)"
  have L: "1 \<le> L" "L \<le> 15" using ok(1,3) by auto
  note mb = fse_max_bits_facts [OF cp L, folded mb_def]
  have "d = of_nat mb * 2 ^ 16 - push_bit mb (of_nat c)"
    using fse_transforms_nth [OF assms(2,3) ok(6), of L 0] by (simp add: d_def c_def mb_def)
  then have d: "unat d = mb * 2 ^ 16 - c * 2 ^ mb"
    using fse_delta_unat [OF cp L, folded mb_def] by simp
  have X: "c * 2 ^ mb \<le> 2 ^ 13" "mb \<le> 12" using mb(2,4) ok(3,5) by auto
  have d2: "unat (d + 2 ^ 15) = mb * 2 ^ 16 - c * 2 ^ mb + 2 ^ 15"
    using d X by (subst unat_add_lem [THEN iffD1]) (auto simp: unat_add_lem)
  have "unat (drop_bit 16 (d + 2 ^ 15)) = mb"
    unfolding unat_drop_bit_word d2 using X mb(1) by (intro div_nat_eqI) auto
  moreover have um: "unat (of_nat mb :: u32) = mb" using X(2) by (intro unat_of_nat_id) simp
  ultimately have wm: "drop_bit 16 (d + 2 ^ 15) = of_nat mb" by (metis unsigned_word_eqI)
  have dw: "d = of_nat (mb * 2 ^ 16 - c * 2 ^ mb)" unfolding d [symmetric] by simp
  have "push_bit 16 (of_nat mb) - d = (of_nat (mb * 2 ^ 16) - of_nat (mb * 2 ^ 16 - c * 2 ^ mb) :: u32)"
    by (simp add: push_bit_eq_mult dw)
  also have "\<dots> = of_nat (c * 2 ^ mb)"
    using X mb(1) by (subst of_nat_diff [symmetric]) auto
  finally have "unat (push_bit 16 (of_nat mb) - d) = c * 2 ^ mb"
    using X unat_of_nat_id [of "c * 2 ^ mb", where 'a = 32] by simp
  then have v: "v = fse_states norm L ! nat (int c + deltaFindState (fse_transforms L norm 0 ! s))"
    using assms(5,6) wm um by (simp add: v_def FSE_initCState2_def FSE_initCState_def Let_def d_def)
  have "c < 2 * c" using cp by simp
  note look = fse_state_lookup [OF assms(1-3), folded c_def, OF le_refl this, folded v]
  show "2 ^ L \<le> v" "v < 2 ^ Suc L" using look by auto
  show "symbol (fse_dcells norm L ! (v - 2 ^ L)) = s" using look(3) by (simp add: fse_cell_def Let_def)
  have hb: "2 ^ ZSTD_highbit32 (of_nat c) \<le> c"
    using ZSTD_highbit32_of_nat(1) [OF cp(1)] cp(2) ok(5) by simp
  show "0 < nbBits (fse_dcells norm L ! (v - 2 ^ L))" if "fse_cells_of (norm ! s) < 2 ^ L"
  proof -
    have "2 ^ ZSTD_highbit32 (of_nat c) < (2::nat) ^ L" using hb that [folded c_def] by (rule le_less_trans)
    then have "ZSTD_highbit32 (of_nat c) < L" by (rule power_less_imp_less_exp [rotated]) simp
    then show ?thesis using look(3) by (simp add: fse_cell_def Let_def)
  qed
qed

lemma fse_dcells_closed:
  assumes "fse_table_ok norm L" "u < 2 ^ L"
  defines "cell \<equiv> fse_dcells norm L ! u"
  shows "nbBits cell \<le> L" "newState cell + 2 ^ nbBits cell \<le> 2 ^ L" "symbol cell < length norm"
    "fse_cells_of (norm ! symbol cell) < 2 ^ (L - 1) \<Longrightarrow> 0 < nbBits cell"
proof -
  note ok = fse_table_ok_facts [OF assms(1)]
  note nth = fse_dcells_nth [OF assms(1,2)]
  define s where "s = snd (fse_spread norm L) ! u"
  define c where "c = fse_cells_of (norm ! s)"
  define x where "x = c + fse_rank (snd (fse_spread norm L)) u"
  have x: "0 < x" "x < 2 * c" "c \<le> 2 ^ L" and s: "s < length norm"
    using nth(1,2) fse_cells_of_le [OF assms(1) nth(1)] by (auto simp: x_def c_def s_def)
  define h where "h = ZSTD_highbit32 (of_nat x)"
  have h: "2 ^ h \<le> x" "x < 2 ^ Suc h"
    using ZSTD_highbit32_of_nat [OF x(1)] x ok(5) by (simp_all add: h_def)
  have "(2::nat) ^ h < 2 ^ Suc L" using h(1) x by simp
  then have hL: "h \<le> L" by (simp only: power_strict_increasing_iff less_Suc_eq_le)
  have cell: "cell = fse_cell L s x" using nth(3) by (simp add: cell_def x_def c_def s_def)
  have xb: "2 ^ (L - (L - h)) \<le> x" "x < 2 ^ Suc (L - (L - h))" "L - h \<le> L" "L \<le> 15" using h hL ok(3) by auto
  note f = fse_cell_fields [OF xb]
  show "nbBits cell \<le> L" "newState cell + 2 ^ nbBits cell \<le> 2 ^ L" "symbol cell < length norm"
    using f s by (auto simp: cell)
  show "0 < nbBits cell" if "fse_cells_of (norm ! symbol cell) < 2 ^ (L - 1)"
  proof -
    have "2 * c < 2 * 2 ^ (L - 1)" using that f(1) by (simp add: cell c_def)
    then have "(2::nat) ^ h < 2 ^ L" using h(1) x(2) ok(1) by (cases L) auto
    then show ?thesis using f(2) by (simp add: cell)
  qed
qed

lemma fse_fast_cells:
  assumes "fse_table_ok norm L" "u < 2 ^ L" "list_all (\<lambda>n. n = -1 \<or> n < 2 ^ (L - 1)) norm"
  shows "0 < nbBits (fse_dcells norm L ! u)"
proof -
  let ?s = "symbol (fse_dcells norm L ! u)"
  note c = fse_dcells_closed(3,4) [OF assms(1,2)]
  have "(1::nat) < 2 ^ (L - 1)"
    using fse_table_ok_facts(1) [OF assms(1)] one_less_power [of "2::nat" "L - 1"] by simp
  moreover have "norm ! ?s = -1 \<or> norm ! ?s < 2 ^ (L - 1)"
    using assms(3) c(1) by (simp add: list_all_length)
  ultimately have "fse_cells_of (norm ! ?s) < 2 ^ (L - 1)"
    by (auto simp: fse_cells_of_def nat_less_iff)
  then show ?thesis by (rule c(2))
qed

lemma FSE_buildDTable_internal_ok:
  assumes "fse_table_ok norm L" "length norm = Suc maxSV" "FSE_BUILD_DTABLE_WKSP_SIZE L maxSV \<le> wkspSize"
  shows "FSE_buildDTable_internal norm maxSV L wkspSize =
    Inr \<lparr>dt_tableLog = L, dt_fastMode = list_all (\<lambda>n. n = -1 \<or> n < 2 ^ (L - 1)) norm,
         dt_cells = fse_dcells norm L\<rparr>"
  using assms fse_table_ok_facts [OF assms(1)] fse_spread_spec [of norm L]
  by (auto simp: FSE_buildDTable_internal_def FSE_MAX_SYMBOL_VALUE_def FSE_MAX_TABLELOG_def Let_def
      fse_dcells_def split: prod.splits)

lemma FSE_buildCTable_wksp_ok:
  assumes "length norm = Suc maxSV" "FSE_BUILD_CTABLE_WORKSPACE_SIZE maxSV L \<le> wkspSize"
  shows "FSE_buildCTable_wksp norm maxSV L wkspSize =
    Inr \<lparr>ct_tableLog = L, ct_maxSymbolValue = maxSV, ct_stateTable = fse_states norm L,
         ct_symbolTT = fse_transforms L norm 0\<rparr>"
  using assms by (auto simp: FSE_buildCTable_wksp_def Let_def fse_states_def split: prod.splits)

lemma FSE_buildDTable_internal_InrD:
  assumes "fse_table_ok norm L" "length norm = Suc maxSV" "FSE_buildDTable_internal norm maxSV L w = Inr dt"
  shows "dt = \<lparr>dt_tableLog = L, dt_fastMode = list_all (\<lambda>n. n = -1 \<or> n < 2 ^ (L - 1)) norm,
         dt_cells = fse_dcells norm L\<rparr>"
proof -
  have "FSE_BUILD_DTABLE_WKSP_SIZE L maxSV \<le> w"
    using assms(3) by (auto simp: FSE_buildDTable_internal_def split: if_splits)
  then show ?thesis using FSE_buildDTable_internal_ok [OF assms(1,2)] assms(3) by auto
qed

lemma FSE_buildCTable_wksp_InrD:
  assumes "length norm = Suc maxSV" "FSE_buildCTable_wksp norm maxSV L w = Inr ct"
  shows "ct = \<lparr>ct_tableLog = L, ct_maxSymbolValue = maxSV, ct_stateTable = fse_states norm L,
         ct_symbolTT = fse_transforms L norm 0\<rparr>"
proof -
  have "FSE_BUILD_CTABLE_WORKSPACE_SIZE maxSV L \<le> w"
    using assms(2) by (auto simp: FSE_buildCTable_wksp_def split: if_splits)
  then show ?thesis using FSE_buildCTable_wksp_ok [OF assms(1)] assms(2) by auto
qed

lemma FSE_encodeSymbol_eq:
  assumes "cs_stateTable st = fse_states norm L" "cs_symbolTT st = fse_transforms L norm 0"
  shows "FSE_encodeSymbol bitC st s =
     (BIT_addBits bitC (of_nat (cs_value st)) (fse_nb_out norm L (cs_value st) s),
      st\<lparr>cs_value := fse_next norm L (cs_value st) s\<rparr>)"
  using assms by (simp add: FSE_encodeSymbol_def Let_def fse_nb_out_def fse_next_def)

lemma BIT_lookBits_less: "unat (BIT_lookBits bitD n) < 2 ^ n"
proof -
  have "unat (BIT_lookBits bitD n) = unat (drop_bit (nat ((64 - int (d_bitsConsumed bitD) - int n) mod 64)) (d_bitContainer bitD)) mod 2 ^ n"
    unfolding BIT_lookBits_def BIT_getMiddleBits_def push_bit_of_1 by (rule unat_and_mask)
  then show ?thesis by simp
qed

lemma BIT_lookBitsFast_less:
  assumes "0 < n" "n < 64"
  shows "unat (BIT_lookBitsFast bitD n) < 2 ^ n"
proof -
  have "(64 - int n) mod 64 = 64 - int n" using assms by (intro mod_pos_pos_trivial) auto
  then have "nat ((64 - int n) mod 64) = 64 - n" by simp
  moreover have "unat (drop_bit (64 - n) w) < 2 ^ n" for w :: u64
  proof -
    have "unat w < 2 ^ (64 - n) * 2 ^ n" using unsigned_less [of w, where ?'a = nat] assms by (simp flip: power_add)
    then show ?thesis
      by (simp only: unat_drop_bit_eq) (simp add: drop_bit_eq_div less_mult_imp_div_less mult.commute)
  qed
  ultimately show ?thesis by (simp add: BIT_lookBitsFast_def)
qed

subsection \<open>Properties\<close>

lemma fse_sample_ok: "fse_table_ok [16, -1, 8, 0, 4, -1, 2] 5"
  by (simp add: fse_table_ok_def fse_norm_ok_def fse_cells_of_def FSE_MIN_TABLELOG_def FSE_MAX_TABLELOG_def)

text \<open>
  Spreading the symbols over the FSE table, in the unrolled form as well as in the form
  that steps over the low-probability cells, ends at position 0 and gives each symbol exactly
  the number of cells the normalized distribution assigns to it (one for a symbol marked
  \<open>-1\<close>), and no cell to any other value.
\<close>

lemma fse_spread_exact:
  assumes "fse_table_ok norm tableLog"
  shows "fst (fse_spread norm tableLog) = 0 \<and>
    length (snd (fse_spread norm tableLog)) = 2 ^ tableLog \<and>
    count_list (snd (fse_spread norm tableLog)) s =
      (if s < length norm then (if norm ! s = -1 then 1 else nat (norm ! s)) else 0)"
  using fse_spread_spec fse_spread_count fse_table_ok_facts [OF assms]
  by (simp add: count_list_mset fse_cells_of_def)

text \<open>
  C24. The coding and the decoding table that the two builders make from one distribution are
  inverse to each other. From any coding state, coding a symbol of the distribution moves to
  a state whose decoding cell holds that symbol, the number of bits the coding step appended
  to the stream, and a base to which those bits add up to the state before the step.
\<close>

theorem fse_tables_inverse:
  assumes "fse_table_ok norm tableLog" "length norm = Suc maxSymbolValue"
    "FSE_buildCTable_wksp norm maxSymbolValue tableLog wkspSize = Inr ct"
    "FSE_buildDTable_internal norm maxSymbolValue tableLog wkspSize' = Inr dt"
    "cs_stateTable st = ct_stateTable ct" "cs_symbolTT st = ct_symbolTT ct"
    "2 ^ tableLog \<le> cs_value st" "cs_value st < 2 ^ Suc tableLog"
    "s \<le> maxSymbolValue" "norm ! s \<noteq> 0"
    "FSE_encodeSymbol bitC st s = (bitC', st')"
  shows "2 ^ tableLog \<le> cs_value st' \<and> cs_value st' < 2 ^ Suc tableLog \<and>
    symbol (dt_cells dt ! (cs_value st' - 2 ^ tableLog)) = s \<and>
    bitC' = BIT_addBits bitC (of_nat (cs_value st)) (nbBits (dt_cells dt ! (cs_value st' - 2 ^ tableLog))) \<and>
    newState (dt_cells dt ! (cs_value st' - 2 ^ tableLog))
      + cs_value st mod 2 ^ nbBits (dt_cells dt ! (cs_value st' - 2 ^ tableLog))
    = cs_value st - 2 ^ tableLog"
proof -
  have tabs: "ct_stateTable ct = fse_states norm tableLog" "ct_symbolTT ct = fse_transforms tableLog norm 0"
      "dt_cells dt = fse_dcells norm tableLog"
    using FSE_buildCTable_wksp_InrD [OF assms(2,3)] FSE_buildDTable_internal_InrD [OF assms(1,2,4)] by simp_all
  have enc: "bitC' = BIT_addBits bitC (of_nat (cs_value st)) (fse_nb_out norm tableLog (cs_value st) s)"
      "cs_value st' = fse_next norm tableLog (cs_value st) s"
    using assms(11) FSE_encodeSymbol_eq [of st norm tableLog bitC s] assms(5,6) tabs by auto
  have "s < length norm" using assms(2,9) by simp
  from fse_step_inverse [OF assms(1) this assms(10,7,8)] show ?thesis
    by (simp add: enc tabs)
qed

theorem fse_tables_inverse_witness:
  "\<exists>ct dt bitC' st'.
     FSE_buildCTable_wksp [16, -1, 8, 0, 4, -1, 2] 6 5 200 = Inr ct \<and>
     FSE_buildDTable_internal [16, -1, 8, 0, 4, -1, 2] 6 5 200 = Inr dt \<and>
     FSE_encodeSymbol \<lparr>c_bitContainer = 0, c_bitPos = 0, c_buf = replicate 16 0, c_ptr = 0, c_endPtr = 8\<rparr>
       (FSE_initCState ct) 2 = (bitC', st') \<and>
     symbol (dt_cells dt ! (cs_value st' - 2 ^ 5)) = 2 \<and>
     newState (dt_cells dt ! (cs_value st' - 2 ^ 5)) + 2 ^ 5 mod 2 ^ nbBits (dt_cells dt ! (cs_value st' - 2 ^ 5)) = 0"
proof -
  let ?n = "[16, -1, 8, 0, 4, -1, 2] :: int list"
  let ?c = "\<lparr>c_bitContainer = 0, c_bitPos = 0, c_buf = replicate 16 0, c_ptr = 0, c_endPtr = 8\<rparr>"
  have len: "length ?n = Suc 6" by simp
  have "\<exists>ct. FSE_buildCTable_wksp ?n 6 5 200 = Inr ct"
    by (intro exI, rule FSE_buildCTable_wksp_ok [OF len]) (simp add: FSE_BUILD_CTABLE_WORKSPACE_SIZE_def)
  then obtain ct where ct: "FSE_buildCTable_wksp ?n 6 5 200 = Inr ct" ..
  have "\<exists>dt. FSE_buildDTable_internal ?n 6 5 200 = Inr dt"
    by (intro exI, rule FSE_buildDTable_internal_ok [OF fse_sample_ok len]) (simp add: FSE_BUILD_DTABLE_WKSP_SIZE_def)
  then obtain dt where dt: "FSE_buildDTable_internal ?n 6 5 200 = Inr dt" ..
  have L: "ct_tableLog ct = 5" using FSE_buildCTable_wksp_InrD [OF len ct] by simp
  obtain bitC' st' where enc: "FSE_encodeSymbol ?c (FSE_initCState ct) 2 = (bitC', st')" by fastforce
  from fse_tables_inverse [OF fse_sample_ok len ct dt _ _ _ _ _ _ enc] ct dt enc L
  show ?thesis by (auto simp: FSE_initCState_def)
qed

text \<open>
  The decoding table of a distribution is closed: from a state inside the table, reading
  the number of bits its cell asks for, whatever their value, leads to a state inside the
  table and to a symbol of the distribution, so neither a corrupted nor an exhausted stream
  makes the decoder read outside the table.
\<close>

lemma fse_decode_closed:
  assumes "fse_table_ok norm tableLog" "length norm = Suc maxSymbolValue"
    "FSE_buildDTable_internal norm maxSymbolValue tableLog wkspSize = Inr dt"
    "ds_table st = dt_cells dt" "ds_state st < length (dt_cells dt)"
    "FSE_decodeSymbol st bitD = (s, st', bitD')"
  shows "length (dt_cells dt) = 2 ^ tableLog \<and> ds_state st' < length (dt_cells dt) \<and>
    ds_table st' = dt_cells dt \<and> s \<le> maxSymbolValue"
proof -
  let ?cell = "ds_table st ! ds_state st"
  have dt: "dt_cells dt = fse_dcells norm tableLog"
    using FSE_buildDTable_internal_InrD [OF assms(1-3)] by simp
  have len: "length (dt_cells dt) = 2 ^ tableLog" using length_fse_dcells [OF assms(1)] dt by simp
  have closed: "newState ?cell + 2 ^ nbBits ?cell \<le> 2 ^ tableLog" "symbol ?cell < length norm"
    using fse_dcells_closed [OF assms(1), of "ds_state st"] assms(4,5) len dt by simp_all
  have "unat (BIT_lookBits bitD (nbBits ?cell)) < 2 ^ nbBits ?cell" by (rule BIT_lookBits_less)
  then show ?thesis
    using assms(2,4,6) len closed by (auto simp: FSE_decodeSymbol_def BIT_readBits_def Let_def)
qed

text \<open>
  When the builder sets the fast mode, every cell of the decoding table asks for at least
  one bit, so decoding with the fast bit reader, which is wrong for zero bits, gives the same
  symbol, state and stream as decoding with the safe one.
\<close>

lemma fse_fast_mode_sound:
  assumes "fse_table_ok norm tableLog" "length norm = Suc maxSymbolValue"
    "FSE_buildDTable_internal norm maxSymbolValue tableLog wkspSize = Inr dt" "dt_fastMode dt"
    "ds_table st = dt_cells dt" "ds_state st < 2 ^ tableLog"
    "d_bitsConsumed bitD + tableLog \<le> 64"
  shows "0 < nbBits (ds_table st ! ds_state st) \<and>
    FSE_decodeSymbolFast st bitD = FSE_decodeSymbol st bitD"
proof -
  let ?cell = "ds_table st ! ds_state st"
  note ok = fse_table_ok_facts [OF assms(1)]
  have dt: "dt_cells dt = fse_dcells norm tableLog" "list_all (\<lambda>n. n = -1 \<or> n < 2 ^ (tableLog - 1)) norm"
    using FSE_buildDTable_internal_InrD [OF assms(1-3)] assms(4) by simp_all
  have c: "nbBits ?cell \<le> tableLog"
    using fse_dcells_closed [OF assms(1,6)] assms(5) dt(1) by simp
  have pos: "0 < nbBits ?cell" using fse_fast_cells [OF assms(1,6) dt(2)] assms(5) dt(1) by simp
  then have "BIT_lookBitsFast bitD (nbBits ?cell) = BIT_lookBits bitD (nbBits ?cell)"
    using c ok(3) assms(7) by (intro BIT_lookBitsFast_eq) auto
  with pos show ?thesis
    by (simp add: FSE_decodeSymbolFast_def FSE_decodeSymbol_def BIT_readBitsFast_def BIT_readBits_def Let_def)
qed

end
