(* ===== verification/Zstd_FSE_Stream.thy ===== *)
theory Zstd_FSE_Stream
  imports Zstd_FSE_Tables
begin

text \<open>
  FSE coding of a whole block with two interleaved states (\<open>fse_compress.c\<close>,
  \<open>fse_decompress.c\<close>). The block is coded from its last symbol to its first; the last two
  symbols are stored in the initial states without any bits, and the decoder notices the end
  by running over the start of the stream. Symbols are natural numbers below 256. The
  destination of the decoder is the list of the symbols written so far and its capacity.
\<close>

subsection \<open>Compression\<close>

definition FSE_NCOUNTBOUND :: nat where "FSE_NCOUNTBOUND = 512"

definition FSE_BLOCKBOUND :: "nat \<Rightarrow> nat" where
  "FSE_BLOCKBOUND sz = sz + sz div 2 ^ 7 + 4 + 8"

definition FSE_compressBound :: "nat \<Rightarrow> nat" where
  "FSE_compressBound sz = FSE_NCOUNTBOUND + FSE_BLOCKBOUND sz"

definition fse_flush :: "bool \<Rightarrow> BIT_CStream_t \<Rightarrow> BIT_CStream_t" where
  "fse_flush fast bitC = (if fast then BIT_flushBitsFast bitC else BIT_flushBits bitC)"

text \<open>The main loop takes four symbols per round; the caller joins the length to a multiple
  of four first. The list holds the symbols from the last to the first.\<close>

fun fse_encode_loop :: "bool \<Rightarrow> BIT_CStream_t \<Rightarrow> FSE_CState_t \<Rightarrow> FSE_CState_t \<Rightarrow> nat list \<Rightarrow>
    BIT_CStream_t \<times> FSE_CState_t \<times> FSE_CState_t" where
  "fse_encode_loop fast bitC CState1 CState2 (a # b # c # d # ip) =
     (let (bitC, CState2) = FSE_encodeSymbol bitC CState2 a;
          (bitC, CState1) = FSE_encodeSymbol bitC CState1 b;
          (bitC, CState2) = FSE_encodeSymbol bitC CState2 c;
          (bitC, CState1) = FSE_encodeSymbol bitC CState1 d
      in fse_encode_loop fast (fse_flush fast bitC) CState1 CState2 ip)"
| "fse_encode_loop fast bitC CState1 CState2 ip = (bitC, CState1, CState2)"

definition fse_encode_start :: "bool \<Rightarrow> FSE_CTable \<Rightarrow> BIT_CStream_t \<Rightarrow> nat \<Rightarrow> nat list \<Rightarrow>
    BIT_CStream_t \<times> FSE_CState_t \<times> FSE_CState_t \<times> nat list" where
  "fse_encode_start fast ct bitC srcSize ip =
     (if odd srcSize then
        (let CState1 = FSE_initCState2 ct (ip ! 0);
             CState2 = FSE_initCState2 ct (ip ! 1);
             (bitC, CState1) = FSE_encodeSymbol bitC CState1 (ip ! 2)
         in (fse_flush fast bitC, CState1, CState2, drop 3 ip))
      else
        (let CState2 = FSE_initCState2 ct (ip ! 0);
             CState1 = FSE_initCState2 ct (ip ! 1)
         in (bitC, CState1, CState2, drop 2 ip)))"

definition fse_encode_join :: "bool \<Rightarrow> BIT_CStream_t \<Rightarrow> FSE_CState_t \<Rightarrow> FSE_CState_t \<Rightarrow> nat \<Rightarrow> nat list \<Rightarrow>
    BIT_CStream_t \<times> FSE_CState_t \<times> FSE_CState_t \<times> nat list" where
  "fse_encode_join fast bitC CState1 CState2 srcSize ip =
     (if 64 > FSE_MAX_TABLELOG * 4 + 7 \<and> bit srcSize 1 then
        (let (bitC, CState2) = FSE_encodeSymbol bitC CState2 (ip ! 0);
             (bitC, CState1) = FSE_encodeSymbol bitC CState1 (ip ! 1)
         in (fse_flush fast bitC, CState1, CState2, drop 2 ip))
      else (bitC, CState1, CState2, ip))"

text \<open>The size of the compressed block, 0 when it does not fit, and the destination.\<close>

definition FSE_compress_usingCTable_generic ::
    "bytes \<Rightarrow> nat list \<Rightarrow> FSE_CTable \<Rightarrow> bool \<Rightarrow> nat \<times> bytes" where
  "FSE_compress_usingCTable_generic dst src ct fast =
     (let srcSize = length src in
      if srcSize \<le> 2 then (0, dst)
      else case BIT_initCStream dst of
        Inl _ \<Rightarrow> (0, dst)
      | Inr bitC \<Rightarrow>
          (let (bitC, CState1, CState2, ip) = fse_encode_start fast ct bitC srcSize (rev src);
               (bitC, CState1, CState2, ip) = fse_encode_join fast bitC CState1 CState2 (srcSize - 2) ip;
               (bitC, CState1, CState2) = fse_encode_loop fast bitC CState1 CState2 ip;
               bitC = FSE_flushCState bitC CState2;
               bitC = FSE_flushCState bitC CState1;
               (sz, bitC) = BIT_closeCStream bitC
           in (sz, c_buf bitC)))"

definition FSE_compress_usingCTable :: "bytes \<Rightarrow> nat list \<Rightarrow> FSE_CTable \<Rightarrow> nat \<times> bytes" where
  "FSE_compress_usingCTable dst src ct =
     (let fast = length dst \<ge> FSE_BLOCKBOUND (length src)
      in FSE_compress_usingCTable_generic dst src ct fast)"

subsection \<open>Decompression\<close>

definition FSE_GETSYMBOL :: "bool \<Rightarrow> FSE_DState_t \<Rightarrow> BIT_DStream_t \<Rightarrow> nat \<times> FSE_DState_t \<times> BIT_DStream_t" where
  "FSE_GETSYMBOL fast st bitD = (if fast then FSE_decodeSymbolFast st bitD else FSE_decodeSymbol st bitD)"

text \<open>With the 64-bit register the intermediate reloads of the loop are compiled out.\<close>

function fse_decode_loop :: "bool \<Rightarrow> nat \<Rightarrow> BIT_DStream_t \<Rightarrow> FSE_DState_t \<Rightarrow> FSE_DState_t \<Rightarrow> nat list \<Rightarrow>
    BIT_DStream_t \<times> FSE_DState_t \<times> FSE_DState_t \<times> nat list" where
  "fse_decode_loop fast omax bitD state1 state2 op =
     (let (status, bitD) = BIT_reloadDStream bitD in
      if status = BIT_DStream_unfinished \<and> length op + 3 < omax then
        (let (op0, state1, bitD) = FSE_GETSYMBOL fast state1 bitD;
             (op1, state2, bitD) = FSE_GETSYMBOL fast state2 bitD;
             (op2, state1, bitD) = FSE_GETSYMBOL fast state1 bitD;
             (op3, state2, bitD) = FSE_GETSYMBOL fast state2 bitD
         in fse_decode_loop fast omax bitD state1 state2 (op @ [op0, op1, op2, op3]))
      else (bitD, state1, state2, op))"
  by pat_completeness auto
termination
  by (relation "measure (\<lambda>(fast, omax, bitD, state1, state2, op). omax - length op)") auto

declare fse_decode_loop.simps [simp del]

function fse_decode_tail :: "bool \<Rightarrow> nat \<Rightarrow> BIT_DStream_t \<Rightarrow> FSE_DState_t \<Rightarrow> FSE_DState_t \<Rightarrow> nat list \<Rightarrow> nat list res" where
  "fse_decode_tail fast omax bitD state1 state2 op =
     (if length op + 2 > omax then Inl ZSTD_error_dstSize_tooSmall
      else
        (let (c, state1, bitD) = FSE_GETSYMBOL fast state1 bitD;
             op = op @ [c];
             (status, bitD) = BIT_reloadDStream bitD
         in if status = BIT_DStream_overflow then
              (let (c, state2, bitD) = FSE_GETSYMBOL fast state2 bitD in Inr (op @ [c]))
            else if length op + 2 > omax then Inl ZSTD_error_dstSize_tooSmall
            else
              (let (c, state2, bitD) = FSE_GETSYMBOL fast state2 bitD;
                   op = op @ [c];
                   (status, bitD) = BIT_reloadDStream bitD
               in if status = BIT_DStream_overflow then
                    (let (c, state1, bitD) = FSE_GETSYMBOL fast state1 bitD in Inr (op @ [c]))
                  else fse_decode_tail fast omax bitD state1 state2 op)))"
  by pat_completeness auto
termination
  by (relation "measure (\<lambda>(fast, omax, bitD, state1, state2, op). Suc omax - length op)") auto

declare fse_decode_tail.simps [simp del]

definition FSE_decompress_usingDTable_generic :: "nat \<Rightarrow> bytes \<Rightarrow> FSE_DTable \<Rightarrow> bool \<Rightarrow> nat list res" where
  "FSE_decompress_usingDTable_generic maxDstSize cSrc dt fast =
     bind_res (BIT_initDStream cSrc) (\<lambda>bitD.
       (let (state1, bitD) = FSE_initDState bitD dt;
            (state2, bitD) = FSE_initDState bitD dt;
            (status, bitD) = BIT_reloadDStream bitD
        in if status = BIT_DStream_overflow then Inl ZSTD_error_corruption_detected
           else
             (let (bitD, state1, state2, op) = fse_decode_loop fast maxDstSize bitD state1 state2 []
              in fse_decode_tail fast maxDstSize bitD state1 state2 op)))"

subsection \<open>The interface of a coder with a state\<close>

text \<open>What two interleaved states need from a table \<open>t\<close>: coding the symbol \<open>s\<close> in the state
  \<open>x\<close> emits the low \<open>width t x s\<close> bits of \<open>x\<close> and moves to \<open>step t x s\<close>; a state gives back
  its symbol, the number of bits that lead to the previous state, and that state.\<close>

locale state_coder =
  fixes valid :: "'t \<Rightarrow> bool"
    and codes :: "'t \<Rightarrow> nat \<Rightarrow> bool"
    and states :: "'t \<Rightarrow> nat set"
    and first :: "'t \<Rightarrow> nat \<Rightarrow> nat"
    and width :: "'t \<Rightarrow> nat \<Rightarrow> nat \<Rightarrow> nat"
    and step :: "'t \<Rightarrow> nat \<Rightarrow> nat \<Rightarrow> nat"
    and sym_of :: "'t \<Rightarrow> nat \<Rightarrow> nat"
    and need :: "'t \<Rightarrow> nat \<Rightarrow> nat"
    and prior :: "'t \<Rightarrow> nat \<Rightarrow> nat \<Rightarrow> nat"
    and max_width :: nat
  assumes first_ok: "valid t \<Longrightarrow> codes t s \<Longrightarrow> first t s \<in> states t \<and> sym_of t (first t s) = s"
    and step_ok: "valid t \<Longrightarrow> codes t s \<Longrightarrow> x \<in> states t \<Longrightarrow>
      step t x s \<in> states t \<and> sym_of t (step t x s) = s"
    and step_bits: "valid t \<Longrightarrow> codes t s \<Longrightarrow> x \<in> states t \<Longrightarrow>
      need t (step t x s) = width t x s \<and> width t x s \<le> max_width"
    and step_back: "valid t \<Longrightarrow> codes t s \<Longrightarrow> x \<in> states t \<Longrightarrow>
      prior t (step t x s) (x mod 2 ^ width t x s) = x"

text \<open>The fields emitted for a list of symbols and the two states at its head: the one whose
  turn it is, and the other one.\<close>

fun enc2 :: "(nat \<Rightarrow> nat) \<Rightarrow> (nat \<Rightarrow> nat \<Rightarrow> nat) \<Rightarrow> (nat \<Rightarrow> nat \<Rightarrow> nat) \<Rightarrow> nat list \<Rightarrow>
    (nat \<times> nat) list \<times> nat \<times> nat" where
  "enc2 first width step [p, q] = ([], first p, first q)"
| "enc2 first width step (s # r # q # rs) =
     (let (fs, a, b) = enc2 first width step (r # q # rs)
      in (fs @ [(b mod 2 ^ width b s, width b s)], step b s, a))"
| "enc2 first width step _ = ([], 0, 0)"

context state_coder
begin

lemma enc2_states:
  assumes "valid t" "list_all (codes t) syms" "2 \<le> length syms"
    "enc2 (first t) (width t) (step t) syms = (fs, a, b)"
  shows "a \<in> states t \<and> b \<in> states t \<and> fields_ok fs \<and> length fs + 2 = length syms \<and>
    (\<forall>n \<in> set (map snd fs). n \<le> max_width)"
  using assms(2-4)
proof (induction "first t" "width t" "step t" syms arbitrary: fs a b rule: enc2.induct)
  case (1 p q)
  then show ?case using first_ok assms(1) by (auto simp: fields_ok_def)
next
  case (2 s r q rs)
  obtain gs x y where e: "enc2 (first t) (width t) (step t) (r # q # rs) = (gs, x, y)" by (metis prod_cases3)
  with 2 have "x \<in> states t \<and> y \<in> states t \<and> fields_ok gs \<and> length gs + 2 = length (r # q # rs) \<and>
      (\<forall>n \<in> set (map snd gs). n \<le> max_width)" by simp
  then show ?case using 2 e step_ok step_bits assms(1) by (auto simp: fields_ok_def)
qed auto

text \<open>Taking the head off undoes one coding step.\<close>

lemma enc2_head:
  assumes "valid t" "list_all (codes t) (s # r # q # rs)"
    "enc2 (first t) (width t) (step t) (s # r # q # rs) = (fs, a, b)"
  shows "\<exists>gs y. enc2 (first t) (width t) (step t) (r # q # rs) = (gs, b, y) \<and>
    sym_of t a = s \<and> fs = gs @ [(y mod 2 ^ need t a, need t a)] \<and>
    prior t a (y mod 2 ^ need t a) = y \<and> need t a \<le> max_width"
proof -
  obtain gs x y where e: "enc2 (first t) (width t) (step t) (r # q # rs) = (gs, x, y)" by (metis prod_cases3)
  have "y \<in> states t" using enc2_states [OF assms(1) _ _ e] assms(2) by simp
  moreover have "codes t s" using assms(2) by simp
  ultimately show ?thesis
    using e assms(3) step_ok [OF assms(1)] step_bits [OF assms(1)] step_back [OF assms(1)] by auto
qed

lemma enc2_last:
  assumes "valid t" "codes t p" "codes t q" "enc2 (first t) (width t) (step t) [p, q] = (fs, a, b)"
  shows "fs = [] \<and> a = first t p \<and> b = first t q \<and> sym_of t a = p \<and> sym_of t b = q"
  using assms first_ok by auto

end

subsection \<open>FSE tables as such a coder\<close>

definition fse_valid :: "int list \<times> nat \<Rightarrow> bool" where
  "fse_valid t \<longleftrightarrow> fse_table_ok (fst t) (snd t)"

definition fse_codes :: "int list \<times> nat \<Rightarrow> nat \<Rightarrow> bool" where
  "fse_codes t s \<longleftrightarrow> s < length (fst t) \<and> fst t ! s \<noteq> 0"

definition fse_range :: "int list \<times> nat \<Rightarrow> nat set" where
  "fse_range t = {2 ^ snd t..<2 ^ Suc (snd t)}"

definition fse_first :: "int list \<times> nat \<Rightarrow> nat \<Rightarrow> nat" where
  "fse_first t s = cs_value (FSE_initCState2
     \<lparr>ct_tableLog = snd t, ct_maxSymbolValue = 0, ct_stateTable = fse_states (fst t) (snd t),
      ct_symbolTT = fse_transforms (snd t) (fst t) 0\<rparr> s)"

definition fse_width :: "int list \<times> nat \<Rightarrow> nat \<Rightarrow> nat \<Rightarrow> nat" where
  "fse_width t x s = fse_nb_out (fst t) (snd t) x s"

definition fse_step :: "int list \<times> nat \<Rightarrow> nat \<Rightarrow> nat \<Rightarrow> nat" where
  "fse_step t x s = fse_next (fst t) (snd t) x s"

definition fse_at :: "int list \<times> nat \<Rightarrow> nat \<Rightarrow> FSE_decode_t" where
  "fse_at t x = fse_dcells (fst t) (snd t) ! (x - 2 ^ snd t)"

definition fse_back :: "int list \<times> nat \<Rightarrow> nat \<Rightarrow> nat \<Rightarrow> nat" where
  "fse_back t x v = newState (fse_at t x) + v + 2 ^ snd t"

interpretation fse: state_coder fse_valid fse_codes fse_range fse_first fse_width fse_step
  "\<lambda>t x. symbol (fse_at t x)" "\<lambda>t x. nbBits (fse_at t x)" fse_back 12
proof
  fix t s x
  assume v: "fse_valid t" and c: "fse_codes t s"
  have ok: "fse_table_ok (fst t) (snd t)" and s: "s < length (fst t)" "fst t ! s \<noteq> 0"
    using v c by (auto simp: fse_valid_def fse_codes_def)
  show "fse_first t s \<in> fse_range t \<and> symbol (fse_at t (fse_first t s)) = s"
    using fse_init_inverse(1-3) [OF ok s, of "\<lparr>ct_tableLog = snd t, ct_maxSymbolValue = 0, ct_stateTable = fse_states (fst t) (snd t),
      ct_symbolTT = fse_transforms (snd t) (fst t) 0\<rparr>"]
    by (simp add: fse_first_def fse_range_def fse_at_def)
  assume x: "x \<in> fse_range t"
  note step = fse_step_inverse [OF ok s, of x]
  show "fse_step t x s \<in> fse_range t \<and> symbol (fse_at t (fse_step t x s)) = s"
    using step x by (simp add: fse_range_def fse_step_def fse_at_def)
  show "nbBits (fse_at t (fse_step t x s)) = fse_width t x s \<and> fse_width t x s \<le> 12"
    using step x fse_table_ok_facts(3) [OF ok] by (simp add: fse_range_def fse_step_def fse_at_def fse_width_def)
  show "fse_back t (fse_step t x s) (x mod 2 ^ fse_width t x s) = x"
    using step x by (simp add: fse_range_def fse_step_def fse_at_def fse_width_def fse_back_def)
qed

abbreviation fse_enc2 :: "int list \<times> nat \<Rightarrow> nat list \<Rightarrow> (nat \<times> nat) list \<times> nat \<times> nat" where
  "fse_enc2 t \<equiv> enc2 (fse_first t) (fse_width t) (fse_step t)"

subsection \<open>The decoder follows the coder\<close>

definition fse_holds :: "int list \<times> nat \<Rightarrow> FSE_DState_t \<Rightarrow> nat \<Rightarrow> bool" where
  "fse_holds t st x \<longleftrightarrow>
     ds_table st = fse_dcells (fst t) (snd t) \<and> ds_state st + 2 ^ snd t = x \<and> x \<in> fse_range t"

definition fse_follows ::
    "int list \<times> nat \<Rightarrow> BIT_DStream_t \<Rightarrow> FSE_DState_t \<Rightarrow> FSE_DState_t \<Rightarrow> nat list \<Rightarrow> bool" where
  "fse_follows t bitD st1 st2 syms \<longleftrightarrow>
     (\<exists>fs a b. fse_enc2 t syms = (fs, a, b) \<and> fse_holds t st1 a \<and> fse_holds t st2 b \<and>
        d_inv bitD \<and> d_rem bitD = fields_bits fs \<and>
        bits_of (d_val bitD) 0 (fields_bits fs) = fields_val fs)"

definition fse_fast_ok :: "bool \<Rightarrow> int list \<times> nat \<Rightarrow> bool" where
  "fse_fast_ok fast t \<longleftrightarrow> (fast \<longrightarrow> (\<forall>x \<in> fse_range t. 0 < nbBits (fse_at t x)))"

lemma fse_holds_cell: "fse_holds t st x \<Longrightarrow> ds_table st ! ds_state st = fse_at t x"
  by (auto simp: fse_holds_def fse_at_def)

lemma fse_need_le:
  assumes "fse_valid t" "x \<in> fse_range t"
  shows "nbBits (fse_at t x) \<le> 12"
proof -
  have "nbBits (fse_at t x) \<le> snd t"
    using fse_dcells_closed(1) [of "fst t" "snd t" "x - 2 ^ snd t"] assms
    by (auto simp: fse_valid_def fse_range_def fse_at_def)
  then show ?thesis using fse_table_ok_facts(3) [of "fst t" "snd t"] assms(1) by (simp add: fse_valid_def)
qed

lemma FSE_GETSYMBOL_spec:
  assumes "fse_valid t" "fse_fast_ok fast t" "fse_holds t st x" "d_inv bitD"
    "d_bitsConsumed bitD + nbBits (fse_at t x) \<le> 64"
  shows "\<exists>st'. FSE_GETSYMBOL fast st bitD =
      (symbol (fse_at t x), st', BIT_skipBits bitD (nbBits (fse_at t x))) \<and>
    ds_table st' = ds_table st \<and>
    ds_state st' = newState (fse_at t x) + bits_of (d_val bitD) (d_rem bitD - nbBits (fse_at t x)) (nbBits (fse_at t x))"
proof -
  let ?n = "nbBits (fse_at t x)"
  have n: "?n < 64" using fse_need_le [OF assms(1)] assms(3) by (fastforce simp: fse_holds_def)
  have "BIT_lookBitsFast bitD ?n = BIT_lookBits bitD ?n" if fast
    using that assms(2,3,5) n by (intro BIT_lookBitsFast_eq) (auto simp: fse_fast_ok_def fse_holds_def Suc_le_eq)
  then show ?thesis
    using BIT_lookBits_spec [OF assms(4,5) n] fse_holds_cell [OF assms(3)]
    by (auto simp: FSE_GETSYMBOL_def FSE_decodeSymbol_def FSE_decodeSymbolFast_def
        BIT_readBits_def BIT_readBitsFast_def Let_def)
qed

lemma FSE_GETSYMBOL_shape:
  "fse_holds t st x \<Longrightarrow> \<exists>st'. FSE_GETSYMBOL fast st bitD =
     (symbol (fse_at t x), st', BIT_skipBits bitD (nbBits (fse_at t x)))"
  by (cases fast) (simp_all add: FSE_GETSYMBOL_def FSE_decodeSymbol_def FSE_decodeSymbolFast_def
      BIT_readBits_def BIT_readBitsFast_def Let_def fse_holds_cell)

lemma fse_GETSYMBOL_symbol:
  "fse_holds t st x \<Longrightarrow> fst (FSE_GETSYMBOL fast st bitD) = symbol (fse_at t x)"
  using FSE_GETSYMBOL_shape [of t st x fast bitD] by auto

lemma fields_top:
  assumes "bits_of v 0 (fields_bits (gs @ [(x, n)])) = fields_val (gs @ [(x, n)])" "fields_ok gs"
  shows "bits_of v 0 (fields_bits gs) = fields_val gs" "bits_of v (fields_bits gs) n = x"
proof -
  have split: "bits_of v 0 (fields_bits gs) + 2 ^ fields_bits gs * bits_of v (fields_bits gs) n
      = fields_val gs + 2 ^ fields_bits gs * x"
    using assms(1) bits_of_split [of v 0 "fields_bits gs" n]
    by (simp add: fields_val_append fields_bits_append)
  show lo: "bits_of v 0 (fields_bits gs) = fields_val gs"
    using arg_cong [OF split, of "\<lambda>z. z mod 2 ^ fields_bits gs"] fields_val_bound [OF assms(2)]
      bits_of_less [of v 0 "fields_bits gs"] by simp
  then show "bits_of v (fields_bits gs) n = x" using split by simp
qed

lemma fse_follows_step:
  assumes "fse_valid t" "fse_fast_ok fast t" "list_all (fse_codes t) (s # r # q # rs)"
    "fse_follows t bitD st1 st2 (s # r # q # rs)"
    "d_bitsConsumed bitD \<le> 52 \<or> d_ptr bitD = 0"
  shows "\<exists>st1' bitD'. FSE_GETSYMBOL fast st1 bitD = (s, st1', bitD') \<and>
    fse_follows t bitD' st2 st1' (r # q # rs) \<and> d_bitsConsumed bitD' \<le> d_bitsConsumed bitD + 12 \<and>
    (d_ptr bitD' = d_ptr bitD)"
proof -
  obtain fs a b where e: "fse_enc2 t (s # r # q # rs) = (fs, a, b)" and h: "fse_holds t st1 a" "fse_holds t st2 b"
    and d: "d_inv bitD" "d_rem bitD = fields_bits fs" "bits_of (d_val bitD) 0 (fields_bits fs) = fields_val fs"
    using assms(4) by (auto simp: fse_follows_def)
  obtain gs y where g: "fse_enc2 t (r # q # rs) = (gs, b, y)" "symbol (fse_at t a) = s"
      "fs = gs @ [(y mod 2 ^ nbBits (fse_at t a), nbBits (fse_at t a))]"
      "fse_back t a (y mod 2 ^ nbBits (fse_at t a)) = y" "nbBits (fse_at t a) \<le> 12"
    using fse.enc2_head [OF assms(1,3) e] by blast
  let ?n = "nbBits (fse_at t a)"
  have st: "y \<in> fse_range t" "fields_ok gs" using fse.enc2_states [OF assms(1) _ _ g(1)] assms(3) by simp_all
  have room: "d_bitsConsumed bitD + ?n \<le> 64"
    using assms(5) g(3,5) d(1,2) by (auto simp: d_rem_def fields_bits_append d_inv_def)
  have val: "fields_bits fs = fields_bits gs + ?n" by (simp add: g(3) fields_bits_append)
  note top = fields_top [OF d(3) [unfolded g(3)] st(2)]
  obtain st' where st': "FSE_GETSYMBOL fast st1 bitD = (s, st', BIT_skipBits bitD ?n)"
      "ds_table st' = ds_table st1" "ds_state st' = newState (fse_at t a) + y mod 2 ^ ?n"
    using FSE_GETSYMBOL_spec [OF assms(1,2) h(1) d(1) room] g(2) top(2) d(2) val by auto
  have "fse_holds t st' y"
    using st' h(1) g(4) st(1) by (auto simp: fse_holds_def fse_back_def)
  moreover have "d_rem (BIT_skipBits bitD ?n) = fields_bits gs" using d_rem_skip [OF room] d(2) val by simp
  moreover have "d_val (BIT_skipBits bitD ?n) = d_val bitD" by (simp add: d_val_def BIT_skipBits_def)
  ultimately have "fse_follows t (BIT_skipBits bitD ?n) st2 st' (r # q # rs)"
    using g(1) h(2) d_inv_skip [OF d(1) room] top(1) by (auto simp: fse_follows_def)
  then show ?thesis using st'(1) g(5) by (auto simp: BIT_skipBits_def)
qed

lemma fse_follows_reload:
  assumes "fse_follows t bitD st1 st2 syms" "BIT_reloadDStream bitD = (status, bitD')"
  shows "fse_follows t bitD' st1 st2 syms" "status \<noteq> BIT_DStream_overflow"
    "d_bitsConsumed bitD' \<le> 8 \<or> d_ptr bitD' = 0"
    "status = BIT_DStream_unfinished \<Longrightarrow> d_bitsConsumed bitD' < 8"
proof -
  have i: "d_inv bitD" using assms(1) by (auto simp: fse_follows_def)
  have post: "reload_post bitD status bitD'" using BIT_reloadDStream_spec [OF i assms(2)] .
  then show "fse_follows t bitD' st1 st2 syms" using assms(1) by (auto simp: fse_follows_def reload_post_def d_val_def)
  show "status \<noteq> BIT_DStream_overflow" "status = BIT_DStream_unfinished \<Longrightarrow> d_bitsConsumed bitD' < 8"
    using post by (auto simp: reload_post_def)
  show "d_bitsConsumed bitD' \<le> 8 \<or> d_ptr bitD' = 0"
    using post by (cases status) (auto simp: reload_post_def)
qed

definition d_loaded :: "BIT_DStream_t \<Rightarrow> bool" where
  "d_loaded bitD \<longleftrightarrow> d_bitsConsumed bitD \<le> 8 \<or> d_ptr bitD = 0"

lemma fse_tail_more:
  assumes "fse_valid t" "fse_fast_ok fast t" "list_all (fse_codes t) (s # r # q # rs)"
    "fse_follows t bitD st1 st2 (s # r # q # rs)" "d_loaded bitD"
  shows "\<exists>st1' bitD1 status bitD2. FSE_GETSYMBOL fast st1 bitD = (s, st1', bitD1) \<and>
    BIT_reloadDStream bitD1 = (status, bitD2) \<and> status \<noteq> BIT_DStream_overflow \<and>
    fse_follows t bitD2 st2 st1' (r # q # rs) \<and> d_loaded bitD2"
proof -
  obtain st1' bitD1 where g: "FSE_GETSYMBOL fast st1 bitD = (s, st1', bitD1)" "fse_follows t bitD1 st2 st1' (r # q # rs)"
    using fse_follows_step [OF assms(1-4)] assms(5) by (auto simp: d_loaded_def)
  obtain status bitD2 where r: "BIT_reloadDStream bitD1 = (status, bitD2)" by fastforce
  show ?thesis using g(1) r fse_follows_reload [OF g(2) r] by (simp add: d_loaded_def)
qed

definition fse_mixed :: "int list \<times> nat \<Rightarrow> bool" where
  "fse_mixed t \<longleftrightarrow> list_all (\<lambda>n. fse_cells_of n < 2 ^ snd t) (fst t)"

lemma fse_tail_last:
  assumes "fse_valid t" "fse_mixed t" "fse_codes t p" "fse_codes t q" "fse_follows t bitD st1 st2 [p, q]"
  shows "\<exists>st1' bitD1 bitD2. FSE_GETSYMBOL fast st1 bitD = (p, st1', bitD1) \<and>
    BIT_reloadDStream bitD1 = (BIT_DStream_overflow, bitD2) \<and> fst (FSE_GETSYMBOL fast st2 bitD2) = q"
proof -
  obtain fs a b where e: "fse_enc2 t [p, q] = (fs, a, b)" and h: "fse_holds t st1 a" "fse_holds t st2 b"
    and d: "d_inv bitD" "d_rem bitD = fields_bits fs"
    using assms(5) by (auto simp: fse_follows_def)
  note l = fse.enc2_last [OF assms(1,3,4) e]
  have ok: "fse_table_ok (fst t) (snd t)" and p: "p < length (fst t)" "fst t ! p \<noteq> 0"
    using assms(1,3) by (auto simp: fse_valid_def fse_codes_def)
  have "fse_cells_of (fst t ! p) < 2 ^ snd t" using assms(2) p(1) by (simp add: fse_mixed_def list_all_length)
  then have need: "0 < nbBits (fse_at t a)"
    using l fse_init_inverse(4) [OF ok p, of "\<lparr>ct_tableLog = snd t, ct_maxSymbolValue = 0, ct_stateTable = fse_states (fst t) (snd t),
      ct_symbolTT = fse_transforms (snd t) (fst t) 0\<rparr>"] by (simp add: fse_first_def fse_at_def)
  have "d_bitsConsumed bitD = 64" using d l by (auto simp: d_rem_def d_inv_def)
  moreover obtain st1' bitD1 where g: "FSE_GETSYMBOL fast st1 bitD = (p, st1', bitD1)"
      "bitD1 = BIT_skipBits bitD (nbBits (fse_at t a))"
    using FSE_GETSYMBOL_shape [OF h(1), of fast bitD] l by auto
  ultimately have "BIT_reloadDStream bitD1 = (BIT_DStream_overflow, bitD1\<lparr>d_zeroFilled := True\<rparr>)"
    using need by (simp add: BIT_reloadDStream_def BIT_skipBits_def)
  with g(1) show ?thesis using fse_GETSYMBOL_symbol [OF h(2)] l by auto
qed

lemma fse_decode_tail_correct:
  assumes "fse_valid t" "fse_fast_ok fast t" "fse_mixed t" "list_all (fse_codes t) syms" "2 \<le> length syms"
    "fse_follows t bitD st1 st2 syms" "d_loaded bitD" "length op + length syms \<le> omax"
  shows "fse_decode_tail fast omax bitD st1 st2 op = Inr (op @ syms)"
  using assms(4-8)
proof (induction "length syms" arbitrary: syms bitD st1 st2 op rule: less_induct)
  case less
  obtain s r rs where syms: "syms = s # r # rs" using less.prems(2) by (cases syms rule: list.exhaust; cases "tl syms") auto
  show ?case
  proof (cases rs)
    case Nil
    then obtain st1' bitD1 bitD2 where *: "FSE_GETSYMBOL fast st1 bitD = (s, st1', bitD1)"
        "BIT_reloadDStream bitD1 = (BIT_DStream_overflow, bitD2)" "fst (FSE_GETSYMBOL fast st2 bitD2) = r"
      using fse_tail_last [OF assms(1,3), of s r bitD st1 st2 fast] less.prems syms by auto
    then show ?thesis
      using less.prems Nil by (auto simp: fse_decode_tail.simps [of fast omax bitD] syms split: prod.splits)
  next
    case (Cons q rs')
    obtain st1' bitD1 status bitD2 where m: "FSE_GETSYMBOL fast st1 bitD = (s, st1', bitD1)"
        "BIT_reloadDStream bitD1 = (status, bitD2)" "status \<noteq> BIT_DStream_overflow"
        "fse_follows t bitD2 st2 st1' (r # q # rs')" "d_loaded bitD2"
      using fse_tail_more [OF assms(1,2), of s r q rs' bitD st1 st2] less.prems Cons syms by auto
    show ?thesis
    proof (cases rs')
      case Nil
      then obtain st2' bitD3 bitD4 where *: "FSE_GETSYMBOL fast st2 bitD2 = (r, st2', bitD3)"
          "BIT_reloadDStream bitD3 = (BIT_DStream_overflow, bitD4)" "fst (FSE_GETSYMBOL fast st1' bitD4) = q"
        using fse_tail_last [OF assms(1,3), of r q bitD2 st2 st1' fast] m less.prems Cons syms by auto
      then show ?thesis
        using less.prems Nil Cons m by (auto simp: fse_decode_tail.simps [of fast omax bitD] syms split: prod.splits)
    next
      case (Cons q' rs'')
      obtain st2' bitD3 status' bitD4 where m': "FSE_GETSYMBOL fast st2 bitD2 = (r, st2', bitD3)"
          "BIT_reloadDStream bitD3 = (status', bitD4)" "status' \<noteq> BIT_DStream_overflow"
          "fse_follows t bitD4 st1' st2' (q # q' # rs'')" "d_loaded bitD4"
        using fse_tail_more [OF assms(1,2), of r q q' rs'' bitD2 st2 st1'] m less.prems \<open>rs = q # rs'\<close> Cons syms by auto
      have "fse_decode_tail fast omax bitD4 st1' st2' (op @ [s, r]) = Inr ((op @ [s, r]) @ q # q' # rs'')"
        using less.prems m' Cons \<open>rs = q # rs'\<close> syms by (intro less.hyps) auto
      then show ?thesis
        using less.prems Cons \<open>rs = q # rs'\<close> m m' by (simp add: fse_decode_tail.simps [of fast omax bitD] syms)
    qed
  qed
qed

lemma fields_bits_le: "\<forall>n \<in> set (map snd fs). n \<le> k \<Longrightarrow> fields_bits fs \<le> k * length fs"
  by (induction fs rule: fields_bits.induct) auto

lemma list_split7:
  assumes "7 \<le> length xs"
  obtains a b c d e f g ys where "xs = a # b # c # d # e # f # g # ys"
proof -
  have "length xs = Suc (Suc (Suc (Suc (Suc (Suc (Suc (length xs - 7)))))))" using assms by simp
  then show thesis using that by (auto simp: length_Suc_conv)
qed

lemma fse_follows_many:
  assumes "fse_valid t" "list_all (fse_codes t) syms" "2 \<le> length syms" "fse_follows t bitD st1 st2 syms"
    "d_bitsConsumed bitD < 8"
  shows "7 \<le> length syms"
proof -
  obtain fs a b where e: "fse_enc2 t syms = (fs, a, b)" "d_rem bitD = fields_bits fs"
    using assms(4) by (auto simp: fse_follows_def)
  have "fields_bits fs \<le> 12 * length fs" "length fs + 2 = length syms"
    using fse.enc2_states [OF assms(1-3) e(1)] fields_bits_le [of fs 12] by auto
  moreover have "57 \<le> fields_bits fs" using e(2) assms(5) by (simp add: d_rem_def)
  ultimately show ?thesis by linarith
qed

lemma fse_follows_step4:
  assumes "fse_valid t" "fse_fast_ok fast t" "list_all (fse_codes t) (s1 # s2 # s3 # s4 # s5 # s6 # ys)"
    "fse_follows t bitD st1 st2 (s1 # s2 # s3 # s4 # s5 # s6 # ys)" "d_bitsConsumed bitD < 8"
  shows "\<exists>x1 y1 x2 y2 d1 d2 d3 d4.
    FSE_GETSYMBOL fast st1 bitD = (s1, x1, d1) \<and> FSE_GETSYMBOL fast st2 d1 = (s2, y1, d2) \<and>
    FSE_GETSYMBOL fast x1 d2 = (s3, x2, d3) \<and> FSE_GETSYMBOL fast y1 d3 = (s4, y2, d4) \<and>
    fse_follows t d4 x2 y2 (s5 # s6 # ys)"
proof -
  obtain x1 d1 where 1: "FSE_GETSYMBOL fast st1 bitD = (s1, x1, d1)" "fse_follows t d1 st2 x1 (s2 # s3 # s4 # s5 # s6 # ys)"
      "d_bitsConsumed d1 \<le> 19"
    using fse_follows_step [OF assms(1-4)] assms(5) by fastforce
  obtain y1 d2 where 2: "FSE_GETSYMBOL fast st2 d1 = (s2, y1, d2)" "fse_follows t d2 x1 y1 (s3 # s4 # s5 # s6 # ys)"
      "d_bitsConsumed d2 \<le> 31"
    using fse_follows_step [OF assms(1,2) _ 1(2)] assms(3) 1(3) by fastforce
  obtain x2 d3 where 3: "FSE_GETSYMBOL fast x1 d2 = (s3, x2, d3)" "fse_follows t d3 y1 x2 (s4 # s5 # s6 # ys)"
      "d_bitsConsumed d3 \<le> 43"
    using fse_follows_step [OF assms(1,2) _ 2(2)] assms(3) 2(3) by fastforce
  obtain y2 d4 where 4: "FSE_GETSYMBOL fast y1 d3 = (s4, y2, d4)" "fse_follows t d4 x2 y2 (s5 # s6 # ys)"
    using fse_follows_step [OF assms(1,2) _ 3(2)] assms(3) 3(3) by fastforce
  show ?thesis using 1(1) 2(1) 3(1) 4 by blast
qed

lemma fse_decode_loop_correct:
  assumes "fse_valid t" "fse_fast_ok fast t" "list_all (fse_codes t) syms" "2 \<le> length syms"
    "fse_follows t bitD st1 st2 syms"
  shows "\<exists>bitD' st1' st2' ds rest. fse_decode_loop fast omax bitD st1 st2 op = (bitD', st1', st2', op @ ds) \<and>
    syms = ds @ rest \<and> 2 \<le> length rest \<and> fse_follows t bitD' st1' st2' rest \<and> d_loaded bitD'"
  using assms(3-5)
proof (induction "length syms" arbitrary: syms bitD st1 st2 op rule: less_induct)
  case less
  obtain status bitD1 where r: "BIT_reloadDStream bitD = (status, bitD1)" by fastforce
  note f = fse_follows_reload [OF less.prems(3) r]
  show ?case
  proof (cases "status = BIT_DStream_unfinished \<and> length op + 3 < omax")
    case False
    then show ?thesis
      using less.prems f r by (intro exI [of _ bitD1] exI [of _ st1] exI [of _ st2] exI [of _ "[]"] exI [of _ syms])
        (auto simp: fse_decode_loop.simps [of fast omax bitD] d_loaded_def)
  next
    case True
    then have bc: "d_bitsConsumed bitD1 < 8" using f(4) by simp
    have "7 \<le> length syms" by (rule fse_follows_many [OF assms(1) less.prems(1,2) f(1) bc])
    then obtain s1 s2 s3 s4 s5 s6 s7 ys where syms: "syms = s1 # s2 # s3 # s4 # s5 # s6 # s7 # ys"
      by (rule list_split7)
    obtain x1 y1 x2 y2 d1 d2 d3 d4 where g:
      "FSE_GETSYMBOL fast st1 bitD1 = (s1, x1, d1)" "FSE_GETSYMBOL fast st2 d1 = (s2, y1, d2)"
      "FSE_GETSYMBOL fast x1 d2 = (s3, x2, d3)" "FSE_GETSYMBOL fast y1 d3 = (s4, y2, d4)"
      "fse_follows t d4 x2 y2 (s5 # s6 # s7 # ys)"
      using fse_follows_step4 [OF assms(1,2) _ _ bc, of s1 s2 s3 s4 s5 s6 "s7 # ys" st1 st2] less.prems f(1) syms by blast
    have step: "fse_decode_loop fast omax bitD st1 st2 op = fse_decode_loop fast omax d4 x2 y2 (op @ [s1, s2, s3, s4])"
      using True g r by (simp add: fse_decode_loop.simps [of fast omax bitD])
    have "\<exists>bitD' st1' st2' ds rest.
        fse_decode_loop fast omax d4 x2 y2 (op @ [s1, s2, s3, s4]) = (bitD', st1', st2', (op @ [s1, s2, s3, s4]) @ ds) \<and>
        s5 # s6 # s7 # ys = ds @ rest \<and> 2 \<le> length rest \<and> fse_follows t bitD' st1' st2' rest \<and> d_loaded bitD'"
      using less.prems syms g(5) by (intro less.hyps) auto
    then obtain bitD' st1' st2' ds rest where
      "fse_decode_loop fast omax d4 x2 y2 (op @ [s1, s2, s3, s4]) = (bitD', st1', st2', (op @ [s1, s2, s3, s4]) @ ds)"
      "s5 # s6 # s7 # ys = ds @ rest" "2 \<le> length rest" "fse_follows t bitD' st1' st2' rest" "d_loaded bitD'" by blast
    then show ?thesis unfolding step syms
      by (intro exI [of _ bitD'] exI [of _ st1'] exI [of _ st2'] exI [of _ "s1 # s2 # s3 # s4 # ds"] exI [of _ rest]) auto
  qed
qed

subsection \<open>Decompressing a coded block\<close>

lemma FSE_initDState_take:
  "FSE_initDState bitD dt =
     (\<lparr>ds_state = fst (d_take bitD (dt_tableLog dt)), ds_table = dt_cells dt\<rparr>, snd (d_take bitD (dt_tableLog dt)))"
  by (simp add: FSE_initDState_def d_take_def Let_def split: prod.splits)

lemma fse_init_holds:
  assumes "x \<in> fse_range t"
  shows "fse_holds t \<lparr>ds_state = x mod 2 ^ snd t, ds_table = fse_dcells (fst t) (snd t)\<rparr> x"
proof -
  have "x mod 2 ^ snd t = x - 2 ^ snd t" using assms by (auto simp: fse_range_def mod_if)
  then show ?thesis using assms by (auto simp: fse_holds_def fse_range_def)
qed

lemma fse_decompress_coded:
  assumes "fse_valid t" "fse_fast_ok fast t" "fse_mixed t" "list_all (fse_codes t) syms" "2 \<le> length syms"
    "fse_enc2 t syms = (fs, a, b)"
    "c_image (fs @ [(b mod 2 ^ snd t, snd t), (a mod 2 ^ snd t, snd t)]) cSrc"
    "dt_tableLog dt = snd t" "dt_cells dt = fse_dcells (fst t) (snd t)" "length syms \<le> maxDstSize"
  shows "FSE_decompress_usingDTable_generic maxDstSize cSrc dt fast = Inr syms"
proof -
  let ?L = "snd t"
  let ?A = "(a mod 2 ^ ?L, ?L)" and ?B = "(b mod 2 ^ ?L, ?L)"
  note st = fse.enc2_states [OF assms(1,4,5,6)]
  have L: "?L \<le> 56" using assms(1) fse_table_ok_facts(3) [of "fst t" ?L] by (simp add: fse_valid_def)
  have ok: "fields_ok (fs @ [?B])" "fields_ok ((fs @ [?B]) @ [?A])" "fields_ok fs" using st by (auto simp: fields_ok_def)
  obtain d0 where d0: "BIT_initDStream cSrc = Inr d0" "d_ready d0" "d_rem d0 = fields_bits ((fs @ [?B]) @ [?A])"
      "bits_of (d_val d0) 0 (fields_bits ((fs @ [?B]) @ [?A])) = fields_val ((fs @ [?B]) @ [?A])"
    using open_c_image [of "(fs @ [?B]) @ [?A]" cSrc] assms(7) ok(2) by auto
  note A = fields_top [OF d0(4) ok(1)]
  note B = fields_top [OF A(1) ok(3)]
  have r0: "?L \<le> d_rem d0" using d0(3) by (simp add: fields_bits_append)
  note t0 = d_take_spec [OF d0(2) L r0]
  define d1 where "d1 = snd (d_take d0 ?L)"
  have r1: "?L \<le> d_rem d1" "d_ready d1" "d_val d1 = d_val d0" using t0 d0(3) by (simp_all add: d1_def fields_bits_append)
  note t1 = d_take_spec [OF r1(2) L r1(1)]
  define d2 where "d2 = snd (d_take d1 ?L)"
  have v: "fst (d_take d0 ?L) = a mod 2 ^ ?L" "fst (d_take d1 ?L) = b mod 2 ^ ?L"
    using t0 t1 A B r1 d0(3) by (simp_all add: d1_def fields_bits_append)
  let ?s1 = "\<lparr>ds_state = a mod 2 ^ ?L, ds_table = fse_dcells (fst t) ?L\<rparr>"
  let ?s2 = "\<lparr>ds_state = b mod 2 ^ ?L, ds_table = fse_dcells (fst t) ?L\<rparr>"
  have i1: "FSE_initDState d0 dt = (?s1, d1)" and i2: "FSE_initDState d1 dt = (?s2, d2)"
    using v assms(8,9) by (simp_all add: FSE_initDState_take d1_def d2_def)
  have "d_rem d2 = fields_bits fs" "d_val d2 = d_val d0" "d_inv d2"
    using t0 t1 d0(3) r1 by (simp_all add: d1_def d2_def d_ready_def fields_bits_append)
  then have fol: "fse_follows t d2 ?s1 ?s2 syms"
    using assms(6) st fse_init_holds B(1) by (auto simp: fse_follows_def)
  obtain status d3 where rl: "BIT_reloadDStream d2 = (status, d3)" by fastforce
  note f3 = fse_follows_reload [OF fol rl]
  obtain d4 s1' s2' ds rest where lp: "fse_decode_loop fast maxDstSize d3 ?s1 ?s2 [] = (d4, s1', s2', ds)"
      "syms = ds @ rest" "2 \<le> length rest" "fse_follows t d4 s1' s2' rest" "d_loaded d4"
    using fse_decode_loop_correct [OF assms(1,2,4,5) f3(1), of maxDstSize "[]"] by auto
  have "fse_decode_tail fast maxDstSize d4 s1' s2' ds = Inr (ds @ rest)"
    using lp assms by (intro fse_decode_tail_correct) auto
  then show ?thesis
    using d0(1) i1 i2 rl f3(2) lp by (simp add: FSE_decompress_usingDTable_generic_def)
qed

subsection \<open>What the coder writes\<close>

definition fse_writes :: "bool \<Rightarrow> nat \<Rightarrow> BIT_CStream_t \<Rightarrow> (nat \<times> nat) list \<Rightarrow> nat \<Rightarrow> bool" where
  "fse_writes ex e bitC fs k \<longleftrightarrow>
     c_written bitC fs \<and> c_ptr bitC \<le> c_endPtr bitC \<and> c_endPtr bitC = e \<and> c_bitPos bitC \<le> k \<and>
     (ex \<longrightarrow> c_bits bitC = fields_bits fs)"

lemma fse_writes_bits:
  assumes "fse_writes ex e bitC fs k" "n < 32" "k + n < 64"
  shows "fse_writes ex e (BIT_addBits bitC v n) (fs @ [(unat v mod 2 ^ n, n)]) (k + n)"
proof -
  have ok: "cop_ok bitC (AddBits v n)" using assms by (auto simp: fse_writes_def)
  have "c_written (BIT_addBits bitC v n) (fs @ [(unat v mod 2 ^ n, n)])"
    using cop_step_written [OF _ ok] assms(1) by (simp add: fse_writes_def)
  then show ?thesis
    using assms by (auto simp: fse_writes_def c_bits_def fields_bits_append)
qed

lemma fse_writes_add:
  assumes "fse_writes ex e bitC fs k" "n \<le> w" "w < 32" "k + w < 64" "v < 2 ^ 64"
  shows "fse_writes ex e (BIT_addBits bitC (of_nat v) n) (fs @ [(v mod 2 ^ n, n)]) (k + w)"
proof -
  have "unat (of_nat v :: u64) = v" using assms(5) by (intro unat_of_nat_id) simp
  then show ?thesis
    using fse_writes_bits [OF assms(1), of n "of_nat v"] assms(2-4) by (auto simp: fse_writes_def)
qed

lemma fse_writes_flush:
  assumes "fse_writes ex e bitC fs k" "k < 64" "ex \<Longrightarrow> fields_bits fs \<le> 8 * e" "fast \<Longrightarrow> ex"
  shows "fse_writes ex e (fse_flush fast bitC) fs 7"
proof (cases ex)
  case True
  have ok: "cop_ok bitC FlushBitsFast" using assms by (auto simp: fse_writes_def)
  have "c_written (BIT_flushBitsFast bitC) fs"
    using cop_step_written [OF _ ok] assms(1) by (simp add: fse_writes_def)
  moreover have "8 * c_ptr bitC + c_bitPos bitC \<le> 8 * e"
    using assms(1,3) True by (simp add: fse_writes_def c_bits_def)
  then have fit: "c_ptr bitC + c_bitPos bitC div 8 \<le> e" using div_le_mono [of _ "8 * e" 8] by fastforce
  ultimately have "fse_writes ex e (BIT_flushBitsFast bitC) fs 7"
    using assms(1) True by (auto simp: fse_writes_def BIT_flushBitsFast_def Let_def c_bits_def)
  moreover have "fse_flush fast bitC = BIT_flushBitsFast bitC"
    using fit assms(1) BIT_flushBits_eq [of bitC] by (simp add: fse_flush_def fse_writes_def)
  ultimately show ?thesis by simp
next
  case False
  have ok: "cop_ok bitC FlushBits" using assms by (auto simp: fse_writes_def)
  have "c_written (BIT_flushBits bitC) fs"
    using cop_step_written [OF _ ok] assms(1) by (simp add: fse_writes_def)
  then show ?thesis
    using assms(1,4) False by (auto simp: fse_writes_def fse_flush_def BIT_flushBits_def Let_def)
qed

definition fse_cholds :: "int list \<times> nat \<Rightarrow> FSE_CState_t \<Rightarrow> nat \<Rightarrow> bool" where
  "fse_cholds t st x \<longleftrightarrow> cs_stateTable st = fse_states (fst t) (snd t) \<and>
     cs_symbolTT st = fse_transforms (snd t) (fst t) 0 \<and> cs_stateLog st = snd t \<and> cs_value st = x"

definition fse_coded :: "bool \<Rightarrow> nat \<Rightarrow> int list \<times> nat \<Rightarrow> BIT_CStream_t \<Rightarrow> FSE_CState_t \<Rightarrow> FSE_CState_t \<Rightarrow>
    nat list \<Rightarrow> nat \<Rightarrow> bool" where
  "fse_coded ex e t bitC st1 st2 syms k \<longleftrightarrow>
     2 \<le> length syms \<and> list_all (fse_codes t) syms \<and>
     (\<exists>fs a b. fse_enc2 t syms = (fs, a, b) \<and> fse_cholds t st1 a \<and> fse_cholds t st2 b \<and>
        fse_writes ex e bitC fs k)"

lemma fse_coded_step:
  assumes "fse_valid t" "fse_codes t s" "fse_coded ex e t bitC st1 st2 syms k" "k + 12 < 64"
    "FSE_encodeSymbol bitC st2 s = (bitC', st2')"
  shows "fse_coded ex e t bitC' st2' st1 (s # syms) (k + 12)"
proof -
  obtain fs a b where e: "2 \<le> length syms" "list_all (fse_codes t) syms" "fse_enc2 t syms = (fs, a, b)"
      "fse_cholds t st1 a" "fse_cholds t st2 b" "fse_writes ex e bitC fs k"
    using assms(3) by (auto simp: fse_coded_def)
  have b: "b \<in> fse_range t" using fse.enc2_states [OF assms(1) e(2,1,3)] by simp
  have w: "fse_width t b s \<le> 12" using fse.step_bits [OF assms(1,2) b] by simp
  have "(2::nat) ^ snd t \<le> 2 ^ 12" using fse_table_ok_facts(5) [of "fst t" "snd t"] assms(1) by (simp add: fse_valid_def)
  then have b64: "b < 2 ^ 64" using b by (simp add: fse_range_def)
  have enc: "bitC' = BIT_addBits bitC (of_nat b) (fse_width t b s)" "fse_cholds t st2' (fse_step t b s)"
    using assms(5) FSE_encodeSymbol_eq [of st2 "fst t" "snd t" bitC s] e(5)
    by (auto simp: fse_cholds_def fse_width_def fse_step_def)
  obtain r q rs where syms: "syms = r # q # rs" using e(1) by (cases syms; cases "tl syms") auto
  have "fse_enc2 t (s # syms) = (fs @ [(b mod 2 ^ fse_width t b s, fse_width t b s)], fse_step t b s, a)"
    using e(3) by (simp add: syms)
  then show ?thesis
    using enc e assms(2) fse_writes_add [OF e(6) w _ assms(4) b64] by (auto simp: fse_coded_def)
qed

lemma fse_coded_flush:
  assumes "fse_valid t" "fse_coded ex e t bitC st1 st2 syms k" "k < 64" "ex \<Longrightarrow> 12 * length syms \<le> 8 * e"
    "fast \<Longrightarrow> ex"
  shows "fse_coded ex e t (fse_flush fast bitC) st1 st2 syms 7"
proof -
  obtain fs a b where f: "2 \<le> length syms" "list_all (fse_codes t) syms" "fse_enc2 t syms = (fs, a, b)"
      "fse_cholds t st1 a" "fse_cholds t st2 b" "fse_writes ex e bitC fs k"
    using assms(2) by (auto simp: fse_coded_def)
  have "fields_bits fs \<le> 12 * length fs" "length fs \<le> length syms"
    using fse.enc2_states [OF assms(1) f(2,1,3)] fields_bits_le [of fs 12] by auto
  then have "ex \<Longrightarrow> fields_bits fs \<le> 8 * e" using assms(4) by simp
  then show ?thesis using f fse_writes_flush [OF f(6) assms(3) _ assms(5)] by (auto simp: fse_coded_def)
qed

lemma fse_coded_mono: "fse_coded ex e t bitC st1 st2 syms k \<Longrightarrow> k \<le> l \<Longrightarrow> fse_coded ex e t bitC st1 st2 syms l"
  unfolding fse_coded_def fse_writes_def using le_trans by blast

lemma fse_coded_pair:
  assumes "fse_valid t" "fse_codes t s" "fse_codes t r" "fse_coded ex e t bitC st1 st2 syms k" "k + 24 < 64"
    "FSE_encodeSymbol bitC st2 r = (bitC1, st2')" "FSE_encodeSymbol bitC1 st1 s = (bitC2, st1')"
  shows "fse_coded ex e t bitC2 st1' st2' (s # r # syms) (k + 24)"
  using fse_coded_step [OF assms(1,2) fse_coded_step [OF assms(1,3,4) _ assms(6)] _ assms(7)] assms(5)
  by (simp add: add.commute)

lemma fse_encode_loop_coded:
  assumes "fse_valid t" "fse_coded ex e t bitC st1 st2 syms 7" "list_all (fse_codes t) ip" "length ip mod 4 = 0"
    "ex \<Longrightarrow> 12 * length (rev ip @ syms) \<le> 8 * e" "fast \<Longrightarrow> ex"
    "fse_encode_loop fast bitC st1 st2 ip = (bitC', st1', st2')"
  shows "fse_coded ex e t bitC' st1' st2' (rev ip @ syms) 7"
  using assms(2-7)
proof (induction fast bitC st1 st2 ip arbitrary: syms rule: fse_encode_loop.induct)
  case (1 fast bitC st1 st2 a b c d ip)
  obtain bitC1 x2 where e1: "FSE_encodeSymbol bitC st2 a = (bitC1, x2)" by fastforce
  obtain bitC2 x1 where e2: "FSE_encodeSymbol bitC1 st1 b = (bitC2, x1)" by fastforce
  obtain bitC3 y2 where e3: "FSE_encodeSymbol bitC2 x2 c = (bitC3, y2)" by fastforce
  obtain bitC4 y1 where e4: "FSE_encodeSymbol bitC3 x1 d = (bitC4, y1)" by fastforce
  have codes: "fse_codes t a" "fse_codes t b" "fse_codes t c" "fse_codes t d" using "1.prems"(2) by auto
  have "fse_coded ex e t bitC2 x1 x2 (b # a # syms) 31"
    using fse_coded_pair [OF assms(1) codes(2,1) "1.prems"(1) _ e1 e2] by simp
  then have "fse_coded ex e t bitC4 y1 y2 (d # c # b # a # syms) 55"
    using fse_coded_pair [OF assms(1) codes(4,3) _ _ e3 e4] by fastforce
  then have "fse_coded ex e t (fse_flush fast bitC4) y1 y2 (d # c # b # a # syms) 7"
    using "1.prems"(4,5) by (intro fse_coded_flush [OF assms(1)]) auto
  moreover have "length ip mod 4 = 0" using "1.prems"(3) by simp
  ultimately have "fse_coded ex e t bitC' st1' st2' (rev ip @ d # c # b # a # syms) 7"
    using "1.prems" e1 e2 e3 e4
    by (intro "1.IH" [OF e1 [symmetric] refl e2 [symmetric] refl e3 [symmetric] refl e4 [symmetric] refl]) auto
  then show ?case by simp
qed auto

lemma fse_cholds_init:
  assumes "ct_tableLog ct = snd t" "ct_stateTable ct = fse_states (fst t) (snd t)"
    "ct_symbolTT ct = fse_transforms (snd t) (fst t) 0"
  shows "fse_cholds t (FSE_initCState2 ct s) (fse_first t s)"
  using assms by (simp add: fse_cholds_def fse_first_def FSE_initCState2_def FSE_initCState_def Let_def)

lemma fse_encode_start_coded:
  assumes "fse_valid t" "list_all (fse_codes t) ip" "3 \<le> length ip"
    "ct_tableLog ct = snd t" "ct_stateTable ct = fse_states (fst t) (snd t)"
    "ct_symbolTT ct = fse_transforms (snd t) (fst t) 0"
    "fse_writes ex e bitC [] 0" "ex \<Longrightarrow> 36 \<le> 8 * e" "fast \<Longrightarrow> ex"
    "fse_encode_start fast ct bitC (length ip) ip = (bitC', st1, st2, ip')"
  shows "\<exists>syms. rev ip = rev ip' @ syms \<and> fse_coded ex e t bitC' st1 st2 syms 7 \<and> even (length ip')"
proof -
  obtain z y x rs where ip: "ip = z # y # x # rs"
    using assms(3) by (cases ip; cases "tl ip"; cases "tl (tl ip)") auto
  have codes: "fse_codes t z" "fse_codes t y" "fse_codes t x" using assms(2) ip by auto
  note hold = fse_cholds_init [OF assms(4-6)]
  have two: "fse_coded ex e t bitC (FSE_initCState2 ct p) (FSE_initCState2 ct q) [p, q] 0"
    if "fse_codes t p" "fse_codes t q" for p q
    using that assms(7) hold by (auto simp: fse_coded_def)
  show ?thesis
  proof (cases "odd (length ip)")
    case True
    obtain bitC1 x1 where e: "FSE_encodeSymbol bitC (FSE_initCState2 ct z) x = (bitC1, x1)" by fastforce
    have "fse_coded ex e t bitC1 x1 (FSE_initCState2 ct y) [x, y, z] 12"
      using fse_coded_step [OF assms(1) codes(3) two [OF codes(2,1)] _ e] by simp
    then have "fse_coded ex e t (fse_flush fast bitC1) x1 (FSE_initCState2 ct y) [x, y, z] 7"
      using assms(8,9) by (intro fse_coded_flush [OF assms(1)]) auto
    then show ?thesis
      using assms(10) e True ip by (intro exI [of _ "[x, y, z]"]) (auto simp: fse_encode_start_def)
  next
    case False
    have "fse_coded ex e t bitC (FSE_initCState2 ct y) (FSE_initCState2 ct z) [y, z] 7"
      using fse_coded_mono [OF two [OF codes(2,1)]] by simp
    then show ?thesis
      using assms(10) False ip by (intro exI [of _ "[y, z]"]) (auto simp: fse_encode_start_def)
  qed
qed

lemma fse_encode_join_coded:
  assumes "fse_valid t" "fse_coded ex e t bitC st1 st2 syms 7" "list_all (fse_codes t) ip"
    "even (length ip)" "bit n 1 \<longleftrightarrow> length ip mod 4 = 2"
    "ex \<Longrightarrow> 12 * (length ip + length syms) \<le> 8 * e" "fast \<Longrightarrow> ex"
    "fse_encode_join fast bitC st1 st2 n ip = (bitC', st1', st2', ip')"
  shows "\<exists>syms'. rev ip @ syms = rev ip' @ syms' \<and> fse_coded ex e t bitC' st1' st2' syms' 7 \<and> length ip' mod 4 = 0"
proof (cases "bit n 1")
  case True
  then have l: "length ip mod 4 = 2" using assms(5) by simp
  then obtain b a rs where ip: "ip = b # a # rs" by (cases ip; cases "tl ip") auto
  obtain bitC1 x2 where e1: "FSE_encodeSymbol bitC st2 b = (bitC1, x2)" by fastforce
  obtain bitC2 x1 where e2: "FSE_encodeSymbol bitC1 st1 a = (bitC2, x1)" by fastforce
  have "fse_coded ex e t bitC2 x1 x2 (a # b # syms) 31"
    using fse_coded_pair [OF assms(1) _ _ assms(2) _ e1 e2] assms(3) ip by simp
  then have "fse_coded ex e t (fse_flush fast bitC2) x1 x2 (a # b # syms) 7"
    using assms(6,7) ip by (intro fse_coded_flush [OF assms(1)]) auto
  moreover have "length rs mod 4 = 0" using l ip by (simp add: mod_Suc split: if_splits)
  ultimately show ?thesis
    using assms(8) True ip e1 e2
    by (intro exI [of _ "a # b # syms"]) (auto simp: fse_encode_join_def FSE_MAX_TABLELOG_def)
next
  case False
  moreover have "length ip mod 4 = 0" using False assms(4,5) by presburger
  ultimately show ?thesis using assms(2,8) by (auto simp: fse_encode_join_def)
qed

lemma FSE_flushCState_writes:
  assumes "fse_writes ex e bitC fs 7" "fse_cholds t st x" "snd t \<le> 12" "x < 2 ^ 64"
    "ex \<Longrightarrow> fields_bits fs + snd t \<le> 8 * e"
  shows "fse_writes ex e (FSE_flushCState bitC st) (fs @ [(x mod 2 ^ snd t, snd t)]) 7"
  using fse_writes_flush [OF fse_writes_add [OF assms(1,3) _ _ assms(4)], of False] assms(2,5)
  by (simp add: FSE_flushCState_def fse_flush_def fse_cholds_def fields_bits_append)

lemma bit_1_even_length:
  assumes "even (k::nat)" "m = k \<or> m = k + 1"
  shows "bit m 1 \<longleftrightarrow> k mod 4 = 2"
proof -
  obtain j where j: "k = 2 * j" using assms(1) by blast
  have "m div 2 = j" using assms(2) j by auto
  then have "bit m 1 \<longleftrightarrow> odd j" by (simp add: bit_iff_odd)
  also have "odd j \<longleftrightarrow> (2 * j) mod 4 = 2" by presburger
  finally show ?thesis by (simp add: j)
qed

lemma fse_compress_writes:
  assumes "fse_valid t" "list_all (fse_codes t) src" "3 \<le> length src"
    "ct_tableLog ct = snd t" "ct_stateTable ct = fse_states (fst t) (snd t)"
    "ct_symbolTT ct = fse_transforms (snd t) (fst t) 0"
    "ex \<Longrightarrow> 12 * length src \<le> 8 * (length dst - 8)" "fast \<Longrightarrow> ex" "BIT_initCStream dst = Inr bitC"
  shows "\<exists>fs a b bitC'. fse_enc2 t src = (fs, a, b) \<and>
    fse_writes ex (length dst - 8) bitC' (fs @ [(b mod 2 ^ snd t, snd t), (a mod 2 ^ snd t, snd t)]) 7 \<and>
    FSE_compress_usingCTable_generic dst src ct fast =
      (fst (BIT_closeCStream bitC'), c_buf (snd (BIT_closeCStream bitC')))"
proof -
  define e where "e = length dst - 8"
  have w0: "fse_writes ex e bitC [] 0"
    using assms(9) c_inv_init [OF assms(9)]
    by (auto simp: fse_writes_def c_written_def BIT_initCStream_def e_def split: if_splits)
  obtain bitC1 s1 s2 ip where st: "fse_encode_start fast ct bitC (length src) (rev src) = (bitC1, s1, s2, ip)"
    by (metis prod_cases4)
  have fit: "12 * length src \<le> 8 * e" if ex using that assms(7) by (simp add: e_def)
  obtain syms1 where c1: "src = rev ip @ syms1" "fse_coded ex e t bitC1 s1 s2 syms1 7" "even (length ip)"
    using fse_encode_start_coded [where ip = "rev src" and fast = fast and ip' = ip,
        OF assms(1) _ _ assms(4-6) w0 _ assms(8)]
      assms(2,3) st fit by fastforce
  obtain bitC2 s1' s2' ip2 where jn: "fse_encode_join fast bitC1 s1 s2 (length src - 2) ip = (bitC2, s1', s2', ip2)"
    by (metis prod_cases4)
  have "length ip = length src - (if odd (length src) then 3 else 2)"
    using st by (auto simp: fse_encode_start_def Let_def split: prod.splits if_splits)
  then have "length src - 2 = length ip \<or> length src - 2 = length ip + 1" using assms(3) by auto
  then have "bit (length src - 2) 1 \<longleftrightarrow> length ip mod 4 = 2" by (rule bit_1_even_length [OF c1(3)])
  then obtain syms2 where c2: "src = rev ip2 @ syms2" "fse_coded ex e t bitC2 s1' s2' syms2 7" "length ip2 mod 4 = 0"
    using fse_encode_join_coded [OF assms(1) c1(2) _ c1(3) _ _ assms(8) jn] c1(1) assms(2) fit by auto
  obtain bitC3 t1 t2 where lp: "fse_encode_loop fast bitC2 s1' s2' ip2 = (bitC3, t1, t2)" by (metis prod_cases3)
  have "fse_coded ex e t bitC3 t1 t2 src 7"
    using fse_encode_loop_coded [OF assms(1) c2(2) _ c2(3) _ assms(8) lp] c2(1) assms(2) fit by auto
  then obtain fs a b where f: "fse_enc2 t src = (fs, a, b)" "fse_cholds t t1 a" "fse_cholds t t2 b"
      "fse_writes ex e bitC3 fs 7"
    by (auto simp: fse_coded_def)
  have L: "snd t \<le> 12" "(2::nat) ^ snd t \<le> 2 ^ 12"
    using assms(1) fse_table_ok_facts(3,5) [of "fst t" "snd t"] by (auto simp: fse_valid_def)
  have st2: "a \<in> fse_range t" "b \<in> fse_range t" "fields_bits fs \<le> 12 * (length src - 2)"
    using fse.enc2_states [OF assms(1,2) _ f(1)] assms(3) fields_bits_le [of fs 12] by force+
  then have ab: "a < 2 ^ 64" "b < 2 ^ 64" using L(2) by (auto simp: fse_range_def)
  define bitC4 where "bitC4 = FSE_flushCState (FSE_flushCState bitC3 t2) t1"
  have fits: "fields_bits fs + snd t + snd t \<le> 8 * e" if ex using fit [OF that] st2(3) L(1) assms(3) by linarith
  have w3: "fse_writes ex e (FSE_flushCState bitC3 t2) (fs @ [(b mod 2 ^ snd t, snd t)]) 7"
    using fits by (intro FSE_flushCState_writes [OF f(4,3) L(1) ab(2)]) force
  have "fse_writes ex e bitC4 ((fs @ [(b mod 2 ^ snd t, snd t)]) @ [(a mod 2 ^ snd t, snd t)]) 7"
    unfolding bitC4_def using fits by (intro FSE_flushCState_writes [OF w3 f(2) L(1) ab(1)]) (simp add: fields_bits_append)
  moreover have "FSE_compress_usingCTable_generic dst src ct fast =
      (fst (BIT_closeCStream bitC4), c_buf (snd (BIT_closeCStream bitC4)))"
    using assms(3,9) st jn lp by (simp add: FSE_compress_usingCTable_generic_def bitC4_def split_beta Let_def)
  ultimately show ?thesis using f(1) unfolding e_def by (intro exI [of _ fs] exI [of _ a] exI [of _ b] exI [of _ bitC4]) simp
qed

lemma fse_writes_image:
  assumes "fse_writes ex e bitC fs 7" "BIT_closeCStream bitC = (sz, bitC')" "sz \<noteq> 0"
  shows "c_image fs (take sz (c_buf bitC'))"
proof -
  have "cop_run_ok bitC []" and w: "c_written bitC fs" using assms(1) by (simp_all add: fse_writes_def)
  note close = BIT_closeCStream_spec [OF w this(1) assms(2,3)]
  then show ?thesis by (simp add: c_image_def)
qed

lemma fse_compress_image:
  assumes "fse_valid t" "list_all (fse_codes t) src"
    "ct_tableLog ct = snd t" "ct_stateTable ct = fse_states (fst t) (snd t)"
    "ct_symbolTT ct = fse_transforms (snd t) (fst t) 0"
    "fast \<Longrightarrow> 12 * length src \<le> 8 * (length dst - 8)"
    "FSE_compress_usingCTable_generic dst src ct fast = (sz, dst')" "sz \<noteq> 0"
  shows "3 \<le> length src" "\<exists>fs a b. fse_enc2 t src = (fs, a, b) \<and>
    c_image (fs @ [(b mod 2 ^ snd t, snd t), (a mod 2 ^ snd t, snd t)]) (take sz dst')"
proof -
  show n: "3 \<le> length src" using assms(7,8) by (auto simp: FSE_compress_usingCTable_generic_def Let_def split: if_splits)
  obtain bitC where i: "BIT_initCStream dst = Inr bitC"
    using assms(7,8) n by (auto simp: FSE_compress_usingCTable_generic_def Let_def split: sum.splits if_splits)
  obtain fs a b bitC' where w: "fse_enc2 t src = (fs, a, b)"
      "fse_writes fast (length dst - 8) bitC' (fs @ [(b mod 2 ^ snd t, snd t), (a mod 2 ^ snd t, snd t)]) 7"
      "BIT_closeCStream bitC' = (sz, snd (BIT_closeCStream bitC'))" "dst' = c_buf (snd (BIT_closeCStream bitC'))"
    using fse_compress_writes [where ex = fast and fast = fast, OF assms(1,2) n assms(3-6) _ i] assms(7)
    by (auto simp: prod_eq_iff)
  show "\<exists>fs a b. fse_enc2 t src = (fs, a, b) \<and>
    c_image (fs @ [(b mod 2 ^ snd t, snd t), (a mod 2 ^ snd t, snd t)]) (take sz dst')"
    using fse_writes_image [OF w(2,3) assms(8)] w(1,4) by auto
qed

lemma fse_writes_close:
  assumes "fse_writes True e bitC fs k" "fields_bits fs + 8 \<le> 8 * e"
  shows "fst (BIT_closeCStream bitC) \<noteq> 0"
proof -
  define d where "d = BIT_addBitsFast bitC 1 1"
  have d: "c_ptr d = c_ptr bitC" "c_bitPos d = c_bitPos bitC + 1" "c_endPtr d = e"
    using assms(1) by (simp_all add: d_def BIT_addBitsFast_def fse_writes_def)
  have "8 * c_ptr bitC + c_bitPos bitC = fields_bits fs" using assms(1) by (simp add: fse_writes_def c_bits_def)
  then have lt: "8 * c_ptr bitC + (c_bitPos bitC + 1) < 8 * e" using assms(2) by simp
  have "c_ptr d + c_bitPos d div 8 < c_endPtr d" using lt d by (simp add: less_mult_imp_div_less)
  then have "c_ptr (BIT_flushBits d) < c_endPtr (BIT_flushBits d)" "c_ptr (BIT_flushBits d) > 0 \<or> c_bitPos (BIT_flushBits d) > 0"
    using BIT_flushBits_eq [of d] d by (auto simp: BIT_flushBitsFast_def Let_def)
  then show ?thesis by (auto simp: BIT_closeCStream_def d_def Let_def)
qed

lemma fse_compress_fits:
  assumes "fse_valid t" "list_all (fse_codes t) src" "3 \<le> length src"
    "ct_tableLog ct = snd t" "ct_stateTable ct = fse_states (fst t) (snd t)"
    "ct_symbolTT ct = fse_transforms (snd t) (fst t) 0"
    "12 * length src + 8 \<le> 8 * (length dst - 8)"
  shows "fst (FSE_compress_usingCTable_generic dst src ct fast) \<noteq> 0"
proof -
  have "8 < length dst" using assms(7) by (cases "8 < length dst") auto
  then have "\<exists>bitC. BIT_initCStream dst = Inr bitC" by (simp add: BIT_initCStream_def)
  then obtain bitC where i: "BIT_initCStream dst = Inr bitC" ..
  obtain fs a b bitC' where w: "fse_enc2 t src = (fs, a, b)"
      "fse_writes True (length dst - 8) bitC' (fs @ [(b mod 2 ^ snd t, snd t), (a mod 2 ^ snd t, snd t)]) 7"
      "FSE_compress_usingCTable_generic dst src ct fast = (fst (BIT_closeCStream bitC'), c_buf (snd (BIT_closeCStream bitC')))"
    using fse_compress_writes [where ex = True and fast = fast, OF assms(1-6) _ _ i] assms(7) by auto
  have "snd t \<le> 12" using assms(1) fse_table_ok_facts(3) [of "fst t" "snd t"] by (auto simp: fse_valid_def)
  then have "fields_bits (fs @ [(b mod 2 ^ snd t, snd t), (a mod 2 ^ snd t, snd t)]) + 8 \<le> 8 * (length dst - 8)"
    using fse.enc2_states [OF assms(1,2) _ w(1)] assms(3,7) fields_bits_le [of fs 12]
    by (force simp: fields_bits_append)
  then show ?thesis using fse_writes_close [OF w(2)] w(3) by simp
qed

subsection \<open>Properties\<close>

lemma fse_fast_ok_mode:
  assumes "fse_table_ok norm L" "fast \<Longrightarrow> list_all (\<lambda>n. n = -1 \<or> n < 2 ^ (L - 1)) norm"
  shows "fse_fast_ok fast (norm, L)"
  unfolding fse_fast_ok_def
proof (intro impI ballI)
  fix x assume f: fast and x: "x \<in> fse_range (norm, L)"
  then have "x - 2 ^ L < 2 ^ L" by (auto simp: fse_range_def)
  then show "0 < nbBits (fse_at (norm, L) x)"
    using fse_fast_cells [OF assms(1) _ assms(2) [OF f]] by (simp add: fse_at_def)
qed

text \<open>
  C2. Compressing a block with the FSE coder and decompressing the result returns the block.
  For every distribution of at least two symbols and every block of its symbols, with the
  checked flush or, given room for twelve bits a symbol, the unchecked one: with that room
  and a block of three symbols or more the coder reports a size; and whenever it reports one,
  decoding that many bytes with the table of the same distribution, in the fast mode if the
  table allows it, gives exactly the block, in a destination that holds just the block.
\<close>

theorem fse_block_roundtrip:
  assumes "fse_table_ok norm tableLog" "length norm = Suc maxSymbolValue"
    "\<forall>n \<in> set norm. n < 2 ^ tableLog"
    "FSE_buildCTable_wksp norm maxSymbolValue tableLog wkspSize = Inr ct"
    "FSE_buildDTable_internal norm maxSymbolValue tableLog wkspSize' = Inr dt"
    "\<forall>s \<in> set src. s \<le> maxSymbolValue \<and> norm ! s \<noteq> 0"
    "fast \<longrightarrow> 12 * length src \<le> 8 * (length dst - 8)"
    "FSE_compress_usingCTable_generic dst src ct fast = (sz, dst')"
    "fastD \<longrightarrow> dt_fastMode dt" "length src \<le> maxDstSize"
  shows "(3 \<le> length src \<and> 12 * length src + 8 \<le> 8 * (length dst - 8) \<longrightarrow> sz \<noteq> 0) \<and>
    (sz \<noteq> 0 \<longrightarrow> FSE_decompress_usingDTable_generic maxDstSize (take sz dst') dt fastD = Inr src)"
proof -
  let ?t = "(norm, tableLog)"
  have ct: "ct = \<lparr>ct_tableLog = tableLog, ct_maxSymbolValue = maxSymbolValue, ct_stateTable = fse_states norm tableLog,
         ct_symbolTT = fse_transforms tableLog norm 0\<rparr>" by (rule FSE_buildCTable_wksp_InrD [OF assms(2,4)])
  note dt = FSE_buildDTable_internal_InrD [OF assms(1,2,5)]
  have v: "fse_valid ?t" using assms(1) by (simp add: fse_valid_def)
  have codes: "list_all (fse_codes ?t) src" using assms(2,6) by (auto simp: list_all_iff fse_codes_def)
  have "(1::nat) < 2 ^ tableLog" using fse_table_ok_facts(1) [OF assms(1)] by (intro one_less_power) auto
  then have mixed: "fse_mixed ?t"
    using assms(3) by (auto simp: fse_mixed_def list_all_iff fse_cells_of_def nat_less_iff)
  have fast: "fse_fast_ok fastD ?t" using assms(9) dt by (intro fse_fast_ok_mode [OF assms(1)]) simp
  have fit: "fast \<Longrightarrow> 12 * length src \<le> 8 * (length dst - 8)" using assms(7) by blast
  have "FSE_decompress_usingDTable_generic maxDstSize (take sz dst') dt fastD = Inr src" if nz: "sz \<noteq> 0"
  proof -
    obtain fs a b where "fse_enc2 ?t src = (fs, a, b)"
        "c_image (fs @ [(b mod 2 ^ tableLog, tableLog), (a mod 2 ^ tableLog, tableLog)]) (take sz dst')" "3 \<le> length src"
      using fse_compress_image [OF v codes _ _ _ fit assms(8) nz] ct by auto
    then show ?thesis
      using fse_decompress_coded [OF v fast mixed codes, of fs a b] dt assms(10) by simp
  qed
  moreover have "sz \<noteq> 0" if "3 \<le> length src" "12 * length src + 8 \<le> 8 * (length dst - 8)"
    using fse_compress_fits [OF v codes that(1) _ _ _ that(2), of ct fast] assms(8) ct by simp
  ultimately show ?thesis by blast
qed

theorem fse_block_roundtrip_witness:
  "\<exists>ct dt sz dst'. FSE_buildCTable_wksp [16, -1, 8, 0, 4, -1, 2] 6 5 200 = Inr ct \<and>
     FSE_buildDTable_internal [16, -1, 8, 0, 4, -1, 2] 6 5 200 = Inr dt \<and>
     FSE_compress_usingCTable_generic (replicate 32 0) [0, 2, 1, 6, 0, 4] ct True = (sz, dst') \<and> sz \<noteq> 0 \<and>
     FSE_decompress_usingDTable_generic 6 (take sz dst') dt False = Inr [0, 2, 1, 6, 0, 4]"
proof -
  let ?n = "[16, -1, 8, 0, 4, -1, 2] :: int list"
  have len: "length ?n = Suc 6" by simp
  have "\<exists>ct. FSE_buildCTable_wksp ?n 6 5 200 = Inr ct"
    by (intro exI, rule FSE_buildCTable_wksp_ok [OF len]) (simp add: FSE_BUILD_CTABLE_WORKSPACE_SIZE_def)
  then obtain ct where ct: "FSE_buildCTable_wksp ?n 6 5 200 = Inr ct" ..
  have "\<exists>dt. FSE_buildDTable_internal ?n 6 5 200 = Inr dt"
    by (intro exI, rule FSE_buildDTable_internal_ok [OF fse_sample_ok len]) (simp add: FSE_BUILD_DTABLE_WKSP_SIZE_def)
  then obtain dt where dt: "FSE_buildDTable_internal ?n 6 5 200 = Inr dt" ..
  obtain sz dst' where c: "FSE_compress_usingCTable_generic (replicate 32 0) [0, 2, 1, 6, 0, 4] ct True = (sz, dst')"
    by fastforce
  show ?thesis
    using ct dt c fse_block_roundtrip [OF fse_sample_ok len _ ct dt _ _ c, of False 6] by auto
qed

end
