(* ===== verification/Zstd_NCount.thy ===== *)
theory Zstd_NCount
  imports Zstd_FSE_Tables
begin

text \<open>
  The compact header of a normalized distribution (\<open>entropy_common.c\<close>: \<open>FSE_readNCount\<close>) and
  its writer (\<open>fse_compress.c\<close>: \<open>FSE_writeNCount\<close>). The reader keeps a byte position and the
  number of bits consumed there; the 32-bit window it works on is always the little-endian
  word at that position shifted right by those bits.
\<close>

subsection \<open>Reading\<close>

definition nc_window :: "bytes \<Rightarrow> nat \<Rightarrow> nat \<Rightarrow> u32" where
  "nc_window hb ip bitCount = drop_bit bitCount (MEM_readLE32 MEM_isLittleEndian hb ip)"

text \<open>Move to the byte in which the next bit is, but never closer than four bytes to the end.\<close>

definition nc_advance :: "bytes \<Rightarrow> nat \<Rightarrow> nat \<Rightarrow> nat \<times> nat" where
  "nc_advance hb ip bitCount =
     (if ip + 7 \<le> length hb \<or> ip + bitCount div 8 + 4 \<le> length hb
      then (ip + bitCount div 8, bitCount mod 8)
      else (length hb - 4, nat ((int bitCount - 8 * (int (length hb) - 4 - int ip)) mod 32)))"

definition nc_ones :: "u32 \<Rightarrow> nat" where
  "nc_ones bitStream = ZSTD_countTrailingZeros32 (NOT bitStream OR 0x80000000) div 2"

text \<open>Twelve or more codes \<open>0b11\<close>: skip three bytes and look again. The buffer has at least
  eight bytes.\<close>

lemma nc_ones_bound:
  assumes "12 \<le> nc_ones (drop_bit k (w :: u32))"
  shows "k \<le> 8"
proof (rule ccontr)
  assume k: "\<not> k \<le> 8"
  let ?v = "NOT (drop_bit k w) OR 0x80000000 :: u32"
  have b: "bit ?v 23" using k by (auto simp: bit_simps dest: bit_imp_le_length)
  then have nz: "?v \<noteq> 0" by (metis bit_0_eq bot_apply bot_bool_def)
  have "is_lowbit ?v (ZSTD_countTrailingZeros32 ?v)" by (rule ZSTD_countTrailingZeros32_is_lowbit [OF nz])
  then have "ZSTD_countTrailingZeros32 ?v \<le> 23" using b unfolding is_lowbit_def by (meson not_le)
  then show False using assms by (simp add: nc_ones_def)
qed

function nc_repeats :: "bytes \<Rightarrow> nat \<Rightarrow> nat \<Rightarrow> nat \<Rightarrow> nat \<times> nat \<times> nat" where
  "nc_repeats hb ip bitCount charnum =
     (if 8 \<le> length hb \<and> nc_ones (nc_window hb ip bitCount) \<ge> 12 then
        (if ip + 7 \<le> length hb then nc_repeats hb (ip + 3) bitCount (charnum + 3 * 12)
         else nc_repeats hb (length hb - 4)
                (nat ((int bitCount - 8 * (int (length hb) - 7 - int ip)) mod 32)) (charnum + 3 * 12))
      else (ip, bitCount, charnum))"
  by pat_completeness auto
termination
proof (relation "measures [\<lambda>(hb, ip, bitCount, charnum).
      if length hb < ip + 4 then Suc (length hb) else length hb - 4 - ip,
    \<lambda>(hb, ip, bitCount, charnum). if bitCount = 8 then 2 else if bitCount < 8 then 1 else 0]", goal_cases)
  case (3 hb ip bitCount charnum)
  have bc: "bitCount \<le> 8" using 3 by (auto simp: nc_window_def dest: nc_ones_bound)
  consider "length hb < ip + 4" | "length hb = ip + 4" | "length hb = ip + 5" | "length hb = ip + 6"
    using 3 by linarith
  then show ?case
  proof cases
    case 2
    have "(int bitCount + 24) mod 32 = (if bitCount = 8 then 0 else int bitCount + 24)" using bc by auto
    with 2 bc show ?thesis by auto
  qed (use 3 in auto)
qed auto

declare nc_repeats.simps [simp del]

text \<open>A run of zeros: its codes end with one that is not \<open>0b11\<close>.\<close>

definition nc_zero_run :: "bytes \<Rightarrow> nat \<Rightarrow> nat \<Rightarrow> nat \<Rightarrow> nat \<times> nat \<times> nat" where
  "nc_zero_run hb ip bitCount charnum =
     (let (ip, bitCount, charnum) = nc_repeats hb ip bitCount charnum;
          bitStream = nc_window hb ip bitCount;
          repeats = nc_ones bitStream;
          bitStream = drop_bit (2 * repeats) bitStream
      in (ip, bitCount + 2 * repeats + 2, charnum + 3 * repeats + unat (bitStream AND 3)))"

text \<open>One count: its value and the number of bits it takes. \<open>max\<close> is compared as an unsigned
  number.\<close>

definition nc_count :: "u32 \<Rightarrow> int \<Rightarrow> nat \<Rightarrow> nat \<Rightarrow> int \<times> nat" where
  "nc_count bitStream remaining threshold nb =
     (let mx = (2 * int threshold - 1) - remaining in
      if unat bitStream mod threshold < nat (mx mod 2 ^ 32)
      then (int (unat bitStream mod threshold) - 1, nb - 1)
      else (let count = int (unat bitStream mod (2 * threshold));
                count = (if count \<ge> int threshold then count - mx else count)
            in (count - 1, nb)))"

lemma nc_repeats_charnum: "nc_repeats hb ip bitCount charnum = (ip', bitCount', charnum') \<Longrightarrow> charnum \<le> charnum'"
proof (induction hb ip bitCount charnum rule: nc_repeats.induct)
  case (1 hb ip bitCount charnum)
  show ?case
  proof (cases "8 \<le> length hb \<and> nc_ones (nc_window hb ip bitCount) \<ge> 12")
    case True
    then show ?thesis using 1 by (auto simp: nc_repeats.simps [of hb ip bitCount] split: if_splits)
  next
    case False
    then show ?thesis using "1.prems" by (auto simp: nc_repeats.simps [of hb ip bitCount])
  qed
qed

lemma nc_zero_run_charnum: "nc_zero_run hb ip bitCount charnum = (ip', bitCount', charnum') \<Longrightarrow> charnum \<le> charnum'"
  by (auto simp: nc_zero_run_def Let_def dest: nc_repeats_charnum split: prod.splits)

record nc_state =
  nc_ip :: nat
  nc_bitCount :: nat
  nc_charnum :: nat
  nc_remaining :: int
  nc_threshold :: nat
  nc_nbBits :: nat
  nc_previous0 :: bool
  nc_counter :: "int list"

text \<open>The two halves of the loop body; the flag says that the loop ends there.\<close>

definition nc_zeros :: "bytes \<Rightarrow> nat \<Rightarrow> nc_state \<Rightarrow> bool \<times> nc_state" where
  "nc_zeros hb maxSV1 st =
     (if nc_previous0 st then
        (let (ip, bitCount, charnum) = nc_zero_run hb (nc_ip st) (nc_bitCount st) (nc_charnum st) in
         if charnum \<ge> maxSV1
         then (True, st\<lparr>nc_ip := ip, nc_bitCount := bitCount, nc_charnum := charnum\<rparr>)
         else (let (ip, bitCount) = nc_advance hb ip bitCount
               in (False, st\<lparr>nc_ip := ip, nc_bitCount := bitCount, nc_charnum := charnum\<rparr>)))
      else (False, st))"

definition nc_read_count :: "bytes \<Rightarrow> nat \<Rightarrow> nc_state \<Rightarrow> bool \<times> nc_state" where
  "nc_read_count hb maxSV1 st =
     (let (count, bits) = nc_count (nc_window hb (nc_ip st) (nc_bitCount st)) (nc_remaining st)
            (nc_threshold st) (nc_nbBits st);
          bitCount = nc_bitCount st + bits;
          remaining = (if count \<ge> 0 then nc_remaining st - count else nc_remaining st + count);
          st = st\<lparr>nc_bitCount := bitCount, nc_remaining := remaining,
                  nc_counter := (nc_counter st)[nc_charnum st := count],
                  nc_charnum := nc_charnum st + 1, nc_previous0 := (count = 0)\<rparr> in
      if remaining < int (nc_threshold st) \<and> remaining \<le> 1 then (True, st)
      else
        (let st = (if remaining < int (nc_threshold st)
                   then st\<lparr>nc_nbBits := ZSTD_highbit32 (of_int remaining) + 1,
                           nc_threshold := 2 ^ ((ZSTD_highbit32 (of_int remaining) + 1) - 1)\<rparr>
                   else st) in
         if nc_charnum st \<ge> maxSV1 then (True, st)
         else (let (ip, bitCount) = nc_advance hb (nc_ip st) (nc_bitCount st)
               in (False, st\<lparr>nc_ip := ip, nc_bitCount := bitCount\<rparr>))))"

definition nc_body :: "bytes \<Rightarrow> nat \<Rightarrow> nc_state \<Rightarrow> bool \<times> nc_state" where
  "nc_body hb maxSV1 st =
     (let (brk, st) = nc_zeros hb maxSV1 st in if brk then (True, st) else nc_read_count hb maxSV1 st)"

lemma nc_zeros_charnum: "nc_zeros hb maxSV1 st = (brk, st') \<Longrightarrow> nc_charnum st \<le> nc_charnum st'"
  by (auto simp: nc_zeros_def Let_def dest: nc_zero_run_charnum split: if_splits prod.splits)

lemma nc_read_count_charnum:
  "nc_read_count hb maxSV1 st = (False, st') \<Longrightarrow> nc_charnum st' = nc_charnum st + 1 \<and> nc_charnum st' < maxSV1"
  by (auto simp: nc_read_count_def Let_def split: if_splits prod.splits)

lemma nc_body_charnum:
  "nc_body hb maxSV1 st = (False, st') \<Longrightarrow> nc_charnum st < nc_charnum st' \<and> nc_charnum st' < maxSV1"
  by (auto simp: nc_body_def Let_def split: if_splits prod.splits
      dest!: nc_zeros_charnum nc_read_count_charnum)

function nc_loop :: "bytes \<Rightarrow> nat \<Rightarrow> nc_state \<Rightarrow> nc_state" where
  "nc_loop hb maxSV1 st =
     (let (brk, st) = nc_body hb maxSV1 st in if brk then st else nc_loop hb maxSV1 st)"
  by pat_completeness auto
termination
proof (relation "measure (\<lambda>(hb, maxSV1, st). maxSV1 - nc_charnum st)", goal_cases)
  case (2 hb maxSV1 st p brk st')
  then show ?case using nc_body_charnum [of hb maxSV1 st st'] by auto
qed auto

declare nc_loop.simps [simp del]

text \<open>The counters of all \<open>maxSV1\<close> symbols, the largest symbol present, the table log and the
  size of the header.\<close>

definition FSE_readNCount_wide :: "nat \<Rightarrow> bytes \<Rightarrow> (int list \<times> nat \<times> nat \<times> nat) res" where
  "FSE_readNCount_wide maxSV hb =
     (let maxSV1 = maxSV + 1;
          bitStream = MEM_readLE32 MEM_isLittleEndian hb 0;
          nbBits = unat (bitStream AND 0xF) + FSE_MIN_TABLELOG in
      if nbBits > FSE_TABLELOG_ABSOLUTE_MAX then Inl ZSTD_error_tableLog_tooLarge
      else
        (let st = nc_loop hb maxSV1
               \<lparr>nc_ip = 0, nc_bitCount = 4, nc_charnum = 0, nc_remaining = 2 ^ nbBits + 1,
                nc_threshold = 2 ^ nbBits, nc_nbBits = nbBits + 1, nc_previous0 = False,
                nc_counter = replicate maxSV1 0\<rparr> in
         if nc_remaining st \<noteq> 1 then Inl ZSTD_error_corruption_detected
         else if nc_charnum st > maxSV1 then Inl ZSTD_error_maxSymbolValue_tooSmall
         else if nc_bitCount st > 32 then Inl ZSTD_error_corruption_detected
         else Inr (nc_counter st, nc_charnum st - 1, nbBits, nc_ip st + (nc_bitCount st + 7) div 8)))"

definition FSE_readNCount_body :: "nat \<Rightarrow> bytes \<Rightarrow> (int list \<times> nat \<times> nat \<times> nat) res" where
  "FSE_readNCount_body maxSV hb =
     (if length hb < 8 then
        bind_res (FSE_readNCount_wide maxSV (hb @ replicate (8 - length hb) 0)) (\<lambda>(nc, maxSV', tableLog, countSize).
          if countSize > length hb then Inl ZSTD_error_corruption_detected
          else Inr (nc, maxSV', tableLog, countSize))
      else FSE_readNCount_wide maxSV hb)"

definition FSE_readNCount_bmi2 :: "nat \<Rightarrow> bytes \<Rightarrow> bool \<Rightarrow> (int list \<times> nat \<times> nat \<times> nat) res" where
  "FSE_readNCount_bmi2 maxSV hb bmi2 = FSE_readNCount_body maxSV hb"

definition FSE_readNCount :: "nat \<Rightarrow> bytes \<Rightarrow> (int list \<times> nat \<times> nat \<times> nat) res" where
  "FSE_readNCount maxSV hb = FSE_readNCount_bmi2 maxSV hb False"

subsection \<open>Whatever is read is a distribution\<close>

definition nc_ok :: "nat \<Rightarrow> nat \<Rightarrow> nat \<Rightarrow> nc_state \<Rightarrow> bool" where
  "nc_ok n maxSV1 L st \<longleftrightarrow>
     nc_ip st + 4 \<le> n \<and> length (nc_counter st) = maxSV1 \<and>
     list_all (\<lambda>c. -1 \<le> c) (nc_counter st) \<and>
     int (sum_list (map fse_cells_of (nc_counter st))) + nc_remaining st = 2 ^ L + 1 \<and>
     (\<forall>i. nc_charnum st \<le> i \<longrightarrow> i < maxSV1 \<longrightarrow> nc_counter st ! i = 0) \<and> 1 \<le> nc_remaining st"

definition nc_go :: "nat \<Rightarrow> nc_state \<Rightarrow> bool" where
  "nc_go maxSV1 st \<longleftrightarrow>
     nc_charnum st < maxSV1 \<and> (nc_previous0 st \<longrightarrow> 0 < nc_charnum st) \<and> 2 \<le> nc_remaining st \<and>
     int (nc_threshold st) \<le> nc_remaining st \<and> nc_remaining st < 2 * int (nc_threshold st) \<and>
     nc_threshold st \<le> 2 ^ 15 \<and> nc_nbBits st \<le> 16"

definition nc_near :: "nat \<Rightarrow> nat \<Rightarrow> nat \<Rightarrow> bool" where
  "nc_near n ip bitCount \<longleftrightarrow> ip + 4 \<le> n \<and> (ip + 7 \<le> n \<longrightarrow> bitCount \<le> 7)"

lemma nc_repeats_near: "nc_repeats hb ip bitCount charnum = (ip', bitCount', charnum') \<Longrightarrow>
   nc_near (length hb) ip bitCount \<Longrightarrow>
   nc_near (length hb) ip' bitCount' \<and> (8 \<le> length hb \<longrightarrow> nc_ones (nc_window hb ip' bitCount') < 12)"
proof (induction hb ip bitCount charnum rule: nc_repeats.induct)
  case (1 hb ip bitCount charnum)
  show ?case
  proof (cases "8 \<le> length hb \<and> nc_ones (nc_window hb ip bitCount) \<ge> 12")
    case True
    then show ?thesis
      using 1 by (auto simp: nc_repeats.simps [of hb ip bitCount] nc_near_def split: if_splits)
  next
    case False
    then show ?thesis using "1.prems" by (auto simp: nc_repeats.simps [of hb ip bitCount])
  qed
qed

lemma nc_advance_near:
  assumes "nc_advance hb ip bitCount = (ip', bitCount')" "ip + 7 \<le> length hb \<longrightarrow> bitCount < 32" "4 \<le> length hb"
  shows "nc_near (length hb) ip' bitCount'"
  using assms by (auto simp: nc_advance_def nc_near_def split: if_splits)

lemma nc_count_bounds:
  assumes "nc_count w remaining threshold nb = (c, bits)"
    "int threshold \<le> remaining" "remaining < 2 * int threshold" "threshold \<le> 2 ^ 15"
  shows "-1 \<le> c" "c < remaining" "bits \<le> nb"
proof -
  define mx where "mx = 2 * int threshold - 1 - remaining"
  have mx: "0 \<le> mx" "mx < int threshold" using assms(2,3) by (auto simp: mx_def)
  have m32: "nat (mx mod 2 ^ 32) = nat mx" using mx assms(4) by simp
  have t: "0 < threshold" using mx by linarith
  define u v where "u = unat w mod threshold" and "v = unat w mod (2 * threshold)"
  have b: "u < threshold" "v < 2 * threshold" using t by (simp_all add: u_def v_def)
  consider "c = int u - 1" | "c = int v - mx - 1" "int v \<ge> int threshold" | "c = int v - 1" "int v < int threshold"
    using assms(1) unfolding nc_count_def mx_def [symmetric] m32 Let_def u_def [symmetric] v_def [symmetric]
    by (auto split: if_splits)
  then have "-1 \<le> c \<and> c < remaining"
    using b assms(2,3) mx mx_def by cases linarith+
  then show "-1 \<le> c" "c < remaining" by auto
  show "bits \<le> nb" using assms(1) by (auto simp: nc_count_def Let_def split: if_splits)
qed

lemma sum_cells_update:
  "i < length xs \<Longrightarrow> xs ! i = 0 \<Longrightarrow>
   sum_list (map fse_cells_of (xs[i := c])) = sum_list (map fse_cells_of xs) + fse_cells_of c"
proof (induction xs arbitrary: i)
  case (Cons x xs)
  then show ?case by (cases i) (auto simp: fse_cells_of_def)
qed simp

lemma nc_zeros_inv:
  assumes "nc_ok n maxSV1 L st" "nc_go maxSV1 st" "n = length hb" "8 \<le> n"
    "nc_near n (nc_ip st) (nc_bitCount st)" "nc_zeros hb maxSV1 st = (brk, st')"
  shows "nc_ok n maxSV1 L st'" "0 < nc_charnum st' \<or> \<not> brk"
    "\<not> brk \<Longrightarrow> nc_go maxSV1 st' \<and> nc_near n (nc_ip st') (nc_bitCount st')"
proof -
  note go = assms(2) [unfolded nc_go_def]
  have "nc_ok n maxSV1 L st' \<and> (0 < nc_charnum st' \<or> \<not> brk) \<and>
     (\<not> brk \<longrightarrow> nc_go maxSV1 st' \<and> nc_near n (nc_ip st') (nc_bitCount st'))"
  proof (cases "nc_previous0 st")
    case False
    then show ?thesis using assms by (auto simp: nc_zeros_def)
  next
    case True
    obtain ip1 bc1 cn1 where rep: "nc_repeats hb (nc_ip st) (nc_bitCount st) (nc_charnum st) = (ip1, bc1, cn1)"
      by (metis prod_cases3)
    have near: "nc_near n ip1 bc1" "nc_ones (nc_window hb ip1 bc1) < 12"
      using nc_repeats_near [OF rep] assms(3-5) by auto
    have cn: "0 < nc_charnum st" "nc_charnum st \<le> cn1" using go True nc_repeats_charnum [OF rep] by auto
    define k where "k = nc_ones (nc_window hb ip1 bc1)"
    define cn2 where "cn2 = cn1 + 3 * k + unat (drop_bit (2 * k) (nc_window hb ip1 bc1) AND 3)"
    define bcr where "bcr = bc1 + 2 * k + 2"
    have run: "nc_zero_run hb (nc_ip st) (nc_bitCount st) (nc_charnum st) = (ip1, bcr, cn2)"
      by (simp add: nc_zero_run_def rep k_def cn2_def bcr_def Let_def)
    have cn2: "nc_charnum st \<le> cn2" using cn by (simp add: cn2_def)
    obtain ip2 bc2 where adv: "nc_advance hb ip1 bcr = (ip2, bc2)" by fastforce
    have near2: "nc_near n ip2 bc2"
      using nc_advance_near [OF adv] near assms(3,4) by (auto simp: nc_near_def k_def bcr_def)
    have z: "nc_zeros hb maxSV1 st =
        (if cn2 \<ge> maxSV1 then (True, st\<lparr>nc_ip := ip1, nc_bitCount := bcr, nc_charnum := cn2\<rparr>)
         else (False, st\<lparr>nc_ip := ip2, nc_bitCount := bc2, nc_charnum := cn2\<rparr>))"
      by (simp add: nc_zeros_def True run adv)
    show ?thesis
      using assms(1,2,6) near near2 cn cn2 unfolding z
      by (auto simp: nc_ok_def nc_go_def nc_near_def split: if_splits)
  qed
  then show "nc_ok n maxSV1 L st'" "0 < nc_charnum st' \<or> \<not> brk"
    "\<not> brk \<Longrightarrow> nc_go maxSV1 st' \<and> nc_near n (nc_ip st') (nc_bitCount st')" by auto
qed

lemma nc_threshold_update:
  assumes "1 < r" "r < 2 ^ 15"
  shows "int (2 ^ ZSTD_highbit32 (of_int r)) \<le> r" "r < 2 * int (2 ^ ZSTD_highbit32 (of_int r))"
    "2 ^ ZSTD_highbit32 (of_int r) \<le> (2::nat) ^ 15" "ZSTD_highbit32 (of_int r) \<le> 15"
proof -
  obtain x where x: "r = int x" using assms(1) nonneg_int_cases [of r] by fastforce
  define h where "h = ZSTD_highbit32 (of_int r)"
  have h: "2 ^ h \<le> x" "x < 2 ^ Suc h"
    using ZSTD_highbit32_of_nat [of x] assms by (simp_all add: x h_def)
  then have "(2::nat) ^ h < 2 ^ 15" using assms x by simp
  then have "h < 15" by (rule power_less_imp_less_exp [rotated]) simp
  moreover have "(2::nat) ^ h \<le> 2 ^ 15" using calculation by (intro power_increasing) auto
  moreover have "int (2 ^ h) \<le> r" "r < 2 * int (2 ^ h)" using h unfolding x power_Suc by linarith+
  ultimately show "int (2 ^ ZSTD_highbit32 (of_int r)) \<le> r" "r < 2 * int (2 ^ ZSTD_highbit32 (of_int r))"
    "2 ^ ZSTD_highbit32 (of_int r) \<le> (2::nat) ^ 15" "ZSTD_highbit32 (of_int r) \<le> 15"
    unfolding h_def by simp_all
qed

lemma nc_read_count_inv:
  assumes "nc_ok n maxSV1 L st" "nc_go maxSV1 st" "n = length hb" "8 \<le> n"
    "nc_near n (nc_ip st) (nc_bitCount st)" "nc_read_count hb maxSV1 st = (brk, st')"
  shows "nc_ok n maxSV1 L st'" "0 < nc_charnum st'"
    "\<not> brk \<Longrightarrow> nc_go maxSV1 st' \<and> nc_near n (nc_ip st') (nc_bitCount st')"
proof -
  obtain c bits where c: "nc_count (nc_window hb (nc_ip st) (nc_bitCount st)) (nc_remaining st)
            (nc_threshold st) (nc_nbBits st) = (c, bits)" by fastforce
  note go = assms(2) [unfolded nc_go_def]
  note cb = nc_count_bounds [OF c]
  have cb: "-1 \<le> c" "c < nc_remaining st" "bits \<le> 16" using cb go by auto
  define r where "r = (if c \<ge> 0 then nc_remaining st - c else nc_remaining st + c)"
  have r: "r = nc_remaining st - int (fse_cells_of c)" "1 \<le> r" "r \<le> nc_remaining st"
    using cb go by (auto simp: r_def fse_cells_of_def)
  define st1 where "st1 = st\<lparr>nc_bitCount := nc_bitCount st + bits, nc_remaining := r,
                  nc_counter := (nc_counter st)[nc_charnum st := c],
                  nc_charnum := nc_charnum st + 1, nc_previous0 := (c = 0)\<rparr>"
  have cnt: "nc_charnum st < length (nc_counter st)" "nc_counter st ! nc_charnum st = 0"
    using assms(1) go by (auto simp: nc_ok_def)
  have ok1: "nc_ok n maxSV1 L st1"
    using assms(1) cb r cnt(1) sum_cells_update [OF cnt, of c]
    by (auto simp: nc_ok_def st1_def list_all_length nth_list_update)
  have rd: "nc_read_count hb maxSV1 st =
     (if r < int (nc_threshold st) \<and> r \<le> 1 then (True, st1)
      else (let st = (if r < int (nc_threshold st)
                   then st1\<lparr>nc_nbBits := ZSTD_highbit32 (of_int r) + 1,
                           nc_threshold := 2 ^ ((ZSTD_highbit32 (of_int r) + 1) - 1)\<rparr>
                   else st1) in
         if nc_charnum st \<ge> maxSV1 then (True, st)
         else (let (ip, bitCount) = nc_advance hb (nc_ip st) (nc_bitCount st)
               in (False, st\<lparr>nc_ip := ip, nc_bitCount := bitCount\<rparr>))))"
    by (simp add: nc_read_count_def c r_def st1_def Let_def)
  define st2 where "st2 = (if r < int (nc_threshold st)
                   then st1\<lparr>nc_nbBits := ZSTD_highbit32 (of_int r) + 1,
                           nc_threshold := 2 ^ ((ZSTD_highbit32 (of_int r) + 1) - 1)\<rparr>
                   else st1)"
  have st2: "nc_ok n maxSV1 L st2" "nc_ip st2 = nc_ip st" "nc_bitCount st2 = nc_bitCount st + bits" 
     "nc_charnum st2 = nc_charnum st + 1" "nc_remaining st2 = r"
    using ok1 by (auto simp: st2_def st1_def nc_ok_def)
  obtain ip2 bc2 where adv: "nc_advance hb (nc_ip st) (nc_bitCount st + bits) = (ip2, bc2)" by fastforce
  have near2: "nc_near n ip2 bc2"
    using nc_advance_near [OF adv] assms(3-5) cb by (auto simp: nc_near_def)
  have go2: "nc_charnum st + 1 < maxSV1 \<Longrightarrow> \<not> (r < int (nc_threshold st) \<and> r \<le> 1) \<Longrightarrow> nc_go maxSV1 st2"
    using go r nc_threshold_update [of r] by (auto simp: nc_go_def st2_def st1_def)
  consider "st' = st1" brk | "st' = st2" brk
    | "st' = st2\<lparr>nc_ip := ip2, nc_bitCount := bc2\<rparr>" "nc_charnum st + 1 < maxSV1"
      "\<not> (r < int (nc_threshold st) \<and> r \<le> 1)"
    using assms(6) unfolding rd st2_def [symmetric] Let_def by (auto simp: st2(2-4) adv split: if_splits)
  then have "nc_ok n maxSV1 L st' \<and> 0 < nc_charnum st' \<and>
    (\<not> brk \<longrightarrow> nc_go maxSV1 st' \<and> nc_near n (nc_ip st') (nc_bitCount st'))"
  proof cases
    case 1
    then show ?thesis using ok1 by (simp add: st1_def)
  next
    case 2
    then show ?thesis using st2 by simp
  next
    case 3
    then show ?thesis using st2 near2 go2 by (auto simp: nc_ok_def nc_go_def nc_near_def)
  qed
  then show "nc_ok n maxSV1 L st'" "0 < nc_charnum st'"
    "\<not> brk \<Longrightarrow> nc_go maxSV1 st' \<and> nc_near n (nc_ip st') (nc_bitCount st')" by auto
qed

lemma nc_loop_inv:
  assumes "nc_ok n maxSV1 L st" "nc_go maxSV1 st" "n = length hb" "8 \<le> n"
    "nc_near n (nc_ip st) (nc_bitCount st)"
  shows "nc_ok n maxSV1 L (nc_loop hb maxSV1 st) \<and> 0 < nc_charnum (nc_loop hb maxSV1 st)"
  using assms
proof (induction hb maxSV1 st rule: nc_loop.induct)
  case (1 hb maxSV1 st)
  obtain b0 st0 where z: "nc_zeros hb maxSV1 st = (b0, st0)" by fastforce
  note z_inv = nc_zeros_inv [OF "1.prems" z]
  show ?case
  proof (cases b0)
    case True
    then show ?thesis
      using z_inv by (simp add: nc_loop.simps [of hb maxSV1 st] nc_body_def z)
  next
    case False
    obtain b1 st1 where r: "nc_read_count hb maxSV1 st0 = (b1, st1)" by fastforce
    have go: "nc_go maxSV1 st0" "nc_near n (nc_ip st0) (nc_bitCount st0)" using z_inv(3) False by auto
    note r_inv = nc_read_count_inv [OF z_inv(1) go(1) "1.prems"(3,4) go(2) r]
    have body: "nc_body hb maxSV1 st = (b1, st1)" using z r False by (simp add: nc_body_def)
    show ?thesis
    proof (cases b1)
      case True
      then show ?thesis using r_inv by (simp add: nc_loop.simps [of hb maxSV1 st] body)
    next
      case nb: False
      then have "nc_ok n maxSV1 L (nc_loop hb maxSV1 st1) \<and> 0 < nc_charnum (nc_loop hb maxSV1 st1)"
        using r_inv "1.prems"(3,4) by (intro "1.IH" [OF body [symmetric] refl]) auto
      then show ?thesis using nb by (simp add: nc_loop.simps [of hb maxSV1 st] body)
    qed
  qed
qed

lemma sum_cells_take:
  assumes "\<And>i. m \<le> i \<Longrightarrow> i < length xs \<Longrightarrow> xs ! i = 0"
  shows "sum_list (map fse_cells_of (take m xs)) = sum_list (map fse_cells_of xs)"
proof -
  have "\<forall>x \<in> set (drop m xs). fse_cells_of x = 0"
    using assms by (auto simp: in_set_conv_nth fse_cells_of_def)
  then have "sum_list (map fse_cells_of (drop m xs)) = 0" by (simp add: sum_list_eq_0_iff)
  moreover have "sum_list (map fse_cells_of xs) =
      sum_list (map fse_cells_of (take m xs)) + sum_list (map fse_cells_of (drop m xs))"
    by (simp flip: sum_list_append map_append)
  ultimately show ?thesis by simp
qed

lemma FSE_readNCount_wide_ok:
  assumes "FSE_readNCount_wide maxSV hb = Inr (nc, maxSV', tableLog, used)" "8 \<le> length hb" "maxSV \<le> 255"
  shows "fse_norm_ok (take (Suc maxSV') nc) tableLog \<and> length nc = Suc maxSV \<and> maxSV' \<le> maxSV \<and>
    FSE_MIN_TABLELOG \<le> tableLog \<and> tableLog \<le> FSE_TABLELOG_ABSOLUTE_MAX \<and>
    (\<forall>i. maxSV' < i \<longrightarrow> i \<le> maxSV \<longrightarrow> nc ! i = 0) \<and> used \<le> length hb"
proof -
  define L where "L = unat (MEM_readLE32 MEM_isLittleEndian hb 0 AND 0xF) + FSE_MIN_TABLELOG"
  define st0 where "st0 = \<lparr>nc_ip = 0, nc_bitCount = 4, nc_charnum = 0, nc_remaining = 2 ^ L + 1,
      nc_threshold = 2 ^ L, nc_nbBits = L + 1, nc_previous0 = False, nc_counter = replicate (maxSV + 1) 0\<rparr>"
  define st where "st = nc_loop hb (maxSV + 1) st0"
  have L: "L \<le> 15" "5 \<le> L"
    and r: "nc_remaining st = 1" "nc_charnum st \<le> maxSV + 1" "nc_bitCount st \<le> 32"
      "nc = nc_counter st" "maxSV' = nc_charnum st - 1" "tableLog = L"
      "used = nc_ip st + (nc_bitCount st + 7) div 8"
    using assms(1) unfolding FSE_readNCount_wide_def Let_def L_def [symmetric] st0_def [symmetric] st_def [symmetric]
    by (auto simp: FSE_TABLELOG_ABSOLUTE_MAX_def FSE_MIN_TABLELOG_def L_def split: if_splits)
  have p: "(2::int) ^ 5 \<le> 2 ^ L" "(2::nat) ^ L \<le> 2 ^ 15" using L by (intro power_increasing; simp)+
  have "nc_ok (length hb) (maxSV + 1) L st0"
    using assms(2)
    by (auto simp: nc_ok_def st0_def fse_cells_of_def sum_list_replicate list_all_length nth_Cons' simp del: replicate.simps)
  moreover have "nc_go (maxSV + 1) st0" using L p by (simp add: nc_go_def st0_def)
  moreover have "nc_near (length hb) (nc_ip st0) (nc_bitCount st0)"
    using assms(2) by (simp add: nc_near_def st0_def)
  ultimately have inv: "nc_ok (length hb) (maxSV + 1) L st" "0 < nc_charnum st"
    using nc_loop_inv assms(2) unfolding st_def by auto
  have z: "nc ! i = 0" if "maxSV' < i" "i < length nc" for i
    using inv that r by (auto simp: nc_ok_def)
  then have "int (sum_list (map fse_cells_of (take (Suc maxSV') nc))) = 2 ^ L"
    using inv r by (subst sum_cells_take) (auto simp: nc_ok_def)
  then have "sum_list (map fse_cells_of (take (Suc maxSV') nc)) = 2 ^ L"
    by (metis of_nat_eq_iff of_nat_numeral of_nat_power)
  moreover have "length nc = Suc maxSV" "list_all (\<lambda>n. -1 \<le> n) nc"
    using inv r by (auto simp: nc_ok_def)
  then have "list_all (\<lambda>n. -1 \<le> n) (take (Suc maxSV') nc)"
    by (auto simp: list_all_iff dest: in_set_takeD)
  ultimately show ?thesis
    using r L inv z assms(3) by (auto simp: fse_norm_ok_def nc_ok_def FSE_MIN_TABLELOG_def FSE_TABLELOG_ABSOLUTE_MAX_def)
qed

lemma FSE_readNCount_ok:
  assumes "FSE_readNCount maxSV hb = Inr (nc, maxSV', tableLog, used)" "maxSV \<le> 255"
  shows "fse_norm_ok (take (Suc maxSV') nc) tableLog \<and> length nc = Suc maxSV \<and> maxSV' \<le> maxSV \<and>
    FSE_MIN_TABLELOG \<le> tableLog \<and> tableLog \<le> FSE_TABLELOG_ABSOLUTE_MAX \<and>
    (\<forall>i. maxSV' < i \<longrightarrow> i \<le> maxSV \<longrightarrow> nc ! i = 0) \<and> used \<le> length hb"
proof (cases "length hb < 8")
  case True
  let ?b = "hb @ replicate (8 - length hb) 0"
  have "FSE_readNCount_wide maxSV ?b = Inr (nc, maxSV', tableLog, used)" "used \<le> length hb"
    using assms(1) True
    by (auto simp: FSE_readNCount_def FSE_readNCount_bmi2_def FSE_readNCount_body_def bind_res_Inr_iff split: if_splits)
  with FSE_readNCount_wide_ok [OF this(1) _ assms(2)] show ?thesis using True by auto
next
  case False
  then show ?thesis
    using assms FSE_readNCount_wide_ok
    by (auto simp: FSE_readNCount_def FSE_readNCount_bmi2_def FSE_readNCount_body_def)
qed


text \<open>A header of three bytes: 32 cells, half of them for symbol 0, two absent symbols, half of
  them for symbol 3.\<close>

definition nc_sample :: bytes where
  "nc_sample = [16, 163, 15]"

lemma nc_loop_stop: "nc_body hb maxSV1 st = (True, st') \<Longrightarrow> nc_loop hb maxSV1 st = st'"
  by (simp add: nc_loop.simps [of hb maxSV1 st])

lemma nc_loop_more: "nc_body hb maxSV1 st = (False, st') \<Longrightarrow> nc_loop hb maxSV1 st = nc_loop hb maxSV1 st'"
  by (simp add: nc_loop.simps [of hb maxSV1 st])

lemma nc_repeats_none:
  "nc_ones (nc_window hb ip bitCount) < 12 \<Longrightarrow> nc_repeats hb ip bitCount charnum = (ip, bitCount, charnum)"
  by (simp add: nc_repeats.simps [of hb ip bitCount])

lemmas nc_eval = nc_body_def nc_zeros_def nc_read_count_def nc_count_def nc_advance_def nc_zero_run_def
  nc_repeats_none ZSTD_highbit32_def ZSTD_countLeadingZeros32_def DeBruijnClz_def
  nc_ones_def ZSTD_countTrailingZeros32_def DeBruijnBytePos_def

lemma nc_sample_windows:
  "MEM_readLE32 MEM_isLittleEndian [16, 163, 15, 0, 0, 0, 0, 0] 0 = 0xfa310"
  "nc_window [16, 163, 15, 0, 0, 0, 0, 0] 0 4 = 0xfa31"
  "nc_window [16, 163, 15, 0, 0, 0, 0, 0] 1 1 = 0x7d1"
  "nc_window [16, 163, 15, 0, 0, 0, 0, 0] 1 5 = 0x7d"
  "nc_window [16, 163, 15, 0, 0, 0, 0, 0] 1 7 = 0x1f"
  by (simp_all add: nc_window_def MEM_readLE32_eq rd_numeral rd_Suc byte_at_def)

lemma nc_sample_loop:
  "nc_loop [16, 163, 15, 0, 0, 0, 0, 0] 5 \<lparr>nc_ip = 0, nc_bitCount = 4, nc_charnum = 0, nc_remaining = 33,
     nc_threshold = 32, nc_nbBits = 6, nc_previous0 = False, nc_counter = [0, 0, 0, 0, 0]\<rparr> =
   \<lparr>nc_ip = 1, nc_bitCount = 12, nc_charnum = 4, nc_remaining = 1,
     nc_threshold = 16, nc_nbBits = 5, nc_previous0 = False, nc_counter = [16, 0, 0, 16, 0]\<rparr>"
proof -
  let ?hb = "[16, 163, 15, 0, 0, 0, 0, 0] :: bytes"
  let ?st1 = "\<lparr>nc_ip = 1, nc_bitCount = 1, nc_charnum = 1, nc_remaining = 17,
     nc_threshold = 16, nc_nbBits = 5, nc_previous0 = False, nc_counter = [16, 0, 0, 0, 0]\<rparr>"
  let ?st2 = "?st1\<lparr>nc_bitCount := 5, nc_charnum := 2, nc_previous0 := True\<rparr>"
  have "nc_body ?hb 5 \<lparr>nc_ip = 0, nc_bitCount = 4, nc_charnum = 0, nc_remaining = 33,
     nc_threshold = 32, nc_nbBits = 6, nc_previous0 = False, nc_counter = [0, 0, 0, 0, 0]\<rparr> = (False, ?st1)"
    by (simp add: nc_eval nc_sample_windows nc_sample_windows [unfolded One_nat_def])
  moreover have "nc_body ?hb 5 ?st1 = (False, ?st2)"
    by (simp add: nc_eval nc_sample_windows nc_sample_windows [unfolded One_nat_def])
  moreover have "nc_body ?hb 5 ?st2 =
     (True, \<lparr>nc_ip = 1, nc_bitCount = 12, nc_charnum = 4, nc_remaining = 1,
       nc_threshold = 16, nc_nbBits = 5, nc_previous0 = False, nc_counter = [16, 0, 0, 16, 0]\<rparr>)"
    by (simp add: nc_eval nc_sample_windows nc_sample_windows [unfolded One_nat_def])
  ultimately show ?thesis by (simp only: nc_loop_more nc_loop_stop)
qed

lemma nc_replicate_5: "replicate 5 x = [x, x, x, x, x]"
  by (simp add: numeral_eq_Suc)

lemma nc_sample_read: "FSE_readNCount 4 nc_sample = Inr ([16, 0, 0, 16, 0], 3, 5, 3)"
  by (simp add: FSE_readNCount_def FSE_readNCount_bmi2_def FSE_readNCount_body_def FSE_readNCount_wide_def
      nc_sample_def nc_sample_windows FSE_MIN_TABLELOG_def FSE_TABLELOG_ABSOLUTE_MAX_def
      nc_replicate_5 nc_sample_loop)



end
