(* ===== verification/Zstd_FSE_Decompress.thy ===== *)
theory Zstd_FSE_Decompress
  imports Zstd_FSE_Stream Zstd_NCount
begin

text \<open>
  Decompression of a self-contained FSE block (\<open>fse_decompress.c\<close>): the header of normalized
  counts, the table built from it and the two interleaved states. On any input whatsoever the
  output stays inside the destination and consists of symbols of the alphabet.
\<close>

subsection \<open>The function\<close>

definition FSE_DTABLE_SIZE_U32 :: "nat \<Rightarrow> nat" where
  "FSE_DTABLE_SIZE_U32 maxTableLog = 1 + 2 ^ maxTableLog"

definition FSE_DTABLE_SIZE :: "nat \<Rightarrow> nat" where
  "FSE_DTABLE_SIZE maxTableLog = FSE_DTABLE_SIZE_U32 maxTableLog * 4"

definition FSE_BUILD_DTABLE_WKSP_SIZE_U32 :: "nat \<Rightarrow> nat \<Rightarrow> nat" where
  "FSE_BUILD_DTABLE_WKSP_SIZE_U32 maxTableLog maxSymbolValue =
     (FSE_BUILD_DTABLE_WKSP_SIZE maxTableLog maxSymbolValue + 4 - 1) div 4"

definition FSE_DECOMPRESS_WKSP_SIZE_U32 :: "nat \<Rightarrow> nat \<Rightarrow> nat" where
  "FSE_DECOMPRESS_WKSP_SIZE_U32 maxTableLog maxSymbolValue =
     FSE_DTABLE_SIZE_U32 maxTableLog + 1 + FSE_BUILD_DTABLE_WKSP_SIZE_U32 maxTableLog maxSymbolValue
     + (FSE_MAX_SYMBOL_VALUE + 1) div 2 + 1"

definition FSE_DECOMPRESS_WKSP_SIZE :: "nat \<Rightarrow> nat \<Rightarrow> nat" where
  "FSE_DECOMPRESS_WKSP_SIZE maxTableLog maxSymbolValue = FSE_DECOMPRESS_WKSP_SIZE_U32 maxTableLog maxSymbolValue * 4"

text \<open>\<open>sizeof(FSE_DecompressWksp)\<close>: one \<open>short\<close> per symbol.\<close>

definition FSE_DecompressWksp_size :: nat where
  "FSE_DecompressWksp_size = 2 * (FSE_MAX_SYMBOL_VALUE + 1)"

definition FSE_decompress_wksp_body :: "nat \<Rightarrow> bytes \<Rightarrow> nat \<Rightarrow> nat \<Rightarrow> bool \<Rightarrow> nat list res" where
  "FSE_decompress_wksp_body dstCapacity cSrc maxLog wkspSize bmi2 =
     (if wkspSize < FSE_DecompressWksp_size then Inl ZSTD_error_GENERIC
      else bind_res (FSE_readNCount_bmi2 FSE_MAX_SYMBOL_VALUE cSrc bmi2)
        (\<lambda>(ncount, maxSymbolValue, tableLog, NCountLength).
          if tableLog > maxLog then Inl ZSTD_error_tableLog_tooLarge
          else if FSE_DECOMPRESS_WKSP_SIZE tableLog maxSymbolValue > wkspSize then Inl ZSTD_error_tableLog_tooLarge
          else bind_res (FSE_buildDTable_internal ncount maxSymbolValue tableLog
                 (wkspSize - (FSE_DecompressWksp_size + FSE_DTABLE_SIZE tableLog))) (\<lambda>dtable.
            if dt_fastMode dtable
            then FSE_decompress_usingDTable_generic dstCapacity (drop NCountLength cSrc) dtable True
            else FSE_decompress_usingDTable_generic dstCapacity (drop NCountLength cSrc) dtable False)))"

definition FSE_decompress_wksp_bmi2 :: "nat \<Rightarrow> bytes \<Rightarrow> nat \<Rightarrow> nat \<Rightarrow> bool \<Rightarrow> nat list res" where
  "FSE_decompress_wksp_bmi2 dstCapacity cSrc maxLog wkspSize bmi2 =
     (if bmi2 then FSE_decompress_wksp_body dstCapacity cSrc maxLog wkspSize True
      else FSE_decompress_wksp_body dstCapacity cSrc maxLog wkspSize False)"

subsection \<open>Decoding with a table that is closed\<close>

text \<open>A table every cell of which leads back into it and names a symbol below \<open>n\<close>; a fast table
  reads at least one bit in every cell.\<close>

definition dtable_closed :: "FSE_decode_t list \<Rightarrow> nat \<Rightarrow> bool \<Rightarrow> bool" where
  "dtable_closed cells n fast \<longleftrightarrow>
     (\<forall>u < length cells. newState (cells ! u) + 2 ^ nbBits (cells ! u) \<le> length cells \<and>
        nbBits (cells ! u) < 64 \<and> symbol (cells ! u) < n \<and> (fast \<longrightarrow> 0 < nbBits (cells ! u)))"

definition dstate_in :: "FSE_decode_t list \<Rightarrow> FSE_DState_t \<Rightarrow> bool" where
  "dstate_in cells st \<longleftrightarrow> ds_table st = cells \<and> ds_state st < length cells"

lemma FSE_GETSYMBOL_in:
  assumes "dtable_closed cells n fast" "dstate_in cells st" "FSE_GETSYMBOL fast st bitD = (s, st', bitD')"
  shows "s < n \<and> dstate_in cells st'"
proof -
  let ?c = "cells ! ds_state st"
  have c: "newState ?c + 2 ^ nbBits ?c \<le> length cells" "symbol ?c < n" "fast \<Longrightarrow> 0 < nbBits ?c" "nbBits ?c < 64"
    using assms(1,2) by (auto simp: dtable_closed_def dstate_in_def)
  show ?thesis
    using assms(2,3) c BIT_lookBits_less [of bitD "nbBits ?c"] BIT_lookBitsFast_less [of "nbBits ?c" bitD]
    by (auto simp: FSE_GETSYMBOL_def FSE_decodeSymbol_def FSE_decodeSymbolFast_def BIT_readBits_def
        BIT_readBitsFast_def dstate_in_def Let_def split: if_splits)
qed

lemma fse_decode_loop_in:
  assumes "dtable_closed cells n fast" "dstate_in cells st1" "dstate_in cells st2"
    "list_all (\<lambda>s. s < n) op" "length op \<le> omax"
    "fse_decode_loop fast omax bitD st1 st2 op = (bitD', st1', st2', op')"
  shows "dstate_in cells st1' \<and> dstate_in cells st2' \<and> list_all (\<lambda>s. s < n) op' \<and> length op' \<le> omax"
  using assms
proof (induction fast omax bitD st1 st2 op rule: fse_decode_loop.induct)
  case (1 fast omax bitD st1 st2 op)
  obtain status b0 where r: "BIT_reloadDStream bitD = (status, b0)" by fastforce
  show ?case
  proof (cases "status = BIT_DStream_unfinished \<and> length op + 3 < omax")
    case True
    obtain o0 s1 b1 where g0: "FSE_GETSYMBOL fast st1 b0 = (o0, s1, b1)" by (metis prod_cases3)
    obtain o1 s2 b2 where g1: "FSE_GETSYMBOL fast st2 b1 = (o1, s2, b2)" by (metis prod_cases3)
    obtain o2 s3 b3 where g2: "FSE_GETSYMBOL fast s1 b2 = (o2, s3, b3)" by (metis prod_cases3)
    obtain o3 s4 b4 where g3: "FSE_GETSYMBOL fast s2 b3 = (o3, s4, b4)" by (metis prod_cases3)
    note i0 = FSE_GETSYMBOL_in [OF "1.prems"(1,2) g0] and i1 = FSE_GETSYMBOL_in [OF "1.prems"(1,3) g1]
    note i2 = FSE_GETSYMBOL_in [OF "1.prems"(1) conjunct2 [OF i0] g2]
    note i3 = FSE_GETSYMBOL_in [OF "1.prems"(1) conjunct2 [OF i1] g3]
    have e: "fse_decode_loop fast omax b4 s3 s4 (op @ [o0, o1, o2, o3]) = (bitD', st1', st2', op')"
      using "1.prems"(6) True by (simp add: fse_decode_loop.simps [of fast omax bitD] r g0 g1 g2 g3)
    show ?thesis
      using i0 i1 i2 i3 "1.prems"(1,4,5) True
      by (intro "1.IH" [OF r [symmetric] refl True g0 [symmetric] refl refl g1 [symmetric] refl refl
              g2 [symmetric] refl refl g3 [symmetric] refl refl _ _ _ _ _ e]) auto
  next
    case False
    then show ?thesis using "1.prems" by (auto simp: fse_decode_loop.simps [of fast omax bitD] r)
  qed
qed

lemma fse_decode_tail_step:
  assumes "FSE_GETSYMBOL fast st1 bitD = (o0, s1, b0)" "BIT_reloadDStream b0 = (status, b1)"
    "FSE_GETSYMBOL fast st2 b1 = (o1, s2, b2)" "BIT_reloadDStream b2 = (status', b3)"
    "FSE_GETSYMBOL fast s1 b3 = (o2, s3, b4)"
  shows "fse_decode_tail fast omax bitD st1 st2 op =
     (if length op + 2 > omax then Inl ZSTD_error_dstSize_tooSmall
      else if status = BIT_DStream_overflow then Inr (op @ [o0, o1])
      else if length op + 3 > omax then Inl ZSTD_error_dstSize_tooSmall
      else if status' = BIT_DStream_overflow then Inr (op @ [o0, o1, o2])
      else fse_decode_tail fast omax b3 s1 s2 (op @ [o0, o1]))"
  by (simp add: fse_decode_tail.simps [of fast omax bitD] assms Let_def)

lemma fse_decode_tail_in:
  assumes "dtable_closed cells n fast" "dstate_in cells st1" "dstate_in cells st2"
    "list_all (\<lambda>s. s < n) op" "fse_decode_tail fast omax bitD st1 st2 op = Inr out"
  shows "list_all (\<lambda>s. s < n) out \<and> length out \<le> omax"
  using assms
proof (induction fast omax bitD st1 st2 op rule: fse_decode_tail.induct)
  case (1 fast omax bitD st1 st2 op)
  obtain o0 s1 b0 where g0: "FSE_GETSYMBOL fast st1 bitD = (o0, s1, b0)" by (metis prod_cases3)
  obtain status b1 where r0: "BIT_reloadDStream b0 = (status, b1)" by fastforce
  obtain o1 s2 b2 where g1: "FSE_GETSYMBOL fast st2 b1 = (o1, s2, b2)" by (metis prod_cases3)
  obtain status' b3 where r1: "BIT_reloadDStream b2 = (status', b3)" by fastforce
  obtain o2 s3 b4 where g2: "FSE_GETSYMBOL fast s1 b3 = (o2, s3, b4)" by (metis prod_cases3)
  note i0 = FSE_GETSYMBOL_in [OF "1.prems"(1,2) g0] and i1 = FSE_GETSYMBOL_in [OF "1.prems"(1,3) g1]
  note i2 = FSE_GETSYMBOL_in [OF "1.prems"(1) conjunct2 [OF i0] g2]
  note eq = "1.prems"(5) [unfolded fse_decode_tail_step [OF g0 r0 g1 r1 g2]]
  consider "out = op @ [o0, o1]" "length op + 2 \<le> omax" | "out = op @ [o0, o1, o2]" "length op + 3 \<le> omax"
    | "\<not> length op + 2 > omax" "status \<noteq> BIT_DStream_overflow" "\<not> length (op @ [o0]) + 2 > omax"
      "status' \<noteq> BIT_DStream_overflow" "fse_decode_tail fast omax b3 s1 s2 ((op @ [o0]) @ [o1]) = Inr out"
    using eq by (auto split: if_splits)
  then show ?case
  proof cases
    case 3
    then show ?thesis
      using i0 i1 "1.prems"(1,4)
      by (intro "1.IH" [OF 3(1) g0 [symmetric] refl refl refl r0 [symmetric] refl 3(2,3) g1 [symmetric] refl refl
            refl r1 [symmetric] refl 3(4)]) auto
  qed (use i0 i1 i2 "1.prems"(4) in auto)
qed

lemma FSE_initDState_in:
  assumes "FSE_initDState bitD dt = (st, bitD')" "length (dt_cells dt) = 2 ^ dt_tableLog dt"
  shows "dstate_in (dt_cells dt) st"
  using assms BIT_lookBits_less [of bitD "dt_tableLog dt"]
  by (auto simp: FSE_initDState_def dstate_in_def BIT_readBits_def Let_def split: prod.splits)

lemma FSE_decompress_usingDTable_generic_in:
  assumes "dtable_closed (dt_cells dt) n fast" "length (dt_cells dt) = 2 ^ dt_tableLog dt"
    "FSE_decompress_usingDTable_generic maxDstSize cSrc dt fast = Inr out"
  shows "list_all (\<lambda>s. s < n) out \<and> length out \<le> maxDstSize"
proof -
  obtain b0 where b0: "BIT_initDStream cSrc = Inr b0"
    using assms(3) by (auto simp: FSE_decompress_usingDTable_generic_def bind_res_Inr_iff)
  obtain st1 b1 where i1: "FSE_initDState b0 dt = (st1, b1)" by fastforce
  obtain st2 b2 where i2: "FSE_initDState b1 dt = (st2, b2)" by fastforce
  obtain status b3 where r: "BIT_reloadDStream b2 = (status, b3)" by fastforce
  obtain b4 st3 st4 op where l: "fse_decode_loop fast maxDstSize b3 st1 st2 [] = (b4, st3, st4, op)"
    by (metis prod_cases4)
  have "fse_decode_tail fast maxDstSize b4 st3 st4 op = Inr out"
    using assms(3) b0 i1 i2 r l by (auto simp: FSE_decompress_usingDTable_generic_def split: if_splits)
  moreover have "dstate_in (dt_cells dt) st3 \<and> dstate_in (dt_cells dt) st4 \<and> list_all (\<lambda>s. s < n) op"
    using fse_decode_loop_in [OF assms(1) FSE_initDState_in [OF i1 assms(2)] FSE_initDState_in [OF i2 assms(2)] _ _ l]
    by simp
  ultimately show ?thesis using fse_decode_tail_in [OF assms(1)] by blast
qed

text \<open>A table from the table builder is closed, and fast when it says so.\<close>

lemma fse_dtable_closed:
  assumes "fse_table_ok norm L" "length norm = Suc maxSV" "FSE_buildDTable_internal norm maxSV L w = Inr dt"
  shows "dtable_closed (dt_cells dt) (length norm) (dt_fastMode dt)" "length (dt_cells dt) = 2 ^ dt_tableLog dt"
proof -
  note dt = FSE_buildDTable_internal_InrD [OF assms]
  have len: "length (fse_dcells norm L) = 2 ^ L" by (rule length_fse_dcells [OF assms(1)])
  show "length (dt_cells dt) = 2 ^ dt_tableLog dt" using dt len by simp
  have "nbBits (fse_dcells norm L ! u) < 64" if "u < 2 ^ L" for u
    using fse_dcells_closed(1) [OF assms(1) that] fse_table_ok_facts(3) [OF assms(1)] by linarith
  then show "dtable_closed (dt_cells dt) (length norm) (dt_fastMode dt)"
    using fse_dcells_closed(2,3) [OF assms(1)] fse_fast_cells [OF assms(1)] dt len
    by (auto simp: dtable_closed_def)
qed

subsection \<open>Errors\<close>

lemma fse_decode_tail_error:
  "fse_decode_tail fast omax bitD st1 st2 op = Inl e \<Longrightarrow> e = ZSTD_error_dstSize_tooSmall"
proof (induction fast omax bitD st1 st2 op rule: fse_decode_tail.induct)
  case (1 fast omax bitD st1 st2 op)
  obtain o0 s1 b0 where g0: "FSE_GETSYMBOL fast st1 bitD = (o0, s1, b0)" by (metis prod_cases3)
  obtain status b1 where r0: "BIT_reloadDStream b0 = (status, b1)" by fastforce
  obtain o1 s2 b2 where g1: "FSE_GETSYMBOL fast st2 b1 = (o1, s2, b2)" by (metis prod_cases3)
  obtain status' b3 where r1: "BIT_reloadDStream b2 = (status', b3)" by fastforce
  obtain o2 s3 b4 where g2: "FSE_GETSYMBOL fast s1 b3 = (o2, s3, b4)" by (metis prod_cases3)
  consider "e = ZSTD_error_dstSize_tooSmall"
    | "\<not> length op + 2 > omax" "status \<noteq> BIT_DStream_overflow" "\<not> length (op @ [o0]) + 2 > omax"
      "status' \<noteq> BIT_DStream_overflow" "fse_decode_tail fast omax b3 s1 s2 ((op @ [o0]) @ [o1]) = Inl e"
    using "1.prems" [unfolded fse_decode_tail_step [OF g0 r0 g1 r1 g2]] by (auto split: if_splits)
  then show ?case
  proof cases
    case 2
    show ?thesis
      by (rule "1.IH" [OF 2(1) g0 [symmetric] refl refl refl r0 [symmetric] refl 2(2,3) g1 [symmetric] refl refl
            refl r1 [symmetric] refl 2(4,5)])
  qed
qed

lemma FSE_decompress_usingDTable_generic_error:
  "FSE_decompress_usingDTable_generic maxDstSize cSrc dt fast = Inl e \<Longrightarrow>
   e \<in> {ZSTD_error_srcSize_wrong, ZSTD_error_GENERIC, ZSTD_error_corruption_detected, ZSTD_error_dstSize_tooSmall}"
  by (auto simp: FSE_decompress_usingDTable_generic_def bind_res_Inl_iff BIT_initDStream_def Let_def
      split: if_splits prod.splits dest: fse_decode_tail_error)

lemma FSE_readNCount_error:
  "FSE_readNCount maxSV hb = Inl e \<Longrightarrow>
   e \<in> {ZSTD_error_tableLog_tooLarge, ZSTD_error_corruption_detected, ZSTD_error_maxSymbolValue_tooSmall}"
  by (auto simp: FSE_readNCount_def FSE_readNCount_bmi2_def FSE_readNCount_body_def FSE_readNCount_wide_def
      bind_res_Inl_iff Let_def split: if_splits)

lemma FSE_buildDTable_internal_take:
  "FSE_buildDTable_internal (take (Suc maxSV) nc) maxSV L w = FSE_buildDTable_internal nc maxSV L w"
  by (simp add: FSE_buildDTable_internal_def)

lemma FSE_DECOMPRESS_WKSP_enough:
  assumes "FSE_DECOMPRESS_WKSP_SIZE L maxSV \<le> w"
  shows "FSE_BUILD_DTABLE_WKSP_SIZE L maxSV \<le> w - (FSE_DecompressWksp_size + FSE_DTABLE_SIZE L)"
proof -
  define b where "b = FSE_BUILD_DTABLE_WKSP_SIZE L maxSV"
  have "b \<le> (b + 3) div 4 * 4" by presburger
  then show ?thesis
    using assms unfolding FSE_DECOMPRESS_WKSP_SIZE_def FSE_DECOMPRESS_WKSP_SIZE_U32_def
      FSE_BUILD_DTABLE_WKSP_SIZE_U32_def b_def [symmetric]
    by (simp add: FSE_DecompressWksp_size_def FSE_DTABLE_SIZE_def FSE_MAX_SYMBOL_VALUE_def)
qed

text \<open>Building the table from counts that are a distribution, then decoding.\<close>

lemma fse_build_and_decode:
  assumes "fse_norm_ok norm L" "length norm = Suc maxSV" "FSE_MIN_TABLELOG \<le> L" "maxSV \<le> FSE_MAX_SYMBOL_VALUE"
    "FSE_BUILD_DTABLE_WKSP_SIZE L maxSV \<le> w"
  shows "case bind_res (FSE_buildDTable_internal norm maxSV L w)
       (\<lambda>dt. FSE_decompress_usingDTable_generic dstCapacity cSrc dt (dt_fastMode dt)) of
     Inl e \<Rightarrow> e \<in> {ZSTD_error_GENERIC, ZSTD_error_tableLog_tooLarge, ZSTD_error_corruption_detected,
               ZSTD_error_srcSize_wrong, ZSTD_error_dstSize_tooSmall}
   | Inr out \<Rightarrow> length out \<le> dstCapacity \<and> list_all (\<lambda>s. s \<le> maxSV) out"
proof (cases "L \<le> FSE_MAX_TABLELOG")
  case False
  then have "FSE_buildDTable_internal norm maxSV L w = Inl ZSTD_error_tableLog_tooLarge"
    using assms by (auto simp: FSE_buildDTable_internal_def)
  then show ?thesis by simp
next
  case True
  then have ok: "fse_table_ok norm L" using assms by (simp add: fse_table_ok_def)
  obtain dt where dt: "FSE_buildDTable_internal norm maxSV L w = Inr dt"
    using FSE_buildDTable_internal_ok [OF ok assms(2,5)] by auto
  note cl = fse_dtable_closed [OF ok assms(2) dt]
  show ?thesis
  proof (cases "FSE_decompress_usingDTable_generic dstCapacity cSrc dt (dt_fastMode dt)")
    case (Inl e)
    then show ?thesis using FSE_decompress_usingDTable_generic_error [OF Inl] by (auto simp: dt)
  next
    case (Inr out)
    then show ?thesis
      using FSE_decompress_usingDTable_generic_in [OF cl Inr] assms(2) by (auto simp: dt less_Suc_eq_le)
  qed
qed


end
