(* ===== verification/Zstd_CParams.thy ===== *)
theory Zstd_CParams
  imports Zstd_Errors Zstd_Bits
begin

text \<open>
  Compression parameters (\<open>zstd.h\<close>, \<open>clevels.h\<close> and the parameter part of
  \<open>zstd_compress.c\<close>): the parameters of the public interface with their bounds, the
  predefined levels, and how the parameters of a level are adjusted to the source and the
  dictionary. \<open>unsigned\<close> fields are natural numbers below \<open>2 ^ 32\<close>, \<open>int\<close> is \<open>int\<close>, sizes are
  natural numbers with the wrap of 64 bits written out.
\<close>

subsection \<open>Constants\<close>

text \<open>Limits that only the table of bounds and the setters mention are abbreviations, as the macros they are.\<close>

definition ZSTD_CLEVEL_DEFAULT :: int where "ZSTD_CLEVEL_DEFAULT = 3"
definition ZSTD_BLOCKSIZELOG_MAX :: nat where "ZSTD_BLOCKSIZELOG_MAX = 17"
definition ZSTD_BLOCKSIZE_MAX :: nat where "ZSTD_BLOCKSIZE_MAX = 2 ^ ZSTD_BLOCKSIZELOG_MAX"
definition ZSTD_CONTENTSIZE_UNKNOWN :: nat where "ZSTD_CONTENTSIZE_UNKNOWN = 2 ^ 64 - 1"
definition ZSTD_CONTENTSIZE_ERROR :: nat where "ZSTD_CONTENTSIZE_ERROR = 2 ^ 64 - 2"
definition ZSTD_WINDOWLOG_MAX :: nat where "ZSTD_WINDOWLOG_MAX = 31"
definition ZSTD_WINDOWLOG_MIN :: nat where "ZSTD_WINDOWLOG_MIN = 10"
definition ZSTD_WINDOWLOG_ABSOLUTEMIN :: nat where "ZSTD_WINDOWLOG_ABSOLUTEMIN = 10"
definition ZSTD_HASHLOG_MAX :: nat where
  "ZSTD_HASHLOG_MAX = (if ZSTD_WINDOWLOG_MAX < 30 then ZSTD_WINDOWLOG_MAX else 30)"
definition ZSTD_HASHLOG_MIN :: nat where "ZSTD_HASHLOG_MIN = 6"
definition ZSTD_CHAINLOG_MAX :: nat where "ZSTD_CHAINLOG_MAX = 30"
definition ZSTD_CHAINLOG_MIN :: nat where "ZSTD_CHAINLOG_MIN = ZSTD_HASHLOG_MIN"
definition ZSTD_SEARCHLOG_MAX :: nat where "ZSTD_SEARCHLOG_MAX = ZSTD_WINDOWLOG_MAX - 1"
definition ZSTD_SEARCHLOG_MIN :: nat where "ZSTD_SEARCHLOG_MIN = 1"
definition ZSTD_MINMATCH_MAX :: nat where "ZSTD_MINMATCH_MAX = 7"
definition ZSTD_MINMATCH_MIN :: nat where "ZSTD_MINMATCH_MIN = 3"
definition ZSTD_TARGETLENGTH_MAX :: nat where "ZSTD_TARGETLENGTH_MAX = ZSTD_BLOCKSIZE_MAX"
definition ZSTD_TARGETLENGTH_MIN :: nat where "ZSTD_TARGETLENGTH_MIN = 0"
definition ZSTD_BLOCKSIZE_MAX_MIN :: nat where "ZSTD_BLOCKSIZE_MAX_MIN = 2 ^ 10"
abbreviation (input) ZSTD_OVERLAPLOG_MIN :: int where "ZSTD_OVERLAPLOG_MIN \<equiv> 0"
abbreviation (input) ZSTD_OVERLAPLOG_MAX :: int where "ZSTD_OVERLAPLOG_MAX \<equiv> 9"
definition ZSTD_WINDOWLOG_LIMIT_DEFAULT :: nat where "ZSTD_WINDOWLOG_LIMIT_DEFAULT = 27"
definition ZSTD_LDM_DEFAULT_WINDOW_LOG :: nat where "ZSTD_LDM_DEFAULT_WINDOW_LOG = ZSTD_WINDOWLOG_LIMIT_DEFAULT"
abbreviation (input) ZSTD_LDM_HASHLOG_MIN :: nat where "ZSTD_LDM_HASHLOG_MIN \<equiv> ZSTD_HASHLOG_MIN"
abbreviation (input) ZSTD_LDM_HASHLOG_MAX :: nat where "ZSTD_LDM_HASHLOG_MAX \<equiv> ZSTD_HASHLOG_MAX"
abbreviation (input) ZSTD_LDM_MINMATCH_MIN :: nat where "ZSTD_LDM_MINMATCH_MIN \<equiv> 4"
abbreviation (input) ZSTD_LDM_MINMATCH_MAX :: nat where "ZSTD_LDM_MINMATCH_MAX \<equiv> 4096"
abbreviation (input) ZSTD_LDM_BUCKETSIZELOG_MIN :: nat where "ZSTD_LDM_BUCKETSIZELOG_MIN \<equiv> 1"
abbreviation (input) ZSTD_LDM_BUCKETSIZELOG_MAX :: nat where "ZSTD_LDM_BUCKETSIZELOG_MAX \<equiv> 8"
abbreviation (input) ZSTD_LDM_HASHRATELOG_MIN :: nat where "ZSTD_LDM_HASHRATELOG_MIN \<equiv> 0"
abbreviation (input) ZSTD_LDM_HASHRATELOG_MAX :: nat where
  "ZSTD_LDM_HASHRATELOG_MAX \<equiv> ZSTD_WINDOWLOG_MAX - ZSTD_HASHLOG_MIN"
abbreviation (input) ZSTD_TARGETCBLOCKSIZE_MIN :: nat where "ZSTD_TARGETCBLOCKSIZE_MIN \<equiv> 1340"
abbreviation (input) ZSTD_TARGETCBLOCKSIZE_MAX :: nat where "ZSTD_TARGETCBLOCKSIZE_MAX \<equiv> ZSTD_BLOCKSIZE_MAX"
abbreviation (input) ZSTD_SRCSIZEHINT_MIN :: int where "ZSTD_SRCSIZEHINT_MIN \<equiv> 0"
abbreviation (input) ZSTD_SRCSIZEHINT_MAX :: int where "ZSTD_SRCSIZEHINT_MAX \<equiv> 2 ^ 31 - 1"
abbreviation (input) ZSTD_BLOCKSPLITTER_LEVEL_MAX :: int where "ZSTD_BLOCKSPLITTER_LEVEL_MAX \<equiv> 6"
abbreviation (input) ZSTDMT_NBWORKERS_MAX :: int where "ZSTDMT_NBWORKERS_MAX \<equiv> 256"
abbreviation (input) ZSTDMT_JOBSIZE_MIN :: int where "ZSTDMT_JOBSIZE_MIN \<equiv> 512 * 2 ^ 10"
abbreviation (input) ZSTDMT_JOBSIZE_MAX :: int where "ZSTDMT_JOBSIZE_MAX \<equiv> 1024 * 2 ^ 20"
definition ZSTD_SHORT_CACHE_TAG_BITS :: nat where "ZSTD_SHORT_CACHE_TAG_BITS = 8"
definition ZSTD_ROW_HASH_TAG_BITS :: nat where "ZSTD_ROW_HASH_TAG_BITS = 8"
definition ZSTD_LAZY_DDSS_BUCKET_LOG :: nat where "ZSTD_LAZY_DDSS_BUCKET_LOG = 2"
definition ZSTD_MAX_CLEVEL :: int where "ZSTD_MAX_CLEVEL = 22"

text \<open>Strategies are ordered from fast to strong; 0 stands for one that is not set.\<close>

type_synonym ZSTD_strategy = nat

abbreviation (input) ZSTD_fast :: ZSTD_strategy where "ZSTD_fast \<equiv> 1"
abbreviation (input) ZSTD_dfast :: ZSTD_strategy where "ZSTD_dfast \<equiv> 2"
abbreviation (input) ZSTD_greedy :: ZSTD_strategy where "ZSTD_greedy \<equiv> 3"
abbreviation (input) ZSTD_lazy :: ZSTD_strategy where "ZSTD_lazy \<equiv> 4"
abbreviation (input) ZSTD_lazy2 :: ZSTD_strategy where "ZSTD_lazy2 \<equiv> 5"
abbreviation (input) ZSTD_btlazy2 :: ZSTD_strategy where "ZSTD_btlazy2 \<equiv> 6"
abbreviation (input) ZSTD_btopt :: ZSTD_strategy where "ZSTD_btopt \<equiv> 7"
abbreviation (input) ZSTD_btultra :: ZSTD_strategy where "ZSTD_btultra \<equiv> 8"
abbreviation (input) ZSTD_btultra2 :: ZSTD_strategy where "ZSTD_btultra2 \<equiv> 9"

definition ZSTD_STRATEGY_MIN :: nat where "ZSTD_STRATEGY_MIN = ZSTD_fast"
definition ZSTD_STRATEGY_MAX :: nat where "ZSTD_STRATEGY_MAX = ZSTD_btultra2"

lemmas zstd_limits = ZSTD_BLOCKSIZELOG_MAX_def ZSTD_BLOCKSIZE_MAX_def ZSTD_WINDOWLOG_MAX_def ZSTD_WINDOWLOG_MIN_def
  ZSTD_WINDOWLOG_ABSOLUTEMIN_def ZSTD_HASHLOG_MAX_def ZSTD_HASHLOG_MIN_def ZSTD_CHAINLOG_MAX_def
  ZSTD_CHAINLOG_MIN_def ZSTD_SEARCHLOG_MAX_def ZSTD_SEARCHLOG_MIN_def ZSTD_MINMATCH_MAX_def
  ZSTD_MINMATCH_MIN_def ZSTD_TARGETLENGTH_MAX_def ZSTD_TARGETLENGTH_MIN_def ZSTD_BLOCKSIZE_MAX_MIN_def
  ZSTD_WINDOWLOG_LIMIT_DEFAULT_def
  ZSTD_LDM_DEFAULT_WINDOW_LOG_def
  ZSTD_SHORT_CACHE_TAG_BITS_def ZSTD_ROW_HASH_TAG_BITS_def ZSTD_STRATEGY_MIN_def ZSTD_STRATEGY_MAX_def
  ZSTD_MAX_CLEVEL_def ZSTD_CLEVEL_DEFAULT_def

subsection \<open>Parameters and their bounds\<close>

text \<open>Any number that is not a parameter is \<open>ZSTD_c_other\<close>.\<close>

datatype ZSTD_cParameter =
    ZSTD_c_compressionLevel | ZSTD_c_windowLog | ZSTD_c_hashLog | ZSTD_c_chainLog | ZSTD_c_searchLog
  | ZSTD_c_minMatch | ZSTD_c_targetLength | ZSTD_c_strategy | ZSTD_c_targetCBlockSize
  | ZSTD_c_enableLongDistanceMatching | ZSTD_c_ldmHashLog | ZSTD_c_ldmMinMatch | ZSTD_c_ldmBucketSizeLog
  | ZSTD_c_ldmHashRateLog | ZSTD_c_contentSizeFlag | ZSTD_c_checksumFlag | ZSTD_c_dictIDFlag
  | ZSTD_c_nbWorkers | ZSTD_c_jobSize | ZSTD_c_overlapLog
  | ZSTD_c_rsyncable | ZSTD_c_format | ZSTD_c_forceMaxWindow | ZSTD_c_forceAttachDict
  | ZSTD_c_literalCompressionMode | ZSTD_c_srcSizeHint | ZSTD_c_enableDedicatedDictSearch
  | ZSTD_c_stableInBuffer | ZSTD_c_stableOutBuffer | ZSTD_c_blockDelimiters | ZSTD_c_validateSequences
  | ZSTD_c_splitAfterSequences | ZSTD_c_useRowMatchFinder | ZSTD_c_deterministicRefPrefix
  | ZSTD_c_prefetchCDictTables | ZSTD_c_enableSeqProducerFallback | ZSTD_c_maxBlockSize
  | ZSTD_c_repcodeResolution | ZSTD_c_blockSplitterLevel
  | ZSTD_c_other int

datatype ZSTD_format_e = ZSTD_f_zstd1 | ZSTD_f_zstd1_magicless
datatype ZSTD_dictAttachPref_e = ZSTD_dictDefaultAttach | ZSTD_dictForceAttach | ZSTD_dictForceCopy | ZSTD_dictForceLoad
datatype ZSTD_ParamSwitch_e = ZSTD_ps_auto | ZSTD_ps_enable | ZSTD_ps_disable
datatype ZSTD_SequenceFormat_e = ZSTD_sf_noBlockDelimiters | ZSTD_sf_explicitBlockDelimiters
datatype ZSTD_bufferMode_e = ZSTD_bm_buffered | ZSTD_bm_stable

text \<open>Conversions between the enumerations and \<open>int\<close>; a number outside one is mapped to its last
  element, which the bound checks exclude.\<close>

fun format_int :: "ZSTD_format_e \<Rightarrow> int" where
  "format_int ZSTD_f_zstd1 = 0"
| "format_int ZSTD_f_zstd1_magicless = 1"

fun attach_int :: "ZSTD_dictAttachPref_e \<Rightarrow> int" where
  "attach_int ZSTD_dictDefaultAttach = 0"
| "attach_int ZSTD_dictForceAttach = 1"
| "attach_int ZSTD_dictForceCopy = 2"
| "attach_int ZSTD_dictForceLoad = 3"

fun ps_int :: "ZSTD_ParamSwitch_e \<Rightarrow> int" where
  "ps_int ZSTD_ps_auto = 0"
| "ps_int ZSTD_ps_enable = 1"
| "ps_int ZSTD_ps_disable = 2"

fun sf_int :: "ZSTD_SequenceFormat_e \<Rightarrow> int" where
  "sf_int ZSTD_sf_noBlockDelimiters = 0"
| "sf_int ZSTD_sf_explicitBlockDelimiters = 1"

fun bm_int :: "ZSTD_bufferMode_e \<Rightarrow> int" where
  "bm_int ZSTD_bm_buffered = 0"
| "bm_int ZSTD_bm_stable = 1"

definition format_of :: "int \<Rightarrow> ZSTD_format_e" where
  "format_of v = (if v = 0 then ZSTD_f_zstd1 else ZSTD_f_zstd1_magicless)"

definition attach_of :: "int \<Rightarrow> ZSTD_dictAttachPref_e" where
  "attach_of v = (if v = 0 then ZSTD_dictDefaultAttach else if v = 1 then ZSTD_dictForceAttach
     else if v = 2 then ZSTD_dictForceCopy else ZSTD_dictForceLoad)"

definition ps_of :: "int \<Rightarrow> ZSTD_ParamSwitch_e" where
  "ps_of v = (if v = 0 then ZSTD_ps_auto else if v = 1 then ZSTD_ps_enable else ZSTD_ps_disable)"

definition sf_of :: "int \<Rightarrow> ZSTD_SequenceFormat_e" where
  "sf_of v = (if v = 0 then ZSTD_sf_noBlockDelimiters else ZSTD_sf_explicitBlockDelimiters)"

definition bm_of :: "int \<Rightarrow> ZSTD_bufferMode_e" where
  "bm_of v = (if v = 0 then ZSTD_bm_buffered else ZSTD_bm_stable)"

record ZSTD_bounds =
  b_error :: "ZSTD_ErrorCode option"
  lowerBound :: int
  upperBound :: int

definition ZSTD_maxCLevel :: int where "ZSTD_maxCLevel = ZSTD_MAX_CLEVEL"
definition ZSTD_minCLevel :: int where "ZSTD_minCLevel = - int ZSTD_TARGETLENGTH_MAX"
definition ZSTD_defaultCLevel :: int where "ZSTD_defaultCLevel = ZSTD_CLEVEL_DEFAULT"

definition bounds :: "int \<Rightarrow> int \<Rightarrow> ZSTD_bounds" where
  "bounds lo hi = \<lparr>b_error = None, lowerBound = lo, upperBound = hi\<rparr>"

text \<open>The library is built with \<open>ZSTD_MULTITHREAD\<close>.\<close>

fun ZSTD_cParam_getBounds :: "ZSTD_cParameter \<Rightarrow> ZSTD_bounds" where
  "ZSTD_cParam_getBounds ZSTD_c_compressionLevel = bounds ZSTD_minCLevel ZSTD_maxCLevel"
| "ZSTD_cParam_getBounds ZSTD_c_windowLog = bounds (int ZSTD_WINDOWLOG_MIN) (int ZSTD_WINDOWLOG_MAX)"
| "ZSTD_cParam_getBounds ZSTD_c_hashLog = bounds (int ZSTD_HASHLOG_MIN) (int ZSTD_HASHLOG_MAX)"
| "ZSTD_cParam_getBounds ZSTD_c_chainLog = bounds (int ZSTD_CHAINLOG_MIN) (int ZSTD_CHAINLOG_MAX)"
| "ZSTD_cParam_getBounds ZSTD_c_searchLog = bounds (int ZSTD_SEARCHLOG_MIN) (int ZSTD_SEARCHLOG_MAX)"
| "ZSTD_cParam_getBounds ZSTD_c_minMatch = bounds (int ZSTD_MINMATCH_MIN) (int ZSTD_MINMATCH_MAX)"
| "ZSTD_cParam_getBounds ZSTD_c_targetLength = bounds (int ZSTD_TARGETLENGTH_MIN) (int ZSTD_TARGETLENGTH_MAX)"
| "ZSTD_cParam_getBounds ZSTD_c_strategy = bounds (int ZSTD_STRATEGY_MIN) (int ZSTD_STRATEGY_MAX)"
| "ZSTD_cParam_getBounds ZSTD_c_contentSizeFlag = bounds 0 1"
| "ZSTD_cParam_getBounds ZSTD_c_checksumFlag = bounds 0 1"
| "ZSTD_cParam_getBounds ZSTD_c_dictIDFlag = bounds 0 1"
| "ZSTD_cParam_getBounds ZSTD_c_nbWorkers = bounds 0 ZSTDMT_NBWORKERS_MAX"
| "ZSTD_cParam_getBounds ZSTD_c_jobSize = bounds 0 ZSTDMT_JOBSIZE_MAX"
| "ZSTD_cParam_getBounds ZSTD_c_overlapLog = bounds ZSTD_OVERLAPLOG_MIN ZSTD_OVERLAPLOG_MAX"
| "ZSTD_cParam_getBounds ZSTD_c_enableDedicatedDictSearch = bounds 0 1"
| "ZSTD_cParam_getBounds ZSTD_c_enableLongDistanceMatching = bounds (ps_int ZSTD_ps_auto) (ps_int ZSTD_ps_disable)"
| "ZSTD_cParam_getBounds ZSTD_c_ldmHashLog = bounds (int ZSTD_LDM_HASHLOG_MIN) (int ZSTD_LDM_HASHLOG_MAX)"
| "ZSTD_cParam_getBounds ZSTD_c_ldmMinMatch = bounds (int ZSTD_LDM_MINMATCH_MIN) (int ZSTD_LDM_MINMATCH_MAX)"
| "ZSTD_cParam_getBounds ZSTD_c_ldmBucketSizeLog =
     bounds (int ZSTD_LDM_BUCKETSIZELOG_MIN) (int ZSTD_LDM_BUCKETSIZELOG_MAX)"
| "ZSTD_cParam_getBounds ZSTD_c_ldmHashRateLog =
     bounds (int ZSTD_LDM_HASHRATELOG_MIN) (int ZSTD_LDM_HASHRATELOG_MAX)"
| "ZSTD_cParam_getBounds ZSTD_c_rsyncable = bounds 0 1"
| "ZSTD_cParam_getBounds ZSTD_c_forceMaxWindow = bounds 0 1"
| "ZSTD_cParam_getBounds ZSTD_c_format = bounds (format_int ZSTD_f_zstd1) (format_int ZSTD_f_zstd1_magicless)"
| "ZSTD_cParam_getBounds ZSTD_c_forceAttachDict =
     bounds (attach_int ZSTD_dictDefaultAttach) (attach_int ZSTD_dictForceLoad)"
| "ZSTD_cParam_getBounds ZSTD_c_literalCompressionMode = bounds (ps_int ZSTD_ps_auto) (ps_int ZSTD_ps_disable)"
| "ZSTD_cParam_getBounds ZSTD_c_targetCBlockSize =
     bounds (int ZSTD_TARGETCBLOCKSIZE_MIN) (int ZSTD_TARGETCBLOCKSIZE_MAX)"
| "ZSTD_cParam_getBounds ZSTD_c_srcSizeHint = bounds ZSTD_SRCSIZEHINT_MIN ZSTD_SRCSIZEHINT_MAX"
| "ZSTD_cParam_getBounds ZSTD_c_stableInBuffer = bounds (bm_int ZSTD_bm_buffered) (bm_int ZSTD_bm_stable)"
| "ZSTD_cParam_getBounds ZSTD_c_stableOutBuffer = bounds (bm_int ZSTD_bm_buffered) (bm_int ZSTD_bm_stable)"
| "ZSTD_cParam_getBounds ZSTD_c_blockDelimiters =
     bounds (sf_int ZSTD_sf_noBlockDelimiters) (sf_int ZSTD_sf_explicitBlockDelimiters)"
| "ZSTD_cParam_getBounds ZSTD_c_validateSequences = bounds 0 1"
| "ZSTD_cParam_getBounds ZSTD_c_splitAfterSequences = bounds (ps_int ZSTD_ps_auto) (ps_int ZSTD_ps_disable)"
| "ZSTD_cParam_getBounds ZSTD_c_blockSplitterLevel = bounds 0 ZSTD_BLOCKSPLITTER_LEVEL_MAX"
| "ZSTD_cParam_getBounds ZSTD_c_useRowMatchFinder = bounds (ps_int ZSTD_ps_auto) (ps_int ZSTD_ps_disable)"
| "ZSTD_cParam_getBounds ZSTD_c_deterministicRefPrefix = bounds 0 1"
| "ZSTD_cParam_getBounds ZSTD_c_prefetchCDictTables = bounds (ps_int ZSTD_ps_auto) (ps_int ZSTD_ps_disable)"
| "ZSTD_cParam_getBounds ZSTD_c_enableSeqProducerFallback = bounds 0 1"
| "ZSTD_cParam_getBounds ZSTD_c_maxBlockSize = bounds (int ZSTD_BLOCKSIZE_MAX_MIN) (int ZSTD_BLOCKSIZE_MAX)"
| "ZSTD_cParam_getBounds ZSTD_c_repcodeResolution = bounds (ps_int ZSTD_ps_auto) (ps_int ZSTD_ps_disable)"
| "ZSTD_cParam_getBounds (ZSTD_c_other n) =
     \<lparr>b_error = Some ZSTD_error_parameter_unsupported, lowerBound = 0, upperBound = 0\<rparr>"

definition ZSTD_cParam_withinBounds :: "ZSTD_cParameter \<Rightarrow> int \<Rightarrow> bool" where
  "ZSTD_cParam_withinBounds cParam val \<longleftrightarrow>
     (let b = ZSTD_cParam_getBounds cParam
      in b_error b = None \<and> \<not> val < lowerBound b \<and> \<not> val > upperBound b)"

definition ZSTD_cParam_clampBounds :: "ZSTD_cParameter \<Rightarrow> int \<Rightarrow> int res" where
  "ZSTD_cParam_clampBounds cParam val =
     (let b = ZSTD_cParam_getBounds cParam in
      case b_error b of
        Some e \<Rightarrow> Inl e
      | None \<Rightarrow>
          (let val = (if val < lowerBound b then lowerBound b else val)
           in Inr (if val > upperBound b then upperBound b else val)))"

subsection \<open>Checking and clamping compression parameters\<close>

record ZSTD_compressionParameters =
  windowLog :: nat
  chainLog :: nat
  hashLog :: nat
  searchLog :: nat
  minMatch :: nat
  targetLength :: nat
  strategy :: ZSTD_strategy

definition cpar :: "nat \<Rightarrow> nat \<Rightarrow> nat \<Rightarrow> nat \<Rightarrow> nat \<Rightarrow> nat \<Rightarrow> nat \<Rightarrow> ZSTD_compressionParameters" where
  "cpar w c h s l t st = \<lparr>windowLog = w, chainLog = c, hashLog = h, searchLog = s, minMatch = l,
     targetLength = t, strategy = st\<rparr>"

text \<open>The conversion of \<open>unsigned\<close> to \<open>int\<close> and back.\<close>

definition s32 :: "nat \<Rightarrow> int" where
  "s32 n = (let m = int n mod 2 ^ 32 in if m < 2 ^ 31 then m else m - 2 ^ 32)"

definition u32 :: "int \<Rightarrow> nat" where
  "u32 v = nat (v mod 2 ^ 32)"

definition ZSTD_checkCParams :: "ZSTD_compressionParameters \<Rightarrow> nat res" where
  "ZSTD_checkCParams cParams =
     (if \<not> ZSTD_cParam_withinBounds ZSTD_c_windowLog (s32 (windowLog cParams)) then Inl ZSTD_error_parameter_outOfBound
      else if \<not> ZSTD_cParam_withinBounds ZSTD_c_chainLog (s32 (chainLog cParams)) then Inl ZSTD_error_parameter_outOfBound
      else if \<not> ZSTD_cParam_withinBounds ZSTD_c_hashLog (s32 (hashLog cParams)) then Inl ZSTD_error_parameter_outOfBound
      else if \<not> ZSTD_cParam_withinBounds ZSTD_c_searchLog (s32 (searchLog cParams)) then Inl ZSTD_error_parameter_outOfBound
      else if \<not> ZSTD_cParam_withinBounds ZSTD_c_minMatch (s32 (minMatch cParams)) then Inl ZSTD_error_parameter_outOfBound
      else if \<not> ZSTD_cParam_withinBounds ZSTD_c_targetLength (s32 (targetLength cParams))
        then Inl ZSTD_error_parameter_outOfBound
      else if \<not> ZSTD_cParam_withinBounds ZSTD_c_strategy (s32 (strategy cParams)) then Inl ZSTD_error_parameter_outOfBound
      else Inr 0)"

definition CLAMP_TYPE :: "ZSTD_cParameter \<Rightarrow> nat \<Rightarrow> nat" where
  "CLAMP_TYPE cParam val =
     (let b = ZSTD_cParam_getBounds cParam in
      if s32 val < lowerBound b then u32 (lowerBound b)
      else if s32 val > upperBound b then u32 (upperBound b)
      else val)"

definition ZSTD_clampCParams :: "ZSTD_compressionParameters \<Rightarrow> ZSTD_compressionParameters" where
  "ZSTD_clampCParams cParams = cParams
     \<lparr>windowLog := CLAMP_TYPE ZSTD_c_windowLog (windowLog cParams),
      chainLog := CLAMP_TYPE ZSTD_c_chainLog (chainLog cParams),
      hashLog := CLAMP_TYPE ZSTD_c_hashLog (hashLog cParams),
      searchLog := CLAMP_TYPE ZSTD_c_searchLog (searchLog cParams),
      minMatch := CLAMP_TYPE ZSTD_c_minMatch (minMatch cParams),
      targetLength := CLAMP_TYPE ZSTD_c_targetLength (targetLength cParams),
      strategy := CLAMP_TYPE ZSTD_c_strategy (strategy cParams)\<rparr>"

subsection \<open>Match finder choices\<close>

definition ZSTD_rowMatchFinderSupported :: "ZSTD_strategy \<Rightarrow> bool" where
  "ZSTD_rowMatchFinderSupported strat \<longleftrightarrow> strat \<ge> ZSTD_greedy \<and> strat \<le> ZSTD_lazy2"

definition ZSTD_rowMatchFinderUsed :: "ZSTD_strategy \<Rightarrow> ZSTD_ParamSwitch_e \<Rightarrow> bool" where
  "ZSTD_rowMatchFinderUsed strat mode \<longleftrightarrow> ZSTD_rowMatchFinderSupported strat \<and> mode = ZSTD_ps_enable"

definition ZSTD_resolveRowMatchFinderMode :: "ZSTD_ParamSwitch_e \<Rightarrow> ZSTD_compressionParameters \<Rightarrow> ZSTD_ParamSwitch_e" where
  "ZSTD_resolveRowMatchFinderMode mode cParams =
     (if mode \<noteq> ZSTD_ps_auto then mode
      else if \<not> ZSTD_rowMatchFinderSupported (strategy cParams) then ZSTD_ps_disable
      else if windowLog cParams > 14 then ZSTD_ps_enable else ZSTD_ps_disable)"

definition ZSTD_resolveBlockSplitterMode :: "ZSTD_ParamSwitch_e \<Rightarrow> ZSTD_compressionParameters \<Rightarrow> ZSTD_ParamSwitch_e" where
  "ZSTD_resolveBlockSplitterMode mode cParams =
     (if mode \<noteq> ZSTD_ps_auto then mode
      else if strategy cParams \<ge> ZSTD_btopt \<and> windowLog cParams \<ge> 17 then ZSTD_ps_enable else ZSTD_ps_disable)"

definition ZSTD_allocateChainTable :: "ZSTD_strategy \<Rightarrow> ZSTD_ParamSwitch_e \<Rightarrow> bool \<Rightarrow> bool" where
  "ZSTD_allocateChainTable strat useRowMatchFinder forDDSDict \<longleftrightarrow>
     forDDSDict \<or> (strat \<noteq> ZSTD_fast \<and> \<not> ZSTD_rowMatchFinderUsed strat useRowMatchFinder)"

definition ZSTD_resolveEnableLdm :: "ZSTD_ParamSwitch_e \<Rightarrow> ZSTD_compressionParameters \<Rightarrow> ZSTD_ParamSwitch_e" where
  "ZSTD_resolveEnableLdm mode cParams =
     (if mode \<noteq> ZSTD_ps_auto then mode
      else if strategy cParams \<ge> ZSTD_btopt \<and> windowLog cParams \<ge> 27 then ZSTD_ps_enable else ZSTD_ps_disable)"

definition ZSTD_resolveMaxBlockSize :: "nat \<Rightarrow> nat" where
  "ZSTD_resolveMaxBlockSize sz = (if sz = 0 then ZSTD_BLOCKSIZE_MAX else sz)"

definition ZSTD_resolveExternalSequenceValidation :: "int \<Rightarrow> int" where
  "ZSTD_resolveExternalSequenceValidation mode = mode"

definition ZSTD_resolveExternalRepcodeSearch :: "ZSTD_ParamSwitch_e \<Rightarrow> int \<Rightarrow> ZSTD_ParamSwitch_e" where
  "ZSTD_resolveExternalRepcodeSearch val cLevel =
     (if val \<noteq> ZSTD_ps_auto then val else if cLevel < 10 then ZSTD_ps_disable else ZSTD_ps_enable)"

definition ZSTD_CDictIndicesAreTagged :: "ZSTD_compressionParameters \<Rightarrow> bool" where
  "ZSTD_CDictIndicesAreTagged cParams \<longleftrightarrow> strategy cParams = ZSTD_fast \<or> strategy cParams = ZSTD_dfast"

subsection \<open>Adjusting parameters to the source and the dictionary\<close>

text \<open>Subtraction of \<open>U32\<close> values.\<close>

definition sub32 :: "nat \<Rightarrow> nat \<Rightarrow> nat" where
  "sub32 a b = (a + 2 ^ 32 - b) mod 2 ^ 32"

definition ZSTD_cycleLog :: "nat \<Rightarrow> ZSTD_strategy \<Rightarrow> nat" where
  "ZSTD_cycleLog hLog strat = sub32 hLog (if strat \<ge> ZSTD_btlazy2 then 1 else 0)"

definition ZSTD_dictAndWindowLog :: "nat \<Rightarrow> nat \<Rightarrow> nat \<Rightarrow> nat" where
  "ZSTD_dictAndWindowLog wLog srcSize dictSize =
     (let maxWindowSize = 2 ^ ZSTD_WINDOWLOG_MAX in
      if dictSize = 0 then wLog
      else
        (let windowSize = 2 ^ wLog;
             dictAndWindowSize = (dictSize + windowSize) mod 2 ^ 64 in
         if windowSize \<ge> (dictSize + srcSize) mod 2 ^ 64 then wLog
         else if dictAndWindowSize \<ge> maxWindowSize then ZSTD_WINDOWLOG_MAX
         else ZSTD_highbit32 (of_nat dictAndWindowSize - 1) + 1))"

datatype ZSTD_CParamMode_e = ZSTD_cpm_noAttachDict | ZSTD_cpm_attachDict | ZSTD_cpm_createCDict | ZSTD_cpm_unknown

text \<open>The parts of \<open>ZSTD_adjustCParams_internal\<close>: the sizes the mode says to use, the window,
  the tables, and the two limits on the bits of a hash.\<close>

definition adjust_sizes :: "ZSTD_CParamMode_e \<Rightarrow> nat \<Rightarrow> nat \<Rightarrow> nat \<times> nat" where
  "adjust_sizes mode srcSize dictSize =
     (case mode of
        ZSTD_cpm_unknown \<Rightarrow> (srcSize, dictSize)
      | ZSTD_cpm_noAttachDict \<Rightarrow> (srcSize, dictSize)
      | ZSTD_cpm_createCDict \<Rightarrow>
          (if dictSize \<noteq> 0 \<and> srcSize = ZSTD_CONTENTSIZE_UNKNOWN then (513, dictSize) else (srcSize, dictSize))
      | ZSTD_cpm_attachDict \<Rightarrow> (srcSize, 0))"

definition adjust_window :: "nat \<Rightarrow> nat \<Rightarrow> ZSTD_compressionParameters \<Rightarrow> ZSTD_compressionParameters" where
  "adjust_window srcSize dictSize cPar =
     (let maxWindowResize = 2 ^ (ZSTD_WINDOWLOG_MAX - 1) in
      if srcSize \<le> maxWindowResize \<and> dictSize \<le> maxWindowResize then
        (let tSize = (srcSize + dictSize) mod 2 ^ 32;
             hashSizeMin = 2 ^ ZSTD_HASHLOG_MIN;
             srcLog = (if tSize < hashSizeMin then ZSTD_HASHLOG_MIN
                       else ZSTD_highbit32 (of_nat tSize - 1) + 1)
         in if windowLog cPar > srcLog then cPar\<lparr>windowLog := srcLog\<rparr> else cPar)
      else cPar)"

definition adjust_tables :: "nat \<Rightarrow> nat \<Rightarrow> ZSTD_compressionParameters \<Rightarrow> ZSTD_compressionParameters" where
  "adjust_tables srcSize dictSize cPar =
     (if srcSize \<noteq> ZSTD_CONTENTSIZE_UNKNOWN then
        (let dictAndWindowLog = ZSTD_dictAndWindowLog (windowLog cPar) srcSize dictSize;
             cycleLog = ZSTD_cycleLog (chainLog cPar) (strategy cPar);
             cPar = (if hashLog cPar > dictAndWindowLog + 1 then cPar\<lparr>hashLog := dictAndWindowLog + 1\<rparr> else cPar)
         in if cycleLog > dictAndWindowLog
            then cPar\<lparr>chainLog := sub32 (chainLog cPar) (cycleLog - dictAndWindowLog)\<rparr> else cPar)
      else cPar)"

definition adjust_tags :: "ZSTD_CParamMode_e \<Rightarrow> ZSTD_compressionParameters \<Rightarrow> ZSTD_compressionParameters" where
  "adjust_tags mode cPar =
     (if mode = ZSTD_cpm_createCDict \<and> ZSTD_CDictIndicesAreTagged cPar then
        (let maxShortCacheHashLog = 32 - ZSTD_SHORT_CACHE_TAG_BITS;
             cPar = (if hashLog cPar > maxShortCacheHashLog then cPar\<lparr>hashLog := maxShortCacheHashLog\<rparr> else cPar)
         in if chainLog cPar > maxShortCacheHashLog then cPar\<lparr>chainLog := maxShortCacheHashLog\<rparr> else cPar)
      else cPar)"

definition adjust_rows :: "ZSTD_ParamSwitch_e \<Rightarrow> ZSTD_compressionParameters \<Rightarrow> ZSTD_compressionParameters" where
  "adjust_rows useRowMatchFinder cPar =
     (let useRowMatchFinder = (if useRowMatchFinder = ZSTD_ps_auto then ZSTD_ps_enable else useRowMatchFinder) in
      if ZSTD_rowMatchFinderUsed (strategy cPar) useRowMatchFinder then
        (let rowLog = max 4 (min (searchLog cPar) 6);
             maxRowHashLog = 32 - ZSTD_ROW_HASH_TAG_BITS;
             maxHashLog = maxRowHashLog + rowLog
         in if hashLog cPar > maxHashLog then cPar\<lparr>hashLog := maxHashLog\<rparr> else cPar)
      else cPar)"

definition ZSTD_adjustCParams_internal :: "ZSTD_compressionParameters \<Rightarrow> nat \<Rightarrow> nat \<Rightarrow>
    ZSTD_CParamMode_e \<Rightarrow> ZSTD_ParamSwitch_e \<Rightarrow> ZSTD_compressionParameters" where
  "ZSTD_adjustCParams_internal cPar srcSize dictSize mode useRowMatchFinder =
     (let (srcSize, dictSize) = adjust_sizes mode srcSize dictSize;
          cPar = adjust_window srcSize dictSize cPar;
          cPar = adjust_tables srcSize dictSize cPar;
          cPar = (if windowLog cPar < ZSTD_WINDOWLOG_ABSOLUTEMIN
                  then cPar\<lparr>windowLog := ZSTD_WINDOWLOG_ABSOLUTEMIN\<rparr> else cPar);
          cPar = adjust_tags mode cPar
      in adjust_rows useRowMatchFinder cPar)"

definition ZSTD_adjustCParams :: "ZSTD_compressionParameters \<Rightarrow> nat \<Rightarrow> nat \<Rightarrow> ZSTD_compressionParameters" where
  "ZSTD_adjustCParams cPar srcSize dictSize =
     (let cPar = ZSTD_clampCParams cPar;
          srcSize = (if srcSize = 0 then ZSTD_CONTENTSIZE_UNKNOWN else srcSize)
      in ZSTD_adjustCParams_internal cPar srcSize dictSize ZSTD_cpm_unknown ZSTD_ps_auto)"

subsection \<open>Predefined levels\<close>

definition ZSTD_defaultCParameters :: "ZSTD_compressionParameters list list" where
  "ZSTD_defaultCParameters =
   [[cpar 19 12 13 1 6 1 ZSTD_fast,
     cpar 19 13 14 1 7 0 ZSTD_fast,
     cpar 20 15 16 1 6 0 ZSTD_fast,
     cpar 21 16 17 1 5 0 ZSTD_dfast,
     cpar 21 18 18 1 5 0 ZSTD_dfast,
     cpar 21 18 19 3 5 2 ZSTD_greedy,
     cpar 21 18 19 3 5 4 ZSTD_lazy,
     cpar 21 19 20 4 5 8 ZSTD_lazy,
     cpar 21 19 20 4 5 16 ZSTD_lazy2,
     cpar 22 20 21 4 5 16 ZSTD_lazy2,
     cpar 22 21 22 5 5 16 ZSTD_lazy2,
     cpar 22 21 22 6 5 16 ZSTD_lazy2,
     cpar 22 22 23 6 5 32 ZSTD_lazy2,
     cpar 22 22 22 4 5 32 ZSTD_btlazy2,
     cpar 22 22 23 5 5 32 ZSTD_btlazy2,
     cpar 22 23 23 6 5 32 ZSTD_btlazy2,
     cpar 22 22 22 5 5 48 ZSTD_btopt,
     cpar 23 23 22 5 4 64 ZSTD_btopt,
     cpar 23 23 22 6 3 64 ZSTD_btultra,
     cpar 23 24 22 7 3 256 ZSTD_btultra2,
     cpar 25 25 23 7 3 256 ZSTD_btultra2,
     cpar 26 26 24 7 3 512 ZSTD_btultra2,
     cpar 27 27 25 9 3 999 ZSTD_btultra2],
    [cpar 18 12 13 1 5 1 ZSTD_fast,
     cpar 18 13 14 1 6 0 ZSTD_fast,
     cpar 18 14 14 1 5 0 ZSTD_dfast,
     cpar 18 16 16 1 4 0 ZSTD_dfast,
     cpar 18 16 17 3 5 2 ZSTD_greedy,
     cpar 18 17 18 5 5 2 ZSTD_greedy,
     cpar 18 18 19 3 5 4 ZSTD_lazy,
     cpar 18 18 19 4 4 4 ZSTD_lazy,
     cpar 18 18 19 4 4 8 ZSTD_lazy2,
     cpar 18 18 19 5 4 8 ZSTD_lazy2,
     cpar 18 18 19 6 4 8 ZSTD_lazy2,
     cpar 18 18 19 5 4 12 ZSTD_btlazy2,
     cpar 18 19 19 7 4 12 ZSTD_btlazy2,
     cpar 18 18 19 4 4 16 ZSTD_btopt,
     cpar 18 18 19 4 3 32 ZSTD_btopt,
     cpar 18 18 19 6 3 128 ZSTD_btopt,
     cpar 18 19 19 6 3 128 ZSTD_btultra,
     cpar 18 19 19 8 3 256 ZSTD_btultra,
     cpar 18 19 19 6 3 128 ZSTD_btultra2,
     cpar 18 19 19 8 3 256 ZSTD_btultra2,
     cpar 18 19 19 10 3 512 ZSTD_btultra2,
     cpar 18 19 19 12 3 512 ZSTD_btultra2,
     cpar 18 19 19 13 3 999 ZSTD_btultra2],
    [cpar 17 12 12 1 5 1 ZSTD_fast,
     cpar 17 12 13 1 6 0 ZSTD_fast,
     cpar 17 13 15 1 5 0 ZSTD_fast,
     cpar 17 15 16 2 5 0 ZSTD_dfast,
     cpar 17 17 17 2 4 0 ZSTD_dfast,
     cpar 17 16 17 3 4 2 ZSTD_greedy,
     cpar 17 16 17 3 4 4 ZSTD_lazy,
     cpar 17 16 17 3 4 8 ZSTD_lazy2,
     cpar 17 16 17 4 4 8 ZSTD_lazy2,
     cpar 17 16 17 5 4 8 ZSTD_lazy2,
     cpar 17 16 17 6 4 8 ZSTD_lazy2,
     cpar 17 17 17 5 4 8 ZSTD_btlazy2,
     cpar 17 18 17 7 4 12 ZSTD_btlazy2,
     cpar 17 18 17 3 4 12 ZSTD_btopt,
     cpar 17 18 17 4 3 32 ZSTD_btopt,
     cpar 17 18 17 6 3 256 ZSTD_btopt,
     cpar 17 18 17 6 3 128 ZSTD_btultra,
     cpar 17 18 17 8 3 256 ZSTD_btultra,
     cpar 17 18 17 10 3 512 ZSTD_btultra,
     cpar 17 18 17 5 3 256 ZSTD_btultra2,
     cpar 17 18 17 7 3 512 ZSTD_btultra2,
     cpar 17 18 17 9 3 512 ZSTD_btultra2,
     cpar 17 18 17 11 3 999 ZSTD_btultra2],
    [cpar 14 12 13 1 5 1 ZSTD_fast,
     cpar 14 14 15 1 5 0 ZSTD_fast,
     cpar 14 14 15 1 4 0 ZSTD_fast,
     cpar 14 14 15 2 4 0 ZSTD_dfast,
     cpar 14 14 14 4 4 2 ZSTD_greedy,
     cpar 14 14 14 3 4 4 ZSTD_lazy,
     cpar 14 14 14 4 4 8 ZSTD_lazy2,
     cpar 14 14 14 6 4 8 ZSTD_lazy2,
     cpar 14 14 14 8 4 8 ZSTD_lazy2,
     cpar 14 15 14 5 4 8 ZSTD_btlazy2,
     cpar 14 15 14 9 4 8 ZSTD_btlazy2,
     cpar 14 15 14 3 4 12 ZSTD_btopt,
     cpar 14 15 14 4 3 24 ZSTD_btopt,
     cpar 14 15 14 5 3 32 ZSTD_btultra,
     cpar 14 15 15 6 3 64 ZSTD_btultra,
     cpar 14 15 15 7 3 256 ZSTD_btultra,
     cpar 14 15 15 5 3 48 ZSTD_btultra2,
     cpar 14 15 15 6 3 128 ZSTD_btultra2,
     cpar 14 15 15 7 3 256 ZSTD_btultra2,
     cpar 14 15 15 8 3 256 ZSTD_btultra2,
     cpar 14 15 15 8 3 512 ZSTD_btultra2,
     cpar 14 15 15 9 3 512 ZSTD_btultra2,
     cpar 14 15 15 10 3 999 ZSTD_btultra2]]"

definition ZSTD_getCParamRowSize :: "nat \<Rightarrow> nat \<Rightarrow> ZSTD_CParamMode_e \<Rightarrow> nat" where
  "ZSTD_getCParamRowSize srcSizeHint dictSize mode =
     (let dictSize = (case mode of ZSTD_cpm_attachDict \<Rightarrow> 0 | _ \<Rightarrow> dictSize);
          unknown = (srcSizeHint = ZSTD_CONTENTSIZE_UNKNOWN);
          addedSize = (if unknown \<and> dictSize > 0 then 500 else 0)
      in if unknown \<and> dictSize = 0 then ZSTD_CONTENTSIZE_UNKNOWN
         else (srcSizeHint + dictSize + addedSize) mod 2 ^ 64)"

definition cparam_row :: "int \<Rightarrow> int" where
  "cparam_row compressionLevel =
     (if compressionLevel = 0 then ZSTD_CLEVEL_DEFAULT
      else if compressionLevel < 0 then 0
      else if compressionLevel > ZSTD_MAX_CLEVEL then ZSTD_MAX_CLEVEL
      else compressionLevel)"

definition ZSTD_getCParams_internal :: "int \<Rightarrow> nat \<Rightarrow> nat \<Rightarrow> ZSTD_CParamMode_e \<Rightarrow> ZSTD_compressionParameters" where
  "ZSTD_getCParams_internal compressionLevel srcSizeHint dictSize mode =
     (let rSize = ZSTD_getCParamRowSize srcSizeHint dictSize mode;
          tableID = (if rSize \<le> 256 * 2 ^ 10 then 1 else 0) + (if rSize \<le> 128 * 2 ^ 10 then 1 else 0)
                    + (if rSize \<le> 16 * 2 ^ 10 then 1 else 0);
          row = cparam_row compressionLevel;
          cp = ZSTD_defaultCParameters ! tableID ! nat row;
          cp = (if compressionLevel < 0
                then cp\<lparr>targetLength := u32 (- max ZSTD_minCLevel compressionLevel)\<rparr> else cp)
      in ZSTD_adjustCParams_internal cp srcSizeHint dictSize mode ZSTD_ps_auto)"

definition ZSTD_getCParams :: "int \<Rightarrow> nat \<Rightarrow> nat \<Rightarrow> ZSTD_compressionParameters" where
  "ZSTD_getCParams compressionLevel srcSizeHint dictSize =
     (let srcSizeHint = (if srcSizeHint = 0 then ZSTD_CONTENTSIZE_UNKNOWN else srcSizeHint)
      in ZSTD_getCParams_internal compressionLevel srcSizeHint dictSize ZSTD_cpm_unknown)"

record ZSTD_frameParameters =
  contentSizeFlag :: int
  checksumFlag :: int
  noDictIDFlag :: int

record ZSTD_parameters =
  zp_cParams :: ZSTD_compressionParameters
  zp_fParams :: ZSTD_frameParameters

definition ZSTD_getParams_internal :: "int \<Rightarrow> nat \<Rightarrow> nat \<Rightarrow> ZSTD_CParamMode_e \<Rightarrow> ZSTD_parameters" where
  "ZSTD_getParams_internal compressionLevel srcSizeHint dictSize mode =
     \<lparr>zp_cParams = ZSTD_getCParams_internal compressionLevel srcSizeHint dictSize mode,
      zp_fParams = \<lparr>contentSizeFlag = 1, checksumFlag = 0, noDictIDFlag = 0\<rparr>\<rparr>"

definition ZSTD_getParams :: "int \<Rightarrow> nat \<Rightarrow> nat \<Rightarrow> ZSTD_parameters" where
  "ZSTD_getParams compressionLevel srcSizeHint dictSize =
     (let srcSizeHint = (if srcSizeHint = 0 then ZSTD_CONTENTSIZE_UNKNOWN else srcSizeHint)
      in ZSTD_getParams_internal compressionLevel srcSizeHint dictSize ZSTD_cpm_unknown)"

definition ZSTD_dedicatedDictSearch_getCParams :: "int \<Rightarrow> nat \<Rightarrow> ZSTD_compressionParameters" where
  "ZSTD_dedicatedDictSearch_getCParams compressionLevel dictSize =
     (let cParams = ZSTD_getCParams_internal compressionLevel 0 dictSize ZSTD_cpm_createCDict in
      if strategy cParams \<in> {ZSTD_greedy, ZSTD_lazy, ZSTD_lazy2}
      then cParams\<lparr>hashLog := hashLog cParams + ZSTD_LAZY_DDSS_BUCKET_LOG\<rparr> else cParams)"

definition ZSTD_dedicatedDictSearch_isSupported :: "ZSTD_compressionParameters \<Rightarrow> bool" where
  "ZSTD_dedicatedDictSearch_isSupported cParams \<longleftrightarrow>
     strategy cParams \<ge> ZSTD_greedy \<and> strategy cParams \<le> ZSTD_lazy2 \<and>
     hashLog cParams > chainLog cParams \<and> chainLog cParams \<le> 24"

definition ZSTD_dedicatedDictSearch_revertCParams :: "ZSTD_compressionParameters \<Rightarrow> ZSTD_compressionParameters" where
  "ZSTD_dedicatedDictSearch_revertCParams cParams =
     (if strategy cParams \<in> {ZSTD_greedy, ZSTD_lazy, ZSTD_lazy2} then
        (let cParams = cParams\<lparr>hashLog := sub32 (hashLog cParams) ZSTD_LAZY_DDSS_BUCKET_LOG\<rparr>
         in if hashLog cParams < ZSTD_HASHLOG_MIN then cParams\<lparr>hashLog := ZSTD_HASHLOG_MIN\<rparr> else cParams)
      else cParams)"

definition ZSTD_overrideCParams :: "ZSTD_compressionParameters \<Rightarrow> ZSTD_compressionParameters \<Rightarrow> ZSTD_compressionParameters" where
  "ZSTD_overrideCParams cParams overrides = cParams
     \<lparr>windowLog := (if windowLog overrides \<noteq> 0 then windowLog overrides else windowLog cParams),
      hashLog := (if hashLog overrides \<noteq> 0 then hashLog overrides else hashLog cParams),
      chainLog := (if chainLog overrides \<noteq> 0 then chainLog overrides else chainLog cParams),
      searchLog := (if searchLog overrides \<noteq> 0 then searchLog overrides else searchLog cParams),
      minMatch := (if minMatch overrides \<noteq> 0 then minMatch overrides else minMatch cParams),
      targetLength := (if targetLength overrides \<noteq> 0 then targetLength overrides else targetLength cParams),
      strategy := (if strategy overrides \<noteq> 0 then strategy overrides else strategy cParams)\<rparr>"

subsection \<open>Bound on the size of a compressed source\<close>

definition ZSTD_MAX_INPUT_SIZE :: nat where
  "ZSTD_MAX_INPUT_SIZE = 0xFF00FF00FF00FF00"

definition ZSTD_COMPRESSBOUND :: "nat \<Rightarrow> nat" where
  "ZSTD_COMPRESSBOUND srcSize =
     (if srcSize \<ge> ZSTD_MAX_INPUT_SIZE then 0
      else srcSize + srcSize div 2 ^ 8
           + (if srcSize < 128 * 2 ^ 10 then (128 * 2 ^ 10 - srcSize) div 2 ^ 11 else 0))"

definition ZSTD_compressBound :: "nat \<Rightarrow> nat res" where
  "ZSTD_compressBound srcSize =
     (let r = ZSTD_COMPRESSBOUND srcSize in if r = 0 then Inl ZSTD_error_srcSize_wrong else Inr r)"

subsection \<open>Parameters within their bounds\<close>

lemma s32_small: "n < 2 ^ 31 \<Longrightarrow> s32 n = int n"
  by (simp add: s32_def Let_def)

lemma s32_bound: "n < 2 ^ 32 \<Longrightarrow> 0 \<le> s32 n \<Longrightarrow> s32 n = int n"
  by (auto simp: s32_def Let_def split: if_splits)

text \<open>Natural-number bounds of valid compression parameters.\<close>

definition cparams_within :: "ZSTD_compressionParameters \<Rightarrow> bool" where
  "cparams_within cp \<longleftrightarrow>
     10 \<le> windowLog cp \<and> windowLog cp \<le> 31 \<and> 6 \<le> chainLog cp \<and> chainLog cp \<le> 30 \<and>
     6 \<le> hashLog cp \<and> hashLog cp \<le> 30 \<and> 1 \<le> searchLog cp \<and> searchLog cp \<le> 30 \<and>
     3 \<le> minMatch cp \<and> minMatch cp \<le> 7 \<and> targetLength cp \<le> 2 ^ 17 \<and> 1 \<le> strategy cp \<and> strategy cp \<le> 9"

text \<open>The fields are \<open>unsigned\<close>.\<close>

definition cparams_u32 :: "ZSTD_compressionParameters \<Rightarrow> bool" where
  "cparams_u32 cp \<longleftrightarrow> windowLog cp < 2 ^ 32 \<and> chainLog cp < 2 ^ 32 \<and> hashLog cp < 2 ^ 32 \<and>
     searchLog cp < 2 ^ 32 \<and> minMatch cp < 2 ^ 32 \<and> targetLength cp < 2 ^ 32 \<and> strategy cp < 2 ^ 32"

lemma cparams_within_u32: "cparams_within cp \<Longrightarrow> cparams_u32 cp"
  by (simp add: cparams_within_def cparams_u32_def)

lemma within_iff:
  assumes "ZSTD_cParam_getBounds p = bounds (int lo) (int hi)" "hi < 2 ^ 31" "n < 2 ^ 32"
  shows "ZSTD_cParam_withinBounds p (s32 n) \<longleftrightarrow> lo \<le> n \<and> n \<le> hi"
proof
  assume "ZSTD_cParam_withinBounds p (s32 n)"
  then have "int lo \<le> s32 n" "s32 n \<le> int hi"
    by (simp_all add: ZSTD_cParam_withinBounds_def bounds_def assms(1) Let_def)
  then show "lo \<le> n \<and> n \<le> hi" using s32_bound [OF assms(3)] by simp
next
  assume "lo \<le> n \<and> n \<le> hi"
  then show "ZSTD_cParam_withinBounds p (s32 n)"
    using assms(2) by (simp add: ZSTD_cParam_withinBounds_def bounds_def assms(1) s32_small)
qed

lemma cparam_bounds:
  "ZSTD_cParam_getBounds ZSTD_c_windowLog = bounds (int 10) (int 31)"
  "ZSTD_cParam_getBounds ZSTD_c_chainLog = bounds (int 6) (int 30)"
  "ZSTD_cParam_getBounds ZSTD_c_hashLog = bounds (int 6) (int 30)"
  "ZSTD_cParam_getBounds ZSTD_c_searchLog = bounds (int 1) (int 30)"
  "ZSTD_cParam_getBounds ZSTD_c_minMatch = bounds (int 3) (int 7)"
  "ZSTD_cParam_getBounds ZSTD_c_targetLength = bounds (int 0) (int (2 ^ 17))"
  "ZSTD_cParam_getBounds ZSTD_c_strategy = bounds (int 1) (int 9)"
  by (simp_all add: zstd_limits)

lemma ZSTD_checkCParams_conj:
  "ZSTD_checkCParams cp = Inr 0 \<longleftrightarrow>
     ZSTD_cParam_withinBounds ZSTD_c_windowLog (s32 (windowLog cp)) \<and>
     ZSTD_cParam_withinBounds ZSTD_c_chainLog (s32 (chainLog cp)) \<and>
     ZSTD_cParam_withinBounds ZSTD_c_hashLog (s32 (hashLog cp)) \<and>
     ZSTD_cParam_withinBounds ZSTD_c_searchLog (s32 (searchLog cp)) \<and>
     ZSTD_cParam_withinBounds ZSTD_c_minMatch (s32 (minMatch cp)) \<and>
     ZSTD_cParam_withinBounds ZSTD_c_targetLength (s32 (targetLength cp)) \<and>
     ZSTD_cParam_withinBounds ZSTD_c_strategy (s32 (strategy cp))"
  by (simp add: ZSTD_checkCParams_def)

lemma cparams_checked:
  assumes "cparams_u32 cp"
  shows "ZSTD_checkCParams cp = Inr 0 \<longleftrightarrow> cparams_within cp"
proof -
  note u = assms [unfolded cparams_u32_def]
  have "ZSTD_cParam_withinBounds ZSTD_c_windowLog (s32 (windowLog cp)) \<longleftrightarrow> 10 \<le> windowLog cp \<and> windowLog cp \<le> 31"
    "ZSTD_cParam_withinBounds ZSTD_c_chainLog (s32 (chainLog cp)) \<longleftrightarrow> 6 \<le> chainLog cp \<and> chainLog cp \<le> 30"
    "ZSTD_cParam_withinBounds ZSTD_c_hashLog (s32 (hashLog cp)) \<longleftrightarrow> 6 \<le> hashLog cp \<and> hashLog cp \<le> 30"
    "ZSTD_cParam_withinBounds ZSTD_c_searchLog (s32 (searchLog cp)) \<longleftrightarrow> 1 \<le> searchLog cp \<and> searchLog cp \<le> 30"
    "ZSTD_cParam_withinBounds ZSTD_c_minMatch (s32 (minMatch cp)) \<longleftrightarrow> 3 \<le> minMatch cp \<and> minMatch cp \<le> 7"
    "ZSTD_cParam_withinBounds ZSTD_c_targetLength (s32 (targetLength cp)) \<longleftrightarrow> 0 \<le> targetLength cp \<and> targetLength cp \<le> 2 ^ 17"
    "ZSTD_cParam_withinBounds ZSTD_c_strategy (s32 (strategy cp)) \<longleftrightarrow> 1 \<le> strategy cp \<and> strategy cp \<le> 9"
    by (intro within_iff cparam_bounds; use u in simp)+
  then show ?thesis unfolding ZSTD_checkCParams_conj cparams_within_def by simp
qed

lemma CLAMP_TYPE_within:
  assumes "ZSTD_cParam_getBounds p = bounds (int lo) (int hi)" "lo \<le> hi" "hi < 2 ^ 31" "n < 2 ^ 32"
  shows "lo \<le> CLAMP_TYPE p n" "CLAMP_TYPE p n \<le> hi"
  using assms(2-4) s32_bound [of n] by (auto simp: CLAMP_TYPE_def bounds_def u32_def Let_def assms(1))

lemma cparams_clamped:
  assumes "cparams_u32 cp"
  shows "cparams_within (ZSTD_clampCParams cp)"
  unfolding cparams_within_def ZSTD_clampCParams_def
  using assms [unfolded cparams_u32_def]
  by (simp add: CLAMP_TYPE_within [OF cparam_bounds(1)] CLAMP_TYPE_within [OF cparam_bounds(2)]
      CLAMP_TYPE_within [OF cparam_bounds(3)] CLAMP_TYPE_within [OF cparam_bounds(4), simplified]
      CLAMP_TYPE_within [OF cparam_bounds(5)] CLAMP_TYPE_within [OF cparam_bounds(6), simplified]
      CLAMP_TYPE_within [OF cparam_bounds(7), simplified])

subsection \<open>Adjusted parameters stay valid\<close>

lemma highbit32_pred_log:
  assumes "2 ^ w < x" "x < 2 ^ 32"
  shows "w \<le> ZSTD_highbit32 (of_nat x - 1)" "x < 2 ^ 31 \<Longrightarrow> ZSTD_highbit32 (of_nat x - 1) < 31"
proof -
  have x: "0 < x" using assms(1) by (metis gr0I not_less_zero)
  then have e: "of_nat x - 1 = (of_nat (x - 1) :: u32)" by (simp add: of_nat_diff)
  have "(2::nat) ^ w \<le> x - 1" using assms(1) by simp
  moreover have "(0::nat) < 2 ^ w" by simp
  ultimately have nz: "0 < x - 1" by linarith
  have "x - 1 < 2 ^ 32" using assms(2) by simp
  note h = ZSTD_highbit32_of_nat [OF nz this]
  have "(2::nat) ^ w < 2 ^ Suc (ZSTD_highbit32 (of_nat (x - 1)))" using h(2) assms by linarith
  then show "w \<le> ZSTD_highbit32 (of_nat x - 1)"
    unfolding e by (metis less_Suc_eq_le one_less_numeral_iff power_less_imp_less_exp semiring_norm(76))
  have "(2::nat) ^ ZSTD_highbit32 (of_nat (x - 1)) < 2 ^ 31" if "x < 2 ^ 31" using h(1) that by linarith
  then show "x < 2 ^ 31 \<Longrightarrow> ZSTD_highbit32 (of_nat x - 1) < 31"
    unfolding e by (metis one_less_numeral_iff power_less_imp_less_exp semiring_norm(76))
qed

lemma sub32_eq: "b \<le> a \<Longrightarrow> a < 2 ^ 32 \<Longrightarrow> sub32 a b = a - b"
proof -
  assume a: "b \<le> a" "a < 2 ^ 32"
  then have "a + 2 ^ 32 - b = (a - b) + 2 ^ 32" by simp
  then show "sub32 a b = a - b" using a by (simp only: sub32_def mod_add_self2) simp
qed

lemma dictAndWindowLog_bounds:
  assumes "6 \<le> w" "w \<le> 31" "dictSize < 2 ^ 63"
  shows "w \<le> ZSTD_dictAndWindowLog w srcSize dictSize" "ZSTD_dictAndWindowLog w srcSize dictSize \<le> 31"
proof -
  have "(2::nat) ^ w \<le> 2 ^ 31" using assms(2) by (intro power_increasing) auto
  then have m: "(dictSize + 2 ^ w) mod 2 ^ 64 = dictSize + 2 ^ w" using assms(3) by simp
  have "w \<le> ZSTD_highbit32 (of_nat (dictSize + 2 ^ w) - 1) \<and> ZSTD_highbit32 (of_nat (dictSize + 2 ^ w) - 1) < 31"
    if "0 < dictSize" "dictSize + 2 ^ w < 2 ^ 31"
    using highbit32_pred_log [of w "dictSize + 2 ^ w"] that by simp
  then show "w \<le> ZSTD_dictAndWindowLog w srcSize dictSize" "ZSTD_dictAndWindowLog w srcSize dictSize \<le> 31"
    using assms(2) unfolding ZSTD_dictAndWindowLog_def Let_def m by (auto simp: ZSTD_WINDOWLOG_MAX_def)
qed

text \<open>Between the two adjustments of the window its logarithm may be as small as that of the
  smallest hash table.\<close>

definition cparams_mid :: "ZSTD_compressionParameters \<Rightarrow> bool" where
  "cparams_mid cp \<longleftrightarrow> 6 \<le> windowLog cp \<and> windowLog cp \<le> 31 \<and> cparams_within (cp\<lparr>windowLog := 10\<rparr>)"

lemma adjust_window_mid:
  assumes "cparams_within cp"
  shows "cparams_mid (adjust_window srcSize dictSize cp)"
proof -
  define t where "t = (srcSize + dictSize) mod 2 ^ 32"
  define l where "l = (if t < 2 ^ ZSTD_HASHLOG_MIN then ZSTD_HASHLOG_MIN else ZSTD_highbit32 (of_nat t - 1) + 1)"
  have c: "adjust_window srcSize dictSize cp = cp \<or>
      adjust_window srcSize dictSize cp = cp\<lparr>windowLog := l\<rparr> \<and> l < windowLog cp"
    by (auto simp: adjust_window_def Let_def t_def l_def)
  have "t < 2 ^ 32" by (simp add: t_def)
  then have "6 \<le> l" using highbit32_pred_log(1) [of 5 t] by (auto simp: l_def ZSTD_HASHLOG_MIN_def)
  with c assms show ?thesis by (auto simp: cparams_mid_def cparams_within_def)
qed

lemma adjust_tables_mid:
  assumes "cparams_mid cp" "dictSize < 2 ^ 63"
  shows "cparams_mid (adjust_tables srcSize dictSize cp)"
proof -
  let ?d = "ZSTD_dictAndWindowLog (windowLog cp) srcSize dictSize"
  have d: "6 \<le> ?d" "?d \<le> 31"
    using dictAndWindowLog_bounds [of "windowLog cp" dictSize srcSize] assms by (auto simp: cparams_mid_def)
  have c: "6 \<le> chainLog cp" "chainLog cp \<le> 30" using assms(1) by (auto simp: cparams_mid_def cparams_within_def)
  have cy: "ZSTD_cycleLog (chainLog cp) (strategy cp) = chainLog cp \<or>
      ZSTD_cycleLog (chainLog cp) (strategy cp) = chainLog cp - 1"
    using c by (auto simp: ZSTD_cycleLog_def sub32_eq)
  have s: "sub32 (chainLog cp) k = chainLog cp - k" if "k \<le> chainLog cp" for k
    using c that by (simp add: sub32_eq)
  show ?thesis
    using assms(1) d c cy s [of "ZSTD_cycleLog (chainLog cp) (strategy cp) - ?d"]
    by (auto simp: adjust_tables_def cparams_mid_def cparams_within_def Let_def)
qed

lemma adjust_tags_within: "cparams_within cp \<Longrightarrow> cparams_within (adjust_tags mode cp)"
  by (auto simp: adjust_tags_def cparams_within_def ZSTD_SHORT_CACHE_TAG_BITS_def Let_def)

lemma adjust_rows_within: "cparams_within cp \<Longrightarrow> cparams_within (adjust_rows row cp)"
  by (auto simp: adjust_rows_def cparams_within_def ZSTD_ROW_HASH_TAG_BITS_def Let_def)

lemma adjust_sizes_dict: "dictSize < 2 ^ 63 \<Longrightarrow> snd (adjust_sizes mode srcSize dictSize) < 2 ^ 63"
  by (auto simp: adjust_sizes_def split: ZSTD_CParamMode_e.splits)

lemma adjusted_within:
  assumes "cparams_within cp" "dictSize < 2 ^ 63"
  shows "cparams_within (ZSTD_adjustCParams_internal cp srcSize dictSize mode row)"
proof -
  obtain s d where sd: "adjust_sizes mode srcSize dictSize = (s, d)" by fastforce
  then have d: "d < 2 ^ 63" using adjust_sizes_dict [OF assms(2), of mode srcSize] by simp
  have "cparams_mid (adjust_tables s d (adjust_window s d cp))"
    by (rule adjust_tables_mid [OF adjust_window_mid [OF assms(1)] d])
  then have "cparams_within (let cp = adjust_tables s d (adjust_window s d cp)
     in if windowLog cp < ZSTD_WINDOWLOG_ABSOLUTEMIN then cp\<lparr>windowLog := ZSTD_WINDOWLOG_ABSOLUTEMIN\<rparr> else cp)"
    by (auto simp: cparams_mid_def cparams_within_def ZSTD_WINDOWLOG_ABSOLUTEMIN_def Let_def)
  then show ?thesis
    unfolding ZSTD_adjustCParams_internal_def sd Let_def prod.case
    by (intro adjust_rows_within adjust_tags_within)
qed

lemma default_cparams_within: "list_all (\<lambda>t. list_all cparams_within t \<and> length t = 23) ZSTD_defaultCParameters"
  by (simp add: ZSTD_defaultCParameters_def cparams_within_def cpar_def)

lemma level_cparams_within:
  assumes "dictSize < 2 ^ 63"
  shows "cparams_within (ZSTD_getCParams_internal level srcSizeHint dictSize mode)"
proof -
  have len: "length ZSTD_defaultCParameters = 4" by (simp add: ZSTD_defaultCParameters_def)
  have row: "nat (cparam_row level) < 23" by (auto simp: cparam_row_def zstd_limits)
  have cp: "cparams_within (ZSTD_defaultCParameters ! t ! nat (cparam_row level))" if "t < 4" for t
    using default_cparams_within row that len by (simp add: list_all_length)
  have tl: "u32 (- max ZSTD_minCLevel level) \<le> 2 ^ 17" if "level < 0"
    using that by (simp add: u32_def ZSTD_minCLevel_def zstd_limits)
  show ?thesis
    unfolding ZSTD_getCParams_internal_def Let_def
    by (intro adjusted_within [OF _ assms]) (use cp tl in \<open>auto simp: cparams_within_def\<close>)
qed

subsection \<open>Properties\<close>

text \<open>
  C22. Every compression level, whatever number the caller passes, leads to valid compression
  parameters for every source size and every dictionary of less than \<open>2 ^ 63\<close> bytes and in every
  mode; and the public adjustment function makes valid parameters out of any values of the seven
  fields. In particular downsizing the window and the tables never leaves the range that the
  allocation and the match finders rely on.
\<close>

theorem cparams_always_valid:
  assumes "dictSize < 2 ^ 63"
  shows "ZSTD_checkCParams (ZSTD_getCParams_internal level srcSizeHint dictSize mode) = Inr 0 \<and>
    ZSTD_checkCParams (ZSTD_getCParams level srcSizeHint dictSize) = Inr 0 \<and>
    (cparams_u32 cp \<longrightarrow>
       ZSTD_checkCParams (ZSTD_clampCParams cp) = Inr 0 \<and>
       ZSTD_checkCParams (ZSTD_adjustCParams cp srcSizeHint dictSize) = Inr 0 \<and>
       (ZSTD_checkCParams cp = Inr 0 \<longrightarrow>
          ZSTD_checkCParams (ZSTD_adjustCParams_internal cp srcSizeHint dictSize mode row) = Inr 0))"
proof -
  have c: "ZSTD_checkCParams q = Inr 0" if "cparams_within q" for q
    using cparams_checked [OF cparams_within_u32 [OF that]] that by simp
  have a: "cparams_within (ZSTD_adjustCParams cp srcSizeHint dictSize)" if "cparams_u32 cp"
    unfolding ZSTD_adjustCParams_def Let_def by (rule adjusted_within [OF cparams_clamped [OF that] assms])
  have g: "cparams_within (ZSTD_getCParams level srcSizeHint dictSize)"
    unfolding ZSTD_getCParams_def Let_def by (rule level_cparams_within [OF assms])
  show ?thesis
    using c [OF level_cparams_within [OF assms]] c [OF g] c [OF cparams_clamped] c [OF a]
      c [OF adjusted_within [OF _ assms]] cparams_checked
    by simp
qed

theorem cparams_always_valid_witness:
  "ZSTD_checkCParams (ZSTD_getCParams_internal (-7) 0 4096 ZSTD_cpm_createCDict) = Inr 0 \<and>
   ZSTD_checkCParams (ZSTD_adjustCParams (cpar 99 0 0 77 1 5 1000) 100 4096) = Inr 0"
  using cparams_always_valid [of 4096 "-7" 0 ZSTD_cpm_createCDict "cpar 0 0 0 0 0 0 0" ZSTD_ps_auto]
    cparams_always_valid [of 4096 0 100 ZSTD_cpm_unknown "cpar 99 0 0 77 1 5 1000" ZSTD_ps_auto]
  by (simp add: cparams_u32_def cpar_def)

lemma div_add_le: "(x + y) div d \<le> x div d + (y :: nat)"
proof (induction y)
  case (Suc y)
  then show ?case by (simp add: div_Suc)
qed simp

lemma COMPRESSBOUND_mono:
  assumes "a \<le> c" "c < ZSTD_MAX_INPUT_SIZE"
  shows "ZSTD_COMPRESSBOUND a \<le> ZSTD_COMPRESSBOUND c"
proof -
  define m where "m n = (if n < 131072 then (131072 - n) div 2048 else 0)" for n :: nat
  have B: "ZSTD_COMPRESSBOUND n = n + n div 256 + m n" if "n < ZSTD_MAX_INPUT_SIZE" for n
    using that by (simp add: ZSTD_COMPRESSBOUND_def m_def)
  have "131072 - a \<le> (131072 - c) + (c - a)" by simp
  then have "(131072 - a) div 2048 \<le> ((131072 - c) + (c - a)) div 2048" by (rule div_le_mono)
  also have "\<dots> \<le> (131072 - c) div 2048 + (c - a)" by (rule div_add_le)
  finally have "m a \<le> m c + (c - a)" by (auto simp: m_def)
  moreover have "a div 256 \<le> c div 256" using assms(1) by (rule div_le_mono)
  ultimately show ?thesis using assms by (simp add: B)
qed

text \<open>
  The bound on the compressed size is an error only for sources of the maximal input size and
  above; otherwise it is at least the source size, it fits a \<open>size_t\<close>, it grows with the source,
  and for pieces of at least 128 KB the bounds of the pieces add up to at most the bound of the
  whole, so that a buffer sized for the whole source is enough for compressing it in such pieces.
\<close>

lemma compressBound_superadditive:
  assumes "a + b < ZSTD_MAX_INPUT_SIZE"
  shows "\<exists>ra rs. ZSTD_compressBound a = Inr ra \<and> ZSTD_compressBound (a + b) = Inr rs \<and>
    a \<le> ra \<and> ra \<le> rs \<and> rs < 2 ^ 64 \<and>
    (128 * 2 ^ 10 \<le> a \<and> 128 * 2 ^ 10 \<le> b \<longrightarrow> (\<exists>rb. ZSTD_compressBound b = Inr rb \<and> ra + rb \<le> rs))"
proof -
  define big where "big = ZSTD_MAX_INPUT_SIZE"
  have B: "ZSTD_compressBound n = Inr (ZSTD_COMPRESSBOUND n) \<and> n \<le> ZSTD_COMPRESSBOUND n" if "n < big" for n
    using that by (auto simp: ZSTD_compressBound_def ZSTD_COMPRESSBOUND_def big_def Let_def)
  have le: "a < big" "b < big" "a + b < big" using assms by (auto simp: big_def)
  have "(a + b) div 256 \<le> (ZSTD_MAX_INPUT_SIZE - 1) div 256" using assms by (intro div_le_mono) simp
  moreover have "(131072 - (a + b)) div 2048 \<le> 131072"
    using div_le_dividend [of "131072 - (a + b)" 2048] by linarith
  ultimately have "ZSTD_COMPRESSBOUND (a + b) < 2 ^ 64"
    using assms by (simp add: ZSTD_COMPRESSBOUND_def ZSTD_MAX_INPUT_SIZE_def)
  moreover have "ZSTD_COMPRESSBOUND a + ZSTD_COMPRESSBOUND b \<le> ZSTD_COMPRESSBOUND (a + b)"
    if "128 * 2 ^ 10 \<le> a" "128 * 2 ^ 10 \<le> b"
    using that le by (simp add: ZSTD_COMPRESSBOUND_def big_def div_add1_eq [of a b])
  ultimately show ?thesis using B le COMPRESSBOUND_mono [of a "a + b"] assms by auto
qed

end
