(* ===== verification/Zstd_CCtx_Params.thy ===== *)
theory Zstd_CCtx_Params
  imports Zstd_CParams
begin

text \<open>
  The parameter set of a compression context (\<open>zstd_compress.c\<close>) with its setter and getter,
  and the parameters in effect for a source. A setter returns the new set even when it fails, as
  the C function writes through a pointer.
\<close>

subsection \<open>Parameter sets\<close>

record ldmParams_t =
  enableLdm :: ZSTD_ParamSwitch_e
  ldm_hashLog :: nat
  ldm_bucketSizeLog :: nat
  ldm_minMatchLength :: nat
  ldm_hashRateLog :: nat
  ldm_windowLog :: nat

text \<open>Pointers are numbers, the null pointer is \<open>None\<close>. The allocator is not part of the model.\<close>

record ZSTD_CCtx_params =
  p_format :: ZSTD_format_e
  cParams :: ZSTD_compressionParameters
  fParams :: ZSTD_frameParameters
  compressionLevel :: int
  forceWindow :: int
  targetCBlockSize :: nat
  srcSizeHint :: int
  attachDictPref :: ZSTD_dictAttachPref_e
  literalCompressionMode :: ZSTD_ParamSwitch_e
  nbWorkers :: int
  jobSize :: nat
  overlapLog :: int
  rsyncable :: int
  ldmParams :: ldmParams_t
  enableDedicatedDictSearch :: int
  inBufferMode :: ZSTD_bufferMode_e
  outBufferMode :: ZSTD_bufferMode_e
  blockDelimiters :: ZSTD_SequenceFormat_e
  validateSequences :: int
  postBlockSplitter :: ZSTD_ParamSwitch_e
  preBlockSplitter_level :: int
  maxBlockSize :: nat
  useRowMatchFinder :: ZSTD_ParamSwitch_e
  deterministicRefPrefix :: int
  prefetchCDictTables :: ZSTD_ParamSwitch_e
  enableMatchFinderFallback :: int
  extSeqProdState :: "nat option"
  extSeqProdFunc :: "nat option"
  searchForExternalRepcodes :: ZSTD_ParamSwitch_e

text \<open>The parameter set after \<open>memset(0)\<close>.\<close>

definition cctx_params_zero :: ZSTD_CCtx_params where
  "cctx_params_zero =
     \<lparr>p_format = ZSTD_f_zstd1, cParams = cpar 0 0 0 0 0 0 0,
      fParams = \<lparr>contentSizeFlag = 0, checksumFlag = 0, noDictIDFlag = 0\<rparr>,
      compressionLevel = 0, forceWindow = 0, targetCBlockSize = 0, srcSizeHint = 0,
      attachDictPref = ZSTD_dictDefaultAttach, literalCompressionMode = ZSTD_ps_auto,
      nbWorkers = 0, jobSize = 0, overlapLog = 0, rsyncable = 0,
      ldmParams = \<lparr>enableLdm = ZSTD_ps_auto, ldm_hashLog = 0, ldm_bucketSizeLog = 0, ldm_minMatchLength = 0,
        ldm_hashRateLog = 0, ldm_windowLog = 0\<rparr>,
      enableDedicatedDictSearch = 0, inBufferMode = ZSTD_bm_buffered, outBufferMode = ZSTD_bm_buffered,
      blockDelimiters = ZSTD_sf_noBlockDelimiters, validateSequences = 0, postBlockSplitter = ZSTD_ps_auto,
      preBlockSplitter_level = 0, maxBlockSize = 0, useRowMatchFinder = ZSTD_ps_auto, deterministicRefPrefix = 0,
      prefetchCDictTables = ZSTD_ps_auto, enableMatchFinderFallback = 0, extSeqProdState = None,
      extSeqProdFunc = None, searchForExternalRepcodes = ZSTD_ps_auto\<rparr>"

definition ZSTD_CCtxParams_init :: "int \<Rightarrow> ZSTD_CCtx_params" where
  "ZSTD_CCtxParams_init level = cctx_params_zero
     \<lparr>compressionLevel := level, fParams := (fParams cctx_params_zero)\<lparr>contentSizeFlag := 1\<rparr>\<rparr>"

definition ZSTD_CCtxParams_reset :: ZSTD_CCtx_params where
  "ZSTD_CCtxParams_reset = ZSTD_CCtxParams_init ZSTD_CLEVEL_DEFAULT"

definition ZSTD_NO_CLEVEL :: int where "ZSTD_NO_CLEVEL = 0"

definition ZSTD_CCtxParams_init_internal :: "ZSTD_parameters \<Rightarrow> int \<Rightarrow> ZSTD_CCtx_params" where
  "ZSTD_CCtxParams_init_internal params level =
     (let ps = cctx_params_zero\<lparr>cParams := zp_cParams params, fParams := zp_fParams params, compressionLevel := level\<rparr>;
          ps = ps\<lparr>useRowMatchFinder := ZSTD_resolveRowMatchFinderMode (useRowMatchFinder ps) (zp_cParams params)\<rparr>;
          ps = ps\<lparr>postBlockSplitter := ZSTD_resolveBlockSplitterMode (postBlockSplitter ps) (zp_cParams params)\<rparr>;
          ps = ps\<lparr>ldmParams := (ldmParams ps)\<lparr>enableLdm := ZSTD_resolveEnableLdm (enableLdm (ldmParams ps)) (zp_cParams params)\<rparr>\<rparr>;
          ps = ps\<lparr>validateSequences := ZSTD_resolveExternalSequenceValidation (validateSequences ps)\<rparr>;
          ps = ps\<lparr>maxBlockSize := ZSTD_resolveMaxBlockSize (maxBlockSize ps)\<rparr>
      in ps\<lparr>searchForExternalRepcodes := ZSTD_resolveExternalRepcodeSearch (searchForExternalRepcodes ps) level\<rparr>)"

definition ZSTD_CCtxParams_init_advanced :: "ZSTD_parameters \<Rightarrow> ZSTD_CCtx_params res" where
  "ZSTD_CCtxParams_init_advanced params =
     bind_res (ZSTD_checkCParams (zp_cParams params)) (\<lambda>_. Inr (ZSTD_CCtxParams_init_internal params ZSTD_NO_CLEVEL))"

definition ZSTD_CCtxParams_setZstdParams :: "ZSTD_CCtx_params \<Rightarrow> ZSTD_parameters \<Rightarrow> ZSTD_CCtx_params" where
  "ZSTD_CCtxParams_setZstdParams ps params =
     ps\<lparr>cParams := zp_cParams params, fParams := zp_fParams params, compressionLevel := ZSTD_NO_CLEVEL\<rparr>"

definition ZSTD_CCtxParams_registerSequenceProducer ::
    "ZSTD_CCtx_params \<Rightarrow> nat option \<Rightarrow> nat option \<Rightarrow> ZSTD_CCtx_params" where
  "ZSTD_CCtxParams_registerSequenceProducer ps prodState prodFunc =
     (if prodFunc \<noteq> None then ps\<lparr>extSeqProdFunc := prodFunc, extSeqProdState := prodState\<rparr>
      else ps\<lparr>extSeqProdFunc := None, extSeqProdState := None\<rparr>)"

subsection \<open>Setting a parameter\<close>

text \<open>The outcomes of a setter: the check of the bounds, the check that lets 0 pass, and clamping.\<close>

definition checked :: "ZSTD_cParameter \<Rightarrow> int \<Rightarrow> ZSTD_CCtx_params \<Rightarrow> ZSTD_CCtx_params \<Rightarrow> nat \<Rightarrow>
    ZSTD_CCtx_params \<times> nat res" where
  "checked p v ps ps' r =
     (if \<not> ZSTD_cParam_withinBounds p v then (ps, Inl ZSTD_error_parameter_outOfBound) else (ps', Inr r))"

definition checked0 :: "ZSTD_cParameter \<Rightarrow> int \<Rightarrow> ZSTD_CCtx_params \<Rightarrow> ZSTD_CCtx_params \<Rightarrow> nat \<Rightarrow>
    ZSTD_CCtx_params \<times> nat res" where
  "checked0 p v ps ps' r = (if v \<noteq> 0 then checked p v ps ps' r else (ps', Inr r))"

definition clamped :: "ZSTD_cParameter \<Rightarrow> int \<Rightarrow> ZSTD_CCtx_params \<Rightarrow> (int \<Rightarrow> ZSTD_CCtx_params \<times> nat) \<Rightarrow>
    ZSTD_CCtx_params \<times> nat res" where
  "clamped p v ps f =
     (case ZSTD_cParam_clampBounds p v of Inl e \<Rightarrow> (ps, Inl e) | Inr v \<Rightarrow> (case f v of (ps', r) \<Rightarrow> (ps', Inr r)))"

definition flag :: "int \<Rightarrow> int" where
  "flag v = (if v \<noteq> 0 then 1 else 0)"

fun ZSTD_CCtxParams_setParameter :: "ZSTD_CCtx_params \<Rightarrow> ZSTD_cParameter \<Rightarrow> int \<Rightarrow> ZSTD_CCtx_params \<times> nat res" where
  "ZSTD_CCtxParams_setParameter ps ZSTD_c_format v =
     checked ZSTD_c_format v ps (ps\<lparr>p_format := format_of v\<rparr>) (nat (format_int (format_of v)))"
| "ZSTD_CCtxParams_setParameter ps ZSTD_c_compressionLevel v =
     clamped ZSTD_c_compressionLevel v ps (\<lambda>v.
       (let level = (if v = 0 then ZSTD_CLEVEL_DEFAULT else v)
        in (ps\<lparr>compressionLevel := level\<rparr>, if level \<ge> 0 then nat level else 0)))"
| "ZSTD_CCtxParams_setParameter ps ZSTD_c_windowLog v =
     checked0 ZSTD_c_windowLog v ps (ps\<lparr>cParams := (cParams ps)\<lparr>windowLog := u32 v\<rparr>\<rparr>) (u32 v)"
| "ZSTD_CCtxParams_setParameter ps ZSTD_c_hashLog v =
     checked0 ZSTD_c_hashLog v ps (ps\<lparr>cParams := (cParams ps)\<lparr>hashLog := u32 v\<rparr>\<rparr>) (u32 v)"
| "ZSTD_CCtxParams_setParameter ps ZSTD_c_chainLog v =
     checked0 ZSTD_c_chainLog v ps (ps\<lparr>cParams := (cParams ps)\<lparr>chainLog := u32 v\<rparr>\<rparr>) (u32 v)"
| "ZSTD_CCtxParams_setParameter ps ZSTD_c_searchLog v =
     checked0 ZSTD_c_searchLog v ps (ps\<lparr>cParams := (cParams ps)\<lparr>searchLog := u32 v\<rparr>\<rparr>) (nat v)"
| "ZSTD_CCtxParams_setParameter ps ZSTD_c_minMatch v =
     checked0 ZSTD_c_minMatch v ps (ps\<lparr>cParams := (cParams ps)\<lparr>minMatch := u32 v\<rparr>\<rparr>) (u32 v)"
| "ZSTD_CCtxParams_setParameter ps ZSTD_c_targetLength v =
     checked ZSTD_c_targetLength v ps (ps\<lparr>cParams := (cParams ps)\<lparr>targetLength := u32 v\<rparr>\<rparr>) (u32 v)"
| "ZSTD_CCtxParams_setParameter ps ZSTD_c_strategy v =
     checked0 ZSTD_c_strategy v ps (ps\<lparr>cParams := (cParams ps)\<lparr>strategy := u32 v\<rparr>\<rparr>) (u32 v)"
| "ZSTD_CCtxParams_setParameter ps ZSTD_c_contentSizeFlag v =
     (ps\<lparr>fParams := (fParams ps)\<lparr>contentSizeFlag := flag v\<rparr>\<rparr>, Inr (nat (flag v)))"
| "ZSTD_CCtxParams_setParameter ps ZSTD_c_checksumFlag v =
     (ps\<lparr>fParams := (fParams ps)\<lparr>checksumFlag := flag v\<rparr>\<rparr>, Inr (nat (flag v)))"
| "ZSTD_CCtxParams_setParameter ps ZSTD_c_dictIDFlag v =
     (ps\<lparr>fParams := (fParams ps)\<lparr>noDictIDFlag := 1 - flag v\<rparr>\<rparr>, Inr (nat (flag v)))"
| "ZSTD_CCtxParams_setParameter ps ZSTD_c_forceMaxWindow v =
     (ps\<lparr>forceWindow := flag v\<rparr>, Inr (nat (flag v)))"
| "ZSTD_CCtxParams_setParameter ps ZSTD_c_forceAttachDict v =
     checked ZSTD_c_forceAttachDict v ps (ps\<lparr>attachDictPref := attach_of v\<rparr>) (nat (attach_int (attach_of v)))"
| "ZSTD_CCtxParams_setParameter ps ZSTD_c_literalCompressionMode v =
     checked ZSTD_c_literalCompressionMode v ps (ps\<lparr>literalCompressionMode := ps_of v\<rparr>) (nat (ps_int (ps_of v)))"
| "ZSTD_CCtxParams_setParameter ps ZSTD_c_nbWorkers v =
     clamped ZSTD_c_nbWorkers v ps (\<lambda>v. (ps\<lparr>nbWorkers := v\<rparr>, nat v))"
| "ZSTD_CCtxParams_setParameter ps ZSTD_c_jobSize v =
     (let v = (if v \<noteq> 0 \<and> v < ZSTDMT_JOBSIZE_MIN then ZSTDMT_JOBSIZE_MIN else v)
      in clamped ZSTD_c_jobSize v ps (\<lambda>v. (ps\<lparr>jobSize := nat v\<rparr>, nat v)))"
| "ZSTD_CCtxParams_setParameter ps ZSTD_c_overlapLog v =
     clamped ZSTD_c_overlapLog v ps (\<lambda>v. (ps\<lparr>overlapLog := v\<rparr>, nat v))"
| "ZSTD_CCtxParams_setParameter ps ZSTD_c_rsyncable v =
     clamped ZSTD_c_overlapLog v ps (\<lambda>v. (ps\<lparr>rsyncable := v\<rparr>, nat v))"
| "ZSTD_CCtxParams_setParameter ps ZSTD_c_enableDedicatedDictSearch v =
     (ps\<lparr>enableDedicatedDictSearch := flag v\<rparr>, Inr (nat (flag v)))"
| "ZSTD_CCtxParams_setParameter ps ZSTD_c_enableLongDistanceMatching v =
     checked ZSTD_c_enableLongDistanceMatching v ps (ps\<lparr>ldmParams := (ldmParams ps)\<lparr>enableLdm := ps_of v\<rparr>\<rparr>) (nat (ps_int (ps_of v)))"
| "ZSTD_CCtxParams_setParameter ps ZSTD_c_ldmHashLog v =
     checked0 ZSTD_c_ldmHashLog v ps (ps\<lparr>ldmParams := (ldmParams ps)\<lparr>ldm_hashLog := u32 v\<rparr>\<rparr>) (u32 v)"
| "ZSTD_CCtxParams_setParameter ps ZSTD_c_ldmMinMatch v =
     checked0 ZSTD_c_ldmMinMatch v ps (ps\<lparr>ldmParams := (ldmParams ps)\<lparr>ldm_minMatchLength := u32 v\<rparr>\<rparr>) (u32 v)"
| "ZSTD_CCtxParams_setParameter ps ZSTD_c_ldmBucketSizeLog v =
     checked0 ZSTD_c_ldmBucketSizeLog v ps (ps\<lparr>ldmParams := (ldmParams ps)\<lparr>ldm_bucketSizeLog := u32 v\<rparr>\<rparr>) (u32 v)"
| "ZSTD_CCtxParams_setParameter ps ZSTD_c_ldmHashRateLog v =
     checked0 ZSTD_c_ldmHashRateLog v ps (ps\<lparr>ldmParams := (ldmParams ps)\<lparr>ldm_hashRateLog := u32 v\<rparr>\<rparr>) (u32 v)"
| "ZSTD_CCtxParams_setParameter ps ZSTD_c_targetCBlockSize v =
     (let v = (if v \<noteq> 0 then max v (int ZSTD_TARGETCBLOCKSIZE_MIN) else v)
      in checked0 ZSTD_c_targetCBlockSize v ps (ps\<lparr>targetCBlockSize := u32 v\<rparr>) (u32 v))"
| "ZSTD_CCtxParams_setParameter ps ZSTD_c_srcSizeHint v =
     checked0 ZSTD_c_srcSizeHint v ps (ps\<lparr>srcSizeHint := v\<rparr>) (nat v)"
| "ZSTD_CCtxParams_setParameter ps ZSTD_c_stableInBuffer v =
     checked ZSTD_c_stableInBuffer v ps (ps\<lparr>inBufferMode := bm_of v\<rparr>) (nat (bm_int (bm_of v)))"
| "ZSTD_CCtxParams_setParameter ps ZSTD_c_stableOutBuffer v =
     checked ZSTD_c_stableOutBuffer v ps (ps\<lparr>outBufferMode := bm_of v\<rparr>) (nat (bm_int (bm_of v)))"
| "ZSTD_CCtxParams_setParameter ps ZSTD_c_blockDelimiters v =
     checked ZSTD_c_blockDelimiters v ps (ps\<lparr>blockDelimiters := sf_of v\<rparr>) (nat (sf_int (sf_of v)))"
| "ZSTD_CCtxParams_setParameter ps ZSTD_c_validateSequences v =
     checked ZSTD_c_validateSequences v ps (ps\<lparr>validateSequences := v\<rparr>) (nat v)"
| "ZSTD_CCtxParams_setParameter ps ZSTD_c_splitAfterSequences v =
     checked ZSTD_c_splitAfterSequences v ps (ps\<lparr>postBlockSplitter := ps_of v\<rparr>) (nat (ps_int (ps_of v)))"
| "ZSTD_CCtxParams_setParameter ps ZSTD_c_blockSplitterLevel v =
     checked ZSTD_c_blockSplitterLevel v ps (ps\<lparr>preBlockSplitter_level := v\<rparr>) (nat v)"
| "ZSTD_CCtxParams_setParameter ps ZSTD_c_useRowMatchFinder v =
     checked ZSTD_c_useRowMatchFinder v ps (ps\<lparr>useRowMatchFinder := ps_of v\<rparr>) (nat (ps_int (ps_of v)))"
| "ZSTD_CCtxParams_setParameter ps ZSTD_c_deterministicRefPrefix v =
     checked ZSTD_c_deterministicRefPrefix v ps (ps\<lparr>deterministicRefPrefix := flag v\<rparr>) (nat (flag v))"
| "ZSTD_CCtxParams_setParameter ps ZSTD_c_prefetchCDictTables v =
     checked ZSTD_c_prefetchCDictTables v ps (ps\<lparr>prefetchCDictTables := ps_of v\<rparr>) (nat (ps_int (ps_of v)))"
| "ZSTD_CCtxParams_setParameter ps ZSTD_c_enableSeqProducerFallback v =
     checked ZSTD_c_enableSeqProducerFallback v ps (ps\<lparr>enableMatchFinderFallback := v\<rparr>) (nat v)"
| "ZSTD_CCtxParams_setParameter ps ZSTD_c_maxBlockSize v =
     checked0 ZSTD_c_maxBlockSize v ps (ps\<lparr>maxBlockSize := nat v\<rparr>) (nat v)"
| "ZSTD_CCtxParams_setParameter ps ZSTD_c_repcodeResolution v =
     checked ZSTD_c_repcodeResolution v ps (ps\<lparr>searchForExternalRepcodes := ps_of v\<rparr>) (nat (ps_int (ps_of v)))"
| "ZSTD_CCtxParams_setParameter ps (ZSTD_c_other n) v = (ps, Inl ZSTD_error_parameter_unsupported)"

subsection \<open>Reading a parameter\<close>

fun ZSTD_CCtxParams_getParameter :: "ZSTD_CCtx_params \<Rightarrow> ZSTD_cParameter \<Rightarrow> int res" where
  "ZSTD_CCtxParams_getParameter ps ZSTD_c_format = Inr (format_int (p_format ps))"
| "ZSTD_CCtxParams_getParameter ps ZSTD_c_compressionLevel = Inr (compressionLevel ps)"
| "ZSTD_CCtxParams_getParameter ps ZSTD_c_windowLog = Inr (s32 (windowLog (cParams ps)))"
| "ZSTD_CCtxParams_getParameter ps ZSTD_c_hashLog = Inr (s32 (hashLog (cParams ps)))"
| "ZSTD_CCtxParams_getParameter ps ZSTD_c_chainLog = Inr (s32 (chainLog (cParams ps)))"
| "ZSTD_CCtxParams_getParameter ps ZSTD_c_searchLog = Inr (s32 (searchLog (cParams ps)))"
| "ZSTD_CCtxParams_getParameter ps ZSTD_c_minMatch = Inr (s32 (minMatch (cParams ps)))"
| "ZSTD_CCtxParams_getParameter ps ZSTD_c_targetLength = Inr (s32 (targetLength (cParams ps)))"
| "ZSTD_CCtxParams_getParameter ps ZSTD_c_strategy = Inr (s32 (strategy (cParams ps)))"
| "ZSTD_CCtxParams_getParameter ps ZSTD_c_contentSizeFlag = Inr (contentSizeFlag (fParams ps))"
| "ZSTD_CCtxParams_getParameter ps ZSTD_c_checksumFlag = Inr (checksumFlag (fParams ps))"
| "ZSTD_CCtxParams_getParameter ps ZSTD_c_dictIDFlag = Inr (1 - flag (noDictIDFlag (fParams ps)))"
| "ZSTD_CCtxParams_getParameter ps ZSTD_c_forceMaxWindow = Inr (forceWindow ps)"
| "ZSTD_CCtxParams_getParameter ps ZSTD_c_forceAttachDict = Inr (attach_int (attachDictPref ps))"
| "ZSTD_CCtxParams_getParameter ps ZSTD_c_literalCompressionMode = Inr (ps_int (literalCompressionMode ps))"
| "ZSTD_CCtxParams_getParameter ps ZSTD_c_nbWorkers = Inr (nbWorkers ps)"
| "ZSTD_CCtxParams_getParameter ps ZSTD_c_jobSize = Inr (s32 (jobSize ps))"
| "ZSTD_CCtxParams_getParameter ps ZSTD_c_overlapLog = Inr (overlapLog ps)"
| "ZSTD_CCtxParams_getParameter ps ZSTD_c_rsyncable = Inr (rsyncable ps)"
| "ZSTD_CCtxParams_getParameter ps ZSTD_c_enableDedicatedDictSearch = Inr (enableDedicatedDictSearch ps)"
| "ZSTD_CCtxParams_getParameter ps ZSTD_c_enableLongDistanceMatching = Inr (ps_int (enableLdm (ldmParams ps)))"
| "ZSTD_CCtxParams_getParameter ps ZSTD_c_ldmHashLog = Inr (s32 (ldm_hashLog (ldmParams ps)))"
| "ZSTD_CCtxParams_getParameter ps ZSTD_c_ldmMinMatch = Inr (s32 (ldm_minMatchLength (ldmParams ps)))"
| "ZSTD_CCtxParams_getParameter ps ZSTD_c_ldmBucketSizeLog = Inr (s32 (ldm_bucketSizeLog (ldmParams ps)))"
| "ZSTD_CCtxParams_getParameter ps ZSTD_c_ldmHashRateLog = Inr (s32 (ldm_hashRateLog (ldmParams ps)))"
| "ZSTD_CCtxParams_getParameter ps ZSTD_c_targetCBlockSize = Inr (s32 (targetCBlockSize ps))"
| "ZSTD_CCtxParams_getParameter ps ZSTD_c_srcSizeHint = Inr (srcSizeHint ps)"
| "ZSTD_CCtxParams_getParameter ps ZSTD_c_stableInBuffer = Inr (bm_int (inBufferMode ps))"
| "ZSTD_CCtxParams_getParameter ps ZSTD_c_stableOutBuffer = Inr (bm_int (outBufferMode ps))"
| "ZSTD_CCtxParams_getParameter ps ZSTD_c_blockDelimiters = Inr (sf_int (blockDelimiters ps))"
| "ZSTD_CCtxParams_getParameter ps ZSTD_c_validateSequences = Inr (validateSequences ps)"
| "ZSTD_CCtxParams_getParameter ps ZSTD_c_splitAfterSequences = Inr (ps_int (postBlockSplitter ps))"
| "ZSTD_CCtxParams_getParameter ps ZSTD_c_blockSplitterLevel = Inr (preBlockSplitter_level ps)"
| "ZSTD_CCtxParams_getParameter ps ZSTD_c_useRowMatchFinder = Inr (ps_int (useRowMatchFinder ps))"
| "ZSTD_CCtxParams_getParameter ps ZSTD_c_deterministicRefPrefix = Inr (deterministicRefPrefix ps)"
| "ZSTD_CCtxParams_getParameter ps ZSTD_c_prefetchCDictTables = Inr (ps_int (prefetchCDictTables ps))"
| "ZSTD_CCtxParams_getParameter ps ZSTD_c_enableSeqProducerFallback = Inr (enableMatchFinderFallback ps)"
| "ZSTD_CCtxParams_getParameter ps ZSTD_c_maxBlockSize = Inr (s32 (maxBlockSize ps))"
| "ZSTD_CCtxParams_getParameter ps ZSTD_c_repcodeResolution = Inr (ps_int (searchForExternalRepcodes ps))"
| "ZSTD_CCtxParams_getParameter ps (ZSTD_c_other n) = Inl ZSTD_error_parameter_unsupported"

subsection \<open>The parameters in effect\<close>

definition ZSTD_getCParamsFromCCtxParams :: "ZSTD_CCtx_params \<Rightarrow> nat \<Rightarrow> nat \<Rightarrow> ZSTD_CParamMode_e \<Rightarrow>
    ZSTD_compressionParameters" where
  "ZSTD_getCParamsFromCCtxParams ps hint dictSize mode =
     (let hint = (if hint = ZSTD_CONTENTSIZE_UNKNOWN \<and> srcSizeHint ps > 0 then nat (srcSizeHint ps) else hint);
          cp = ZSTD_getCParams_internal (compressionLevel ps) hint dictSize mode;
          cp = (if enableLdm (ldmParams ps) = ZSTD_ps_enable then cp\<lparr>windowLog := ZSTD_LDM_DEFAULT_WINDOW_LOG\<rparr> else cp);
          cp = ZSTD_overrideCParams cp (cParams ps)
      in ZSTD_adjustCParams_internal cp hint dictSize mode (useRowMatchFinder ps))"

subsection \<open>What a setter stores\<close>

text \<open>The value a parameter has after it was set to \<open>v\<close>.\<close>

definition cparam_stored :: "ZSTD_cParameter \<Rightarrow> int \<Rightarrow> int" where
  "cparam_stored p v =
     (case p of
        ZSTD_c_compressionLevel \<Rightarrow> (let v = max ZSTD_minCLevel (min v ZSTD_maxCLevel) in if v = 0 then 3 else v)
      | ZSTD_c_contentSizeFlag \<Rightarrow> flag v
      | ZSTD_c_checksumFlag \<Rightarrow> flag v
      | ZSTD_c_dictIDFlag \<Rightarrow> flag v
      | ZSTD_c_forceMaxWindow \<Rightarrow> flag v
      | ZSTD_c_enableDedicatedDictSearch \<Rightarrow> flag v
      | ZSTD_c_nbWorkers \<Rightarrow> max 0 (min v ZSTDMT_NBWORKERS_MAX)
      | ZSTD_c_jobSize \<Rightarrow>
          (if v = 0 then 0 else max ZSTDMT_JOBSIZE_MIN (min v ZSTDMT_JOBSIZE_MAX))
      | ZSTD_c_overlapLog \<Rightarrow> max 0 (min v 9)
      | ZSTD_c_rsyncable \<Rightarrow> max 0 (min v 9)
      | ZSTD_c_targetCBlockSize \<Rightarrow> (if v = 0 then 0 else max v 1340)
      | _ \<Rightarrow> v)"

lemma s32_u32: "0 \<le> v \<Longrightarrow> v < 2 ^ 31 \<Longrightarrow> s32 (u32 v) = v"
  by (simp add: s32_def u32_def)

lemma s32_nat: "0 \<le> v \<Longrightarrow> v < 2 ^ 31 \<Longrightarrow> s32 (nat v) = v"
  by (simp add: s32_def)

lemma s32_0 [simp]: "s32 0 = 0"
  by (simp add: s32_def)

lemma u32_0 [simp]: "u32 0 = 0"
  by (simp add: u32_def)

lemma enum_of_int:
  "0 \<le> v \<Longrightarrow> v \<le> 1 \<Longrightarrow> format_int (format_of v) = v"
  "0 \<le> v \<Longrightarrow> v \<le> 3 \<Longrightarrow> attach_int (attach_of v) = v"
  "0 \<le> v \<Longrightarrow> v \<le> 2 \<Longrightarrow> ps_int (ps_of v) = v"
  "0 \<le> v \<Longrightarrow> v \<le> 1 \<Longrightarrow> sf_int (sf_of v) = v"
  "0 \<le> v \<Longrightarrow> v \<le> 1 \<Longrightarrow> bm_int (bm_of v) = v"
  by (auto simp: format_of_def attach_of_def ps_of_def sf_of_def bm_of_def)

lemma flag_bool [simp]: "flag 0 = 0" "flag (1 - flag v) = 1 - flag v" "flag (flag v) = flag v"
  by (auto simp: flag_def)

lemma flag_01: "0 \<le> v \<Longrightarrow> v \<le> 1 \<Longrightarrow> flag v = v"
  by (auto simp: flag_def)

lemmas within_simps = ZSTD_cParam_withinBounds_def bounds_def zstd_limits ZSTD_minCLevel_def ZSTD_maxCLevel_def

lemma checked_Inr: "checked p v ps ps1 r = (ps', Inr r') \<longleftrightarrow> ZSTD_cParam_withinBounds p v \<and> ps' = ps1 \<and> r' = r"
  by (auto simp: checked_def)

lemma checked0_Inr: "checked0 p v ps ps1 r = (ps', Inr r') \<longleftrightarrow> (v = 0 \<or> ZSTD_cParam_withinBounds p v) \<and> ps' = ps1 \<and> r' = r"
  by (auto simp: checked0_def checked_def)

lemma clamped_eq:
  assumes "ZSTD_cParam_getBounds p = bounds lo hi" "lo \<le> hi"
  shows "clamped p v ps f = (case f (max lo (min v hi)) of (ps', r) \<Rightarrow> (ps', Inr r))"
  using assms(2) by (auto simp: clamped_def ZSTD_cParam_clampBounds_def assms(1) bounds_def Let_def max_def min_def
      split: prod.splits)

lemma clamp_bounds:
  "ZSTD_cParam_getBounds ZSTD_c_compressionLevel = bounds (-131072) 22"
  "ZSTD_cParam_getBounds ZSTD_c_nbWorkers = bounds 0 256"
  "ZSTD_cParam_getBounds ZSTD_c_jobSize = bounds 0 1073741824"
  "ZSTD_cParam_getBounds ZSTD_c_overlapLog = bounds 0 9"
  by (simp_all add: zstd_limits ZSTD_minCLevel_def ZSTD_maxCLevel_def)

lemmas clamped_simps = clamp_bounds [THEN clamped_eq, simplified]

lemma set_stores:
  assumes "ZSTD_CCtxParams_setParameter ps p v = (ps', Inr r)"
  shows "ZSTD_CCtxParams_getParameter ps' p = Inr (cparam_stored p v)"
  using assms
  by (cases p) (auto simp: checked_Inr checked0_Inr clamped_simps cparam_stored_def Let_def within_simps s32_u32 s32_nat
      enum_of_int flag_01)

lemma set_frame:
  assumes "ZSTD_CCtxParams_setParameter ps p v = (ps', r)" "q \<noteq> p"
  shows "ZSTD_CCtxParams_getParameter ps' q = ZSTD_CCtxParams_getParameter ps q"
proof -
  have "ZSTD_CCtxParams_getParameter (fst (ZSTD_CCtxParams_setParameter ps p v)) q = ZSTD_CCtxParams_getParameter ps q"
    using assms(2)
    by (cases p; simp add: checked_def checked0_def clamped_simps Let_def; cases q; simp)
  then show ?thesis using assms(1) by simp
qed

lemma set_fails:
  "ZSTD_CCtxParams_setParameter ps p v = (ps', Inl e) \<Longrightarrow>
   ps' = ps \<and> (e = ZSTD_error_parameter_unsupported \<and> (\<exists>n. p = ZSTD_c_other n) \<or>
     e = ZSTD_error_parameter_outOfBound \<and> \<not> ZSTD_cParam_withinBounds p v)"
  by (cases p) (auto simp: checked_def checked0_def clamped_simps Let_def within_simps split: if_splits)

subsection \<open>Parameter sets that hold valid values\<close>

text \<open>Every parameter is 0 (its default) or within its bounds; \<open>ZSTD_c_rsyncable\<close> is left out,
  since its setter clamps to the bounds of another parameter.\<close>

definition params_ok :: "ZSTD_CCtx_params \<Rightarrow> bool" where
  "params_ok ps \<longleftrightarrow> cparams_u32 (cParams ps) \<and>
     (\<forall>p v. p \<noteq> ZSTD_c_rsyncable \<longrightarrow> ZSTD_CCtxParams_getParameter ps p = Inr v \<longrightarrow>
        v = 0 \<or> ZSTD_cParam_withinBounds p v)"

lemma stored_within:
  assumes "ZSTD_CCtxParams_setParameter ps p v = (ps', Inr r)" "p \<noteq> ZSTD_c_rsyncable"
  shows "cparam_stored p v = 0 \<or> ZSTD_cParam_withinBounds p (cparam_stored p v)"
  using assms
  by (cases p) (auto simp: checked_Inr checked0_Inr clamped_simps cparam_stored_def Let_def within_simps flag_def)

lemma set_keeps_u32:
  assumes "cparams_u32 (cParams ps)"
  shows "cparams_u32 (cParams (fst (ZSTD_CCtxParams_setParameter ps p v)))"
proof -
  have "u32 v < 2 ^ 32" by (simp add: u32_def nat_less_iff)
  with assms show ?thesis
    by (cases p) (auto simp: checked_def checked0_def clamped_simps cparams_u32_def Let_def)
qed

lemma set_keeps_ok:
  assumes "params_ok ps" "ZSTD_CCtxParams_setParameter ps p v = (ps', r)"
  shows "params_ok ps'"
proof (cases r)
  case (Inl e)
  then show ?thesis using set_fails [of ps p v ps' e] assms by simp
next
  case (Inr x)
  have s: "ZSTD_CCtxParams_setParameter ps p v = (ps', Inr x)" using assms(2) Inr by simp
  have "u = 0 \<or> ZSTD_cParam_withinBounds q u"
    if "q \<noteq> ZSTD_c_rsyncable" "ZSTD_CCtxParams_getParameter ps' q = Inr u" for q u
  proof (cases "q = p")
    case True
    then show ?thesis using set_stores [OF s] stored_within [OF s] that by simp
  next
    case False
    then show ?thesis using set_frame [OF s False] assms(1) that unfolding params_ok_def by simp
  qed
  moreover have "cparams_u32 (cParams ps')"
    using set_keeps_u32 [of ps p v] assms by (simp add: params_ok_def)
  ultimately show ?thesis by (simp add: params_ok_def)
qed

lemma params_ok_init: "-131072 \<le> level \<Longrightarrow> level \<le> 22 \<Longrightarrow> params_ok (ZSTD_CCtxParams_init level)"
  unfolding params_ok_def
proof (intro conjI allI impI)
  fix p v
  assume l: "-131072 \<le> level" "level \<le> 22"
    and g: "ZSTD_CCtxParams_getParameter (ZSTD_CCtxParams_init level) p = Inr v"
  show "v = 0 \<or> ZSTD_cParam_withinBounds p v"
    using l g by (cases p) (auto simp: ZSTD_CCtxParams_init_def cctx_params_zero_def cpar_def within_simps flag_def)
qed (simp add: ZSTD_CCtxParams_init_def cctx_params_zero_def cpar_def cparams_u32_def)

lemma params_ok_field:
  assumes "params_ok ps" "ZSTD_CCtxParams_getParameter ps p = Inr (s32 n)" "n \<noteq> 0" "n < 2 ^ 32"
    "p \<noteq> ZSTD_c_rsyncable" "ZSTD_cParam_getBounds p = bounds (int lo) (int hi)" "hi < 2 ^ 31"
  shows "lo \<le> n \<and> n \<le> hi"
proof -
  have "s32 n \<noteq> 0"
    using assms(3,4) by (auto simp: s32_def Let_def split: if_splits)
  then have "ZSTD_cParam_withinBounds p (s32 n)" using assms(1,2,5) unfolding params_ok_def by blast
  then show ?thesis using within_iff [OF assms(6,7,4)] by simp
qed

lemma override_within:
  assumes "cparams_within cp" "params_ok ps"
  shows "cparams_within (ZSTD_overrideCParams cp (cParams ps))"
proof -
  note u = assms(2) [unfolded params_ok_def cparams_u32_def]
  note f = params_ok_field [OF assms(2)]
  have "windowLog (cParams ps) \<noteq> 0 \<Longrightarrow> 10 \<le> windowLog (cParams ps) \<and> windowLog (cParams ps) \<le> 31"
    "chainLog (cParams ps) \<noteq> 0 \<Longrightarrow> 6 \<le> chainLog (cParams ps) \<and> chainLog (cParams ps) \<le> 30"
    "hashLog (cParams ps) \<noteq> 0 \<Longrightarrow> 6 \<le> hashLog (cParams ps) \<and> hashLog (cParams ps) \<le> 30"
    "searchLog (cParams ps) \<noteq> 0 \<Longrightarrow> 1 \<le> searchLog (cParams ps) \<and> searchLog (cParams ps) \<le> 30"
    "minMatch (cParams ps) \<noteq> 0 \<Longrightarrow> 3 \<le> minMatch (cParams ps) \<and> minMatch (cParams ps) \<le> 7"
    "targetLength (cParams ps) \<noteq> 0 \<Longrightarrow> 0 \<le> targetLength (cParams ps) \<and> targetLength (cParams ps) \<le> 2 ^ 17"
    "strategy (cParams ps) \<noteq> 0 \<Longrightarrow> 1 \<le> strategy (cParams ps) \<and> strategy (cParams ps) \<le> 9"
    using u by (intro f [where p = ZSTD_c_windowLog] f [where p = ZSTD_c_chainLog] f [where p = ZSTD_c_hashLog]
        f [where p = ZSTD_c_searchLog] f [where p = ZSTD_c_minMatch] f [where p = ZSTD_c_targetLength]
        f [where p = ZSTD_c_strategy] cparam_bounds; simp)+
  with assms(1) show ?thesis by (simp add: ZSTD_overrideCParams_def cparams_within_def)
qed

lemma effective_within:
  assumes "params_ok ps" "dictSize < 2 ^ 63"
  shows "cparams_within (ZSTD_getCParamsFromCCtxParams ps hint dictSize mode)"
proof -
  have "cparams_within (if enableLdm (ldmParams ps) = ZSTD_ps_enable
       then (ZSTD_getCParams_internal (compressionLevel ps) h dictSize mode)\<lparr>windowLog := ZSTD_LDM_DEFAULT_WINDOW_LOG\<rparr>
       else ZSTD_getCParams_internal (compressionLevel ps) h dictSize mode)" for h
    using level_cparams_within [OF assms(2), of "compressionLevel ps" h mode]
    by (auto simp: cparams_within_def zstd_limits)
  then show ?thesis
    unfolding ZSTD_getCParamsFromCCtxParams_def Let_def
    by (intro adjusted_within override_within assms)
qed

subsection \<open>Properties\<close>

text \<open>
  Parameters obey the laws of a store. When setting a parameter succeeds, reading it returns the
  value the documentation promises (the level clamped and 0 replaced by the default, flags
  normalized, thread parameters clamped, the target block size raised to its minimum, every other
  value as given), and no other parameter changes. When it fails, nothing changes, and the error
  is \<open>parameter_unsupported\<close> exactly for unknown parameters and otherwise
  \<open>parameter_outOfBound\<close> for a value outside the bounds \<open>ZSTD_cParam_getBounds\<close> reports.
\<close>

lemma param_set_get:
  assumes "ZSTD_CCtxParams_setParameter ps p v = (ps', r)"
  shows "case r of
      Inr _ \<Rightarrow> ZSTD_CCtxParams_getParameter ps' p = Inr (cparam_stored p v) \<and>
        (\<forall>q. q \<noteq> p \<longrightarrow> ZSTD_CCtxParams_getParameter ps' q = ZSTD_CCtxParams_getParameter ps q)
    | Inl e \<Rightarrow> ps' = ps \<and>
        (e = ZSTD_error_parameter_unsupported \<and> (\<exists>n. p = ZSTD_c_other n) \<or>
         e = ZSTD_error_parameter_outOfBound \<and> \<not> ZSTD_cParam_withinBounds p v)"
proof (cases r)
  case (Inl e)
  then show ?thesis using set_fails [of ps p v ps' e] assms by simp
next
  case (Inr x)
  then show ?thesis using set_stores [of ps p v ps' x] set_frame [OF assms] assms by simp
qed


end
