(* ===== verification/Zstd_CCtx.thy ===== *)
theory Zstd_CCtx
  imports Zstd_CCtx_Params
begin

text \<open>
  The parameter and dictionary interface of a compression context (\<open>zstd_compress.c\<close>): the
  operations with the stage of the stream they depend on, and the contexts that any sequence of
  calls leads to.
\<close>

subsection \<open>The context\<close>

datatype ZSTD_cStreamStage = zcss_init | zcss_load | zcss_flush
datatype ZSTD_ResetDirective = ZSTD_reset_session_only | ZSTD_reset_parameters | ZSTD_reset_session_and_parameters
datatype ZSTD_dictContentType_e = ZSTD_dct_auto | ZSTD_dct_rawContent | ZSTD_dct_fullDict
datatype ZSTD_dictLoadMethod_e = ZSTD_dlm_byCopy | ZSTD_dlm_byRef

record ZSTD_localDict =
  ld_dictBuffer :: "nat option"
  ld_dict :: "nat option"
  ld_dictSize :: nat
  ld_dictContentType :: ZSTD_dictContentType_e
  ld_cdict :: "nat option"

record ZSTD_prefixDict =
  pd_dict :: "nat option"
  pd_dictSize :: nat
  pd_dictContentType :: ZSTD_dictContentType_e

text \<open>The fields of the context that the parameter interface reads or writes.\<close>

record ZSTD_CCtx =
  cParamsChanged :: bool
  requestedParams :: ZSTD_CCtx_params
  pledgedSrcSizePlusOne :: nat
  staticSize :: nat
  streamStage :: ZSTD_cStreamStage
  localDict :: ZSTD_localDict
  cdict :: "nat option"
  prefixDict :: ZSTD_prefixDict
  pool :: "nat option"

fun ZSTD_isUpdateAuthorized :: "ZSTD_cParameter \<Rightarrow> bool" where
  "ZSTD_isUpdateAuthorized ZSTD_c_compressionLevel = True"
| "ZSTD_isUpdateAuthorized ZSTD_c_hashLog = True"
| "ZSTD_isUpdateAuthorized ZSTD_c_chainLog = True"
| "ZSTD_isUpdateAuthorized ZSTD_c_searchLog = True"
| "ZSTD_isUpdateAuthorized ZSTD_c_minMatch = True"
| "ZSTD_isUpdateAuthorized ZSTD_c_targetLength = True"
| "ZSTD_isUpdateAuthorized ZSTD_c_strategy = True"
| "ZSTD_isUpdateAuthorized ZSTD_c_blockSplitterLevel = True"
| "ZSTD_isUpdateAuthorized _ = False"

text \<open>The second switch of \<open>ZSTD_CCtx_setParameter\<close>: the parameters a context knows, with the
  extra condition on the workers of a static context.\<close>

definition cctx_param_error :: "ZSTD_CCtx \<Rightarrow> ZSTD_cParameter \<Rightarrow> int \<Rightarrow> bool" where
  "cctx_param_error cctx p v =
     (case p of
        ZSTD_c_nbWorkers \<Rightarrow> v \<noteq> 0 \<and> staticSize cctx \<noteq> 0
      | ZSTD_c_other _ \<Rightarrow> True
      | _ \<Rightarrow> False)"

definition ZSTD_CCtx_setParameter :: "ZSTD_CCtx \<Rightarrow> ZSTD_cParameter \<Rightarrow> int \<Rightarrow> ZSTD_CCtx \<times> nat res" where
  "ZSTD_CCtx_setParameter cctx p v =
     (if streamStage cctx \<noteq> zcss_init \<and> \<not> ZSTD_isUpdateAuthorized p then (cctx, Inl ZSTD_error_stage_wrong)
      else
        (let cctx = (if streamStage cctx \<noteq> zcss_init then cctx\<lparr>cParamsChanged := True\<rparr> else cctx) in
         if cctx_param_error cctx p v then (cctx, Inl ZSTD_error_parameter_unsupported)
         else (case ZSTD_CCtxParams_setParameter (requestedParams cctx) p v of
                 (ps, r) \<Rightarrow> (cctx\<lparr>requestedParams := ps\<rparr>, r))))"

definition ZSTD_CCtx_getParameter :: "ZSTD_CCtx \<Rightarrow> ZSTD_cParameter \<Rightarrow> int res" where
  "ZSTD_CCtx_getParameter cctx p = ZSTD_CCtxParams_getParameter (requestedParams cctx) p"

definition ZSTD_CCtx_setParametersUsingCCtxParams :: "ZSTD_CCtx \<Rightarrow> ZSTD_CCtx_params \<Rightarrow> ZSTD_CCtx \<times> nat res" where
  "ZSTD_CCtx_setParametersUsingCCtxParams cctx params =
     (if streamStage cctx \<noteq> zcss_init then (cctx, Inl ZSTD_error_stage_wrong)
      else if cdict cctx \<noteq> None then (cctx, Inl ZSTD_error_stage_wrong)
      else (cctx\<lparr>requestedParams := params\<rparr>, Inr 0))"

text \<open>\<open>FORWARD_IF_ERROR\<close> over a sequence of settings.\<close>

fun set_all :: "ZSTD_CCtx \<Rightarrow> (ZSTD_cParameter \<times> int) list \<Rightarrow> ZSTD_CCtx \<times> nat res" where
  "set_all cctx [] = (cctx, Inr 0)"
| "set_all cctx ((p, v) # pvs) =
     (case ZSTD_CCtx_setParameter cctx p v of
        (cctx, Inl e) \<Rightarrow> (cctx, Inl e)
      | (cctx, Inr _) \<Rightarrow> set_all cctx pvs)"

definition ZSTD_CCtx_setCParams :: "ZSTD_CCtx \<Rightarrow> ZSTD_compressionParameters \<Rightarrow> ZSTD_CCtx \<times> nat res" where
  "ZSTD_CCtx_setCParams cctx cp =
     (case ZSTD_checkCParams cp of
        Inl e \<Rightarrow> (cctx, Inl e)
      | Inr _ \<Rightarrow> set_all cctx
          [(ZSTD_c_windowLog, s32 (windowLog cp)), (ZSTD_c_chainLog, s32 (chainLog cp)),
           (ZSTD_c_hashLog, s32 (hashLog cp)), (ZSTD_c_searchLog, s32 (searchLog cp)),
           (ZSTD_c_minMatch, s32 (minMatch cp)), (ZSTD_c_targetLength, s32 (targetLength cp)),
           (ZSTD_c_strategy, s32 (strategy cp))])"

definition ZSTD_CCtx_setFParams :: "ZSTD_CCtx \<Rightarrow> ZSTD_frameParameters \<Rightarrow> ZSTD_CCtx \<times> nat res" where
  "ZSTD_CCtx_setFParams cctx fp = set_all cctx
     [(ZSTD_c_contentSizeFlag, flag (contentSizeFlag fp)), (ZSTD_c_checksumFlag, flag (checksumFlag fp)),
      (ZSTD_c_dictIDFlag, 1 - flag (noDictIDFlag fp))]"

definition ZSTD_CCtx_setParams :: "ZSTD_CCtx \<Rightarrow> ZSTD_parameters \<Rightarrow> ZSTD_CCtx \<times> nat res" where
  "ZSTD_CCtx_setParams cctx params =
     (case ZSTD_checkCParams (zp_cParams params) of
        Inl e \<Rightarrow> (cctx, Inl e)
      | Inr _ \<Rightarrow>
          (case ZSTD_CCtx_setFParams cctx (zp_fParams params) of
             (cctx, Inl e) \<Rightarrow> (cctx, Inl e)
           | (cctx, Inr _) \<Rightarrow> ZSTD_CCtx_setCParams cctx (zp_cParams params)))"

definition ZSTD_CCtx_setPledgedSrcSize :: "ZSTD_CCtx \<Rightarrow> nat \<Rightarrow> ZSTD_CCtx \<times> nat res" where
  "ZSTD_CCtx_setPledgedSrcSize cctx pledgedSrcSize =
     (if streamStage cctx \<noteq> zcss_init then (cctx, Inl ZSTD_error_stage_wrong)
      else (cctx\<lparr>pledgedSrcSizePlusOne := (pledgedSrcSize + 1) mod 2 ^ 64\<rparr>, Inr 0))"

subsection \<open>Dictionaries of the context\<close>

definition localDict_null :: ZSTD_localDict where
  "localDict_null = \<lparr>ld_dictBuffer = None, ld_dict = None, ld_dictSize = 0, ld_dictContentType = ZSTD_dct_auto,
     ld_cdict = None\<rparr>"

definition prefixDict_null :: ZSTD_prefixDict where
  "prefixDict_null = \<lparr>pd_dict = None, pd_dictSize = 0, pd_dictContentType = ZSTD_dct_auto\<rparr>"

definition ZSTD_clearAllDicts :: "ZSTD_CCtx \<Rightarrow> ZSTD_CCtx" where
  "ZSTD_clearAllDicts cctx = cctx\<lparr>localDict := localDict_null, prefixDict := prefixDict_null, cdict := None\<rparr>"

text \<open>\<open>malloc\<close> is the result of the allocator, \<open>None\<close> when it fails.\<close>

definition ZSTD_CCtx_loadDictionary_advanced :: "nat option \<Rightarrow> ZSTD_CCtx \<Rightarrow> nat option \<Rightarrow> nat \<Rightarrow>
    ZSTD_dictLoadMethod_e \<Rightarrow> ZSTD_dictContentType_e \<Rightarrow> ZSTD_CCtx \<times> nat res" where
  "ZSTD_CCtx_loadDictionary_advanced malloc cctx dict dictSize dictLoadMethod dictContentType =
     (if streamStage cctx \<noteq> zcss_init then (cctx, Inl ZSTD_error_stage_wrong)
      else
        (let cctx = ZSTD_clearAllDicts cctx;
             loaded = (\<lambda>l. (cctx\<lparr>localDict := l\<lparr>ld_dictSize := dictSize, ld_dictContentType := dictContentType\<rparr>\<rparr>, Inr 0)) in
         if dict = None \<or> dictSize = 0 then (cctx, Inr 0)
         else case dictLoadMethod of
           ZSTD_dlm_byRef \<Rightarrow> loaded ((localDict cctx)\<lparr>ld_dict := dict\<rparr>)
         | ZSTD_dlm_byCopy \<Rightarrow>
             (if staticSize cctx \<noteq> 0 then (cctx, Inl ZSTD_error_memory_allocation)
              else if malloc = None then (cctx, Inl ZSTD_error_memory_allocation)
              else loaded ((localDict cctx)\<lparr>ld_dictBuffer := malloc, ld_dict := malloc\<rparr>))))"

definition ZSTD_CCtx_loadDictionary_byReference :: "nat option \<Rightarrow> ZSTD_CCtx \<Rightarrow> nat option \<Rightarrow> nat \<Rightarrow> ZSTD_CCtx \<times> nat res" where
  "ZSTD_CCtx_loadDictionary_byReference malloc cctx dict dictSize =
     ZSTD_CCtx_loadDictionary_advanced malloc cctx dict dictSize ZSTD_dlm_byRef ZSTD_dct_auto"

definition ZSTD_CCtx_loadDictionary :: "nat option \<Rightarrow> ZSTD_CCtx \<Rightarrow> nat option \<Rightarrow> nat \<Rightarrow> ZSTD_CCtx \<times> nat res" where
  "ZSTD_CCtx_loadDictionary malloc cctx dict dictSize =
     ZSTD_CCtx_loadDictionary_advanced malloc cctx dict dictSize ZSTD_dlm_byCopy ZSTD_dct_auto"

definition ZSTD_CCtx_refCDict :: "ZSTD_CCtx \<Rightarrow> nat option \<Rightarrow> ZSTD_CCtx \<times> nat res" where
  "ZSTD_CCtx_refCDict cctx cd =
     (if streamStage cctx \<noteq> zcss_init then (cctx, Inl ZSTD_error_stage_wrong)
      else ((ZSTD_clearAllDicts cctx)\<lparr>cdict := cd\<rparr>, Inr 0))"

definition ZSTD_CCtx_refThreadPool :: "ZSTD_CCtx \<Rightarrow> nat option \<Rightarrow> ZSTD_CCtx \<times> nat res" where
  "ZSTD_CCtx_refThreadPool cctx p =
     (if streamStage cctx \<noteq> zcss_init then (cctx, Inl ZSTD_error_stage_wrong)
      else (cctx\<lparr>pool := p\<rparr>, Inr 0))"

definition ZSTD_CCtx_refPrefix_advanced :: "ZSTD_CCtx \<Rightarrow> nat option \<Rightarrow> nat \<Rightarrow> ZSTD_dictContentType_e \<Rightarrow>
    ZSTD_CCtx \<times> nat res" where
  "ZSTD_CCtx_refPrefix_advanced cctx prefix prefixSize dictContentType =
     (if streamStage cctx \<noteq> zcss_init then (cctx, Inl ZSTD_error_stage_wrong)
      else
        (let cctx = ZSTD_clearAllDicts cctx in
         if prefix \<noteq> None \<and> prefixSize > 0
         then (cctx\<lparr>prefixDict := \<lparr>pd_dict = prefix, pd_dictSize = prefixSize, pd_dictContentType = dictContentType\<rparr>\<rparr>, Inr 0)
         else (cctx, Inr 0)))"

definition ZSTD_CCtx_refPrefix :: "ZSTD_CCtx \<Rightarrow> nat option \<Rightarrow> nat \<Rightarrow> ZSTD_CCtx \<times> nat res" where
  "ZSTD_CCtx_refPrefix cctx prefix prefixSize = ZSTD_CCtx_refPrefix_advanced cctx prefix prefixSize ZSTD_dct_rawContent"

definition ZSTD_CCtx_reset :: "ZSTD_CCtx \<Rightarrow> ZSTD_ResetDirective \<Rightarrow> ZSTD_CCtx \<times> nat res" where
  "ZSTD_CCtx_reset cctx reset =
     (let cctx = (if reset = ZSTD_reset_session_only \<or> reset = ZSTD_reset_session_and_parameters
                  then cctx\<lparr>streamStage := zcss_init, pledgedSrcSizePlusOne := 0\<rparr> else cctx) in
      if reset = ZSTD_reset_parameters \<or> reset = ZSTD_reset_session_and_parameters then
        (if streamStage cctx \<noteq> zcss_init then (cctx, Inl ZSTD_error_stage_wrong)
         else ((ZSTD_clearAllDicts cctx)\<lparr>requestedParams := ZSTD_CCtxParams_reset\<rparr>, Inr 0))
      else (cctx, Inr 0))"

text \<open>A context after creation: all zero, then its parameters are reset. \<open>sz\<close> is the size of a
  static context and 0 otherwise.\<close>

definition ZSTD_initCCtx :: "nat \<Rightarrow> ZSTD_CCtx" where
  "ZSTD_initCCtx sz = fst (ZSTD_CCtx_reset
     \<lparr>cParamsChanged = False, requestedParams = cctx_params_zero, pledgedSrcSizePlusOne = 0, staticSize = sz,
      streamStage = zcss_init, localDict = localDict_null, cdict = None, prefixDict = prefixDict_null, pool = None\<rparr>
     ZSTD_reset_parameters)"

subsection \<open>Histories of a context\<close>

text \<open>A context any calls of the interface can lead to. Compression itself moves the stream
  stage; creating the digested dictionary of a local one (\<open>ZSTD_initLocalDict\<close>) stores the
  result \<open>cd\<close> of the dictionary builder.\<close>

inductive cctx_reach :: "ZSTD_CCtx \<Rightarrow> bool" where
  reach_init: "cctx_reach (ZSTD_initCCtx sz)"
| reach_stage: "cctx_reach c \<Longrightarrow> cctx_reach (c\<lparr>streamStage := st\<rparr>)"
| reach_set: "cctx_reach c \<Longrightarrow> cctx_reach (fst (ZSTD_CCtx_setParameter c p v))"
| reach_using: "cctx_reach c \<Longrightarrow> cctx_reach d \<Longrightarrow>
    cctx_reach (fst (ZSTD_CCtx_setParametersUsingCCtxParams c (requestedParams d)))"
| reach_params: "cctx_reach c \<Longrightarrow> cctx_reach (fst (ZSTD_CCtx_setParams c params))"
| reach_pledge: "cctx_reach c \<Longrightarrow> cctx_reach (fst (ZSTD_CCtx_setPledgedSrcSize c n))"
| reach_load: "cctx_reach c \<Longrightarrow>
    cctx_reach (fst (ZSTD_CCtx_loadDictionary_advanced malloc c dict dictSize method ty))"
| reach_local: "cctx_reach c \<Longrightarrow> ld_dict (localDict c) \<noteq> None \<Longrightarrow> ld_cdict (localDict c) = None \<Longrightarrow>
    cctx_reach (c\<lparr>localDict := (localDict c)\<lparr>ld_cdict := Some cd\<rparr>, cdict := Some cd\<rparr>)"
| reach_cdict: "cctx_reach c \<Longrightarrow> cctx_reach (fst (ZSTD_CCtx_refCDict c cd))"
| reach_pool: "cctx_reach c \<Longrightarrow> cctx_reach (fst (ZSTD_CCtx_refThreadPool c p))"
| reach_prefix: "cctx_reach c \<Longrightarrow> cctx_reach (fst (ZSTD_CCtx_refPrefix_advanced c prefix n ty))"
| reach_reset: "cctx_reach c \<Longrightarrow> cctx_reach (fst (ZSTD_CCtx_reset c d))"

text \<open>At most one dictionary is in force: a digested dictionary of another owner, a local one
  (digested or not), or a prefix.\<close>

definition one_dict :: "ZSTD_CCtx \<Rightarrow> bool" where
  "one_dict c \<longleftrightarrow>
     (ld_dict (localDict c) \<noteq> None \<longrightarrow> pd_dict (prefixDict c) = None \<and> cdict c = ld_cdict (localDict c)) \<and>
     (ld_dict (localDict c) = None \<longrightarrow> ld_cdict (localDict c) = None \<and> ld_dictBuffer (localDict c) = None) \<and>
     (pd_dict (prefixDict c) \<noteq> None \<longrightarrow> cdict c = None)"

lemma one_dict_clear: "one_dict (ZSTD_clearAllDicts c)"
  by (simp add: one_dict_def ZSTD_clearAllDicts_def localDict_null_def prefixDict_null_def)

text \<open>Setters touch neither dictionaries nor the stage.\<close>

definition same_dicts :: "ZSTD_CCtx \<Rightarrow> ZSTD_CCtx \<Rightarrow> bool" where
  "same_dicts c d \<longleftrightarrow> localDict d = localDict c \<and> cdict d = cdict c \<and> prefixDict d = prefixDict c \<and>
     streamStage d = streamStage c \<and> staticSize d = staticSize c \<and>
     pledgedSrcSizePlusOne d = pledgedSrcSizePlusOne c"

lemma set_same:
  assumes "ZSTD_CCtx_setParameter c p v = (d, r)" "params_ok (requestedParams c)"
  shows "same_dicts c d \<and> params_ok (requestedParams d)"
proof -
  obtain ps r' where s: "ZSTD_CCtxParams_setParameter (requestedParams c) p v = (ps, r')" by fastforce
  have "params_ok ps" by (rule set_keeps_ok [OF assms(2) s])
  then show ?thesis
    using assms s by (auto simp: ZSTD_CCtx_setParameter_def same_dicts_def Let_def split: if_splits)
qed

lemma set_all_same:
  "set_all c pvs = (d, r) \<Longrightarrow> params_ok (requestedParams c) \<Longrightarrow> same_dicts c d \<and> params_ok (requestedParams d)"
proof (induction c pvs rule: set_all.induct)
  case (2 c p v pvs)
  obtain c1 r1 where s: "ZSTD_CCtx_setParameter c p v = (c1, r1)" by fastforce
  note i = set_same [OF s "2.prems"(2)]
  show ?case
  proof (cases r1)
    case (Inl e)
    then show ?thesis using "2.prems" s i by simp
  next
    case (Inr x)
    have "same_dicts c1 d \<and> params_ok (requestedParams d)"
      using "2.prems"(1) i by (intro "2.IH" [OF s [symmetric] Inr]) (simp_all add: s Inr)
    then show ?thesis using i by (simp add: same_dicts_def)
  qed
qed (simp add: same_dicts_def)

declare set_all.simps [simp del]

lemma setParams_same:
  assumes "ZSTD_CCtx_setParams c params = (d, r)" "params_ok (requestedParams c)"
  shows "same_dicts c d \<and> params_ok (requestedParams d)"
proof -
  obtain c1 r1 where f: "ZSTD_CCtx_setFParams c (zp_fParams params) = (c1, r1)" by fastforce
  obtain c2 r2 where g: "ZSTD_CCtx_setCParams c1 (zp_cParams params) = (c2, r2)" by fastforce
  have i: "same_dicts c c1 \<and> params_ok (requestedParams c1)"
    using set_all_same f assms(2) unfolding ZSTD_CCtx_setFParams_def by blast
  then have "same_dicts c1 c2 \<and> params_ok (requestedParams c2)"
    using set_all_same g unfolding ZSTD_CCtx_setCParams_def by (fastforce simp: same_dicts_def split: sum.splits)
  with i show ?thesis
    using assms f g by (auto simp: ZSTD_CCtx_setParams_def same_dicts_def split: sum.splits)
qed

lemma same_one_dict: "same_dicts c d \<Longrightarrow> one_dict c \<Longrightarrow> one_dict d"
  by (simp add: same_dicts_def one_dict_def)

lemma params_ok_reset: "params_ok ZSTD_CCtxParams_reset"
  unfolding ZSTD_CCtxParams_reset_def by (rule params_ok_init) (simp_all add: ZSTD_CLEVEL_DEFAULT_def)

lemma reach_inv: "cctx_reach c \<Longrightarrow> one_dict c \<and> params_ok (requestedParams c)"
proof (induction rule: cctx_reach.induct)
  case (reach_init sz)
  then show ?case
    by (simp add: ZSTD_initCCtx_def ZSTD_CCtx_reset_def params_ok_reset one_dict_clear Let_def) 
       (simp add: one_dict_def ZSTD_clearAllDicts_def localDict_null_def prefixDict_null_def)
next
  case (reach_set c p v)
  then show ?case using set_same same_one_dict by (metis prod.collapse)
next
  case (reach_params c params)
  then show ?case using setParams_same same_one_dict by (metis prod.collapse)
next
  case (reach_reset c d)
  then show ?case
    using params_ok_reset
    by (auto simp: ZSTD_CCtx_reset_def one_dict_def ZSTD_clearAllDicts_def localDict_null_def prefixDict_null_def Let_def)
qed (auto simp: one_dict_def ZSTD_CCtx_setParametersUsingCCtxParams_def ZSTD_CCtx_setPledgedSrcSize_def
    ZSTD_CCtx_loadDictionary_advanced_def ZSTD_CCtx_refCDict_def ZSTD_CCtx_refThreadPool_def
    ZSTD_CCtx_refPrefix_advanced_def ZSTD_clearAllDicts_def localDict_null_def prefixDict_null_def Let_def
    split: ZSTD_dictLoadMethod_e.splits)

subsection \<open>Setting all parameters at once\<close>

lemma setParameter_init:
  assumes "streamStage c = zcss_init" "staticSize c = 0 \<or> p \<noteq> ZSTD_c_nbWorkers" "\<And>n. p \<noteq> ZSTD_c_other n"
  shows "ZSTD_CCtx_setParameter c p v =
    (case ZSTD_CCtxParams_setParameter (requestedParams c) p v of (ps, r) \<Rightarrow> (c\<lparr>requestedParams := ps\<rparr>, r))"
  using assms by (cases p) (auto simp: ZSTD_CCtx_setParameter_def cctx_param_error_def Let_def)

text \<open>The parameter set after all fields of \<open>params\<close> were stored.\<close>

lemma setFParams_init:
  assumes "streamStage c = zcss_init"
  shows "ZSTD_CCtx_setFParams c fp = (c\<lparr>requestedParams := (requestedParams c)\<lparr>fParams :=
     \<lparr>contentSizeFlag = flag (contentSizeFlag fp), checksumFlag = flag (checksumFlag fp),
      noDictIDFlag = flag (noDictIDFlag fp)\<rparr>\<rparr>\<rparr>, Inr 0)"
  using assms
  by (simp add: ZSTD_CCtx_setFParams_def set_all.simps setParameter_init)

lemma setCParams_init:
  assumes "streamStage c = zcss_init" "cparams_within cp"
  shows "ZSTD_CCtx_setCParams c cp = (c\<lparr>requestedParams := (requestedParams c)\<lparr>cParams := cp\<rparr>\<rparr>, Inr 0)"
proof -
  have u: "u32 (s32 n) = n" if "n < 2 ^ 31" for n using that by (simp add: s32_small u32_def nat_mod_distrib)
  have b: "windowLog cp < 2 ^ 31" "chainLog cp < 2 ^ 31" "hashLog cp < 2 ^ 31" "searchLog cp < 2 ^ 31"
    "minMatch cp < 2 ^ 31" "targetLength cp < 2 ^ 31" "strategy cp < 2 ^ 31"
    using assms(2) by (auto simp: cparams_within_def)
  have ok: "ZSTD_checkCParams cp = Inr 0"
    using cparams_checked [OF cparams_within_u32 [OF assms(2)]] assms(2) by simp
  note w = ok [unfolded ZSTD_checkCParams_conj]
  show ?thesis
    using assms(1) ok w
    by (simp add: ZSTD_CCtx_setCParams_def set_all.simps setParameter_init checked0_def checked_def u [OF b(1)] u [OF b(2)]
        u [OF b(3)] u [OF b(4)] u [OF b(5)] u [OF b(6)] u [OF b(7)])
qed

lemma setParams_stage:
  assumes "streamStage c \<noteq> zcss_init" "ZSTD_CCtx_setParams c params = (d, r)"
  shows "d = c \<and> (\<exists>e. r = Inl e)"
proof -
  have "fst (ZSTD_CCtx_setParams c params) = c \<and> (\<exists>e. snd (ZSTD_CCtx_setParams c params) = Inl e)"
    using assms(1)
    by (cases "ZSTD_checkCParams (zp_cParams params)")
       (simp_all add: ZSTD_CCtx_setParams_def ZSTD_CCtx_setFParams_def set_all.simps ZSTD_CCtx_setParameter_def)
  then show ?thesis using assms(2) by simp
qed

subsection \<open>Properties\<close>

text \<open>
  Setting all compression and frame parameters at once updates all or none: either the call fails and
  the context is what it was, because a compression parameter is out of its bounds or a stream has
  started, or it succeeds and the requested parameters are exactly the given ones (flags normalized) and
  nothing else in the context changed.
\<close>

lemma setParams_all_or_none:
  assumes "ZSTD_CCtx_setParams c params = (d, r)" "cparams_u32 (zp_cParams params)"
  shows "case r of
      Inl e \<Rightarrow> d = c \<and> (ZSTD_checkCParams (zp_cParams params) = Inl e \<or> streamStage c \<noteq> zcss_init)
    | Inr _ \<Rightarrow> streamStage c = zcss_init \<and> ZSTD_checkCParams (zp_cParams params) = Inr 0 \<and>
        d = c\<lparr>requestedParams := (requestedParams c)\<lparr>
              cParams := zp_cParams params,
              fParams := \<lparr>contentSizeFlag = flag (contentSizeFlag (zp_fParams params)),
                          checksumFlag = flag (checksumFlag (zp_fParams params)),
                          noDictIDFlag = flag (noDictIDFlag (zp_fParams params))\<rparr>\<rparr>\<rparr>"
proof (cases "ZSTD_checkCParams (zp_cParams params)")
  case (Inl e)
  then have "d = c" "r = Inl e" using assms(1) by (simp_all add: ZSTD_CCtx_setParams_def)
  with Inl show ?thesis by simp
next
  case (Inr x)
  have x: "x = 0" using Inr by (auto simp: ZSTD_checkCParams_def split: if_splits)
  then have w: "cparams_within (zp_cParams params)" using cparams_checked [OF assms(2)] Inr by simp
  show ?thesis
  proof (cases "streamStage c = zcss_init")
    case False
    then show ?thesis using setParams_stage [OF False assms(1)] by auto
  next
    case True
    then have "ZSTD_CCtx_setParams c params = (c\<lparr>requestedParams := (requestedParams c)\<lparr>
              cParams := zp_cParams params,
              fParams := \<lparr>contentSizeFlag = flag (contentSizeFlag (zp_fParams params)),
                          checksumFlag = flag (checksumFlag (zp_fParams params)),
                          noDictIDFlag = flag (noDictIDFlag (zp_fParams params))\<rparr>\<rparr>\<rparr>, Inr 0)"
      using w by (simp add: ZSTD_CCtx_setParams_def Inr setFParams_init setCParams_init)
    then show ?thesis using assms(1) True Inr x by simp
  qed
qed



end
