(* ===== verification/Zstd_Frame.thy ===== *)
theory Zstd_Frame
  imports Zstd_CCtx_Params Zstd_Mem
begin

text \<open>
  The container format of zstd.c: frame headers, skippable frames and block headers. The writers
  are those of the compressor (\<open>ZSTD_writeFrameHeader\<close>, \<open>ZSTD_writeSkippableFrame\<close>,
  \<open>ZSTD_noCompressBlock\<close>, \<open>ZSTD_rleCompressBlock\<close>, \<open>ZSTD_writeLastEmptyBlock\<close>), the readers those
  of the decompressor (\<open>ZSTD_getFrameHeader_advanced\<close>, \<open>ZSTD_readSkippableFrame\<close>,
  \<open>ZSTD_getcBlockSize\<close>). A source of \<open>srcSize\<close> bytes is a byte list of that length and a
  destination of capacity \<open>dstCapacity\<close> is the byte list it holds before the call; a writer
  returns the number of bytes written and the buffer after it. The lemmas show that the readers
  invert the writers and how much input a header needs.
\<close>

subsection \<open>Constants\<close>

definition ZSTD_MAGICNUMBER :: u32 where "ZSTD_MAGICNUMBER = 0xFD2FB528"
definition ZSTD_MAGIC_SKIPPABLE_START :: u32 where "ZSTD_MAGIC_SKIPPABLE_START = 0x184D2A50"
definition ZSTD_MAGIC_SKIPPABLE_MASK :: u32 where "ZSTD_MAGIC_SKIPPABLE_MASK = 0xFFFFFFF0"

definition ZSTD_FRAMEHEADERSIZE_PREFIX :: "ZSTD_format_e \<Rightarrow> nat" where
  "ZSTD_FRAMEHEADERSIZE_PREFIX format = (if format = ZSTD_f_zstd1 then 5 else 1)"

definition ZSTD_FRAMEHEADERSIZE_MAX :: nat where "ZSTD_FRAMEHEADERSIZE_MAX = 18"
definition ZSTD_SKIPPABLEHEADERSIZE :: nat where "ZSTD_SKIPPABLEHEADERSIZE = 8"
definition ZSTD_FRAMEIDSIZE :: nat where "ZSTD_FRAMEIDSIZE = 4"
definition ZSTD_blockHeaderSize :: nat where "ZSTD_blockHeaderSize = 3"
definition ZSTD_fcs_fieldSize :: "nat list" where "ZSTD_fcs_fieldSize = [0, 2, 4, 8]"
definition ZSTD_did_fieldSize :: "nat list" where "ZSTD_did_fieldSize = [0, 1, 2, 4]"

lemmas frame_consts = ZSTD_FRAMEHEADERSIZE_MAX_def ZSTD_SKIPPABLEHEADERSIZE_def ZSTD_FRAMEIDSIZE_def
  ZSTD_blockHeaderSize_def

datatype blockType_e = bt_raw | bt_rle | bt_compressed | bt_reserved

fun blockType_nat :: "blockType_e \<Rightarrow> nat" where
  "blockType_nat bt_raw = 0"
| "blockType_nat bt_rle = 1"
| "blockType_nat bt_compressed = 2"
| "blockType_nat bt_reserved = 3"

definition blockType_of :: "nat \<Rightarrow> blockType_e" where
  "blockType_of n = (if n = 0 then bt_raw else if n = 1 then bt_rle
     else if n = 2 then bt_compressed else bt_reserved)"

record blockProperties_t =
  blockType :: blockType_e
  lastBlock :: nat
  origSize :: nat

datatype ZSTD_FrameType_e = ZSTD_frame | ZSTD_skippableFrame

record ZSTD_FrameHeader =
  zfh_frameContentSize :: nat
  zfh_windowSize :: nat
  zfh_blockSizeMax :: nat
  zfh_frameType :: ZSTD_FrameType_e
  zfh_headerSize :: nat
  zfh_dictID :: nat
  zfh_checksumFlag :: nat

text \<open>The three outcomes of \<open>ZSTD_getFrameHeader\<close>: an error code, a positive wanted size, or zero
  with the header filled.\<close>

datatype header_result = Wanted nat | Header ZSTD_FrameHeader

subsection \<open>Frame identification and header decoding\<close>

definition ZSTD_startingInputLength :: "ZSTD_format_e \<Rightarrow> nat" where
  "ZSTD_startingInputLength format = ZSTD_FRAMEHEADERSIZE_PREFIX format"

definition skippable_magic :: "u32 \<Rightarrow> bool" where
  "skippable_magic magic \<longleftrightarrow> magic AND ZSTD_MAGIC_SKIPPABLE_MASK = ZSTD_MAGIC_SKIPPABLE_START"

definition ZSTD_isFrame :: "bytes \<Rightarrow> bool" where
  "ZSTD_isFrame buffer \<longleftrightarrow>
     (if length buffer < ZSTD_FRAMEIDSIZE then False
      else let magic = MEM_readLE32 MEM_isLittleEndian buffer 0
           in magic = ZSTD_MAGICNUMBER \<or> skippable_magic magic)"

definition ZSTD_isSkippableFrame :: "bytes \<Rightarrow> bool" where
  "ZSTD_isSkippableFrame buffer \<longleftrightarrow>
     (if length buffer < ZSTD_FRAMEIDSIZE then False
      else skippable_magic (MEM_readLE32 MEM_isLittleEndian buffer 0))"

definition ZSTD_frameHeaderSize_internal :: "bytes \<Rightarrow> ZSTD_format_e \<Rightarrow> nat res" where
  "ZSTD_frameHeaderSize_internal src format =
     (let minInputSize = ZSTD_startingInputLength format in
      if length src < minInputSize then Inl ZSTD_error_srcSize_wrong
      else let fhd = byte_at src (minInputSize - 1);
               dictID = unat (fhd AND 3);
               singleSegment = unat (drop_bit 5 fhd AND 1);
               fcsId = unat (drop_bit 6 fhd)
           in Inr (minInputSize + (if singleSegment = 0 then 1 else 0)
                + ZSTD_did_fieldSize ! dictID + ZSTD_fcs_fieldSize ! fcsId
                + (if singleSegment \<noteq> 0 \<and> fcsId = 0 then 1 else 0)))"

definition ZSTD_frameHeaderSize :: "bytes \<Rightarrow> nat res" where
  "ZSTD_frameHeaderSize src = ZSTD_frameHeaderSize_internal src ZSTD_f_zstd1"

text \<open>With fewer bytes than a header prefix, the bytes present are completed from each supported
  magic number in turn.\<close>

definition short_prefix_known :: "bytes \<Rightarrow> bool" where
  "short_prefix_known src =
     (let toCopy = min 4 (length src);
          hbuf = MEM_writeLE32 MEM_isLittleEndian (replicate 4 0) 0 ZSTD_MAGICNUMBER;
          hbuf = write_at hbuf 0 (take toCopy src)
      in if MEM_readLE32 MEM_isLittleEndian hbuf 0 \<noteq> ZSTD_MAGICNUMBER
         then let hbuf = MEM_writeLE32 MEM_isLittleEndian hbuf 0 ZSTD_MAGIC_SKIPPABLE_START;
                  hbuf = write_at hbuf 0 (take toCopy src)
              in skippable_magic (MEM_readLE32 MEM_isLittleEndian hbuf 0)
         else True)"

definition fh_window :: "nat \<Rightarrow> bytes \<Rightarrow> nat \<Rightarrow> (nat \<times> nat) res" where
  "fh_window singleSegment src pos =
     (if singleSegment = 0
      then let wlByte = byte_at src pos;
               wlog = unat (drop_bit 3 wlByte) + ZSTD_WINDOWLOG_ABSOLUTEMIN
           in if wlog > ZSTD_WINDOWLOG_MAX then Inl ZSTD_error_frameParameter_windowTooLarge
              else let w = 2 ^ wlog in Inr (w + w div 8 * unat (wlByte AND 7), pos + 1)
      else Inr (0, pos))"

definition fh_dictID :: "nat \<Rightarrow> bytes \<Rightarrow> nat \<Rightarrow> nat \<times> nat" where
  "fh_dictID dictIDSizeCode src pos =
     (if dictIDSizeCode = 1 then (unat (byte_at src pos), pos + 1)
      else if dictIDSizeCode = 2 then (unat (MEM_readLE16 MEM_isLittleEndian src pos), pos + 2)
      else if dictIDSizeCode = 3 then (unat (MEM_readLE32 MEM_isLittleEndian src pos), pos + 4)
      else (0, pos))"

definition fh_contentSize :: "nat \<Rightarrow> nat \<Rightarrow> bytes \<Rightarrow> nat \<Rightarrow> nat" where
  "fh_contentSize fcsID singleSegment src pos =
     (if fcsID = 1 then unat (MEM_readLE16 MEM_isLittleEndian src pos) + 256
      else if fcsID = 2 then unat (MEM_readLE32 MEM_isLittleEndian src pos)
      else if fcsID = 3 then unat (MEM_readLE64 MEM_isLittleEndian src pos)
      else if singleSegment \<noteq> 0 then unat (byte_at src pos)
      else ZSTD_CONTENTSIZE_UNKNOWN)"

definition fh_decode :: "bytes \<Rightarrow> nat \<Rightarrow> nat \<Rightarrow> header_result res" where
  "fh_decode src minInputSize fhsize =
     (let fhdByte = byte_at src (minInputSize - 1);
          pos = minInputSize;
          dictIDSizeCode = unat (fhdByte AND 3);
          checksum = unat (drop_bit 2 fhdByte AND 1);
          singleSegment = unat (drop_bit 5 fhdByte AND 1);
          fcsID = unat (drop_bit 6 fhdByte)
      in if fhdByte AND 0x08 \<noteq> 0 then Inl ZSTD_error_frameParameter_unsupported
         else bind_res (fh_window singleSegment src pos) (\<lambda>(windowSize, pos).
           let (dictID, pos) = fh_dictID dictIDSizeCode src pos;
               frameContentSize = fh_contentSize fcsID singleSegment src pos;
               windowSize = (if singleSegment \<noteq> 0 then frameContentSize else windowSize)
           in Inr (Header \<lparr>zfh_frameContentSize = frameContentSize, zfh_windowSize = windowSize,
                zfh_blockSizeMax = min windowSize ZSTD_BLOCKSIZE_MAX, zfh_frameType = ZSTD_frame,
                zfh_headerSize = fhsize, zfh_dictID = dictID, zfh_checksumFlag = checksum\<rparr>)))"

definition ZSTD_getFrameHeader_advanced :: "bytes \<Rightarrow> ZSTD_format_e \<Rightarrow> header_result res" where
  "ZSTD_getFrameHeader_advanced src format =
     (let minInputSize = ZSTD_startingInputLength format in
      if length src < minInputSize
      then if length src > 0 \<and> format \<noteq> ZSTD_f_zstd1_magicless \<and> \<not> short_prefix_known src
           then Inl ZSTD_error_prefix_unknown
           else Inr (Wanted minInputSize)
      else if format \<noteq> ZSTD_f_zstd1_magicless \<and> MEM_readLE32 MEM_isLittleEndian src 0 \<noteq> ZSTD_MAGICNUMBER
      then if skippable_magic (MEM_readLE32 MEM_isLittleEndian src 0)
           then if length src < ZSTD_SKIPPABLEHEADERSIZE then Inr (Wanted ZSTD_SKIPPABLEHEADERSIZE)
                else Inr (Header \<lparr>zfh_frameContentSize =
                         unat (MEM_readLE32 MEM_isLittleEndian src ZSTD_FRAMEIDSIZE),
                       zfh_windowSize = 0, zfh_blockSizeMax = 0, zfh_frameType = ZSTD_skippableFrame,
                       zfh_headerSize = ZSTD_SKIPPABLEHEADERSIZE,
                       zfh_dictID = unat (MEM_readLE32 MEM_isLittleEndian src 0 - ZSTD_MAGIC_SKIPPABLE_START),
                       zfh_checksumFlag = 0\<rparr>)
           else Inl ZSTD_error_prefix_unknown
      else bind_res (ZSTD_frameHeaderSize_internal src format) (\<lambda>fhsize.
             if length src < fhsize then Inr (Wanted fhsize)
             else fh_decode src minInputSize fhsize))"

definition ZSTD_getFrameHeader :: "bytes \<Rightarrow> header_result res" where
  "ZSTD_getFrameHeader src = ZSTD_getFrameHeader_advanced src ZSTD_f_zstd1"

definition ZSTD_getFrameContentSize :: "bytes \<Rightarrow> nat" where
  "ZSTD_getFrameContentSize src =
     (case ZSTD_getFrameHeader src of
        Inr (Header zfh) \<Rightarrow> if zfh_frameType zfh = ZSTD_skippableFrame then 0 else zfh_frameContentSize zfh
      | _ \<Rightarrow> ZSTD_CONTENTSIZE_ERROR)"

definition ZSTD_getDecompressedSize :: "bytes \<Rightarrow> nat" where
  "ZSTD_getDecompressedSize src =
     (let ret = ZSTD_getFrameContentSize src in if ret \<ge> ZSTD_CONTENTSIZE_ERROR then 0 else ret)"

subsection \<open>Skippable frames\<close>

definition readSkippableFrameSize :: "bytes \<Rightarrow> nat res" where
  "readSkippableFrameSize src =
     (if length src < ZSTD_SKIPPABLEHEADERSIZE then Inl ZSTD_error_srcSize_wrong
      else let sizeU32 = MEM_readLE32 MEM_isLittleEndian src ZSTD_FRAMEIDSIZE in
        if sizeU32 + of_nat ZSTD_SKIPPABLEHEADERSIZE < sizeU32 then Inl ZSTD_error_frameParameter_unsupported
        else let skippableSize = ZSTD_SKIPPABLEHEADERSIZE + unat sizeU32 in
          if skippableSize > length src then Inl ZSTD_error_srcSize_wrong else Inr skippableSize)"

text \<open>An error code of \<open>readSkippableFrameSize\<close> is larger than every source size, so it ends in the
  size check. The result is the content size, the destination and the magic variant.\<close>

definition ZSTD_readSkippableFrame :: "bytes \<Rightarrow> bytes \<Rightarrow> (nat \<times> bytes \<times> nat) res" where
  "ZSTD_readSkippableFrame dst src =
     (if length src < ZSTD_SKIPPABLEHEADERSIZE then Inl ZSTD_error_srcSize_wrong
      else let magicNumber = MEM_readLE32 MEM_isLittleEndian src 0 in
        if \<not> ZSTD_isSkippableFrame src then Inl ZSTD_error_frameParameter_unsupported
        else case readSkippableFrameSize src of
            Inl _ \<Rightarrow> Inl ZSTD_error_srcSize_wrong
          | Inr skippableFrameSize \<Rightarrow>
              let skippableContentSize = skippableFrameSize - ZSTD_SKIPPABLEHEADERSIZE in
              if skippableFrameSize < ZSTD_SKIPPABLEHEADERSIZE \<or> skippableFrameSize > length src
              then Inl ZSTD_error_srcSize_wrong
              else if skippableContentSize > length dst then Inl ZSTD_error_dstSize_tooSmall
              else Inr (skippableContentSize,
                     write_at dst 0 (rd src ZSTD_SKIPPABLEHEADERSIZE skippableContentSize),
                     unat (magicNumber - ZSTD_MAGIC_SKIPPABLE_START)))"

definition ZSTD_writeSkippableFrame :: "bytes \<Rightarrow> bytes \<Rightarrow> nat \<Rightarrow> (nat \<times> bytes) res" where
  "ZSTD_writeSkippableFrame dst src magicVariant =
     (if length dst < length src + ZSTD_SKIPPABLEHEADERSIZE then Inl ZSTD_error_dstSize_tooSmall
      else if length src > 0xFFFFFFFF then Inl ZSTD_error_srcSize_wrong
      else if magicVariant > 15 then Inl ZSTD_error_parameter_outOfBound
      else let op = MEM_writeLE32 MEM_isLittleEndian dst 0 (ZSTD_MAGIC_SKIPPABLE_START + of_nat magicVariant);
               op = MEM_writeLE32 MEM_isLittleEndian op 4 (of_nat (length src));
               op = write_at op 8 src
           in Inr (length src + ZSTD_SKIPPABLEHEADERSIZE, op))"

subsection \<open>Writing frame and block headers\<close>

definition fh_put_dictID :: "nat \<Rightarrow> nat \<Rightarrow> bytes \<Rightarrow> nat \<Rightarrow> bytes \<times> nat" where
  "fh_put_dictID dictIDSizeCode dictID op pos =
     (if dictIDSizeCode = 1 then (op[pos := of_nat dictID], pos + 1)
      else if dictIDSizeCode = 2 then (MEM_writeLE16 MEM_isLittleEndian op pos (of_nat dictID), pos + 2)
      else if dictIDSizeCode = 3 then (MEM_writeLE32 MEM_isLittleEndian op pos (of_nat dictID), pos + 4)
      else (op, pos))"

definition fh_put_contentSize :: "nat \<Rightarrow> bool \<Rightarrow> nat \<Rightarrow> bytes \<Rightarrow> nat \<Rightarrow> bytes \<times> nat" where
  "fh_put_contentSize fcsCode singleSegment pledgedSrcSize op pos =
     (if fcsCode = 1 then (MEM_writeLE16 MEM_isLittleEndian op pos (of_nat (pledgedSrcSize - 256)), pos + 2)
      else if fcsCode = 2 then (MEM_writeLE32 MEM_isLittleEndian op pos (of_nat pledgedSrcSize), pos + 4)
      else if fcsCode = 3 then (MEM_writeLE64 MEM_isLittleEndian op pos (of_nat pledgedSrcSize), pos + 8)
      else if singleSegment then (op[pos := of_nat pledgedSrcSize], pos + 1)
      else (op, pos))"

definition ZSTD_writeFrameHeader ::
    "bytes \<Rightarrow> ZSTD_CCtx_params \<Rightarrow> nat \<Rightarrow> nat \<Rightarrow> (nat \<times> bytes) res" where
  "ZSTD_writeFrameHeader dst params pledgedSrcSize dictID =
     (let dictIDSizeCodeLength = of_bool (dictID > 0) + of_bool (dictID \<ge> 256) + of_bool (dictID \<ge> 65536);
          dictIDSizeCode = (if noDictIDFlag (fParams params) \<noteq> 0 then 0 else dictIDSizeCodeLength);
          checksum = of_bool (checksumFlag (fParams params) > 0);
          windowSize = unat (push_bit (windowLog (cParams params)) 1 :: u32);
          singleSegment = (contentSizeFlag (fParams params) \<noteq> 0 \<and> windowSize \<ge> pledgedSrcSize);
          windowLogByte = (ucast (push_bit 3 (of_nat (windowLog (cParams params))
            - of_nat ZSTD_WINDOWLOG_ABSOLUTEMIN :: u32)) :: byte);
          fcsCode = (if contentSizeFlag (fParams params) \<noteq> 0
                     then of_bool (pledgedSrcSize \<ge> 256) + of_bool (pledgedSrcSize \<ge> 65536 + 256)
                       + of_bool (pledgedSrcSize \<ge> 0xFFFFFFFF) else 0);
          frameHeaderDescriptionByte =
            (of_nat (dictIDSizeCode + checksum * 4 + of_bool singleSegment * 32 + fcsCode * 64) :: byte)
      in if length dst < ZSTD_FRAMEHEADERSIZE_MAX then Inl ZSTD_error_dstSize_tooSmall
         else let (op, pos) = (if p_format params = ZSTD_f_zstd1
                    then (MEM_writeLE32 MEM_isLittleEndian dst 0 ZSTD_MAGICNUMBER, 4) else (dst, 0));
                  (op, pos) = (op[pos := frameHeaderDescriptionByte], pos + 1);
                  (op, pos) = (if \<not> singleSegment then (op[pos := windowLogByte], pos + 1) else (op, pos));
                  (op, pos) = fh_put_dictID dictIDSizeCode dictID op pos;
                  (op, pos) = fh_put_contentSize fcsCode singleSegment pledgedSrcSize op pos
              in Inr (pos, op))"

definition ZSTD_writeLastEmptyBlock :: "bytes \<Rightarrow> (nat \<times> bytes) res" where
  "ZSTD_writeLastEmptyBlock dst =
     (if length dst < ZSTD_blockHeaderSize then Inl ZSTD_error_dstSize_tooSmall
      else Inr (ZSTD_blockHeaderSize,
             MEM_writeLE24 MEM_isLittleEndian dst 0 (of_nat (1 + blockType_nat bt_raw * 2))))"

definition ZSTD_noCompressBlock :: "bytes \<Rightarrow> bytes \<Rightarrow> nat \<Rightarrow> (nat \<times> bytes) res" where
  "ZSTD_noCompressBlock dst src lastBlk =
     (let cBlockHeader24 = (of_nat lastBlk + of_nat (blockType_nat bt_raw * 2) + of_nat (length src * 8) :: u32) in
      if length src + ZSTD_blockHeaderSize > length dst then Inl ZSTD_error_dstSize_tooSmall
      else Inr (ZSTD_blockHeaderSize + length src,
             write_at (MEM_writeLE24 MEM_isLittleEndian dst 0 cBlockHeader24) ZSTD_blockHeaderSize src))"

definition ZSTD_rleCompressBlock :: "bytes \<Rightarrow> byte \<Rightarrow> nat \<Rightarrow> nat \<Rightarrow> (nat \<times> bytes) res" where
  "ZSTD_rleCompressBlock dst src srcSize lastBlk =
     (let cBlockHeader = (of_nat lastBlk + of_nat (blockType_nat bt_rle * 2) + of_nat (srcSize * 8) :: u32) in
      if length dst < 4 then Inl ZSTD_error_dstSize_tooSmall
      else Inr (4, (MEM_writeLE24 MEM_isLittleEndian dst 0 cBlockHeader)[3 := src]))"

definition ZSTD_getcBlockSize :: "bytes \<Rightarrow> (nat \<times> blockProperties_t) res" where
  "ZSTD_getcBlockSize src =
     (if length src < ZSTD_blockHeaderSize then Inl ZSTD_error_srcSize_wrong
      else let cBlockHeader = MEM_readLE24 MEM_isLittleEndian src 0;
               cSize = unat (drop_bit 3 cBlockHeader);
               bp = \<lparr>blockType = blockType_of (unat (drop_bit 1 cBlockHeader AND 3)),
                     lastBlock = unat (cBlockHeader AND 1), origSize = cSize\<rparr>
           in if blockType bp = bt_rle then Inr (1, bp)
              else if blockType bp = bt_reserved then Inl ZSTD_error_corruption_detected
              else Inr (cSize, bp))"


subsection \<open>The header descriptor byte\<close>

lemma byte_of_nat_mod [simp]: "(of_nat (v mod 256) :: byte) = of_nat v"
  by (rule word_unat_eq_iff [THEN iffD2]) (simp add: unat_of_nat)

lemma byte_fields:
  fixes b :: byte
  shows "unat (b AND 3) = unat b mod 4" and "unat (b AND 7) = unat b mod 8"
    and "unat (drop_bit 2 b AND 1) = unat b div 4 mod 2"
    and "unat (drop_bit 5 b AND 1) = unat b div 32 mod 2"
    and "unat (drop_bit 6 b) = unat b div 64" and "unat (drop_bit 3 b) = unat b div 8"
    and "b AND 8 = 0 \<longleftrightarrow> unat b div 8 mod 2 = 0"
proof -
  show "unat (b AND 3) = unat b mod 4" using unat_and_mask [of b 2] by simp
  show "unat (b AND 7) = unat b mod 8" using unat_and_mask [of b 3] by simp
  show "unat (drop_bit 2 b AND 1) = unat b div 4 mod 2"
    using unat_and_mask [of "drop_bit 2 b" 1] by (simp only: unat_drop_bit_word) simp
  show "unat (drop_bit 5 b AND 1) = unat b div 32 mod 2"
    using unat_and_mask [of "drop_bit 5 b" 1] by (simp only: unat_drop_bit_word) simp
  show "unat (drop_bit 6 b) = unat b div 64" "unat (drop_bit 3 b) = unat b div 8"
    by (simp_all only: unat_drop_bit_word) simp_all
  have "bit b 3 = bit (unat b) 3" by (simp add: bit_unsigned_iff)
  then have "(b AND 8 = 0) = (\<not> bit (unat b) 3)"
    using and_exp_eq_0_iff_not_bit [of b 3] by simp
  also have "\<dots> = (unat b div 8 mod 2 = 0)"
    using bit_iff_odd [of "unat b" 3] by (simp add: even_iff_mod_2_eq_zero)
  finally show "b AND 8 = 0 \<longleftrightarrow> unat b div 8 mod 2 = 0" .
qed


subsection \<open>Round trip of the frame header\<close>

text \<open>The bytes of a header with descriptor fields \<open>d\<close> (size code of the dictionary identifier),
  \<open>c\<close> (checksum), \<open>s\<close> (single segment) and \<open>f\<close> (size code of the content size).\<close>

definition fhd_byte :: "nat \<Rightarrow> nat \<Rightarrow> bool \<Rightarrow> nat \<Rightarrow> byte" where
  "fhd_byte d c s f = of_nat (d + c * 4 + of_bool s * 32 + f * 64)"

definition fcs_len :: "bool \<Rightarrow> nat \<Rightarrow> nat" where
  "fcs_len s f = (if s \<and> f = 0 then 1 else ZSTD_fcs_fieldSize ! f)"

definition header_prefix :: "ZSTD_format_e \<Rightarrow> bytes" where
  "header_prefix format = (if format = ZSTD_f_zstd1 then le_bytes 4 (unat ZSTD_MAGICNUMBER) else [])"

definition header_bytes ::
    "ZSTD_format_e \<Rightarrow> nat \<Rightarrow> nat \<Rightarrow> bool \<Rightarrow> nat \<Rightarrow> byte \<Rightarrow> nat \<Rightarrow> nat \<Rightarrow> bytes" where
  "header_bytes format d c s f wb dictID n =
     header_prefix format @ [fhd_byte d c s f] @ (if s then [] else [wb])
       @ le_bytes (ZSTD_did_fieldSize ! d) dictID @ le_bytes (fcs_len s f) (if f = 1 then n - 256 else n)"

lemma fhd_fields:
  assumes "d < 4" and "c < 2" and "f < 4"
  shows "unat (fhd_byte d c s f AND 3) = d" and "unat (drop_bit 2 (fhd_byte d c s f) AND 1) = c"
    and "unat (drop_bit 5 (fhd_byte d c s f) AND 1) = of_bool s"
    and "unat (drop_bit 6 (fhd_byte d c s f)) = f" and "fhd_byte d c s f AND 8 = 0"
proof -
  define t :: nat where "t = of_bool s"
  have t: "t < 2" by (simp add: t_def)
  have v: "unat (fhd_byte d c s f) = d + c * 4 + t * 32 + f * 64"
    unfolding fhd_byte_def t_def [symmetric] using assms t by (intro unat_of_nat_id) simp
  have r: "d = 0 \<or> d = 1 \<or> d = 2 \<or> d = 3" "f = 0 \<or> f = 1 \<or> f = 2 \<or> f = 3" "c = 0 \<or> c = 1" "t = 0 \<or> t = 1"
    using assms t by linarith+
  have "(d + c * 4 + t * 32 + f * 64) mod 4 = d" "(d + c * 4 + t * 32 + f * 64) div 4 mod 2 = c"
    "(d + c * 4 + t * 32 + f * 64) div 32 mod 2 = t" "(d + c * 4 + t * 32 + f * 64) div 64 = f"
    "(d + c * 4 + t * 32 + f * 64) div 8 mod 2 = 0"
    using r by (elim disjE; simp)+
  then show "unat (fhd_byte d c s f AND 3) = d" "unat (drop_bit 2 (fhd_byte d c s f) AND 1) = c"
    "unat (drop_bit 5 (fhd_byte d c s f) AND 1) = of_bool s"
    "unat (drop_bit 6 (fhd_byte d c s f)) = f" "fhd_byte d c s f AND 8 = 0"
    unfolding byte_fields v t_def by blast+
qed

lemma put_dictID:
  assumes "d < 4" and "pos + ZSTD_did_fieldSize ! d \<le> length op"
  shows "fh_put_dictID d dictID op pos
       = (write_at op pos (le_bytes (ZSTD_did_fieldSize ! d) dictID), pos + ZSTD_did_fieldSize ! d)"
proof -
  consider "d = 0" | "d = 1" | "d = 2" | "d = 3" using assms(1) by linarith
  then show ?thesis
    using assms(2) by cases (simp_all add: fh_put_dictID_def ZSTD_did_fieldSize_def MEM_writeLE16_eq
      MEM_writeLE32_eq le_bytes_unat_of_nat list_update_write_at write_at_def)
qed

lemma put_contentSize:
  assumes "f < 4" and "pos + fcs_len s f \<le> length op"
  shows "fh_put_contentSize f s n op pos
       = (write_at op pos (le_bytes (fcs_len s f) (if f = 1 then n - 256 else n)), pos + fcs_len s f)"
proof -
  consider "f = 0" | "f = 1" | "f = 2" | "f = 3" using assms(1) by linarith
  then show ?thesis
    using assms(2) by cases (cases s; simp add: fh_put_contentSize_def fcs_len_def ZSTD_fcs_fieldSize_def
      MEM_writeLE16_eq MEM_writeLE32_eq MEM_writeLE64_eq le_bytes_unat_of_nat list_update_write_at
      write_at_def)+
qed

lemma get_dictID:
  assumes "d < 4" and "dictID < 256 ^ (ZSTD_did_fieldSize ! d)"
  shows "fh_dictID d (pre @ le_bytes (ZSTD_did_fieldSize ! d) dictID @ post) (length pre)
       = (dictID, length pre + ZSTD_did_fieldSize ! d)"
proof -
  consider "d = 0" | "d = 1" | "d = 2" | "d = 3" using assms(1) by linarith
  then show ?thesis
    using assms(2) by cases (simp_all add: fh_dictID_def ZSTD_did_fieldSize_def MEM_readLE16_eq
      MEM_readLE32_eq rd_field le_val_le_bytes unat_of_nat byte_at_def)
qed

lemma get_contentSize:
  assumes "f < 4" and "f = 1 \<longrightarrow> 256 \<le> n" and "(if f = 1 then n - 256 else n) < 256 ^ fcs_len s f"
  shows "fh_contentSize f (of_bool s)
           (pre @ le_bytes (fcs_len s f) (if f = 1 then n - 256 else n) @ post) (length pre)
       = (if f = 0 \<and> \<not> s then ZSTD_CONTENTSIZE_UNKNOWN else n)"
proof -
  consider "f = 0" | "f = 1" | "f = 2" | "f = 3" using assms(1) by linarith
  then show ?thesis
    using assms(2,3) by cases (cases s; simp add: fh_contentSize_def fcs_len_def ZSTD_fcs_fieldSize_def
      MEM_readLE16_eq MEM_readLE32_eq MEM_readLE64_eq rd_field le_val_le_bytes unat_of_nat byte_at_def
      del: of_nat_diff)+
qed


text \<open>The fields the writer chooses for its arguments.\<close>

definition did_code :: "ZSTD_CCtx_params \<Rightarrow> nat \<Rightarrow> nat" where
  "did_code params dictID = (if noDictIDFlag (fParams params) \<noteq> 0 then 0
     else of_bool (dictID > 0) + of_bool (dictID \<ge> 256) + of_bool (dictID \<ge> 65536))"

definition single_segment :: "ZSTD_CCtx_params \<Rightarrow> nat \<Rightarrow> bool" where
  "single_segment params n \<longleftrightarrow> contentSizeFlag (fParams params) \<noteq> 0 \<and> 2 ^ windowLog (cParams params) \<ge> n"

definition fcs_code :: "ZSTD_CCtx_params \<Rightarrow> nat \<Rightarrow> nat" where
  "fcs_code params n = (if contentSizeFlag (fParams params) \<noteq> 0
     then of_bool (n \<ge> 256) + of_bool (n \<ge> 65536 + 256) + of_bool (n \<ge> 0xFFFFFFFF) else 0)"

definition written_header :: "ZSTD_CCtx_params \<Rightarrow> nat \<Rightarrow> nat \<Rightarrow> bytes" where
  "written_header params n dictID =
     header_bytes (p_format params) (did_code params dictID) (of_bool (checksumFlag (fParams params) > 0))
       (single_segment params n) (fcs_code params n) (of_nat ((windowLog (cParams params) - 10) * 8)) dictID n"

lemma codes_less: "did_code params dictID < 4" "fcs_code params n < 4"
  by (simp_all add: did_code_def fcs_code_def)

lemma field_lengths:
  "d < 4 \<Longrightarrow> ZSTD_did_fieldSize ! d \<le> 4" "f < 4 \<Longrightarrow> fcs_len s f \<le> 8" "length (header_prefix format) \<le> 4"
  by (auto simp: ZSTD_did_fieldSize_def fcs_len_def ZSTD_fcs_fieldSize_def header_prefix_def nth_Cons'
      split: if_splits)

lemma length_written_header: "length (written_header params n dictID) \<le> ZSTD_FRAMEHEADERSIZE_MAX"
  using field_lengths(1) [OF codes_less(1), of params dictID] field_lengths(2) [OF codes_less(2), of True params n]
    field_lengths(2) [OF codes_less(2), of False params n] field_lengths(3) [of "p_format params"]
  by (simp add: written_header_def header_bytes_def ZSTD_FRAMEHEADERSIZE_MAX_def)

lemma windowLog_word:
  assumes "10 \<le> wl" and "wl \<le> 31"
  shows "unat (push_bit wl 1 :: u32) = 2 ^ wl"
    and "(ucast (push_bit 3 (of_nat wl - of_nat ZSTD_WINDOWLOG_ABSOLUTEMIN :: u32)) :: byte) = of_nat ((wl - 10) * 8)"
proof -
  have "(2 :: nat) ^ wl < 2 ^ 32" using assms by (intro power_strict_increasing) auto
  then show "unat (push_bit wl 1 :: u32) = 2 ^ wl" using unat_push_bit_word [of "1 :: u32" wl] by simp
  have d: "(of_nat wl - of_nat ZSTD_WINDOWLOG_ABSOLUTEMIN :: u32) = of_nat (wl - 10)"
    using assms by (simp add: ZSTD_WINDOWLOG_ABSOLUTEMIN_def)
  have u: "unat (of_nat (wl - 10) :: u32) = wl - 10" using assms by (intro unat_of_nat_id) simp
  have "unat (push_bit 3 (of_nat (wl - 10) :: u32)) = (wl - 10) * 8"
    using unat_push_bit_word [of "of_nat (wl - 10) :: u32" 3] assms unfolding u by simp
  then show "(ucast (push_bit 3 (of_nat wl - of_nat ZSTD_WINDOWLOG_ABSOLUTEMIN :: u32)) :: byte) = of_nat ((wl - 10) * 8)"
    unfolding d by (simp only: ucast_byte_eq) (simp del: of_nat_diff)
qed

lemma write_at_0_again:
  "length xs + length ys \<le> length b \<Longrightarrow> write_at (write_at b 0 xs) (length xs) ys = write_at b 0 (xs @ ys)"
  using write_at_again [of 0 xs ys b] by simp

lemma update_0_again:
  "length xs < length b \<Longrightarrow> (write_at b 0 xs)[length xs := x] = write_at b 0 (xs @ [x])"
  using write_at_0_again [of xs "[x]" b] by (simp add: list_update_write_at)

lemma writeFrameHeader_eq:
  assumes wl: "10 \<le> windowLog (cParams params)" "windowLog (cParams params) \<le> 31"
    and cap: "ZSTD_FRAMEHEADERSIZE_MAX \<le> length dst"
  shows "ZSTD_writeFrameHeader dst params n dictID =
    Inr (length (written_header params n dictID), write_at dst 0 (written_header params n dictID))"
proof -
  define d c s f wb where "d = did_code params dictID"
    and "c = (of_bool (checksumFlag (fParams params) > 0) :: nat)" and "s = single_segment params n"
    and "f = fcs_code params n" and "wb = (of_nat ((windowLog (cParams params) - 10) * 8) :: byte)"
  define p0 where "p0 = header_prefix (p_format params)"
  define p1 where "p1 = p0 @ [fhd_byte d c s f]"
  define p2 where "p2 = p1 @ (if s then [] else [wb])"
  define p3 where "p3 = p2 @ le_bytes (ZSTD_did_fieldSize ! d) dictID"
  define p4 where "p4 = p3 @ le_bytes (fcs_len s f) (if f = 1 then n - 256 else n)"
  have h: "written_header params n dictID = p4"
    by (simp add: written_header_def header_bytes_def p4_def p3_def p2_def p1_def p0_def d_def c_def s_def f_def wb_def)
  have l4: "length p4 \<le> length dst" using length_written_header [of params n dictID] cap h by simp
  have b: "d < 4" "f < 4" by (simp_all add: d_def f_def codes_less)
  have s0: "(if p_format params = ZSTD_f_zstd1 then (MEM_writeLE32 MEM_isLittleEndian dst 0 ZSTD_MAGICNUMBER, 4) else (dst, 0))
      = (write_at dst 0 p0, length p0)"
    by (simp add: p0_def header_prefix_def MEM_writeLE32_eq write_at_def)
  have s1: "(write_at dst 0 p0)[length p0 := fhd_byte d c s f] = write_at dst 0 p1"
    using l4 by (simp add: p1_def update_0_again p4_def p3_def p2_def)
  have s2: "(if \<not> s then ((write_at dst 0 p1)[length p1 := wb], length p1 + 1) else (write_at dst 0 p1, length p1))
      = (write_at dst 0 p2, length p2)"
    using l4 by (cases s) (simp_all add: p2_def update_0_again p4_def p3_def)
  have s3: "fh_put_dictID d dictID (write_at dst 0 p2) (length p2) = (write_at dst 0 p3, length p3)"
    using l4 b by (simp add: put_dictID write_at_0_again p3_def p4_def)
  have s4: "fh_put_contentSize f s n (write_at dst 0 p3) (length p3) = (write_at dst 0 p4, length p4)"
    using l4 b by (simp add: put_contentSize write_at_0_again p4_def)
  have g: "of_nat (d + c * 4 + of_bool s * 32 + f * 64) = fhd_byte d c s f" by (simp only: fhd_byte_def)
  have l1: "length p0 + 1 = length p1" by (simp add: p1_def)
  show ?thesis
    unfolding ZSTD_writeFrameHeader_def Let_def windowLog_word [OF wl] did_code_def [symmetric]
      single_segment_def [symmetric] fcs_code_def [symmetric]
      d_def [symmetric] c_def [symmetric] s_def [symmetric] f_def [symmetric] wb_def [symmetric] h
    using cap by (simp only: g s0 s1 l1 prod.case s2 s3 s4) simp
qed


lemma header_prefix_facts:
  "ZSTD_startingInputLength format = Suc (length (header_prefix format))"
  "format \<noteq> ZSTD_f_zstd1_magicless \<Longrightarrow> MEM_readLE32 MEM_isLittleEndian (header_prefix format @ xs) 0 = ZSTD_MAGICNUMBER"
proof -
  show "ZSTD_startingInputLength format = Suc (length (header_prefix format))"
    by (simp add: ZSTD_startingInputLength_def ZSTD_FRAMEHEADERSIZE_PREFIX_def header_prefix_def)
  assume "format \<noteq> ZSTD_f_zstd1_magicless"
  then have f: "format = ZSTD_f_zstd1" by (cases format) auto
  show "MEM_readLE32 MEM_isLittleEndian (header_prefix format @ xs) 0 = ZSTD_MAGICNUMBER"
    using rd_field [of 0 "[]" 4 "le_bytes 4 (unat ZSTD_MAGICNUMBER)" xs]
    by (simp add: f header_prefix_def MEM_readLE32_eq le_val_le_bytes ZSTD_MAGICNUMBER_def)
qed

lemma frameHeaderSize_bytes:
  assumes "d < 4" and "c < 2" and "f < 4"
  shows "ZSTD_frameHeaderSize_internal (header_bytes format d c s f wb dictID n @ rest) format
       = Inr (length (header_bytes format d c s f wb dictID n))"
proof -
  have "byte_at (header_bytes format d c s f wb dictID n @ rest) (length (header_prefix format)) = fhd_byte d c s f"
    by (simp add: header_bytes_def) (simp add: byte_at_def)
  then show ?thesis
    by (simp add: ZSTD_frameHeaderSize_internal_def header_prefix_facts(1) fhd_fields [OF assms])
      (simp add: header_bytes_def fcs_len_def ZSTD_fcs_fieldSize_def)
qed

lemma fh_window_bytes:
  assumes "10 \<le> wl" and "wl \<le> 31"
  shows "fh_window (of_bool s) (pre @ (if s then [] else [of_nat ((wl - 10) * 8)]) @ post) (length pre)
       = Inr (if s then 0 else 2 ^ wl, length pre + length (if s then [] else [of_nat ((wl - 10) * 8) :: byte]))"
proof -
  have u: "unat (of_nat ((wl - 10) * 8) :: byte) = (wl - 10) * 8" using assms by (intro unat_of_nat_id) simp
  have b: "byte_at (of_nat ((wl - 10) * 8) # post) 0 = of_nat ((wl - 10) * 8)" by (simp add: byte_at_def)
  show ?thesis
    using assms by (cases s) (simp_all add: fh_window_def b byte_fields u Let_def ZSTD_WINDOWLOG_ABSOLUTEMIN_def
      ZSTD_WINDOWLOG_MAX_def del: of_nat_mult of_nat_diff)
qed

lemma getFrameHeader_bytes:
  assumes b: "d < 4" "c < 2" "f < 4" and wl: "10 \<le> wl" "wl \<le> 31"
    and did: "did < 256 ^ (ZSTD_did_fieldSize ! d)"
    and n: "f = 1 \<longrightarrow> 256 \<le> n" "(if f = 1 then n - 256 else n) < 256 ^ fcs_len s f"
  shows "ZSTD_getFrameHeader_advanced
      (header_bytes format d c s f (of_nat ((wl - 10) * 8)) did n @ rest) format =
    Inr (Header (let fcs = (if f = 0 \<and> \<not> s then ZSTD_CONTENTSIZE_UNKNOWN else n);
                     w = (if s then fcs else 2 ^ wl) in
      \<lparr>zfh_frameContentSize = fcs, zfh_windowSize = w, zfh_blockSizeMax = min w ZSTD_BLOCKSIZE_MAX,
       zfh_frameType = ZSTD_frame,
       zfh_headerSize = length (header_bytes format d c s f (of_nat ((wl - 10) * 8)) did n),
       zfh_dictID = did, zfh_checksumFlag = c\<rparr>))"
    (is "ZSTD_getFrameHeader_advanced (?h @ rest) format = _")
proof -
  define wb :: byte where "wb = of_nat ((wl - 10) * 8)"
  define p1 where "p1 = header_prefix format @ [fhd_byte d c s f]"
  define p2 where "p2 = p1 @ (if s then [] else [wb])"
  define p3 where "p3 = p2 @ le_bytes (ZSTD_did_fieldSize ! d) did"
  define fc where "fc = le_bytes (fcs_len s f) (if f = 1 then n - 256 else n)"
  have src: "?h @ rest = p3 @ fc @ rest" "?h @ rest = p2 @ le_bytes (ZSTD_did_fieldSize ! d) did @ fc @ rest"
    "?h @ rest = p1 @ (if s then [] else [wb]) @ le_bytes (ZSTD_did_fieldSize ! d) did @ fc @ rest"
    "?h @ rest = header_prefix format @ fhd_byte d c s f # drop (length p1) (?h @ rest)"
    by (simp_all add: header_bytes_def p3_def p2_def p1_def wb_def fc_def)
  have min: "ZSTD_startingInputLength format = length p1" by (simp add: header_prefix_facts p1_def)
  have magic: "format \<noteq> ZSTD_f_zstd1_magicless \<longrightarrow> MEM_readLE32 MEM_isLittleEndian (?h @ rest) 0 = ZSTD_MAGICNUMBER"
    by (subst src(4)) (simp add: header_prefix_facts)
  have fhd: "byte_at (?h @ rest) (length p1 - 1) = fhd_byte d c s f"
    by (subst src(4)) (simp add: p1_def, simp add: byte_at_def)
  have w: "fh_window (of_bool s) (?h @ rest) (length p1) = Inr (if s then 0 else 2 ^ wl, length p2)"
    using fh_window_bytes [OF wl, of s p1] by (simp only: src(3) wb_def p2_def length_append)
  have dd: "fh_dictID d (?h @ rest) (length p2) = (did, length p3)"
    using get_dictID [OF b(1) did, of p2] by (simp only: src(2) p3_def length_append length_le_bytes)
  have cc: "fh_contentSize f (of_bool s) (?h @ rest) (length p3) = (if f = 0 \<and> \<not> s then ZSTD_CONTENTSIZE_UNKNOWN else n)"
    using get_contentSize [OF b(3) n, of p3] by (simp only: src(1) fc_def)
  have len: "length p1 \<le> length (?h @ rest)" by (subst src(3)) simp
  define x where "x = ?h @ rest"
  note facts = min magic fhd w dd cc len frameHeaderSize_bytes [OF b, of format s "of_nat ((wl - 10) * 8)" did n rest]
  note facts' = facts [folded x_def]
  have dec: "fh_decode x (length p1) L = Inr (Header (let fcs = (if f = 0 \<and> \<not> s then ZSTD_CONTENTSIZE_UNKNOWN else n);
                     w = (if s then fcs else 2 ^ wl) in
      \<lparr>zfh_frameContentSize = fcs, zfh_windowSize = w, zfh_blockSizeMax = min w ZSTD_BLOCKSIZE_MAX,
       zfh_frameType = ZSTD_frame, zfh_headerSize = L, zfh_dictID = did, zfh_checksumFlag = c\<rparr>))" for L
    unfolding fh_decode_def Let_def facts'(3) fhd_fields [OF b] facts'(4) bind_res_simps prod.case facts'(5,6)
    by (cases s) simp_all
  have "length ?h \<le> length x" by (simp add: x_def)
  then have "ZSTD_getFrameHeader_advanced x format = fh_decode x (length p1) (length ?h)"
    unfolding ZSTD_getFrameHeader_advanced_def Let_def facts' using facts'(2,7) by auto
  then show ?thesis unfolding x_def [symmetric] by (simp only: dec)
qed


lemma did_code_fits:
  assumes "dictID < 2 ^ 32"
  shows "(if noDictIDFlag (fParams params) \<noteq> 0 then 0 else dictID) < 256 ^ (ZSTD_did_fieldSize ! did_code params dictID)"
  using assms by (auto simp: did_code_def ZSTD_did_fieldSize_def)

lemma fcs_code_fits:
  assumes "n < 2 ^ 64" and "10 \<le> windowLog (cParams params)"
  defines "f \<equiv> fcs_code params n" and "s \<equiv> single_segment params n"
    and "m \<equiv> (if contentSizeFlag (fParams params) = 0 then 0 else n)"
  shows "f = 1 \<longrightarrow> 256 \<le> m" and "(if f = 1 then m - 256 else m) < 256 ^ fcs_len s f"
    and "f = 0 \<and> \<not> s \<longleftrightarrow> contentSizeFlag (fParams params) = 0"
proof -
  have "(2 :: nat) ^ 10 \<le> 2 ^ windowLog (cParams params)"
    using assms(2) by (intro power_increasing) simp_all
  then have w: "n < 256 \<Longrightarrow> n \<le> 2 ^ windowLog (cParams params)" by simp
  show "f = 1 \<longrightarrow> 256 \<le> m" "(if f = 1 then m - 256 else m) < 256 ^ fcs_len s f"
    "f = 0 \<and> \<not> s \<longleftrightarrow> contentSizeFlag (fParams params) = 0"
    using assms(1) w by (auto simp: f_def s_def m_def fcs_code_def single_segment_def fcs_len_def ZSTD_fcs_fieldSize_def)
qed

lemma written_header_canonical:
  "written_header params n dictID = header_bytes (p_format params) (did_code params dictID)
     (of_bool (checksumFlag (fParams params) > 0)) (single_segment params n) (fcs_code params n)
     (of_nat ((windowLog (cParams params) - 10) * 8)) (if noDictIDFlag (fParams params) \<noteq> 0 then 0 else dictID)
     (if contentSizeFlag (fParams params) = 0 then 0 else n)"
  by (auto simp: written_header_def header_bytes_def did_code_def fcs_code_def single_segment_def fcs_len_def
      ZSTD_did_fieldSize_def ZSTD_fcs_fieldSize_def)

definition header_of :: "ZSTD_CCtx_params \<Rightarrow> nat \<Rightarrow> nat \<Rightarrow> ZSTD_FrameHeader" where
  "header_of params n dictID =
     (let known = (contentSizeFlag (fParams params) \<noteq> 0);
          w = (if known \<and> n \<le> 2 ^ windowLog (cParams params) then n else 2 ^ windowLog (cParams params))
      in \<lparr>zfh_frameContentSize = (if known then n else ZSTD_CONTENTSIZE_UNKNOWN), zfh_windowSize = w,
          zfh_blockSizeMax = min w ZSTD_BLOCKSIZE_MAX, zfh_frameType = ZSTD_frame,
          zfh_headerSize = length (written_header params n dictID),
          zfh_dictID = (if noDictIDFlag (fParams params) \<noteq> 0 then 0 else dictID),
          zfh_checksumFlag = of_bool (checksumFlag (fParams params) > 0)\<rparr>)"

lemma getFrameHeader_written:
  assumes "10 \<le> windowLog (cParams params)" "windowLog (cParams params) \<le> 31"
    and "dictID < 2 ^ 32" and "n < 2 ^ 64"
  shows "ZSTD_getFrameHeader_advanced (written_header params n dictID @ rest) (p_format params)
       = Inr (Header (header_of params n dictID))"
proof -
  have c: "(of_bool (checksumFlag (fParams params) > 0) :: nat) < 2" by simp
  note g = getFrameHeader_bytes [OF codes_less(1) [of params dictID] c codes_less(2) assms(1,2)
      did_code_fits [OF assms(3)] fcs_code_fits(1,2) [OF assms(4,1)], of "p_format params" rest]
  show ?thesis
    unfolding header_of_def written_header_canonical g unfolding fcs_code_fits(3) [OF assms(4,1)]
    by (simp add: Let_def) (auto simp: single_segment_def)
qed


subsection \<open>How much input a header needs\<close>

lemma skippable_magic_unat: "skippable_magic m \<longleftrightarrow> unat m div 16 = 0x184D2A5"
proof -
  have "(0xFFFFFFF0 :: u32) = - 16" by (subst eq_neg_iff_add_eq_0) simp
  also have "\<dots> = NOT 15" by simp
  finally have "m AND 0xFFFFFFF0 = m AND NOT 15" by (rule arg_cong)
  also have "\<dots> = m AND NOT (m AND 15)" by (rule bit_eqI) (auto simp: bit_simps)
  also have "\<dots> = m - (m AND 15)" by (rule disjunctive_diff_eq_and_not [symmetric]) (rule bit_eqI, simp add: bit_simps)
  finally have "unat (m AND 0xFFFFFFF0) = unat (m - (m AND 15))" by simp
  also have "\<dots> = unat m - unat m mod 16"
  proof -
    have a: "unat (m AND 15) = unat m mod 16" using unat_and_mask [of m 4] by simp
    then have "m AND 15 \<le> m" by (simp add: word_le_nat_alt)
    then show ?thesis using a by (simp add: unat_sub)
  qed
  also have "\<dots> = unat m div 16 * 16" by (simp add: minus_mod_eq_div_mult)
  finally have u: "unat (m AND 0xFFFFFFF0) = unat m div 16 * 16" .
  have "skippable_magic m \<longleftrightarrow> unat (m AND 0xFFFFFFF0) = 0x184D2A50"
    by (simp only: skippable_magic_def ZSTD_MAGIC_SKIPPABLE_MASK_def ZSTD_MAGIC_SKIPPABLE_START_def word_unat_eq_iff) simp
  then show ?thesis unfolding u by linarith
qed

lemma skippable_magic_bytes:
  "skippable_magic (of_nat (le_val [b0, b1, b2, b3])) \<longleftrightarrow> unat b0 div 16 = 5 \<and> [b1, b2, b3] = le_bytes 3 0x184D2A"
proof -
  define X q where "X = le_val [b1, b2, b3]" and "q = unat b0 div 16"
  have q: "q < 16" unfolding q_def using unat_byte_less [of b0] by linarith
  have "le_val [b0, b1, b2, b3] < 2 ^ 32" using le_val_bound [of "[b0, b1, b2, b3]"] by simp
  then have "unat (of_nat (le_val [b0, b1, b2, b3]) :: u32) = le_val [b0, b1, b2, b3]"
    by (intro unat_of_nat_id) simp
  also have "\<dots> = unat b0 + 256 * X" by (simp add: X_def)
  finally have v: "unat (of_nat (le_val [b0, b1, b2, b3]) :: u32) div 16 = (unat b0 + 256 * X) div 16" by simp
  have d: "(unat b0 + 256 * X) div 16 = 16 * X + q" by (simp add: q_def)
  have "16 * X + q = 0x184D2A5 \<longleftrightarrow> q = 5 \<and> X = 0x184D2A" using q by presburger
  moreover have "X = 0x184D2A \<longleftrightarrow> [b1, b2, b3] = le_bytes 3 0x184D2A"
  proof
    assume "X = 0x184D2A"
    then show "[b1, b2, b3] = le_bytes 3 0x184D2A"
      using le_bytes_le_val [of "[b1, b2, b3]"] by (simp add: X_def numeral_3_eq_3)
  qed (simp add: X_def le_val_le_bytes)
  ultimately show ?thesis unfolding skippable_magic_unat v d by (simp add: q_def)
qed

lemma le_val_4_inj: "MEM_readLE32 le src 0 = of_nat v \<Longrightarrow> v < 2 ^ 32 \<Longrightarrow> rd src 0 4 = le_bytes 4 v"
proof -
  assume r: "MEM_readLE32 le src 0 = of_nat v" and v: "v < 2 ^ 32"
  have "le_val (rd src 0 4) < 2 ^ 32" using le_val_bound [of "rd src 0 4"] by simp
  then have "le_val (rd src 0 4) = v"
    using arg_cong [OF r, of unat] v by (simp add: MEM_readLE32_eq unat_of_nat)
  then show ?thesis using le_bytes_le_val [of "rd src 0 4"] by simp
qed


definition magic_known :: "bytes \<Rightarrow> bool" where
  "magic_known src \<longleftrightarrow> MEM_readLE32 MEM_isLittleEndian src 0 = ZSTD_MAGICNUMBER
     \<or> skippable_magic (MEM_readLE32 MEM_isLittleEndian src 0)"

lemma readLE32_list: "length xs = 4 \<Longrightarrow> MEM_readLE32 le xs 0 = of_nat (le_val xs)"
  using rd_field [of 0 "[]" 4 xs "[]"] by (simp add: MEM_readLE32_eq)

lemma short_prefix_eq:
  assumes k: "length src \<le> 4"
  shows "short_prefix_known src \<longleftrightarrow>
    of_nat (le_val (src @ drop (length src) (le_bytes 4 0xFD2FB528))) = ZSTD_MAGICNUMBER
    \<or> skippable_magic (of_nat (le_val (src @ drop (length src) (le_bytes 4 0x184D2A50))))"
proof -
  have w: "MEM_writeLE32 MEM_isLittleEndian h 0 v = le_bytes 4 (unat v)" if "length h = 4" for h v
    using that by (simp add: MEM_writeLE32_eq write_at_def)
  have t: "take (min 4 (length src)) src = src" using k by simp
  have c: "write_at (le_bytes 4 v) 0 src = src @ drop (length src) (le_bytes 4 v)" for v
    by (simp add: write_at_def)
  have l: "length (src @ drop (length src) (le_bytes 4 v)) = 4" for v using k by simp
  show ?thesis
    unfolding short_prefix_known_def Let_def t by (simp add: w c l readLE32_list del: length_append)
      (simp add: ZSTD_MAGICNUMBER_def ZSTD_MAGIC_SKIPPABLE_START_def)
qed

lemma short_prefix_of_known:
  assumes len: "4 \<le> length src" and m: "magic_known src" and k: "k \<le> 4"
  shows "short_prefix_known (take k src)"
proof -
  have src4: "rd src 0 4 = take 4 src" using len by (simp add: rd_in_range)
  have tk: "take k src = take k (rd src 0 4)" using k by (simp add: src4 min_def)
  have lk: "length (take k src) = k" using len k by simp
  note e = short_prefix_eq [of "take k src", unfolded lk, OF k]
  from m consider (frame) "MEM_readLE32 MEM_isLittleEndian src 0 = of_nat 0xFD2FB528"
    | (skip) "skippable_magic (MEM_readLE32 MEM_isLittleEndian src 0)"
    by (auto simp: magic_known_def ZSTD_MAGICNUMBER_def)
  then show ?thesis
  proof cases
    case frame
    then have "rd src 0 4 = le_bytes 4 0xFD2FB528" by (rule le_val_4_inj) simp
    then show ?thesis unfolding e unfolding tk by (simp add: le_val_le_bytes ZSTD_MAGICNUMBER_def)
  next
    case skip
    obtain b0 b1 b2 b3 where b: "rd src 0 4 = [b0, b1, b2, b3]" by (simp add: rd_numeral rd_Suc)
    have s: "unat b0 div 16 = 5" "[b1, b2, b3] = le_bytes 3 0x184D2A"
      using skip by (simp_all only: MEM_readLE32_eq b skippable_magic_bytes)
    have l: "le_bytes 4 0x184D2A50 = [0x50, 0x2A, 0x4D, 0x18]" by (simp add: le_bytes_numeral)
    have s': "b1 = 0x2A" "b2 = 0x4D" "b3 = 0x18" using s(2) by (simp_all add: le_bytes_numeral)
    consider "k = 0" | "k = 1" | "k = 2" | "k = 3" | "k = 4" using k by linarith
    then have "skippable_magic (of_nat (le_val (take k (rd src 0 4) @ drop k (le_bytes 4 0x184D2A50))))"
      by cases (simp_all only: b l s', simp_all del: le_val.simps add: skippable_magic_bytes s le_bytes_numeral)
    then show ?thesis unfolding e unfolding tk by blast
  qed
qed

lemma byte_code_less: "unat (b AND 3 :: byte) < 4" "unat (drop_bit 6 b :: byte) < 4"
    "unat (drop_bit 5 b AND 1 :: byte) < 2"
  unfolding byte_fields using unat_byte_less [of b] by (simp_all add: less_mult_imp_div_less)

lemma fh_window_take:
  "single = 0 \<longrightarrow> pos < k \<Longrightarrow> fh_window single (take k src) pos = fh_window single src pos"
  by (simp add: fh_window_def)

lemma fh_window_pos:
  "fh_window single src pos = Inr (w, pos') \<Longrightarrow> pos' = pos + (if single = 0 then 1 else 0)"
  by (auto simp: fh_window_def Let_def split: if_splits)

lemma fh_dictID_take:
  assumes "d < 4" and "pos + ZSTD_did_fieldSize ! d \<le> k"
  shows "fh_dictID d (take k src) pos = fh_dictID d src pos" "snd (fh_dictID d src pos) = pos + ZSTD_did_fieldSize ! d"
proof -
  consider "d = 0" | "d = 1" | "d = 2" | "d = 3" using assms(1) by linarith
  then show "fh_dictID d (take k src) pos = fh_dictID d src pos"
    using assms(2) by cases (simp_all add: fh_dictID_def ZSTD_did_fieldSize_def MEM_readLE16_eq MEM_readLE32_eq)
  consider "d = 0" | "d = 1" | "d = 2" | "d = 3" using assms(1) by linarith
  then show "snd (fh_dictID d src pos) = pos + ZSTD_did_fieldSize ! d"
    by cases (simp_all add: fh_dictID_def ZSTD_did_fieldSize_def)
qed

lemma fh_contentSize_take:
  assumes "f < 4" and "pos + ZSTD_fcs_fieldSize ! f + (if single \<noteq> 0 \<and> f = 0 then 1 else 0) \<le> k"
  shows "fh_contentSize f single (take k src) pos = fh_contentSize f single src pos"
proof -
  consider "f = 0" | "f = 1" | "f = 2" | "f = 3" using assms(1) by linarith
  then show ?thesis
    using assms(2) by cases (auto simp: fh_contentSize_def ZSTD_fcs_fieldSize_def MEM_readLE16_eq
        MEM_readLE32_eq MEM_readLE64_eq split: if_splits)
qed


lemma header_size_take:
  assumes fs: "ZSTD_frameHeaderSize_internal src format = Inr fhsize" and k: "ZSTD_startingInputLength format \<le> k"
  shows "ZSTD_frameHeaderSize_internal (take k src) format = Inr fhsize"
    and "ZSTD_startingInputLength format < fhsize"
proof -
  have "0 < ZSTD_startingInputLength format" by (simp add: header_prefix_facts)
  then show "ZSTD_frameHeaderSize_internal (take k src) format = Inr fhsize"
    using fs k by (auto simp: ZSTD_frameHeaderSize_internal_def Let_def min_def split: if_splits)
  define b where "b = byte_at src (ZSTD_startingInputLength format - 1)"
  have b: "unat (drop_bit 6 b) = 0 \<or> 0 < ZSTD_fcs_fieldSize ! unat (drop_bit 6 b)"
    using byte_code_less(2) [of b] by (auto simp: ZSTD_fcs_fieldSize_def nth_Cons')
  show "ZSTD_startingInputLength format < fhsize"
    using fs b by (auto simp: ZSTD_frameHeaderSize_internal_def Let_def b_def split: if_splits)
qed

lemma fh_decode_take:
  assumes fs: "ZSTD_frameHeaderSize_internal src format = Inr fhsize" and k: "fhsize \<le> k"
  defines "m \<equiv> ZSTD_startingInputLength format"
  shows "fh_decode (take k src) m n = fh_decode src m n"
proof -
  define b where "b = byte_at src (m - 1)"
  define d s f where "d = unat (b AND 3)" and "s = unat (drop_bit 5 b AND 1)" and "f = unat (drop_bit 6 b)"
  have sz: "fhsize = m + (if s = 0 then 1 else 0) + ZSTD_did_fieldSize ! d + ZSTD_fcs_fieldSize ! f
      + (if s \<noteq> 0 \<and> f = 0 then 1 else 0)"
    using fs by (simp add: ZSTD_frameHeaderSize_internal_def Let_def m_def b_def d_def s_def f_def split: if_splits)
  have m: "m - 1 < k" using k header_size_take(2) [OF fs order_refl] by (simp add: m_def)
  have c: "d < 4" "f < 4" by (simp_all add: d_def f_def byte_code_less)
  have w: "fh_window s (take k src) m = fh_window s src m"
    using sz k by (intro fh_window_take) auto
  have dd: "fh_dictID d (take k src) p = fh_dictID d src p" "snd (fh_dictID d src p) = p + ZSTD_did_fieldSize ! d"
    if "fh_window s src m = Inr (v, p)" for v p
    using fh_dictID_take [OF c(1), of p k src] fh_window_pos [OF that] sz k by (simp_all split: if_splits)
  have cc: "fh_contentSize f s (take k src) q = fh_contentSize f s src q"
    if "fh_window s src m = Inr (v, p)" "fh_dictID d src p = (i, q)" for v p i q
    using dd(2) [OF that(1)] that(2) fh_window_pos [OF that(1)] sz k
    by (intro fh_contentSize_take [OF c(2)]) (simp split: if_splits)
  show ?thesis
    unfolding fh_decode_def Let_def byte_at_take [OF m] b_def [symmetric] d_def [symmetric]
      s_def [symmetric] f_def [symmetric] w
    by (cases "fh_window s src m") (auto simp: dd cc split: prod.split)
qed

lemma fh_decode_size: "fh_decode src m n = Inr (Header h) \<Longrightarrow> zfh_headerSize h = n \<and> zfh_frameType h = ZSTD_frame"
  by (auto simp: fh_decode_def Let_def bind_res_Inr_iff case_prod_unfold split: if_splits)

lemma fh_decode_not_wanted: "fh_decode src m n \<noteq> Inr (Wanted w)"
  by (auto simp: fh_decode_def Let_def bind_res_Inr_iff case_prod_unfold split: if_splits)


lemma getFrameHeader_cases:
  assumes "ZSTD_getFrameHeader_advanced src format = Inr (Header h)"
  obtains (frame) fhsize where "format \<noteq> ZSTD_f_zstd1_magicless \<longrightarrow> MEM_readLE32 MEM_isLittleEndian src 0 = ZSTD_MAGICNUMBER"
      "ZSTD_frameHeaderSize_internal src format = Inr fhsize" "fhsize \<le> length src"
      "fh_decode src (ZSTD_startingInputLength format) fhsize = Inr (Header h)"
      "zfh_headerSize h = fhsize" "zfh_frameType h = ZSTD_frame"
    | (skippable) "format = ZSTD_f_zstd1" "MEM_readLE32 MEM_isLittleEndian src 0 \<noteq> ZSTD_MAGICNUMBER"
      "skippable_magic (MEM_readLE32 MEM_isLittleEndian src 0)" "8 \<le> length src"
      "zfh_headerSize h = 8" "zfh_frameType h = ZSTD_skippableFrame"
proof -
  consider "format \<noteq> ZSTD_f_zstd1_magicless \<longrightarrow> MEM_readLE32 MEM_isLittleEndian src 0 = ZSTD_MAGICNUMBER"
    | "format = ZSTD_f_zstd1" "MEM_readLE32 MEM_isLittleEndian src 0 \<noteq> ZSTD_MAGICNUMBER"
    by (cases format) auto
  then show ?thesis
  proof cases
    case 1
    then have "bind_res (ZSTD_frameHeaderSize_internal src format) (\<lambda>fhsize.
             if length src < fhsize then Inr (Wanted fhsize)
             else fh_decode src (ZSTD_startingInputLength format) fhsize) = Inr (Header h)"
      using assms by (auto simp: ZSTD_getFrameHeader_advanced_def Let_def split: if_splits)
    then show ?thesis
      using 1 by (auto simp: bind_res_Inr_iff not_less dest: fh_decode_size split: if_splits intro!: frame)
  next
    case 2
    then show ?thesis
      using assms by (auto simp: ZSTD_getFrameHeader_advanced_def Let_def frame_consts not_less
          split: if_splits intro!: skippable)
  qed
qed

lemma header_known_prefix:
  assumes "ZSTD_getFrameHeader_advanced src format = Inr (Header h)"
  shows "format \<noteq> ZSTD_f_zstd1_magicless \<Longrightarrow> magic_known src \<and> 4 \<le> length src"
    and "ZSTD_startingInputLength format < zfh_headerSize h" and "zfh_headerSize h \<le> length src"
proof -
  have "ZSTD_startingInputLength format < zfh_headerSize h \<and> zfh_headerSize h \<le> length src"
    using assms
  proof (cases rule: getFrameHeader_cases)
    case (frame fhsize)
    then show ?thesis using header_size_take(2) [OF frame(2) order_refl] by simp
  qed (simp add: ZSTD_startingInputLength_def ZSTD_FRAMEHEADERSIZE_PREFIX_def)
  then show "ZSTD_startingInputLength format < zfh_headerSize h" "zfh_headerSize h \<le> length src" by simp_all
  then have "ZSTD_startingInputLength format \<le> length src" by simp
  then show "format \<noteq> ZSTD_f_zstd1_magicless \<Longrightarrow> magic_known src \<and> 4 \<le> length src"
    using getFrameHeader_cases [OF assms, of "magic_known src"] by (cases format)
      (auto simp: magic_known_def ZSTD_startingInputLength_def ZSTD_FRAMEHEADERSIZE_PREFIX_def)
qed

lemma readLE32_take: "4 \<le> k \<Longrightarrow> MEM_readLE32 le (take k src) 0 = MEM_readLE32 le src 0"
  by (simp add: MEM_readLE32_eq)

lemma getFrameHeader_longer:
  assumes h: "ZSTD_getFrameHeader_advanced src format = Inr (Header h)" and k: "zfh_headerSize h \<le> k"
  shows "ZSTD_getFrameHeader_advanced (take k src) format = Inr (Header h)"
proof -
  have m: "ZSTD_startingInputLength format \<le> length (take k src)"
    using header_known_prefix(2,3) [OF h] k by simp
  have f4: "format \<noteq> ZSTD_f_zstd1_magicless \<Longrightarrow> 4 \<le> k"
    using m by (cases format) (auto simp: ZSTD_startingInputLength_def ZSTD_FRAMEHEADERSIZE_PREFIX_def)
  show ?thesis
    using h
  proof (cases rule: getFrameHeader_cases)
    case (frame fhsize)
    then have "fh_decode (take k src) (ZSTD_startingInputLength format) fhsize = Inr (Header h)"
      using k by (simp add: fh_decode_take)
    then show ?thesis
      using frame k m f4 header_size_take(1) [OF frame(2), of k]
      by (auto simp: ZSTD_getFrameHeader_advanced_def Let_def readLE32_take)
  next
    case skippable
    then show ?thesis
      using h k by (simp add: ZSTD_getFrameHeader_advanced_def Let_def MEM_readLE32_eq frame_consts
          ZSTD_startingInputLength_def ZSTD_FRAMEHEADERSIZE_PREFIX_def)
  qed
qed

lemma getFrameHeader_shorter:
  assumes h: "ZSTD_getFrameHeader_advanced src format = Inr (Header h)" and k: "k < zfh_headerSize h"
  shows "ZSTD_getFrameHeader_advanced (take k src) format = Inr (Wanted
     (if k < ZSTD_startingInputLength format then ZSTD_startingInputLength format else zfh_headerSize h))"
proof -
  have l: "length (take k src) = k" using header_known_prefix(3) [OF h] k by simp
  show ?thesis
  proof (cases "k < ZSTD_startingInputLength format")
    case True
    then have "format \<noteq> ZSTD_f_zstd1_magicless \<Longrightarrow> short_prefix_known (take k src)"
      using header_known_prefix(1) [OF h]
      by (cases format) (auto simp: ZSTD_startingInputLength_def ZSTD_FRAMEHEADERSIZE_PREFIX_def
          intro!: short_prefix_of_known)
    then show ?thesis using True l by (auto simp: ZSTD_getFrameHeader_advanced_def Let_def)
  next
    case False
    then have f4: "format \<noteq> ZSTD_f_zstd1_magicless \<Longrightarrow> 4 \<le> k"
      by (cases format) (auto simp: ZSTD_startingInputLength_def ZSTD_FRAMEHEADERSIZE_PREFIX_def)
    show ?thesis
      using h
    proof (cases rule: getFrameHeader_cases)
      case (frame fhsize)
      then show ?thesis
        using False k l f4 header_size_take(1) [OF frame(2), of k]
        by (cases format) (auto simp: ZSTD_getFrameHeader_advanced_def Let_def readLE32_take)
    next
      case skippable
      then show ?thesis
        using False k l f4 by (auto simp: ZSTD_getFrameHeader_advanced_def Let_def readLE32_take frame_consts)
    qed
  qed
qed


subsection \<open>Skippable frames\<close>

lemma rd_fields_two:
  "length a = m \<Longrightarrow> length b = n \<Longrightarrow> rd (a @ b @ c) 0 m = a \<and> rd (a @ b @ c) m n = b"
  by (metis append_Nil list.size(3) rd_field)

lemma writeSkippable_eq:
  assumes "length src + 8 \<le> length dst" and "length src < 2 ^ 32" and "v \<le> 15"
  shows "ZSTD_writeSkippableFrame dst src v = Inr (length src + 8,
    (le_bytes 4 (0x184D2A50 + v) @ le_bytes 4 (length src) @ src) @ drop (length src + 8) dst)"
proof -
  have m: "unat (ZSTD_MAGIC_SKIPPABLE_START + of_nat v) = 0x184D2A50 + v"
  proof -
    have "ZSTD_MAGIC_SKIPPABLE_START + of_nat v = of_nat (0x184D2A50 + v)"
      by (simp add: ZSTD_MAGIC_SKIPPABLE_START_def)
    then show ?thesis using assms(3) by (simp only: unat_of_nat) simp
  qed
  have w1: "write_at dst 0 (le_bytes 4 a) = le_bytes 4 a @ drop 4 dst" for a
    by (simp add: write_at_def)
  have w2: "write_at (le_bytes 4 a @ drop 4 dst) 4 (le_bytes 4 b) = (le_bytes 4 a @ le_bytes 4 b) @ drop 8 dst" for a b
    by (simp add: write_at_def)
  show ?thesis
    using assms by (simp add: ZSTD_writeSkippableFrame_def Let_def MEM_writeLE32_eq m frame_consts w1 w2
        le_bytes_unat_of_nat) (simp add: write_at_def)
qed


definition skippable_bytes :: "nat \<Rightarrow> bytes \<Rightarrow> bytes" where
  "skippable_bytes v src = le_bytes 4 (0x184D2A50 + v) @ le_bytes 4 (length src) @ src"

lemma skippable_reads:
  assumes "length src < 2 ^ 32" and "v \<le> 15"
  shows "MEM_readLE32 le (skippable_bytes v src @ rest) 0 = of_nat (0x184D2A50 + v)"
    and "MEM_readLE32 le (skippable_bytes v src @ rest) 4 = of_nat (length src)"
    and "rd (skippable_bytes v src @ rest) 8 (length src) = src"
    and "length (skippable_bytes v src) = length src + 8"
proof -
  have a: "skippable_bytes v src @ rest = le_bytes 4 (0x184D2A50 + v) @ le_bytes 4 (length src) @ (src @ rest)"
    "skippable_bytes v src @ rest = (le_bytes 4 (0x184D2A50 + v) @ le_bytes 4 (length src)) @ src @ rest"
    by (simp_all add: skippable_bytes_def)
  show "MEM_readLE32 le (skippable_bytes v src @ rest) 0 = of_nat (0x184D2A50 + v)"
    "MEM_readLE32 le (skippable_bytes v src @ rest) 4 = of_nat (length src)"
    using assms rd_fields_two [of "le_bytes 4 (0x184D2A50 + v)" 4 "le_bytes 4 (length src)" 4 "src @ rest"]
    unfolding MEM_readLE32_eq a(1) by (simp_all add: le_val_le_bytes)
  show "rd (skippable_bytes v src @ rest) 8 (length src) = src"
    unfolding a(2) by (rule rd_field) simp_all
  show "length (skippable_bytes v src) = length src + 8" by (simp add: skippable_bytes_def)
qed

lemma skippable_magic_start: "v \<le> 15 \<Longrightarrow> skippable_magic (of_nat (0x184D2A50 + v))"
proof -
  assume v: "v \<le> 15"
  have "unat (of_nat (0x184D2A50 + v) :: u32) = 0x184D2A50 + v" using v by (intro unat_of_nat_id) simp
  then show ?thesis unfolding skippable_magic_unat using v by simp
qed

lemma readSkippableFrameSize_bytes:
  assumes "length src < 2 ^ 32" and "v \<le> 15"
  shows "readSkippableFrameSize (skippable_bytes v src @ rest) =
    (if length src + 8 < 2 ^ 32 then Inr (length src + 8) else Inl ZSTD_error_frameParameter_unsupported)"
proof -
  have u: "unat (of_nat (length src) :: u32) = length src" using assms(1) by (intro unat_of_nat_id) simp
  have "unat (of_nat (length src) + 8 :: u32) = (length src + 8) mod 2 ^ 32"
    by (simp add: unat_word_ariths u)
  also have "\<dots> = (if length src + 8 < 2 ^ 32 then length src + 8 else length src + 8 - 2 ^ 32)"
    using assms(1) by (simp add: mod_if)
  finally have "(of_nat (length src) + 8 < (of_nat (length src) :: u32)) \<longleftrightarrow> \<not> length src + 8 < 2 ^ 32"
    unfolding word_less_nat_alt u using assms(1) by (simp split: if_splits) linarith?
  then show ?thesis
    by (simp add: readSkippableFrameSize_def frame_consts skippable_reads [OF assms] u Let_def)
qed

lemma readSkippableFrame_bytes:
  assumes "length src + 8 < 2 ^ 32" and "v \<le> 15" and "length src \<le> length dst"
  shows "ZSTD_readSkippableFrame dst (skippable_bytes v src @ rest) = Inr (length src, src @ drop (length src) dst, v)"
proof -
  have l: "length src < 2 ^ 32" using assms(1) by simp
  have "unat (of_nat (0x184D2A50 + v) - ZSTD_MAGIC_SKIPPABLE_START) = v"
  proof -
    have "(of_nat (0x184D2A50 + v) - ZSTD_MAGIC_SKIPPABLE_START) = of_nat v"
      by (simp add: ZSTD_MAGIC_SKIPPABLE_START_def)
    then show ?thesis using assms(2) by (simp only: unat_of_nat) simp
  qed
  then show ?thesis
    using assms skippable_magic_start [OF assms(2)]
    by (simp add: ZSTD_readSkippableFrame_def ZSTD_isSkippableFrame_def readSkippableFrameSize_bytes [OF l assms(2)]
        skippable_reads [OF l assms(2)] frame_consts write_at_def Let_def del: of_nat_add)
qed

subsection \<open>Block headers\<close>

lemma word_fields32:
  fixes w :: u32
  shows "unat (drop_bit 3 w) = unat w div 8" and "unat (drop_bit 1 w AND 3) = unat w div 2 mod 4"
    and "unat (w AND 1) = unat w mod 2"
proof -
  show "unat (drop_bit 3 w) = unat w div 8" by (simp only: unat_drop_bit_word) simp
  show "unat (drop_bit 1 w AND 3) = unat w div 2 mod 4"
    using unat_and_mask [of "drop_bit 1 w" 2] by (simp only: unat_drop_bit_word) simp
  show "unat (w AND 1) = unat w mod 2" using unat_and_mask [of w 1] by simp
qed

lemma getcBlockSize_bytes:
  assumes "h < 2 ^ 24"
  shows "ZSTD_getcBlockSize (le_bytes 3 h @ rest) =
    (let t = blockType_of (h div 2 mod 4); bp = \<lparr>blockType = t, lastBlock = h mod 2, origSize = h div 8\<rparr> in
     if t = bt_rle then Inr (1, bp) else if t = bt_reserved then Inl ZSTD_error_corruption_detected
     else Inr (h div 8, bp))"
proof -
  have "rd (le_bytes 3 h @ rest) 0 3 = le_bytes 3 h" using rd_field [of 0 "[]" 3 "le_bytes 3 h" rest] by simp
  then have "MEM_readLE24 MEM_isLittleEndian (le_bytes 3 h @ rest) 0 = of_nat h"
    using assms by (simp add: MEM_readLE24_eq le_val_le_bytes)
  moreover have "unat (of_nat h :: u32) = h" using assms by (intro unat_of_nat_id) simp
  ultimately show ?thesis
    by (simp add: ZSTD_getcBlockSize_def Let_def word_fields32 frame_consts del: One_nat_def)
qed

lemma noCompressBlock_eq:
  assumes "length src < 2 ^ 21" and "b \<le> 1" and "length src + 3 \<le> length dst"
  shows "ZSTD_noCompressBlock dst src b = Inr (3 + length src,
    (le_bytes 3 (b + 8 * length src) @ src) @ drop (3 + length src) dst)"
proof -
  have "(of_nat b + of_nat (blockType_nat bt_raw * 2) + of_nat (length src * 8) :: u32) = of_nat (b + 8 * length src)"
    by simp
  moreover have "unat (of_nat (b + 8 * length src) :: u32) = b + 8 * length src"
    using assms by (intro unat_of_nat_id) simp
  ultimately show ?thesis
    using assms by (simp add: ZSTD_noCompressBlock_def Let_def frame_consts MEM_writeLE24_eq write_at_def
        add.commute [of 3] del: of_nat_add)
qed

lemma rleCompressBlock_eq:
  assumes "n < 2 ^ 21" and "b \<le> 1" and "4 \<le> length dst"
  shows "ZSTD_rleCompressBlock dst x n b = Inr (4, (le_bytes 3 (b + 2 + 8 * n) @ [x]) @ drop 4 dst)"
proof -
  have e: "(of_nat b + of_nat (blockType_nat bt_rle * 2) + of_nat (n * 8) :: u32) = of_nat (b + 2 + 8 * n)"
    by simp
  have u: "unat (of_nat (b + 2 + 8 * n) :: u32) = b + 2 + 8 * n"
    using assms by (intro unat_of_nat_id) simp
  have l: "(le_bytes 3 h @ drop 3 dst)[3 := x] = (le_bytes 3 h @ [x]) @ drop 4 dst" for h
    using assms(3) by (simp add: list_update_append Cons_nth_drop_Suc [symmetric])
  show ?thesis
    unfolding ZSTD_rleCompressBlock_def Let_def e using assms(3)
    by (simp add: MEM_writeLE24_eq write_at_def u l del: of_nat_add add_2_eq_Suc add_2_eq_Suc')
qed

lemma writeLastEmptyBlock_eq:
  "3 \<le> length dst \<Longrightarrow> ZSTD_writeLastEmptyBlock dst = Inr (3, le_bytes 3 1 @ drop 3 dst)"
  by (simp add: ZSTD_writeLastEmptyBlock_def frame_consts MEM_writeLE24_eq write_at_def)


subsection \<open>Properties\<close>

text \<open>C5. Frame headers survive the trip: for every window log a compressor may use, every
  dictionary identifier and every source size, with and without content size, checksum, dictionary
  identifier and magic number, the header writer succeeds on a destination of 18 bytes, writes at
  most 18 bytes and leaves the rest of the buffer alone, and the header reader recovers from the
  written bytes, whatever follows them, exactly the content size, window size, block size limit,
  dictionary identifier and checksum flag that were written, and the length of the header.\<close>

theorem frame_header_roundtrip:
  assumes "10 \<le> windowLog (cParams params)" "windowLog (cParams params) \<le> 31"
    and "dictID < 2 ^ 32" and "n < 2 ^ 64" and "18 \<le> length dst"
  shows "\<exists>sz dst'. ZSTD_writeFrameHeader dst params n dictID = Inr (sz, dst')
    \<and> sz \<le> 18 \<and> length dst' = length dst \<and> drop sz dst' = drop sz dst
    \<and> (\<forall>rest. \<exists>zfh. ZSTD_getFrameHeader_advanced (take sz dst' @ rest) (p_format params) = Inr (Header zfh)
         \<and> zfh_frameContentSize zfh = (if contentSizeFlag (fParams params) \<noteq> 0 then n else ZSTD_CONTENTSIZE_UNKNOWN)
         \<and> zfh_windowSize zfh = (if contentSizeFlag (fParams params) \<noteq> 0 \<and> n \<le> 2 ^ windowLog (cParams params)
              then n else 2 ^ windowLog (cParams params))
         \<and> zfh_blockSizeMax zfh = min (zfh_windowSize zfh) ZSTD_BLOCKSIZE_MAX
         \<and> zfh_frameType zfh = ZSTD_frame \<and> zfh_headerSize zfh = sz
         \<and> zfh_dictID zfh = (if noDictIDFlag (fParams params) \<noteq> 0 then 0 else dictID)
         \<and> zfh_checksumFlag zfh = of_bool (checksumFlag (fParams params) > 0))"
proof -
  define h where "h = written_header params n dictID"
  have l: "length h \<le> 18" using length_written_header [of params n dictID] by (simp add: h_def frame_consts)
  have "ZSTD_writeFrameHeader dst params n dictID = Inr (length h, write_at dst 0 h)"
    using writeFrameHeader_eq [OF assms(1,2), of dst n dictID] assms(5) by (simp add: h_def frame_consts)
  moreover have "take (length h) (write_at dst 0 h) = h" "drop (length h) (write_at dst 0 h) = drop (length h) dst"
    by (simp_all add: write_at_def)
  moreover note getFrameHeader_written [OF assms(1-4), folded h_def]
  ultimately show ?thesis using l assms(5) by (simp add: header_of_def h_def [symmetric] Let_def)
qed

theorem frame_header_roundtrip_witness:
  "\<exists>sz dst'. ZSTD_writeFrameHeader (replicate 18 0)
      (cctx_params_zero\<lparr>cParams := cpar 19 0 0 0 0 0 1, fParams := \<lparr>contentSizeFlag = 1, checksumFlag = 1, noDictIDFlag = 0\<rparr>\<rparr>)
      1000 7 = Inr (sz, dst') \<and> sz \<le> 18"
  using frame_header_roundtrip [of "cctx_params_zero\<lparr>cParams := cpar 19 0 0 0 0 0 1,
      fParams := \<lparr>contentSizeFlag = 1, checksumFlag = 1, noDictIDFlag = 0\<rparr>\<rparr>" 7 1000 "replicate 18 0"]
  by (auto simp: cpar_def)

text \<open>C12. Reading a header never stalls and never over-reads: when the reader accepts a source, it
  needed at least the first header bytes and no more. On every shorter prefix of the source it asks for
  more input, naming a size that is larger than the prefix and at most the size of the header, and on
  every prefix that holds the header it returns the same header. A caller that supplies what was
  asked for therefore holds the header after at most two requests.\<close>

theorem frame_header_progress:
  assumes "ZSTD_getFrameHeader_advanced src format = Inr (Header zfh)"
  shows "zfh_headerSize zfh \<le> length src
    \<and> (\<forall>k \<ge> zfh_headerSize zfh. ZSTD_getFrameHeader_advanced (take k src) format = Inr (Header zfh))
    \<and> (\<forall>k < zfh_headerSize zfh. \<exists>w. ZSTD_getFrameHeader_advanced (take k src) format = Inr (Wanted w)
         \<and> k < w \<and> w \<le> zfh_headerSize zfh)
    \<and> (\<forall>w v. ZSTD_getFrameHeader_advanced [] format = Inr (Wanted w) \<longrightarrow>
         ZSTD_getFrameHeader_advanced (take w src) format = Inr (Wanted v) \<longrightarrow> v = zfh_headerSize zfh)"
proof -
  note p = header_known_prefix(2,3) [OF assms]
  have "\<exists>w. ZSTD_getFrameHeader_advanced (take k src) format = Inr (Wanted w) \<and> k < w \<and> w \<le> zfh_headerSize zfh"
    if "k < zfh_headerSize zfh" for k
    using getFrameHeader_shorter [OF assms that] p(1) that by auto
  moreover have "v = zfh_headerSize zfh"
    if "ZSTD_getFrameHeader_advanced [] format = Inr (Wanted w)"
      "ZSTD_getFrameHeader_advanced (take w src) format = Inr (Wanted v)" for w v
  proof -
    have "w = ZSTD_startingInputLength format"
      using that(1) by (simp add: ZSTD_getFrameHeader_advanced_def header_prefix_facts(1))
    then show ?thesis using that(2) getFrameHeader_shorter [OF assms p(1)] by simp
  qed
  ultimately show ?thesis using p(2) getFrameHeader_longer [OF assms] by blast
qed


theorem frame_header_progress_witness:
  "\<exists>zfh. ZSTD_getFrameHeader_advanced [0x28, 0xB5, 0x2F, 0xFD, 0, 0x48] ZSTD_f_zstd1 = Inr (Header zfh)
     \<and> zfh_headerSize zfh \<le> 6"
proof -
  have "\<exists>zfh. ZSTD_getFrameHeader_advanced [0x28, 0xB5, 0x2F, 0xFD, 0, 0x48] ZSTD_f_zstd1 = Inr (Header zfh)"
    by (simp add: ZSTD_getFrameHeader_advanced_def ZSTD_startingInputLength_def ZSTD_FRAMEHEADERSIZE_PREFIX_def
        MEM_readLE32_eq rd_numeral rd_Suc byte_at_def ZSTD_MAGICNUMBER_def ZSTD_frameHeaderSize_internal_def
        ZSTD_did_fieldSize_def ZSTD_fcs_fieldSize_def fh_decode_def fh_window_def fh_dictID_def byte_fields
        zstd_limits)
  then obtain zfh where "ZSTD_getFrameHeader_advanced [0x28, 0xB5, 0x2F, 0xFD, 0, 0x48] ZSTD_f_zstd1 = Inr (Header zfh)"
    by blast
  then show ?thesis using frame_header_progress by fastforce
qed

text \<open>C29. Skippable frames survive the trip: what the writer stores in a skippable frame, the reader
  returns together with the magic variant, whatever follows the frame, for every content whose size
  leaves room for the 8 header bytes in 32 bits.\<close>

theorem skippable_frame_roundtrip:
  assumes "length src + 8 < 2 ^ 32" and "v \<le> 15" and "length src + 8 \<le> length dst" and "length src \<le> length out"
  shows "\<exists>dst'. ZSTD_writeSkippableFrame dst src v = Inr (length src + 8, dst')
    \<and> drop (length src + 8) dst' = drop (length src + 8) dst
    \<and> (\<forall>rest. readSkippableFrameSize (take (length src + 8) dst' @ rest) = Inr (length src + 8)
        \<and> ZSTD_readSkippableFrame out (take (length src + 8) dst' @ rest)
           = Inr (length src, src @ drop (length src) out, v))"
proof -
  have l: "length src < 2 ^ 32" using assms(1) by simp
  have "ZSTD_writeSkippableFrame dst src v
      = Inr (length src + 8, skippable_bytes v src @ drop (length src + 8) dst)"
    using writeSkippable_eq [OF assms(3) l assms(2)] by (simp add: skippable_bytes_def)
  then show ?thesis
    using skippable_reads(4) [OF l assms(2)] readSkippableFrame_bytes [OF assms(1,2,4)]
      readSkippableFrameSize_bytes [OF l assms(2)] assms(1) by simp
qed

theorem skippable_frame_roundtrip_witness:
  "\<exists>dst'. ZSTD_writeSkippableFrame (replicate 11 0) [1, 2, 3] 5 = Inr (11, dst')
     \<and> ZSTD_readSkippableFrame (replicate 3 0) (take 11 dst' @ [9]) = Inr (3, [1, 2, 3], 5)"
  using skippable_frame_roundtrip [of "[1, 2, 3]" 5 "replicate 11 0" "replicate 3 0"] by auto

text \<open>C30. The writer of skippable frames accepts contents the readers refuse: for a content of
  \<open>2^32 - 8\<close> to \<open>2^32 - 1\<close> bytes it writes a frame and reports success, but the size of that frame
  does not fit the 32-bit check of the reader, which answers with an error.\<close>

theorem skippable_frame_unreadable:
  assumes "2 ^ 32 \<le> length src + 8" and "length src < 2 ^ 32" and "v \<le> 15" and "length src + 8 \<le> length dst"
  shows "\<exists>dst'. ZSTD_writeSkippableFrame dst src v = Inr (length src + 8, dst')
    \<and> readSkippableFrameSize (take (length src + 8) dst') = Inl ZSTD_error_frameParameter_unsupported
    \<and> ZSTD_readSkippableFrame out (take (length src + 8) dst') = Inl ZSTD_error_srcSize_wrong"
proof -
  have "ZSTD_writeSkippableFrame dst src v
      = Inr (length src + 8, skippable_bytes v src @ drop (length src + 8) dst)"
    using writeSkippable_eq [OF assms(4,2,3)] by (simp add: skippable_bytes_def)
  moreover have "readSkippableFrameSize (skippable_bytes v src) = Inl ZSTD_error_frameParameter_unsupported"
    using readSkippableFrameSize_bytes [OF assms(2,3), of "[]"] assms(1) by simp
  moreover from this have "ZSTD_readSkippableFrame out (skippable_bytes v src) = Inl ZSTD_error_srcSize_wrong"
    using skippable_reads(1) [OF assms(2,3), of _ "[]"] skippable_reads(4) [OF assms(2,3)]
      skippable_magic_start [OF assms(3)]
    by (simp add: ZSTD_readSkippableFrame_def ZSTD_isSkippableFrame_def frame_consts del: of_nat_add)
  ultimately show ?thesis using skippable_reads(4) [OF assms(2,3)] by simp
qed

theorem skippable_frame_unreadable_witness:
  "\<exists>dst'. ZSTD_writeSkippableFrame (replicate (2 ^ 32) 0) (replicate (2 ^ 32 - 8) 0) 0 = Inr (2 ^ 32, dst')
     \<and> readSkippableFrameSize (take (2 ^ 32) dst') = Inl ZSTD_error_frameParameter_unsupported"
proof -
  have "2 ^ 32 - 8 + 8 = (2 ^ 32 :: nat)" by simp
  then show ?thesis
    using skippable_frame_unreadable [of "replicate (2 ^ 32 - 8) 0" 0 "replicate (2 ^ 32) 0"]
    unfolding length_replicate by fastforce
qed

end
