(* ===== verification/Zstd_Frame_Sizes.thy ===== *)
theory Zstd_Frame_Sizes
  imports Zstd_Frame
begin

text \<open>
  Measuring compressed data without decompressing it: the extent of a frame
  (\<open>ZSTD_findFrameSizeInfo\<close>), and the loops over all frames of a source that sum their content
  sizes (\<open>ZSTD_findDecompressedSize\<close>), bound them (\<open>ZSTD_decompressBound\<close>) or compute the margin
  of an in-place decompression (\<open>ZSTD_decompressionMargin\<close>). A pointer that moves forward is the
  remaining byte list. The lemmas show that each loop ends, that a frame is delimited by its own
  bytes, and that the loops agree where the documentation says they do.
\<close>

subsection \<open>The extent of a frame\<close>

record ZSTD_frameSizeInfo =
  fsi_nbBlocks :: nat
  fsi_compressedSize :: "nat res"
  fsi_decompressedBound :: nat

definition ZSTD_errorFrameSizeInfo :: "ZSTD_ErrorCode \<Rightarrow> ZSTD_frameSizeInfo" where
  "ZSTD_errorFrameSizeInfo ret =
     \<lparr>fsi_nbBlocks = 0, fsi_compressedSize = Inl ret, fsi_decompressedBound = ZSTD_CONTENTSIZE_ERROR\<rparr>"

text \<open>The loop over the blocks of a frame returns their number and the rest of the source.\<close>

function skip_blocks :: "bytes \<Rightarrow> nat \<Rightarrow> (nat \<times> bytes) res" where
  "skip_blocks ip nbBlocks =
     (case ZSTD_getcBlockSize ip of
        Inl e \<Rightarrow> Inl e
      | Inr (cBlockSize, bp) \<Rightarrow>
          if ZSTD_blockHeaderSize + cBlockSize > length ip then Inl ZSTD_error_srcSize_wrong
          else let ip = drop (ZSTD_blockHeaderSize + cBlockSize) ip; nbBlocks = nbBlocks + 1
               in if lastBlock bp \<noteq> 0 then Inr (nbBlocks, ip) else skip_blocks ip nbBlocks)"
  by auto
termination
  by (relation "measure (\<lambda>(ip, _). length ip)") (auto simp: frame_consts)

definition ZSTD_findFrameSizeInfo :: "bytes \<Rightarrow> ZSTD_format_e \<Rightarrow> ZSTD_frameSizeInfo" where
  "ZSTD_findFrameSizeInfo src format =
     (if format = ZSTD_f_zstd1 \<and> length src \<ge> ZSTD_SKIPPABLEHEADERSIZE
         \<and> skippable_magic (MEM_readLE32 MEM_isLittleEndian src 0)
      then \<lparr>fsi_nbBlocks = 0, fsi_compressedSize = readSkippableFrameSize src, fsi_decompressedBound = 0\<rparr>
      else case ZSTD_getFrameHeader_advanced src format of
          Inl e \<Rightarrow> ZSTD_errorFrameSizeInfo e
        | Inr (Wanted _) \<Rightarrow> ZSTD_errorFrameSizeInfo ZSTD_error_srcSize_wrong
        | Inr (Header zfh) \<Rightarrow>
            (case skip_blocks (drop (zfh_headerSize zfh) src) 0 of
               Inl e \<Rightarrow> ZSTD_errorFrameSizeInfo e
             | Inr (nbBlocks, ip) \<Rightarrow>
                 if zfh_checksumFlag zfh \<noteq> 0 \<and> length ip < 4
                 then ZSTD_errorFrameSizeInfo ZSTD_error_srcSize_wrong
                 else let ip = (if zfh_checksumFlag zfh \<noteq> 0 then drop 4 ip else ip)
                      in \<lparr>fsi_nbBlocks = nbBlocks, fsi_compressedSize = Inr (length src - length ip),
                          fsi_decompressedBound = (if zfh_frameContentSize zfh \<noteq> ZSTD_CONTENTSIZE_UNKNOWN
                            then zfh_frameContentSize zfh
                            else nbBlocks * zfh_blockSizeMax zfh mod 2 ^ 64)\<rparr>))"

definition ZSTD_findFrameCompressedSize_advanced :: "bytes \<Rightarrow> ZSTD_format_e \<Rightarrow> nat res" where
  "ZSTD_findFrameCompressedSize_advanced src format = fsi_compressedSize (ZSTD_findFrameSizeInfo src format)"

definition ZSTD_findFrameCompressedSize :: "bytes \<Rightarrow> nat res" where
  "ZSTD_findFrameCompressedSize src = ZSTD_findFrameCompressedSize_advanced src ZSTD_f_zstd1"

subsection \<open>Properties of the extent\<close>

declare skip_blocks.simps [simp del]

lemma getcBlockSize_append: "3 \<le> length x \<Longrightarrow> ZSTD_getcBlockSize (x @ y) = ZSTD_getcBlockSize x"
  by (simp add: ZSTD_getcBlockSize_def frame_consts MEM_readLE24_eq rd_append_left)

lemma getcBlockSize_length: "ZSTD_getcBlockSize ip = Inr p \<Longrightarrow> 3 \<le> length ip"
  by (auto simp: ZSTD_getcBlockSize_def frame_consts split: if_splits)

text \<open>The blocks end where their own headers say, whatever follows.\<close>

lemma skip_blocks_split:
  "skip_blocks ip nb = Inr (m, r) \<Longrightarrow>
   \<exists>pre. ip = pre @ r \<and> 3 * (m - nb) \<le> length pre \<and> nb < m \<and> (\<forall>y. skip_blocks (pre @ y) nb = Inr (m, y))"
proof (induction ip nb arbitrary: m r rule: skip_blocks.induct)
  case (1 ip nb)
  then obtain cs bp where g: "ZSTD_getcBlockSize ip = Inr (cs, bp)"
    by (auto simp: skip_blocks.simps [of ip] split: sum.splits)
  have s: "3 + cs \<le> length ip" using "1.prems" by (auto simp: skip_blocks.simps [of ip] g frame_consts split: if_splits)
  define b where "b = take (3 + cs) ip"
  have b: "ip = b @ drop (3 + cs) ip" "length b = 3 + cs" using s by (simp_all add: b_def)
  have gb: "ZSTD_getcBlockSize (b @ y) = Inr (cs, bp)" for y
    using getcBlockSize_append [of b] g b by (metis le_add1)
  have step: "skip_blocks (b @ y) nb = (if lastBlock bp \<noteq> 0 then Inr (nb + 1, y) else skip_blocks y (nb + 1))" for y
    by (simp add: skip_blocks.simps [of "b @ y"] gb frame_consts b(2) Let_def)
  show ?case
  proof (cases "lastBlock bp = 0")
    case True
    then have "skip_blocks (drop (3 + cs) ip) (nb + 1) = Inr (m, r)"
      using "1.prems" b(1) step by metis
    then obtain pre where p: "drop (3 + cs) ip = pre @ r" "nb + 1 < m" "3 * (m - (nb + 1)) \<le> length pre"
      "\<And>y. skip_blocks (pre @ y) (nb + 1) = Inr (m, y)"
      using "1.IH" [OF g refl _ refl refl, of m r] s True unfolding frame_consts by auto
    then have "ip = (b @ pre) @ r" "\<And>y. skip_blocks ((b @ pre) @ y) nb = Inr (m, y)"
      using b(1) True by (simp_all add: step)
    then show ?thesis using b(2) p(2,3) by (intro exI [of _ "b @ pre"]) auto
  next
    case False
    then have "m = nb + 1" "drop (3 + cs) ip = r"
      using "1.prems" b(1) step [of "drop (3 + cs) ip"] by simp_all
    then show ?thesis using b step False by (intro exI [of _ b]) simp
  qed
qed

lemma getFrameHeader_append:
  assumes h: "ZSTD_getFrameHeader_advanced x format = Inr (Header h)"
  shows "ZSTD_getFrameHeader_advanced (x @ y) format = Inr (Header h)"
proof -
  note m = header_known_prefix(2,3) [OF h]
  have x: "x = take (length x) (x @ y)" by simp
  have r4: "MEM_readLE32 MEM_isLittleEndian (x @ y) 0 = MEM_readLE32 MEM_isLittleEndian x 0" if "format = ZSTD_f_zstd1"
    using m that by (simp add: MEM_readLE32_eq rd_append_left ZSTD_startingInputLength_def ZSTD_FRAMEHEADERSIZE_PREFIX_def)
  show ?thesis
    using h
  proof (cases rule: getFrameHeader_cases)
    case (frame fhsize)
    obtain s where s: "ZSTD_frameHeaderSize_internal (x @ y) format = Inr s"
      using m by (auto simp: ZSTD_frameHeaderSize_internal_def Let_def)
    then have "s = fhsize" using header_size_take(1) [OF s, of "length x"] m frame(2) by simp
    moreover have "fh_decode (x @ y) (ZSTD_startingInputLength format) fhsize = Inr (Header h)"
      using fh_decode_take [OF s, of "length x" fhsize] frame \<open>s = fhsize\<close> by simp
    ultimately show ?thesis
      using s frame m r4 by (cases format) (simp_all add: ZSTD_getFrameHeader_advanced_def Let_def)
  next
    case skippable
    then have "MEM_readLE32 MEM_isLittleEndian (x @ y) 4 = MEM_readLE32 MEM_isLittleEndian x 4"
      by (simp add: MEM_readLE32_eq rd_append_left)
    then show ?thesis
      using skippable h m r4 by (simp add: ZSTD_getFrameHeader_advanced_def Let_def frame_consts)
  qed
qed

lemma readSkippable_append:
  assumes "readSkippableFrameSize x = Inr n"
  shows "readSkippableFrameSize (x @ y) = Inr n" and "readSkippableFrameSize (take n x) = Inr n"
    and "8 \<le> n" and "n \<le> length x"
proof -
  have x: "8 \<le> length x" and n: "8 \<le> n" "n \<le> length x"
    using assms by (auto simp: readSkippableFrameSize_def frame_consts Let_def split: if_splits)
  then show "8 \<le> n" "n \<le> length x" by simp_all
  have "MEM_readLE32 le (x @ y) 4 = MEM_readLE32 le x 4" "MEM_readLE32 le (take n x) 4 = MEM_readLE32 le x 4" for le
    using x n by (simp_all add: MEM_readLE32_eq rd_append_left)
  then show "readSkippableFrameSize (x @ y) = Inr n" "readSkippableFrameSize (take n x) = Inr n"
    using assms x n by (auto simp: readSkippableFrameSize_def frame_consts Let_def split: if_splits)
qed


lemma magic_not_skippable: "\<not> skippable_magic ZSTD_MAGICNUMBER"
  by (simp add: skippable_magic_unat ZSTD_MAGICNUMBER_def)

text \<open>The two shapes of a frame that can be measured.\<close>

lemma frame_info_cases:
  assumes "fsi_compressedSize (ZSTD_findFrameSizeInfo src format) = Inr n"
  obtains (skippable) "format = ZSTD_f_zstd1" "skippable_magic (MEM_readLE32 MEM_isLittleEndian src 0)"
      "readSkippableFrameSize src = Inr n"
    | (frame) zfh pre ck r m where "ZSTD_getFrameHeader_advanced src format = Inr (Header zfh)"
      "format = ZSTD_f_zstd1 \<longrightarrow> MEM_readLE32 MEM_isLittleEndian src 0 = ZSTD_MAGICNUMBER"
      "src = take (zfh_headerSize zfh) src @ pre @ ck @ r" "3 * m \<le> length pre" "0 < m"
      "\<And>y. skip_blocks (pre @ y) 0 = Inr (m, y)" "length ck = (if zfh_checksumFlag zfh \<noteq> 0 then 4 else 0)"
      "n = zfh_headerSize zfh + length pre + length ck" "zfh_headerSize zfh \<le> length src"
proof (cases "format = ZSTD_f_zstd1 \<and> 8 \<le> length src \<and> skippable_magic (MEM_readLE32 MEM_isLittleEndian src 0)")
  case True
  then show ?thesis using assms by (auto simp: ZSTD_findFrameSizeInfo_def frame_consts intro!: skippable)
next
  case False
  then obtain zfh m ip where h: "ZSTD_getFrameHeader_advanced src format = Inr (Header zfh)"
    and sk: "skip_blocks (drop (zfh_headerSize zfh) src) 0 = Inr (m, ip)"
    and ck: "zfh_checksumFlag zfh \<noteq> 0 \<longrightarrow> 4 \<le> length ip"
    and n: "n = length src - length (if zfh_checksumFlag zfh \<noteq> 0 then drop 4 ip else ip)"
    using assms by (auto simp: ZSTD_findFrameSizeInfo_def ZSTD_errorFrameSizeInfo_def frame_consts Let_def not_less
        split: sum.splits header_result.splits if_splits)
  obtain pre where pre: "drop (zfh_headerSize zfh) src = pre @ ip" "3 * m \<le> length pre" "0 < m"
    "\<And>y. skip_blocks (pre @ y) 0 = Inr (m, y)"
    using skip_blocks_split [OF sk] by auto
  define c where "c = (if zfh_checksumFlag zfh \<noteq> 0 then 4 else 0 :: nat)"
  have "format = ZSTD_f_zstd1 \<longrightarrow> MEM_readLE32 MEM_isLittleEndian src 0 = ZSTD_MAGICNUMBER"
    using getFrameHeader_cases [OF h] False by (metis ZSTD_format_e.distinct(1))
  moreover have hs: "zfh_headerSize zfh \<le> length src" by (rule header_known_prefix(3) [OF h])
  moreover have s: "src = take (zfh_headerSize zfh) src @ pre @ take c ip @ drop c ip"
    using pre(1) by (metis append_take_drop_id)
  moreover have l: "length (take c ip) = c" using ck by (simp add: c_def)
  moreover have "length src = zfh_headerSize zfh + length pre + length ip"
    using arg_cong [OF pre(1), of length] hs by simp
  then have "n = zfh_headerSize zfh + length pre + c" using n ck by (simp add: c_def)
  ultimately show ?thesis
    using frame [OF h _ s pre(2,3,4)] by (simp add: c_def)
qed

lemma frame_info_self_delimiting:
  assumes n: "fsi_compressedSize (ZSTD_findFrameSizeInfo src format) = Inr n"
  shows "3 \<le> n" and "n \<le> length src"
    and "ZSTD_findFrameSizeInfo (take n src @ y) format = ZSTD_findFrameSizeInfo src format"
proof -
  have "3 \<le> n \<and> n \<le> length src
    \<and> ZSTD_findFrameSizeInfo (take n src @ y) format = ZSTD_findFrameSizeInfo src format"
    using n
  proof (cases rule: frame_info_cases)
    case skippable
    note r = readSkippable_append [OF skippable(3)]
    have "MEM_readLE32 MEM_isLittleEndian (take n src @ y) 0 = MEM_readLE32 MEM_isLittleEndian src 0"
      using r(3,4) by (simp add: MEM_readLE32_eq rd_append_left)
    then show ?thesis
      using skippable r readSkippable_append(1) [OF r(2)] by (simp add: ZSTD_findFrameSizeInfo_def frame_consts)
  next
    case (frame zfh pre ck r m)
    define hd where "hd = take (zfh_headerSize zfh) src"
    have hd: "length hd = zfh_headerSize zfh" using frame(9) by (simp add: hd_def)
    have src: "src = hd @ pre @ ck @ r" using frame(3) by (simp add: hd_def)
    have t: "take n src @ y = hd @ pre @ ck @ y" by (simp add: src frame(8) hd)
    have h: "ZSTD_getFrameHeader_advanced (hd @ z) format = Inr (Header zfh)" for z
      using getFrameHeader_append [OF getFrameHeader_longer [OF frame(1) order_refl]] by (simp add: hd_def)
    have m: "format = ZSTD_f_zstd1 \<longrightarrow> MEM_readLE32 MEM_isLittleEndian (hd @ z) 0 = ZSTD_MAGICNUMBER" for z
    proof
      assume "format = ZSTD_f_zstd1"
      moreover from this have "4 \<le> zfh_headerSize zfh"
        using header_known_prefix(2) [OF frame(1)] by (simp add: ZSTD_startingInputLength_def ZSTD_FRAMEHEADERSIZE_PREFIX_def)
      ultimately show "MEM_readLE32 MEM_isLittleEndian (hd @ z) 0 = ZSTD_MAGICNUMBER"
        using frame(2) hd by (simp add: MEM_readLE32_eq src rd_append_left)
    qed
    have ns: "(format = ZSTD_f_zstd1 \<and> P \<and> skippable_magic (MEM_readLE32 MEM_isLittleEndian (hd @ z) 0)) = False" for P z
      using m magic_not_skippable by auto
    have "ZSTD_findFrameSizeInfo (hd @ pre @ ck @ z) format = \<lparr>fsi_nbBlocks = m, fsi_compressedSize = Inr n,
        fsi_decompressedBound = (if zfh_frameContentSize zfh \<noteq> ZSTD_CONTENTSIZE_UNKNOWN
          then zfh_frameContentSize zfh else m * zfh_blockSizeMax zfh mod 2 ^ 64)\<rparr>" for z
      unfolding ZSTD_findFrameSizeInfo_def ns using h frame(6) frame(7) by (simp add: hd frame(8) Let_def)
    then show ?thesis using frame(4,5) by (simp add: t) (simp add: src frame(8) hd)
  qed
  then show "3 \<le> n" "n \<le> length src"
    "ZSTD_findFrameSizeInfo (take n src @ y) format = ZSTD_findFrameSizeInfo src format" by simp_all
qed


subsection \<open>The loops over all frames\<close>

function findDecompressedSize_loop :: "bytes \<Rightarrow> nat \<Rightarrow> nat" where
  "findDecompressedSize_loop src totalDstSize =
     (if length src \<ge> ZSTD_startingInputLength ZSTD_f_zstd1
      then if skippable_magic (MEM_readLE32 MEM_isLittleEndian src 0)
           then case readSkippableFrameSize src of
               Inl _ \<Rightarrow> ZSTD_CONTENTSIZE_ERROR
             | Inr skippableSize \<Rightarrow> findDecompressedSize_loop (drop skippableSize src) totalDstSize
           else let fcs = ZSTD_getFrameContentSize src in
             if fcs \<ge> ZSTD_CONTENTSIZE_ERROR then fcs
             else if (totalDstSize + fcs) mod 2 ^ 64 < totalDstSize then ZSTD_CONTENTSIZE_ERROR
             else case ZSTD_findFrameCompressedSize src of
                 Inl _ \<Rightarrow> ZSTD_CONTENTSIZE_ERROR
               | Inr frameSrcSize \<Rightarrow>
                   findDecompressedSize_loop (drop frameSrcSize src) ((totalDstSize + fcs) mod 2 ^ 64)
      else if length src \<noteq> 0 then ZSTD_CONTENTSIZE_ERROR
      else totalDstSize)"
  by auto
termination
proof (relation "measure (\<lambda>(src, _). length src)")
  fix src :: bytes and total n
  assume l: "ZSTD_startingInputLength ZSTD_f_zstd1 \<le> length src"
  then have "0 < length src" by (auto simp: header_prefix_facts)
  then show "readSkippableFrameSize src = Inr n \<Longrightarrow> ((drop n src, total), src, total) \<in> measure (\<lambda>(src, _). length src)"
    using readSkippable_append(3) [of src n] by simp
  show "ZSTD_findFrameCompressedSize src = Inr n \<Longrightarrow> ((drop n src, t), src, total) \<in> measure (\<lambda>(src, _). length src)" for t
    using frame_info_self_delimiting(1) [of src ZSTD_f_zstd1 n] \<open>0 < length src\<close>
    by (simp add: ZSTD_findFrameCompressedSize_def ZSTD_findFrameCompressedSize_advanced_def)
qed auto

definition ZSTD_findDecompressedSize :: "bytes \<Rightarrow> nat" where
  "ZSTD_findDecompressedSize src = findDecompressedSize_loop src 0"

function decompressBound_loop :: "bytes \<Rightarrow> nat \<Rightarrow> nat" where
  "decompressBound_loop src bound =
     (if length src > 0
      then let info = ZSTD_findFrameSizeInfo src ZSTD_f_zstd1 in
        case fsi_compressedSize info of
          Inl _ \<Rightarrow> ZSTD_CONTENTSIZE_ERROR
        | Inr compressedSize \<Rightarrow>
            if fsi_decompressedBound info = ZSTD_CONTENTSIZE_ERROR then ZSTD_CONTENTSIZE_ERROR
            else decompressBound_loop (drop compressedSize src) ((bound + fsi_decompressedBound info) mod 2 ^ 64)
      else bound)"
  by auto
termination
  by (relation "measure (\<lambda>(src, _). length src)") (auto dest: frame_info_self_delimiting(1))

definition ZSTD_decompressBound :: "bytes \<Rightarrow> nat" where
  "ZSTD_decompressBound src = decompressBound_loop src 0"

text \<open>When the header is incomplete the extent is an error too, so the header is present whenever
  it is used.\<close>

function decompressionMargin_loop :: "bytes \<Rightarrow> nat \<Rightarrow> nat \<Rightarrow> nat res" where
  "decompressionMargin_loop src margin maxBlock =
     (if length src > 0
      then let info = ZSTD_findFrameSizeInfo src ZSTD_f_zstd1 in
        (case ZSTD_getFrameHeader src of
           Inl e \<Rightarrow> Inl e
         | Inr hr \<Rightarrow>
            (case fsi_compressedSize info of
               Inl _ \<Rightarrow> Inl ZSTD_error_corruption_detected
             | Inr compressedSize \<Rightarrow>
                 if fsi_decompressedBound info = ZSTD_CONTENTSIZE_ERROR then Inl ZSTD_error_corruption_detected
                 else (case hr of
                     Wanted _ \<Rightarrow> Inl ZSTD_error_corruption_detected
                   | Header zfh \<Rightarrow>
                       if zfh_frameType zfh = ZSTD_frame
                       then decompressionMargin_loop (drop compressedSize src)
                              (margin + zfh_headerSize zfh + (if zfh_checksumFlag zfh \<noteq> 0 then 4 else 0)
                                + 3 * fsi_nbBlocks info)
                              (max maxBlock (zfh_blockSizeMax zfh))
                       else decompressionMargin_loop (drop compressedSize src) (margin + compressedSize) maxBlock)))
      else Inr (margin + maxBlock))"
  by auto
termination
  by (relation "measure (\<lambda>(src, _). length src)") (auto dest: frame_info_self_delimiting(1))

definition ZSTD_decompressionMargin :: "bytes \<Rightarrow> nat res" where
  "ZSTD_decompressionMargin src = decompressionMargin_loop src 0 0"

declare findDecompressedSize_loop.simps [simp del] decompressBound_loop.simps [simp del]
  decompressionMargin_loop.simps [simp del]


lemma frame_info_fields:
  assumes n: "fsi_compressedSize (ZSTD_findFrameSizeInfo src ZSTD_f_zstd1) = Inr n"
    and h: "ZSTD_getFrameHeader_advanced src ZSTD_f_zstd1 = Inr (Header zfh)" and t: "zfh_frameType zfh = ZSTD_frame"
  shows "zfh_frameContentSize zfh \<noteq> ZSTD_CONTENTSIZE_UNKNOWN \<Longrightarrow>
      fsi_decompressedBound (ZSTD_findFrameSizeInfo src ZSTD_f_zstd1) = zfh_frameContentSize zfh"
    and "zfh_headerSize zfh + (if zfh_checksumFlag zfh \<noteq> 0 then 4 else 0)
      + 3 * fsi_nbBlocks (ZSTD_findFrameSizeInfo src ZSTD_f_zstd1) \<le> n"
proof -
  have ns: "\<not> skippable_magic (MEM_readLE32 MEM_isLittleEndian src 0)"
    using getFrameHeader_cases [OF h] t magic_not_skippable by (metis ZSTD_FrameType_e.distinct(1) ZSTD_format_e.distinct(1))
  have "(zfh_frameContentSize zfh \<noteq> ZSTD_CONTENTSIZE_UNKNOWN \<longrightarrow>
      fsi_decompressedBound (ZSTD_findFrameSizeInfo src ZSTD_f_zstd1) = zfh_frameContentSize zfh)
    \<and> zfh_headerSize zfh + (if zfh_checksumFlag zfh \<noteq> 0 then 4 else 0)
      + 3 * fsi_nbBlocks (ZSTD_findFrameSizeInfo src ZSTD_f_zstd1) \<le> n"
    using n
  proof (cases rule: frame_info_cases)
    case (frame zfh' pre ck r m)
    then have e: "zfh' = zfh" using h by simp
    have d: "drop (zfh_headerSize zfh) src = pre @ ck @ r"
      using frame(3,9) e by (metis append_eq_conv_conj append_take_drop_id same_append_eq)
    show ?thesis
      using frame(4,6,7,8) ns h by (simp add: ZSTD_findFrameSizeInfo_def d e Let_def)
  qed (use ns in simp)
  then show "zfh_frameContentSize zfh \<noteq> ZSTD_CONTENTSIZE_UNKNOWN \<Longrightarrow>
      fsi_decompressedBound (ZSTD_findFrameSizeInfo src ZSTD_f_zstd1) = zfh_frameContentSize zfh"
    "zfh_headerSize zfh + (if zfh_checksumFlag zfh \<noteq> 0 then 4 else 0)
      + 3 * fsi_nbBlocks (ZSTD_findFrameSizeInfo src ZSTD_f_zstd1) \<le> n" by blast+
qed

lemma contentSize_known:
  assumes "ZSTD_getFrameContentSize src < ZSTD_CONTENTSIZE_ERROR"
    and "\<not> skippable_magic (MEM_readLE32 MEM_isLittleEndian src 0)"
  obtains zfh where "ZSTD_getFrameHeader_advanced src ZSTD_f_zstd1 = Inr (Header zfh)"
    "zfh_frameType zfh = ZSTD_frame" "zfh_frameContentSize zfh = ZSTD_getFrameContentSize src"
proof -
  obtain zfh where h: "ZSTD_getFrameHeader_advanced src ZSTD_f_zstd1 = Inr (Header zfh)"
    using assms(1) by (auto simp: ZSTD_getFrameContentSize_def ZSTD_getFrameHeader_def split: sum.splits header_result.splits)
  then have "zfh_frameType zfh = ZSTD_frame"
    using assms(2) by (cases rule: getFrameHeader_cases) simp_all
  then show ?thesis using that h by (simp add: ZSTD_getFrameContentSize_def ZSTD_getFrameHeader_def)
qed

lemma decompressBound_step:
  assumes "fsi_compressedSize (ZSTD_findFrameSizeInfo src ZSTD_f_zstd1) = Inr n"
    and "fsi_decompressedBound (ZSTD_findFrameSizeInfo src ZSTD_f_zstd1) = b" and "b < ZSTD_CONTENTSIZE_ERROR"
  shows "decompressBound_loop src t = decompressBound_loop (drop n src) ((t + b) mod 2 ^ 64)"
proof -
  have "src \<noteq> []" using frame_info_self_delimiting(1,2) [OF assms(1)] by auto
  then show ?thesis using assms by (simp add: decompressBound_loop.simps [of src])
qed

text \<open>One iteration of either loop steps over the same frame and adds the same size.\<close>

lemma find_loop_skippable:
  assumes len: "ZSTD_startingInputLength ZSTD_f_zstd1 \<le> length src"
    and sk: "skippable_magic (MEM_readLE32 MEM_isLittleEndian src 0)"
    and v: "findDecompressedSize_loop src t < ZSTD_CONTENTSIZE_ERROR" and t: "t < 2 ^ 64"
  obtains n where "readSkippableFrameSize src = Inr n"
    "findDecompressedSize_loop src t = findDecompressedSize_loop (drop n src) t"
    "decompressBound_loop src t = decompressBound_loop (drop n src) t"
proof -
  obtain n where n: "readSkippableFrameSize src = Inr n"
    using v len sk by (auto simp: findDecompressedSize_loop.simps [of src t] split: sum.splits)
  have e: "findDecompressedSize_loop src t = findDecompressedSize_loop (drop n src) t"
    using len sk n by (simp add: findDecompressedSize_loop.simps [of src t])
  have "8 \<le> length src" using readSkippable_append(3,4) [OF n] by simp
  then have "ZSTD_findFrameSizeInfo src ZSTD_f_zstd1
      = \<lparr>fsi_nbBlocks = 0, fsi_compressedSize = Inr n, fsi_decompressedBound = 0\<rparr>"
    using sk n by (simp add: ZSTD_findFrameSizeInfo_def frame_consts)
  then show ?thesis
    using that [OF n e] decompressBound_step [of src n 0 t] t by (simp add: ZSTD_CONTENTSIZE_ERROR_def)
qed

lemma find_loop_frame:
  assumes len: "ZSTD_startingInputLength ZSTD_f_zstd1 \<le> length src"
    and sk: "\<not> skippable_magic (MEM_readLE32 MEM_isLittleEndian src 0)"
    and v: "findDecompressedSize_loop src t < ZSTD_CONTENTSIZE_ERROR"
  obtains n fcs where "fcs = ZSTD_getFrameContentSize src" "\<not> ZSTD_CONTENTSIZE_ERROR \<le> fcs"
    "\<not> (t + fcs) mod 2 ^ 64 < t" "ZSTD_findFrameCompressedSize src = Inr n"
    "findDecompressedSize_loop src t = findDecompressedSize_loop (drop n src) ((t + fcs) mod 2 ^ 64)"
    "decompressBound_loop src t = decompressBound_loop (drop n src) ((t + fcs) mod 2 ^ 64)"
proof -
  note unf = findDecompressedSize_loop.simps [of src t]
  define fcs where "fcs = ZSTD_getFrameContentSize src"
  have f: "fcs < ZSTD_CONTENTSIZE_ERROR" "\<not> (t + fcs) mod 2 ^ 64 < t"
    using v len sk by (auto simp: unf fcs_def [symmetric] Let_def split: if_splits)
  obtain n where n: "ZSTD_findFrameCompressedSize src = Inr n"
    using v len sk f by (auto simp: unf fcs_def [symmetric] Let_def split: sum.splits if_splits)
  have e: "findDecompressedSize_loop src t = findDecompressedSize_loop (drop n src) ((t + fcs) mod 2 ^ 64)"
    using len sk f n by (simp add: unf fcs_def [symmetric] Let_def)
  obtain zfh where z: "ZSTD_getFrameHeader_advanced src ZSTD_f_zstd1 = Inr (Header zfh)"
    "zfh_frameType zfh = ZSTD_frame" "zfh_frameContentSize zfh = fcs"
    using contentSize_known [OF f(1) [unfolded fcs_def] sk] fcs_def by metis
  have c: "fsi_compressedSize (ZSTD_findFrameSizeInfo src ZSTD_f_zstd1) = Inr n"
    using n by (simp add: ZSTD_findFrameCompressedSize_def ZSTD_findFrameCompressedSize_advanced_def)
  have "fsi_decompressedBound (ZSTD_findFrameSizeInfo src ZSTD_f_zstd1) = fcs"
    using frame_info_fields(1) [OF c z(1,2)] z(3) f(1)
    by (simp add: ZSTD_CONTENTSIZE_ERROR_def ZSTD_CONTENTSIZE_UNKNOWN_def)
  from decompressBound_step [OF c this f(1), of t] show ?thesis
    using that [OF fcs_def _ f(2) n e] f(1) by simp
qed

lemma find_loop_bound:
  "findDecompressedSize_loop src t < ZSTD_CONTENTSIZE_ERROR \<Longrightarrow> t < 2 ^ 64 \<Longrightarrow>
   decompressBound_loop src t = findDecompressedSize_loop src t"
proof (induction src t rule: findDecompressedSize_loop.induct)
  case (1 src t)
  consider "\<not> ZSTD_startingInputLength ZSTD_f_zstd1 \<le> length src"
    | (sk) "ZSTD_startingInputLength ZSTD_f_zstd1 \<le> length src" "skippable_magic (MEM_readLE32 MEM_isLittleEndian src 0)"
    | (fr) "ZSTD_startingInputLength ZSTD_f_zstd1 \<le> length src" "\<not> skippable_magic (MEM_readLE32 MEM_isLittleEndian src 0)"
    by blast
  then show ?case
  proof cases
    case 1
    then show ?thesis
      using "1.prems" by (auto simp: findDecompressedSize_loop.simps [of src t] decompressBound_loop.simps [of src] split: if_splits)
  next
    case sk
    from find_loop_skippable [OF sk "1.prems"] "1.IH"(1) [OF sk] "1.prems" show ?thesis by metis
  next
    case fr
    from find_loop_frame [OF fr "1.prems"(1)] "1.IH"(2) [OF fr refl] "1.prems" show ?thesis
      by (metis mod_less_divisor zero_less_numeral zero_less_power)
  qed
qed

lemma blockSizeMax_le:
  assumes "ZSTD_getFrameHeader_advanced src format = Inr (Header zfh)"
  shows "zfh_blockSizeMax zfh \<le> ZSTD_BLOCKSIZE_MAX"
proof -
  have d: "fh_decode src m n = Inr (Header zfh) \<Longrightarrow> zfh_blockSizeMax zfh \<le> ZSTD_BLOCKSIZE_MAX" for m n
    by (auto simp: fh_decode_def Let_def bind_res_Inr_iff case_prod_unfold split: if_splits)
  show ?thesis
  proof (cases "zfh_frameType zfh")
    case ZSTD_frame
    then show ?thesis using getFrameHeader_cases [OF assms] d by (metis ZSTD_FrameType_e.distinct(1))
  next
    case ZSTD_skippableFrame
    then have "fh_decode src m n \<noteq> Inr (Header zfh)" for m n using fh_decode_size by force
    then show ?thesis
      using assms by (auto simp: ZSTD_getFrameHeader_advanced_def Let_def bind_res_Inr_iff split: if_splits)
  qed
qed

lemma margin_loop_bound:
  "decompressionMargin_loop src m b = Inr r \<Longrightarrow> b \<le> ZSTD_BLOCKSIZE_MAX \<Longrightarrow> r \<le> m + length src + ZSTD_BLOCKSIZE_MAX"
proof (induction src m b rule: decompressionMargin_loop.induct)
  case (1 src m b)
  define info where "info = ZSTD_findFrameSizeInfo src ZSTD_f_zstd1"
  note unf = decompressionMargin_loop.simps [of src m b, folded info_def]
  show ?case
  proof (cases "length src > 0")
    case False
    then show ?thesis using "1.prems" by (auto simp: decompressionMargin_loop.simps [of "[]"])
  next
    case True
    then obtain n zfh where n: "fsi_compressedSize info = Inr n" and d: "fsi_decompressedBound info \<noteq> ZSTD_CONTENTSIZE_ERROR"
      and h: "ZSTD_getFrameHeader src = Inr (Header zfh)"
      using "1.prems"(1) by (auto simp: unf Let_def split: sum.splits header_result.splits if_splits)
    note h' = h [unfolded ZSTD_getFrameHeader_def]
    have l: "n \<le> length src" using frame_info_self_delimiting(2) n by (simp add: info_def)
    note ih = "1.IH" [OF True info_def h n d refl]
    show ?thesis
    proof (cases "zfh_frameType zfh = ZSTD_frame")
      case True
      note fields = frame_info_fields(2) [OF n [unfolded info_def] h' True, folded info_def]
      have "r \<le> m + zfh_headerSize zfh + (if zfh_checksumFlag zfh \<noteq> 0 then 4 else 0) + 3 * fsi_nbBlocks info
          + length (drop n src) + ZSTD_BLOCKSIZE_MAX"
        using "1.prems" \<open>length src > 0\<close> n d h True blockSizeMax_le [OF h']
        by (intro ih(1) [OF True]) (simp_all add: unf Let_def)
      then show ?thesis using fields l by simp
    next
      case False
      have "r \<le> m + n + length (drop n src) + ZSTD_BLOCKSIZE_MAX"
        using "1.prems" \<open>length src > 0\<close> n d h False by (intro ih(2) [OF False]) (simp_all add: unf Let_def)
      then show ?thesis using l by simp
    qed
  qed
qed

subsection \<open>Properties\<close>

text \<open>A frame holding the three bytes 1, 2, 3 in one raw block.\<close>

definition sample_frame :: bytes where
  "sample_frame = [0x28, 0xB5, 0x2F, 0xFD, 0x20, 3, 25, 0, 0, 1, 2, 3]"

definition sample_header :: ZSTD_FrameHeader where
  "sample_header = \<lparr>zfh_frameContentSize = 3, zfh_windowSize = 3, zfh_blockSizeMax = 3, zfh_frameType = ZSTD_frame,
     zfh_headerSize = 6, zfh_dictID = 0, zfh_checksumFlag = 0\<rparr>"

lemma sample_frame_reads:
  "ZSTD_getFrameHeader_advanced sample_frame ZSTD_f_zstd1 = Inr (Header sample_header)"
  "MEM_readLE32 MEM_isLittleEndian sample_frame 0 = ZSTD_MAGICNUMBER"
  "skip_blocks [25, 0, 0, 1, 2, 3] 0 = Inr (1, [])"
  by (simp_all add: ZSTD_getFrameHeader_advanced_def ZSTD_startingInputLength_def ZSTD_FRAMEHEADERSIZE_PREFIX_def
        MEM_readLE32_eq MEM_readLE24_eq rd_numeral rd_Suc byte_at_def ZSTD_MAGICNUMBER_def ZSTD_frameHeaderSize_internal_def
        ZSTD_did_fieldSize_def ZSTD_fcs_fieldSize_def fh_decode_def fh_window_def fh_dictID_def fh_contentSize_def byte_fields
        zstd_limits sample_frame_def sample_header_def skip_blocks.simps ZSTD_getcBlockSize_def frame_consts word_fields32
        blockType_of_def)

lemma sample_frame_info:
  "ZSTD_findFrameSizeInfo sample_frame ZSTD_f_zstd1
     = \<lparr>fsi_nbBlocks = 1, fsi_compressedSize = Inr 12, fsi_decompressedBound = 3\<rparr>"
proof -
  have "drop (zfh_headerSize sample_header) sample_frame = [25, 0, 0, 1, 2, 3]" "length sample_frame = 12"
    by (simp_all add: sample_frame_def sample_header_def)
  then show ?thesis
    by (simp add: ZSTD_findFrameSizeInfo_def sample_frame_reads magic_not_skippable)
      (simp add: sample_header_def ZSTD_CONTENTSIZE_UNKNOWN_def)
qed

lemma sample_frame_sizes:
  "ZSTD_findDecompressedSize sample_frame = 3" "ZSTD_decompressionMargin sample_frame = Inr 12"
proof -
  have l: "length sample_frame = 12" "drop 12 sample_frame = []" "sample_frame \<noteq> []"
    by (simp_all add: sample_frame_def)
  have i: "ZSTD_startingInputLength ZSTD_f_zstd1 = 5"
    by (simp add: ZSTD_startingInputLength_def ZSTD_FRAMEHEADERSIZE_PREFIX_def)
  have f: "ZSTD_findFrameCompressedSize sample_frame = Inr 12"
    by (simp add: ZSTD_findFrameCompressedSize_def ZSTD_findFrameCompressedSize_advanced_def sample_frame_info)
  have c: "ZSTD_getFrameContentSize sample_frame = 3"
    by (simp add: ZSTD_getFrameContentSize_def ZSTD_getFrameHeader_def sample_frame_reads) (simp add: sample_header_def)
  have e: "findDecompressedSize_loop [] t = t" for t by (simp add: findDecompressedSize_loop.simps [of "[]"] i)
  show "ZSTD_findDecompressedSize sample_frame = 3"
    by (simp add: ZSTD_findDecompressedSize_def findDecompressedSize_loop.simps [of sample_frame] sample_frame_reads
        magic_not_skippable l f c e i ZSTD_CONTENTSIZE_ERROR_def)
  show "ZSTD_decompressionMargin sample_frame = Inr 12"
    by (simp add: ZSTD_decompressionMargin_def decompressionMargin_loop.simps sample_frame_reads l
        ZSTD_getFrameHeader_def sample_frame_info)
      (simp add: sample_header_def ZSTD_CONTENTSIZE_ERROR_def)
qed

text \<open>C13. A frame is delimited by its own bytes: when the extent of a frame is found to be \<open>n\<close>
  bytes, then \<open>n\<close> is at least the size of a block header and at most the size of the source, and the
  first \<open>n\<close> bytes, followed by anything at all, are measured to the same extent, the same number of
  blocks and the same bound on the decompressed size. Frames can therefore be concatenated.\<close>

theorem frame_self_delimiting:
  assumes "ZSTD_findFrameCompressedSize_advanced src format = Inr n"
  shows "3 \<le> n \<and> n \<le> length src
    \<and> (\<forall>rest. ZSTD_findFrameSizeInfo (take n src @ rest) format = ZSTD_findFrameSizeInfo src format)"
  using frame_info_self_delimiting [of src format n] assms
  by (simp add: ZSTD_findFrameCompressedSize_advanced_def)

theorem frame_self_delimiting_witness:
  "ZSTD_findFrameSizeInfo (sample_frame @ [42]) ZSTD_f_zstd1 = ZSTD_findFrameSizeInfo sample_frame ZSTD_f_zstd1"
  using frame_self_delimiting [of sample_frame ZSTD_f_zstd1 12]
  by (simp add: sample_frame_info ZSTD_findFrameCompressedSize_advanced_def) (simp add: sample_frame_def)

text \<open>C16. The two ways to size a destination agree: on every source, whatever its bytes, both
  loops over the frames end, and when \<open>ZSTD_findDecompressedSize\<close> returns a size and not one of
  its two error values, then \<open>ZSTD_decompressBound\<close> returns that same size.\<close>

theorem decompressBound_exact:
  assumes "ZSTD_findDecompressedSize src < ZSTD_CONTENTSIZE_ERROR"
  shows "ZSTD_decompressBound src = ZSTD_findDecompressedSize src"
  using find_loop_bound [of src 0] assms by (simp add: ZSTD_findDecompressedSize_def ZSTD_decompressBound_def)

theorem decompressBound_exact_witness: "ZSTD_decompressBound sample_frame = 3"
  using decompressBound_exact [of sample_frame] by (simp add: sample_frame_sizes ZSTD_CONTENTSIZE_ERROR_def)

text \<open>The margin for an in-place decompression is bounded by the source and one block: the
  headers, checksums and skippable frames it counts are bytes of the source, so it never exceeds the
  size of the source by more than the largest block.\<close>

lemma decompressionMargin_bounded:
  assumes "ZSTD_decompressionMargin src = Inr margin"
  shows "margin \<le> length src + ZSTD_BLOCKSIZE_MAX"
  using margin_loop_bound [of src 0 0 margin] assms by (simp add: ZSTD_decompressionMargin_def)

end
