(* ===== verification/Zstd_XXHash.thy ===== *)
theory Zstd_XXHash
  imports Zstd_Mem
begin

text \<open>
  The hash of xxhash.h as inlined in zstd.c: \<open>XXH32\<close> and \<open>XXH64\<close>, each with its one-shot
  function, its streaming interface (reset, update, digest) and its canonical representation.
  The content checksum of a frame is the low half of \<open>XXH64\<close>. Pointers that move forward are the
  remaining byte lists; \<open>le\<close> is the byte order of the machine and \<open>align\<close> the outcome of the
  alignment check. The locale \<open>stripe_stream\<close> states what both streaming updates promise, and the
  properties show that feeding a message in pieces gives the hash of the whole message.
\<close>

subsection \<open>Reads and rotations\<close>

datatype XXH_alignment = XXH_aligned | XXH_unaligned

definition XXH_read32 :: "bool \<Rightarrow> bytes \<Rightarrow> nat \<Rightarrow> u32" where
  "XXH_read32 le mem p = of_nat (native_val le (rd mem p 4))"

definition XXH_read64 :: "bool \<Rightarrow> bytes \<Rightarrow> nat \<Rightarrow> u64" where
  "XXH_read64 le mem p = of_nat (native_val le (rd mem p 8))"

definition XXH_swap32 :: "u32 \<Rightarrow> u32" where
  "XXH_swap32 x =
     ((push_bit 24 x) AND 0xff000000) OR
     ((push_bit 8 x) AND 0x00ff0000) OR
     ((drop_bit 8 x) AND 0x0000ff00) OR
     ((drop_bit 24 x) AND 0x000000ff)"

definition XXH_swap64 :: "u64 \<Rightarrow> u64" where
  "XXH_swap64 x =
     ((push_bit 56 x) AND 0xff00000000000000) OR
     ((push_bit 40 x) AND 0x00ff000000000000) OR
     ((push_bit 24 x) AND 0x0000ff0000000000) OR
     ((push_bit 8 x) AND 0x000000ff00000000) OR
     ((drop_bit 8 x) AND 0x00000000ff000000) OR
     ((drop_bit 24 x) AND 0x0000000000ff0000) OR
     ((drop_bit 40 x) AND 0x000000000000ff00) OR
     ((drop_bit 56 x) AND 0x00000000000000ff)"

definition XXH_rotl32 :: "u32 \<Rightarrow> nat \<Rightarrow> u32" where
  "XXH_rotl32 x r = push_bit r x OR drop_bit (32 - r) x"

definition XXH_rotl64 :: "u64 \<Rightarrow> nat \<Rightarrow> u64" where
  "XXH_rotl64 x r = push_bit r x OR drop_bit (64 - r) x"

definition XXH_readLE32 :: "bool \<Rightarrow> bytes \<Rightarrow> nat \<Rightarrow> u32" where
  "XXH_readLE32 le mem p = (if le then XXH_read32 le mem p else XXH_swap32 (XXH_read32 le mem p))"

definition XXH_readBE32 :: "bool \<Rightarrow> bytes \<Rightarrow> nat \<Rightarrow> u32" where
  "XXH_readBE32 le mem p = (if le then XXH_swap32 (XXH_read32 le mem p) else XXH_read32 le mem p)"

definition XXH_readLE64 :: "bool \<Rightarrow> bytes \<Rightarrow> nat \<Rightarrow> u64" where
  "XXH_readLE64 le mem p = (if le then XXH_read64 le mem p else XXH_swap64 (XXH_read64 le mem p))"

definition XXH_readBE64 :: "bool \<Rightarrow> bytes \<Rightarrow> nat \<Rightarrow> u64" where
  "XXH_readBE64 le mem p = (if le then XXH_swap64 (XXH_read64 le mem p) else XXH_read64 le mem p)"

definition XXH_readLE32_align :: "bool \<Rightarrow> bytes \<Rightarrow> nat \<Rightarrow> XXH_alignment \<Rightarrow> u32" where
  "XXH_readLE32_align le mem p align =
     (if align = XXH_unaligned then XXH_readLE32 le mem p
      else if le then XXH_read32 le mem p else XXH_swap32 (XXH_read32 le mem p))"

definition XXH_readLE64_align :: "bool \<Rightarrow> bytes \<Rightarrow> nat \<Rightarrow> XXH_alignment \<Rightarrow> u64" where
  "XXH_readLE64_align le mem p align =
     (if align = XXH_unaligned then XXH_readLE64 le mem p
      else if le then XXH_read64 le mem p else XXH_swap64 (XXH_read64 le mem p))"

subsection \<open>XXH32\<close>

definition XXH_PRIME32_1 :: u32 where "XXH_PRIME32_1 = 0x9E3779B1"
definition XXH_PRIME32_2 :: u32 where "XXH_PRIME32_2 = 0x85EBCA77"
definition XXH_PRIME32_3 :: u32 where "XXH_PRIME32_3 = 0xC2B2AE3D"
definition XXH_PRIME32_4 :: u32 where "XXH_PRIME32_4 = 0x27D4EB2F"
definition XXH_PRIME32_5 :: u32 where "XXH_PRIME32_5 = 0x165667B1"

type_synonym lanes32 = "u32 \<times> u32 \<times> u32 \<times> u32"

definition XXH32_round :: "u32 \<Rightarrow> u32 \<Rightarrow> u32" where
  "XXH32_round acc input =
     (let acc = acc + input * XXH_PRIME32_2; acc = XXH_rotl32 acc 13 in acc * XXH_PRIME32_1)"

definition XXH32_avalanche :: "u32 \<Rightarrow> u32" where
  "XXH32_avalanche hash =
     (let hash = hash XOR drop_bit 15 hash;
          hash = hash * XXH_PRIME32_2;
          hash = hash XOR drop_bit 13 hash;
          hash = hash * XXH_PRIME32_3
      in hash XOR drop_bit 16 hash)"

definition XXH32_PROCESS1 :: "u32 \<times> bytes \<Rightarrow> u32 \<times> bytes" where
  "XXH32_PROCESS1 = (\<lambda>(hash, ptr).
     (let hash = hash + ucast (byte_at ptr 0) * XXH_PRIME32_5
      in (XXH_rotl32 hash 11 * XXH_PRIME32_1, drop 1 ptr)))"

definition XXH32_PROCESS4 :: "bool \<Rightarrow> XXH_alignment \<Rightarrow> u32 \<times> bytes \<Rightarrow> u32 \<times> bytes" where
  "XXH32_PROCESS4 le align = (\<lambda>(hash, ptr).
     (let hash = hash + XXH_readLE32_align le ptr 0 align * XXH_PRIME32_3
      in (XXH_rotl32 hash 17 * XXH_PRIME32_4, drop 4 ptr)))"

fun XXH32_tail1 :: "u32 \<times> bytes \<Rightarrow> nat \<Rightarrow> u32" where
  "XXH32_tail1 st 0 = XXH32_avalanche (fst st)"
| "XXH32_tail1 st (Suc len) = XXH32_tail1 (XXH32_PROCESS1 st) len"

function XXH32_tail4 :: "bool \<Rightarrow> XXH_alignment \<Rightarrow> u32 \<times> bytes \<Rightarrow> nat \<Rightarrow> u32" where
  "XXH32_tail4 le align st len =
     (if len \<ge> 4 then XXH32_tail4 le align (XXH32_PROCESS4 le align st) (len - 4) else XXH32_tail1 st len)"
  by auto
termination by (relation "measure (\<lambda>(_, _, _, len). len)") auto

text \<open>The unrolled variant selected by \<open>XXH32_ENDJMP\<close> enters a chain of fallthrough cases.\<close>

definition XXH32_endjmp :: "bool \<Rightarrow> XXH_alignment \<Rightarrow> u32 \<times> bytes \<Rightarrow> nat \<Rightarrow> u32" where
  "XXH32_endjmp le align st len =
     (let p4 = XXH32_PROCESS4 le align; p1 = XXH32_PROCESS1; fin = (\<lambda>st. XXH32_avalanche (fst st)) in
      if len = 12 then fin (p4 (p4 (p4 st)))
      else if len = 8 then fin (p4 (p4 st))
      else if len = 4 then fin (p4 st)
      else if len = 13 then fin (p1 (p4 (p4 (p4 st))))
      else if len = 9 then fin (p1 (p4 (p4 st)))
      else if len = 5 then fin (p1 (p4 st))
      else if len = 14 then fin (p1 (p1 (p4 (p4 (p4 st)))))
      else if len = 10 then fin (p1 (p1 (p4 (p4 st))))
      else if len = 6 then fin (p1 (p1 (p4 st)))
      else if len = 15 then fin (p1 (p1 (p1 (p4 (p4 (p4 st))))))
      else if len = 11 then fin (p1 (p1 (p1 (p4 (p4 st)))))
      else if len = 7 then fin (p1 (p1 (p1 (p4 st))))
      else if len = 3 then fin (p1 (p1 (p1 st)))
      else if len = 2 then fin (p1 (p1 st))
      else if len = 1 then fin (p1 st)
      else if len = 0 then fin st
      else fst st)"

definition XXH32_finalize :: "bool \<Rightarrow> bool \<Rightarrow> u32 \<Rightarrow> bytes \<Rightarrow> nat \<Rightarrow> XXH_alignment \<Rightarrow> u32" where
  "XXH32_finalize endjmp le hash ptr len align =
     (if \<not> endjmp then XXH32_tail4 le align (hash, ptr) (len AND 15)
      else XXH32_endjmp le align (hash, ptr) (len AND 15))"

definition XXH32_stripe :: "bool \<Rightarrow> XXH_alignment \<Rightarrow> bytes \<Rightarrow> lanes32 \<Rightarrow> lanes32" where
  "XXH32_stripe le align input = (\<lambda>(v1, v2, v3, v4).
     (XXH32_round v1 (XXH_readLE32_align le input 0 align), XXH32_round v2 (XXH_readLE32_align le input 4 align),
      XXH32_round v3 (XXH_readLE32_align le input 8 align), XXH32_round v4 (XXH_readLE32_align le input 12 align)))"

function XXH32_loop :: "bool \<Rightarrow> XXH_alignment \<Rightarrow> bytes \<Rightarrow> lanes32 \<Rightarrow> bytes \<times> lanes32" where
  "XXH32_loop le align input v =
     (let v = XXH32_stripe le align input v; input = drop 16 input
      in if length input \<ge> 16 then XXH32_loop le align input v else (input, v))"
  by auto
termination by (relation "measure (\<lambda>(_, _, input, _). length input)") auto

definition XXH32_init_lanes :: "u32 \<Rightarrow> lanes32" where
  "XXH32_init_lanes seed = (seed + XXH_PRIME32_1 + XXH_PRIME32_2, seed + XXH_PRIME32_2, seed + 0, seed - XXH_PRIME32_1)"

definition XXH32_merge_lanes :: "lanes32 \<Rightarrow> u32" where
  "XXH32_merge_lanes = (\<lambda>(v1, v2, v3, v4). XXH_rotl32 v1 1 + XXH_rotl32 v2 7 + XXH_rotl32 v3 12 + XXH_rotl32 v4 18)"

definition XXH32_endian_align :: "bool \<Rightarrow> bool \<Rightarrow> bytes \<Rightarrow> u32 \<Rightarrow> XXH_alignment \<Rightarrow> u32" where
  "XXH32_endian_align endjmp le input seed align =
     (let len = length input;
          (input, h32) = (if len \<ge> 16
            then let (input, v) = XXH32_loop le align input (XXH32_init_lanes seed) in (input, XXH32_merge_lanes v)
            else (input, seed + XXH_PRIME32_5));
          h32 = h32 + of_nat len
      in XXH32_finalize endjmp le h32 input (len AND 15) align)"

definition XXH32 :: "bool \<Rightarrow> bool \<Rightarrow> bool \<Rightarrow> bytes \<Rightarrow> u32 \<Rightarrow> u32" where
  "XXH32 endjmp le aligned input seed =
     (if aligned then XXH32_endian_align endjmp le input seed XXH_aligned
      else XXH32_endian_align endjmp le input seed XXH_unaligned)"

record XXH32_state_t =
  x32_total_len_32 :: u32
  x32_large_len :: bool
  x32_v :: lanes32
  x32_mem32 :: bytes
  x32_memsize :: nat

definition XXH32_reset :: "u32 \<Rightarrow> XXH32_state_t" where
  "XXH32_reset seed = \<lparr>x32_total_len_32 = 0, x32_large_len = False, x32_v = XXH32_init_lanes seed,
     x32_mem32 = replicate 16 0, x32_memsize = 0\<rparr>"

text \<open>The part of the update that runs once the buffer is empty.\<close>

definition XXH32_update_rest :: "bool \<Rightarrow> XXH32_state_t \<Rightarrow> bytes \<Rightarrow> XXH32_state_t" where
  "XXH32_update_rest le st p =
     (let (st, p) = (if 16 \<le> length p
            then let (p, v) = XXH32_loop le XXH_unaligned p (x32_v st) in (st\<lparr>x32_v := v\<rparr>, p)
            else (st, p))
      in if length p > 0 then st\<lparr>x32_mem32 := write_at (x32_mem32 st) 0 p, x32_memsize := length p\<rparr> else st)"

definition XXH32_update :: "bool \<Rightarrow> XXH32_state_t \<Rightarrow> bytes \<Rightarrow> XXH32_state_t" where
  "XXH32_update le st input =
     (let len = length input;
          st = st\<lparr>x32_total_len_32 := x32_total_len_32 st + of_nat len\<rparr>;
          st = st\<lparr>x32_large_len := x32_large_len st \<or> len \<ge> 16 \<or> x32_total_len_32 st \<ge> 16\<rparr>
      in if x32_memsize st + len < 16
         then st\<lparr>x32_mem32 := write_at (x32_mem32 st) (x32_memsize st) input, x32_memsize := x32_memsize st + len\<rparr>
         else if x32_memsize st \<noteq> 0
         then let mem = write_at (x32_mem32 st) (x32_memsize st) (take (16 - x32_memsize st) input)
              in XXH32_update_rest le
                   (st\<lparr>x32_mem32 := mem, x32_v := XXH32_stripe le XXH_unaligned mem (x32_v st), x32_memsize := 0\<rparr>)
                   (drop (16 - x32_memsize st) input)
         else XXH32_update_rest le st input)"

definition XXH32_digest :: "bool \<Rightarrow> bool \<Rightarrow> XXH32_state_t \<Rightarrow> u32" where
  "XXH32_digest endjmp le st =
     (let h32 = (if x32_large_len st then XXH32_merge_lanes (x32_v st)
                 else fst (snd (snd (x32_v st))) + XXH_PRIME32_5);
          h32 = h32 + x32_total_len_32 st
      in XXH32_finalize endjmp le h32 (x32_mem32 st) (x32_memsize st) XXH_aligned)"

definition XXH32_canonicalFromHash :: "bool \<Rightarrow> u32 \<Rightarrow> bytes" where
  "XXH32_canonicalFromHash le hash =
     (let hash = (if le then XXH_swap32 hash else hash) in native_bytes le 4 (unat hash))"

definition XXH32_hashFromCanonical :: "bool \<Rightarrow> bytes \<Rightarrow> u32" where
  "XXH32_hashFromCanonical le src = XXH_readBE32 le src 0"

subsection \<open>XXH64\<close>

definition XXH_PRIME64_1 :: u64 where "XXH_PRIME64_1 = 0x9E3779B185EBCA87"
definition XXH_PRIME64_2 :: u64 where "XXH_PRIME64_2 = 0xC2B2AE3D27D4EB4F"
definition XXH_PRIME64_3 :: u64 where "XXH_PRIME64_3 = 0x165667B19E3779F9"
definition XXH_PRIME64_4 :: u64 where "XXH_PRIME64_4 = 0x85EBCA77C2B2AE63"
definition XXH_PRIME64_5 :: u64 where "XXH_PRIME64_5 = 0x27D4EB2F165667C5"

type_synonym lanes64 = "u64 \<times> u64 \<times> u64 \<times> u64"

definition XXH64_round :: "u64 \<Rightarrow> u64 \<Rightarrow> u64" where
  "XXH64_round acc input =
     (let acc = acc + input * XXH_PRIME64_2; acc = XXH_rotl64 acc 31 in acc * XXH_PRIME64_1)"

definition XXH64_mergeRound :: "u64 \<Rightarrow> u64 \<Rightarrow> u64" where
  "XXH64_mergeRound acc val =
     (let val = XXH64_round 0 val; acc = acc XOR val in acc * XXH_PRIME64_1 + XXH_PRIME64_4)"

definition XXH64_avalanche :: "u64 \<Rightarrow> u64" where
  "XXH64_avalanche hash =
     (let hash = hash XOR drop_bit 33 hash;
          hash = hash * XXH_PRIME64_2;
          hash = hash XOR drop_bit 29 hash;
          hash = hash * XXH_PRIME64_3
      in hash XOR drop_bit 32 hash)"

fun XXH64_tail1 :: "u64 \<Rightarrow> bytes \<Rightarrow> nat \<Rightarrow> u64" where
  "XXH64_tail1 hash ptr 0 = XXH64_avalanche hash"
| "XXH64_tail1 hash ptr (Suc len) =
     (let hash = hash XOR ucast (byte_at ptr 0) * XXH_PRIME64_5
      in XXH64_tail1 (XXH_rotl64 hash 11 * XXH_PRIME64_1) (drop 1 ptr) len)"

definition XXH64_tail4 :: "bool \<Rightarrow> XXH_alignment \<Rightarrow> u64 \<Rightarrow> bytes \<Rightarrow> nat \<Rightarrow> u64" where
  "XXH64_tail4 le align hash ptr len =
     (if len \<ge> 4
      then let hash = hash XOR ucast (XXH_readLE32_align le ptr 0 align) * XXH_PRIME64_1
           in XXH64_tail1 (XXH_rotl64 hash 23 * XXH_PRIME64_2 + XXH_PRIME64_3) (drop 4 ptr) (len - 4)
      else XXH64_tail1 hash ptr len)"

function XXH64_tail8 :: "bool \<Rightarrow> XXH_alignment \<Rightarrow> u64 \<Rightarrow> bytes \<Rightarrow> nat \<Rightarrow> u64" where
  "XXH64_tail8 le align hash ptr len =
     (if len \<ge> 8
      then let k1 = XXH64_round 0 (XXH_readLE64_align le ptr 0 align);
               hash = hash XOR k1
           in XXH64_tail8 le align (XXH_rotl64 hash 27 * XXH_PRIME64_1 + XXH_PRIME64_4) (drop 8 ptr) (len - 8)
      else XXH64_tail4 le align hash ptr len)"
  by auto
termination by (relation "measure (\<lambda>(_, _, _, _, len). len)") auto

definition XXH64_finalize :: "bool \<Rightarrow> u64 \<Rightarrow> bytes \<Rightarrow> nat \<Rightarrow> XXH_alignment \<Rightarrow> u64" where
  "XXH64_finalize le hash ptr len align = XXH64_tail8 le align hash ptr (len AND 31)"

definition XXH64_stripe :: "bool \<Rightarrow> XXH_alignment \<Rightarrow> bytes \<Rightarrow> lanes64 \<Rightarrow> lanes64" where
  "XXH64_stripe le align input = (\<lambda>(v1, v2, v3, v4).
     (XXH64_round v1 (XXH_readLE64_align le input 0 align), XXH64_round v2 (XXH_readLE64_align le input 8 align),
      XXH64_round v3 (XXH_readLE64_align le input 16 align), XXH64_round v4 (XXH_readLE64_align le input 24 align)))"

function XXH64_loop :: "bool \<Rightarrow> XXH_alignment \<Rightarrow> bytes \<Rightarrow> lanes64 \<Rightarrow> bytes \<times> lanes64" where
  "XXH64_loop le align input v =
     (let v = XXH64_stripe le align input v; input = drop 32 input
      in if length input \<ge> 32 then XXH64_loop le align input v else (input, v))"
  by auto
termination by (relation "measure (\<lambda>(_, _, input, _). length input)") auto

definition XXH64_init_lanes :: "u64 \<Rightarrow> lanes64" where
  "XXH64_init_lanes seed = (seed + XXH_PRIME64_1 + XXH_PRIME64_2, seed + XXH_PRIME64_2, seed + 0, seed - XXH_PRIME64_1)"

definition XXH64_merge_lanes :: "lanes64 \<Rightarrow> u64" where
  "XXH64_merge_lanes = (\<lambda>(v1, v2, v3, v4).
     (let h64 = XXH_rotl64 v1 1 + XXH_rotl64 v2 7 + XXH_rotl64 v3 12 + XXH_rotl64 v4 18;
          h64 = XXH64_mergeRound h64 v1;
          h64 = XXH64_mergeRound h64 v2;
          h64 = XXH64_mergeRound h64 v3
      in XXH64_mergeRound h64 v4))"

definition XXH64_endian_align :: "bool \<Rightarrow> bytes \<Rightarrow> u64 \<Rightarrow> XXH_alignment \<Rightarrow> u64" where
  "XXH64_endian_align le input seed align =
     (let len = length input;
          (input, h64) = (if len \<ge> 32
            then let (input, v) = XXH64_loop le align input (XXH64_init_lanes seed) in (input, XXH64_merge_lanes v)
            else (input, seed + XXH_PRIME64_5));
          h64 = h64 + of_nat len
      in XXH64_finalize le h64 input len align)"

definition XXH64 :: "bool \<Rightarrow> bool \<Rightarrow> bytes \<Rightarrow> u64 \<Rightarrow> u64" where
  "XXH64 le aligned input seed =
     (if aligned then XXH64_endian_align le input seed XXH_aligned
      else XXH64_endian_align le input seed XXH_unaligned)"

record XXH64_state_t =
  x64_total_len :: u64
  x64_v :: lanes64
  x64_mem64 :: bytes
  x64_memsize :: nat

definition XXH64_reset :: "u64 \<Rightarrow> XXH64_state_t" where
  "XXH64_reset seed = \<lparr>x64_total_len = 0, x64_v = XXH64_init_lanes seed,
     x64_mem64 = replicate 32 0, x64_memsize = 0\<rparr>"

text \<open>The part of the update that runs once the buffer is empty.\<close>

definition XXH64_update_rest :: "bool \<Rightarrow> XXH64_state_t \<Rightarrow> bytes \<Rightarrow> XXH64_state_t" where
  "XXH64_update_rest le st p =
     (let (st, p) = (if 32 \<le> length p
            then let (p, v) = XXH64_loop le XXH_unaligned p (x64_v st) in (st\<lparr>x64_v := v\<rparr>, p)
            else (st, p))
      in if length p > 0 then st\<lparr>x64_mem64 := write_at (x64_mem64 st) 0 p, x64_memsize := length p\<rparr> else st)"

definition XXH64_update :: "bool \<Rightarrow> XXH64_state_t \<Rightarrow> bytes \<Rightarrow> XXH64_state_t" where
  "XXH64_update le st input =
     (let len = length input;
          st = st\<lparr>x64_total_len := x64_total_len st + of_nat len\<rparr>
      in if x64_memsize st + len < 32
         then st\<lparr>x64_mem64 := write_at (x64_mem64 st) (x64_memsize st) input, x64_memsize := x64_memsize st + len\<rparr>
         else if x64_memsize st \<noteq> 0
         then let mem = write_at (x64_mem64 st) (x64_memsize st) (take (32 - x64_memsize st) input)
              in XXH64_update_rest le
                   (st\<lparr>x64_mem64 := mem, x64_v := XXH64_stripe le XXH_unaligned mem (x64_v st), x64_memsize := 0\<rparr>)
                   (drop (32 - x64_memsize st) input)
         else XXH64_update_rest le st input)"

definition XXH64_digest :: "bool \<Rightarrow> XXH64_state_t \<Rightarrow> u64" where
  "XXH64_digest le st =
     (let h64 = (if x64_total_len st \<ge> 32 then XXH64_merge_lanes (x64_v st)
                 else fst (snd (snd (x64_v st))) + XXH_PRIME64_5);
          h64 = h64 + x64_total_len st
      in XXH64_finalize le h64 (x64_mem64 st) (unat (x64_total_len st)) XXH_aligned)"

definition XXH64_canonicalFromHash :: "bool \<Rightarrow> u64 \<Rightarrow> bytes" where
  "XXH64_canonicalFromHash le hash =
     (let hash = (if le then XXH_swap64 hash else hash) in native_bytes le 8 (unat hash))"

definition XXH64_hashFromCanonical :: "bool \<Rightarrow> bytes \<Rightarrow> u64" where
  "XXH64_hashFromCanonical le src = XXH_readBE64 le src 0"

subsection \<open>Streaming by stripes\<close>

text \<open>The lanes absorb the input in stripes of \<open>n\<close> bytes; what is left over waits in a buffer.\<close>

function stripes :: "nat \<Rightarrow> (bytes \<Rightarrow> 'v \<Rightarrow> 'v) \<Rightarrow> bytes \<Rightarrow> 'v \<Rightarrow> 'v" where
  "stripes n f bs v = (if 0 < n \<and> n \<le> length bs then stripes n f (drop n bs) (f (take n bs) v) else v)"
  by auto
termination by (relation "measure (\<lambda>(_, _, bs, _). length bs)") auto

function leftover :: "nat \<Rightarrow> bytes \<Rightarrow> bytes" where
  "leftover n bs = (if 0 < n \<and> n \<le> length bs then leftover n (drop n bs) else bs)"
  by auto
termination by (relation "measure (\<lambda>(_, bs). length bs)") auto

declare stripes.simps [simp del] leftover.simps [simp del] XXH32_loop.simps [simp del] XXH64_loop.simps [simp del]
  XXH32_tail4.simps [simp del] XXH64_tail8.simps [simp del]

lemma stripes_short: "length bs < n \<Longrightarrow> stripes n f bs v = v" "length bs < n \<Longrightarrow> leftover n bs = bs"
  by (simp_all add: stripes.simps [of n f bs] leftover.simps [of n bs])

lemma stripes_step:
  "0 < n \<Longrightarrow> length a = n \<Longrightarrow> stripes n f (a @ bs) v = stripes n f bs (f a v)"
  "0 < n \<Longrightarrow> length a = n \<Longrightarrow> leftover n (a @ bs) = leftover n bs"
  by (simp_all add: stripes.simps [of n f "a @ bs"] leftover.simps [of n "a @ bs"])

lemma length_leftover: "0 < n \<Longrightarrow> length (leftover n bs) = length bs mod n"
proof (induction n bs rule: leftover.induct)
  case (1 n bs)
  then show ?case by (cases "n \<le> length bs") (simp_all add: leftover.simps [of n bs] le_mod_geq)
qed

text \<open>Absorbing a longer input is absorbing its beginning and then the rest behind what was left over.\<close>

lemma stripes_append:
  assumes "0 < n"
  shows "stripes n f (leftover n xs @ ys) (stripes n f xs v) = stripes n f (xs @ ys) v"
    and "leftover n (leftover n xs @ ys) = leftover n (xs @ ys)"
proof -
  have "stripes n f (leftover n xs @ ys) (stripes n f xs v) = stripes n f (xs @ ys) v
    \<and> leftover n (leftover n xs @ ys) = leftover n (xs @ ys)"
    using assms
  proof (induction n f xs v rule: stripes.induct)
    case (1 n f xs v)
    show ?case
    proof (cases "n \<le> length xs")
      case True
      have "xs = take n xs @ drop n xs" "length (take n xs) = n" using True by simp_all
      then show ?thesis using 1 True stripes_step [of n "take n xs"] by (metis append_assoc)
    next
      case False
      then show ?thesis by (simp add: stripes_short)
    qed
  qed
  then show "stripes n f (leftover n xs @ ys) (stripes n f xs v) = stripes n f (xs @ ys) v"
    "leftover n (leftover n xs @ ys) = leftover n (xs @ ys)" by simp_all
qed

text \<open>What a streaming update promises: it keeps an invariant, it absorbs the stripes that its
  buffer and the new input complete, and it keeps the rest.\<close>

locale stripe_stream =
  fixes n :: nat and f :: "bytes \<Rightarrow> 'v \<Rightarrow> 'v" and ok :: "'s \<Rightarrow> bool" and lanes :: "'s \<Rightarrow> 'v"
    and pending :: "'s \<Rightarrow> bytes" and upd :: "'s \<Rightarrow> bytes \<Rightarrow> 's"
  assumes stripe_pos: "0 < n"
    and pending_short: "ok s \<Longrightarrow> length (pending s) < n"
    and upd_ok: "ok s \<Longrightarrow> ok (upd s xs)"
    and upd_lanes: "ok s \<Longrightarrow> lanes (upd s xs) = stripes n f (pending s @ xs) (lanes s)"
    and upd_pending: "ok s \<Longrightarrow> pending (upd s xs) = leftover n (pending s @ xs)"
begin

lemma feed_ok: "ok s \<Longrightarrow> ok (foldl upd s xss)"
  by (induction xss arbitrary: s) (simp_all add: upd_ok)

lemma feed_lanes: "ok s \<Longrightarrow> lanes (foldl upd s xss) = stripes n f (pending s @ concat xss) (lanes s)"
proof (induction xss arbitrary: s)
  case Nil
  then show ?case by (simp add: stripes_short pending_short)
next
  case (Cons xs xss)
  then show ?case
    using stripes_append(1) [OF stripe_pos, of f "pending s @ xs" "concat xss" "lanes s"]
    by (simp add: upd_ok upd_lanes upd_pending)
qed

lemma feed_pending: "ok s \<Longrightarrow> pending (foldl upd s xss) = leftover n (pending s @ concat xss)"
proof (induction xss arbitrary: s)
  case Nil
  then show ?case by (simp add: stripes_short pending_short)
next
  case (Cons xs xss)
  then show ?case
    using stripes_append(2) [OF stripe_pos, of "pending s @ xs" "concat xss"]
    by (simp add: upd_ok upd_lanes upd_pending)
qed

end

subsection \<open>Reads do not depend on the machine\<close>

lemma XXH_swap_eq: "XXH_swap32 = MEM_swap32" "XXH_swap64 = MEM_swap64"
  by (simp_all add: fun_eq_iff XXH_swap32_def MEM_swap32_def XXH_swap64_def MEM_swap64_def)

lemma XXH_readLE_eq [le_simps]:
  "XXH_readLE32_align le mem p align = of_nat (le_val (rd mem p 4))"
  "XXH_readLE64_align le mem p align = of_nat (le_val (rd mem p 8))"
  by (simp_all add: XXH_readLE32_align_def XXH_readLE32_def XXH_read32_def XXH_readLE64_align_def
      XXH_readLE64_def XXH_read64_def native_val_def XXH_swap_eq swap32_le_val swap64_le_val)

lemma nat_and_15: "(len :: nat) AND 15 = len mod 16"
  using take_bit_eq_mask [of 4 len] by (simp add: mask_eq_exp_minus_1 take_bit_eq_mod)

lemma nat_and_31: "(len :: nat) AND 31 = len mod 32"
  using take_bit_eq_mask [of 5 len] by (simp add: mask_eq_exp_minus_1 take_bit_eq_mod)

subsection \<open>XXH32: the pieces of the message and the whole\<close>

lemma XXH32_stripe_eq:
  "XXH32_stripe le align (take 16 input) v = XXH32_stripe le align input v"
  "XXH32_stripe le align = XXH32_stripe True XXH_unaligned"
  by (cases v; simp add: XXH32_stripe_def XXH_readLE_eq) (simp add: fun_eq_iff XXH32_stripe_def XXH_readLE_eq)

lemma XXH32_loop_stripes:
  "16 \<le> length input \<Longrightarrow>
   XXH32_loop le align input v = (leftover 16 input, stripes 16 (XXH32_stripe True XXH_unaligned) input v)"
proof (induction le align input v rule: XXH32_loop.induct)
  case (1 le align input v)
  have s: "stripes 16 (XXH32_stripe True XXH_unaligned) input v
      = stripes 16 (XXH32_stripe True XXH_unaligned) (drop 16 input) (XXH32_stripe le align input v)"
    "leftover 16 input = leftover 16 (drop 16 input)"
    using "1.prems" by (simp_all add: stripes.simps [of 16 _ input] leftover.simps [of 16 input] XXH32_stripe_eq(1)
        XXH32_stripe_eq(2) [of le align])
  show ?case
    using "1.IH" [OF refl refl] by (auto simp: XXH32_loop.simps [of le align input] s Let_def stripes_short)
qed

definition xxh32_ok :: "XXH32_state_t \<Rightarrow> bool" where
  "xxh32_ok st \<longleftrightarrow> length (x32_mem32 st) = 16 \<and> x32_memsize st < 16"

definition xxh32_pending :: "XXH32_state_t \<Rightarrow> bytes" where
  "xxh32_pending st = take (x32_memsize st) (x32_mem32 st)"

abbreviation (input) xxh32_absorb :: "bytes \<Rightarrow> lanes32 \<Rightarrow> lanes32" where
  "xxh32_absorb \<equiv> stripes 16 (XXH32_stripe True XXH_unaligned)"

lemma XXH32_update_rest_spec:
  assumes "length (x32_mem32 st) = 16" and "x32_memsize st = 0"
  shows "xxh32_ok (XXH32_update_rest le st p)" "x32_v (XXH32_update_rest le st p) = xxh32_absorb p (x32_v st)"
    "xxh32_pending (XXH32_update_rest le st p) = leftover 16 p"
    "x32_total_len_32 (XXH32_update_rest le st p) = x32_total_len_32 st"
    "x32_large_len (XXH32_update_rest le st p) = x32_large_len st"
proof -
  have "length (leftover 16 p) < 16" by (simp add: length_leftover)
  moreover have "XXH32_update_rest le st p = (let st = st\<lparr>x32_v := xxh32_absorb p (x32_v st)\<rparr>; p = leftover 16 p
      in if length p > 0 then st\<lparr>x32_mem32 := write_at (x32_mem32 st) 0 p, x32_memsize := length p\<rparr> else st)"
    by (cases "16 \<le> length p") (simp_all add: XXH32_update_rest_def XXH32_loop_stripes stripes_short Let_def)
  ultimately show "xxh32_ok (XXH32_update_rest le st p)" "x32_v (XXH32_update_rest le st p) = xxh32_absorb p (x32_v st)"
    "xxh32_pending (XXH32_update_rest le st p) = leftover 16 p"
    "x32_total_len_32 (XXH32_update_rest le st p) = x32_total_len_32 st"
    "x32_large_len (XXH32_update_rest le st p) = x32_large_len st"
    using assms by (auto simp: xxh32_ok_def xxh32_pending_def write_at_def Let_def)
qed

text \<open>Completing the stripe that waits in the buffer.\<close>

lemma xxh32_complete:
  assumes ok: "xxh32_ok st" and len: "16 \<le> x32_memsize st + length input" and ms: "x32_memsize st \<noteq> 0"
  defines "mem \<equiv> write_at (x32_mem32 st) (x32_memsize st) (take (16 - x32_memsize st) input)"
    and "p \<equiv> drop (16 - x32_memsize st) input"
  shows "length mem = 16" and "xxh32_absorb p (XXH32_stripe le XXH_unaligned mem v) = xxh32_absorb (xxh32_pending st @ input) v"
    and "leftover 16 p = leftover 16 (xxh32_pending st @ input)"
proof -
  have m: "mem = xxh32_pending st @ take (16 - x32_memsize st) input"
    using ok len by (simp add: mem_def write_at_def xxh32_pending_def xxh32_ok_def)
  show l: "length mem = 16" using ok len by (simp add: m xxh32_pending_def xxh32_ok_def)
  have e: "xxh32_pending st @ input = mem @ p" by (simp add: m p_def)
  show "xxh32_absorb p (XXH32_stripe le XXH_unaligned mem v) = xxh32_absorb (xxh32_pending st @ input) v"
    "leftover 16 p = leftover 16 (xxh32_pending st @ input)"
    unfolding e using l by (simp_all add: stripes_step [of 16 mem] XXH32_stripe_eq(2) [of le XXH_unaligned])
qed

lemma XXH32_update_spec:
  fixes le :: bool and input :: bytes
  assumes ok: "xxh32_ok st"
  defines "st' \<equiv> XXH32_update le st input" and "tot \<equiv> x32_total_len_32 st + of_nat (length input)"
  shows "xxh32_ok st' \<and> x32_v st' = xxh32_absorb (xxh32_pending st @ input) (x32_v st)
    \<and> xxh32_pending st' = leftover 16 (xxh32_pending st @ input) \<and> x32_total_len_32 st' = tot
    \<and> (x32_large_len st' \<longleftrightarrow> x32_large_len st \<or> length input \<ge> 16 \<or> tot \<ge> 16)"
proof -
  note d = st'_def tot_def xxh32_ok_def XXH32_update_def Let_def
  show ?thesis
  proof (cases "x32_memsize st + length input < 16")
    case True
    then have "length (xxh32_pending st @ input) < 16" using ok by (simp add: xxh32_ok_def xxh32_pending_def)
    then show ?thesis
      using True ok by (simp add: d stripes_short) (simp add: xxh32_pending_def take_write_at_within)
  next
    case False
    show ?thesis
    proof (cases "x32_memsize st = 0")
      case True
      then have "length (x32_mem32 st) = 16" "xxh32_pending st = []" using ok by (simp_all add: xxh32_ok_def xxh32_pending_def)
      then show ?thesis
        using False True by (simp add: st'_def tot_def XXH32_update_def XXH32_update_rest_spec Let_def)
    next
      case ms: False
      note c = xxh32_complete [OF ok _ ms, of input]
      show ?thesis
        using False ms c by (simp add: st'_def tot_def XXH32_update_def XXH32_update_rest_spec Let_def)
    qed
  qed
qed

interpretation x32: stripe_stream 16 "XXH32_stripe True XXH_unaligned" xxh32_ok x32_v xxh32_pending "XXH32_update le"
proof
  fix st xs
  assume ok: "xxh32_ok st"
  then show "length (xxh32_pending st) < 16" by (simp add: xxh32_ok_def xxh32_pending_def)
  show "xxh32_ok (XXH32_update le st xs)" "x32_v (XXH32_update le st xs) = xxh32_absorb (xxh32_pending st @ xs) (x32_v st)"
    "xxh32_pending (XXH32_update le st xs) = leftover 16 (xxh32_pending st @ xs)"
    using XXH32_update_spec [OF ok] by blast+
qed simp

text \<open>The length counter wraps, but the flag still tells whether 16 bytes have been seen.\<close>

lemma xxh32_counts:
  assumes "xxh32_ok st" and "x32_total_len_32 st = of_nat t" and "x32_large_len st \<longleftrightarrow> t \<ge> 16"
  shows "x32_total_len_32 (foldl (XXH32_update le) st xss) = of_nat (t + length (concat xss))
    \<and> (x32_large_len (foldl (XXH32_update le) st xss) \<longleftrightarrow> t + length (concat xss) \<ge> 16)"
  using assms
proof (induction xss arbitrary: st t)
  case (Cons xs xss)
  let ?st = "XXH32_update le st xs"
  note u = XXH32_update_spec [OF Cons.prems(1), of le xs]
  have "(of_nat (t + length xs) :: u32) \<ge> 16 \<longleftrightarrow> t + length xs \<ge> 16" if "t < 16" "length xs < 16"
  proof -
    have "unat (of_nat (t + length xs) :: u32) = t + length xs" using that by (intro unat_of_nat_id) simp
    then show ?thesis by (simp only: word_le_nat_alt) simp
  qed
  then have "x32_large_len ?st \<longleftrightarrow> t + length xs \<ge> 16" using u Cons.prems(2,3) by (simp del: of_nat_add flip: of_nat_add) linarith
  moreover have "x32_total_len_32 ?st = of_nat (t + length xs)" using u Cons.prems(2) by simp
  ultimately show ?case using Cons.IH [of ?st "t + length xs"] u by (simp add: add.assoc)
qed simp

lemma XXH32_tail1_take: "len \<le> k \<Longrightarrow> XXH32_tail1 (h, take k ptr) len = XXH32_tail1 (h, ptr) len"
proof (induction len arbitrary: h ptr k)
  case (Suc len)
  then obtain j where k: "k = Suc j" "len \<le> j" by (cases k) auto
  then show ?case using Suc.IH [of j _ "drop 1 ptr"] by (simp add: XXH32_PROCESS1_def Let_def drop_take)
qed simp

lemma XXH32_tail4_take:
  "len \<le> k \<Longrightarrow> XXH32_tail4 le align (h, take k ptr) len = XXH32_tail4 True XXH_unaligned (h, ptr) len"
proof (induction len arbitrary: h ptr k rule: less_induct)
  case (less len)
  show ?case
  proof (cases "len \<ge> 4")
    case True
    then show ?thesis
      using less.IH [of "len - 4" "k - 4" _ "drop 4 ptr"] less.prems
      by (simp add: XXH32_tail4.simps [of _ _ _ len] XXH32_PROCESS4_def XXH_readLE_eq Let_def drop_take)
  next
    case False
    then show ?thesis using less.prems by (simp add: XXH32_tail4.simps [of _ _ _ len] XXH32_tail1_take)
  qed
qed

lemma XXH32_endjmp_eq:
  assumes "len < 16"
  shows "XXH32_endjmp le align st len = XXH32_tail4 le align st len"
proof -
  have "len \<in> set [0..<16]" using assms by simp
  then have "len \<in> {0, 1, 2, 3, 4, 5, 6, 7, 8, 9, 10, 11, 12, 13, 14, 15}" by (simp add: upt_rec eval_nat_numeral)
  then show ?thesis
    by (elim insertE; simp add: XXH32_endjmp_def XXH32_tail4.simps Let_def eval_nat_numeral)
qed

lemma XXH32_finalize_eq:
  "XXH32_finalize endjmp le h ptr len align = XXH32_tail4 True XXH_unaligned (h, take (len mod 16) ptr) (len mod 16)"
  using XXH32_tail4_take [of "len mod 16" "length ptr + 16" le align h ptr]
    XXH32_tail4_take [of "len mod 16" "len mod 16" True XXH_unaligned h ptr]
  by (simp add: XXH32_finalize_def nat_and_15 XXH32_endjmp_eq)


lemma xxh32_reset_ok: "xxh32_ok (XXH32_reset seed)" "xxh32_pending (XXH32_reset seed) = []"
    "x32_v (XXH32_reset seed) = XXH32_init_lanes seed"
    "x32_total_len_32 (XXH32_reset seed) = of_nat 0" "x32_large_len (XXH32_reset seed) \<longleftrightarrow> (0 :: nat) \<ge> 16"
  by (simp_all add: XXH32_reset_def xxh32_ok_def xxh32_pending_def)

lemma XXH32_eq:
  "XXH32 endjmp le aligned input seed = XXH32_tail4 True XXH_unaligned
     ((if length input \<ge> 16 then XXH32_merge_lanes (xxh32_absorb input (XXH32_init_lanes seed)) else seed + XXH_PRIME32_5)
        + of_nat (length input), leftover 16 input) (length input mod 16)"
proof -
  have l: "take (length input mod 16) (leftover 16 input) = leftover 16 input" by (simp add: length_leftover)
  show ?thesis
    by (cases "16 \<le> length input")
      (simp_all add: XXH32_def XXH32_endian_align_def XXH32_loop_stripes XXH32_finalize_eq nat_and_15 l stripes_short Let_def)
qed

lemma XXH32_digest_feed:
  "XXH32_digest endjmp le (foldl (XXH32_update le) (XXH32_reset seed) xss) = XXH32 endjmp' le' aligned (concat xss) seed"
proof -
  define st where "st = foldl (XXH32_update le) (XXH32_reset seed) xss"
  note c = xxh32_counts [OF xxh32_reset_ok(1,4,5), of le seed xss, folded st_def]
  have v: "x32_v st = xxh32_absorb (concat xss) (XXH32_init_lanes seed)"
    using x32.feed_lanes [OF xxh32_reset_ok(1), of le seed xss] by (simp add: st_def xxh32_reset_ok)
  have p: "xxh32_pending st = leftover 16 (concat xss)"
    using x32.feed_pending [OF xxh32_reset_ok(1), of le seed xss] by (simp add: st_def xxh32_reset_ok)
  have ok: "xxh32_ok st" using x32.feed_ok [OF xxh32_reset_ok(1)] by (simp add: st_def)
  have ms: "x32_memsize st = length (concat xss) mod 16"
    using arg_cong [OF p, of length] ok by (simp add: length_leftover xxh32_pending_def xxh32_ok_def)
  have short: "\<not> 16 \<le> length (concat xss) \<Longrightarrow> fst (snd (snd (x32_v st))) = seed"
    by (simp add: v stripes_short XXH32_init_lanes_def)
  show ?thesis
    using c p short ms unfolding st_def [symmetric] XXH32_eq
    by (simp add: XXH32_digest_def XXH32_finalize_eq v xxh32_pending_def Let_def)
qed

subsection \<open>XXH64: the pieces of the message and the whole\<close>

lemma XXH64_stripe_eq:
  "XXH64_stripe le align (take 32 input) v = XXH64_stripe le align input v"
  "XXH64_stripe le align = XXH64_stripe True XXH_unaligned"
  by (cases v; simp add: XXH64_stripe_def XXH_readLE_eq) (simp add: fun_eq_iff XXH64_stripe_def XXH_readLE_eq)

lemma XXH64_loop_stripes:
  "32 \<le> length input \<Longrightarrow>
   XXH64_loop le align input v = (leftover 32 input, stripes 32 (XXH64_stripe True XXH_unaligned) input v)"
proof (induction le align input v rule: XXH64_loop.induct)
  case (1 le align input v)
  have s: "stripes 32 (XXH64_stripe True XXH_unaligned) input v
      = stripes 32 (XXH64_stripe True XXH_unaligned) (drop 32 input) (XXH64_stripe le align input v)"
    "leftover 32 input = leftover 32 (drop 32 input)"
    using "1.prems" by (simp_all add: stripes.simps [of 32 _ input] leftover.simps [of 32 input] XXH64_stripe_eq(1)
        XXH64_stripe_eq(2) [of le align])
  show ?case
    using "1.IH" [OF refl refl] by (auto simp: XXH64_loop.simps [of le align input] s Let_def stripes_short)
qed

definition xxh64_ok :: "XXH64_state_t \<Rightarrow> bool" where
  "xxh64_ok st \<longleftrightarrow> length (x64_mem64 st) = 32 \<and> x64_memsize st < 32"

definition xxh64_pending :: "XXH64_state_t \<Rightarrow> bytes" where
  "xxh64_pending st = take (x64_memsize st) (x64_mem64 st)"

abbreviation (input) xxh64_absorb :: "bytes \<Rightarrow> lanes64 \<Rightarrow> lanes64" where
  "xxh64_absorb \<equiv> stripes 32 (XXH64_stripe True XXH_unaligned)"

lemma XXH64_update_rest_spec:
  assumes "length (x64_mem64 st) = 32" and "x64_memsize st = 0"
  shows "xxh64_ok (XXH64_update_rest le st p)" "x64_v (XXH64_update_rest le st p) = xxh64_absorb p (x64_v st)"
    "xxh64_pending (XXH64_update_rest le st p) = leftover 32 p"
    "x64_total_len (XXH64_update_rest le st p) = x64_total_len st"
proof -
  have "length (leftover 32 p) < 32" by (simp add: length_leftover)
  moreover have "XXH64_update_rest le st p = (let st = st\<lparr>x64_v := xxh64_absorb p (x64_v st)\<rparr>; p = leftover 32 p
      in if length p > 0 then st\<lparr>x64_mem64 := write_at (x64_mem64 st) 0 p, x64_memsize := length p\<rparr> else st)"
    by (cases "32 \<le> length p") (simp_all add: XXH64_update_rest_def XXH64_loop_stripes stripes_short Let_def)
  ultimately show "xxh64_ok (XXH64_update_rest le st p)" "x64_v (XXH64_update_rest le st p) = xxh64_absorb p (x64_v st)"
    "xxh64_pending (XXH64_update_rest le st p) = leftover 32 p"
    "x64_total_len (XXH64_update_rest le st p) = x64_total_len st"
    using assms by (auto simp: xxh64_ok_def xxh64_pending_def write_at_def Let_def)
qed

text \<open>Completing the stripe that waits in the buffer.\<close>

lemma xxh64_complete:
  assumes ok: "xxh64_ok st" and len: "32 \<le> x64_memsize st + length input" and ms: "x64_memsize st \<noteq> 0"
  defines "mem \<equiv> write_at (x64_mem64 st) (x64_memsize st) (take (32 - x64_memsize st) input)"
    and "p \<equiv> drop (32 - x64_memsize st) input"
  shows "length mem = 32" and "xxh64_absorb p (XXH64_stripe le XXH_unaligned mem v) = xxh64_absorb (xxh64_pending st @ input) v"
    and "leftover 32 p = leftover 32 (xxh64_pending st @ input)"
proof -
  have m: "mem = xxh64_pending st @ take (32 - x64_memsize st) input"
    using ok len by (simp add: mem_def write_at_def xxh64_pending_def xxh64_ok_def)
  show l: "length mem = 32" using ok len by (simp add: m xxh64_pending_def xxh64_ok_def)
  have e: "xxh64_pending st @ input = mem @ p" by (simp add: m p_def)
  show "xxh64_absorb p (XXH64_stripe le XXH_unaligned mem v) = xxh64_absorb (xxh64_pending st @ input) v"
    "leftover 32 p = leftover 32 (xxh64_pending st @ input)"
    unfolding e using l by (simp_all add: stripes_step [of 32 mem] XXH64_stripe_eq(2) [of le XXH_unaligned])
qed

lemma XXH64_update_spec:
  fixes le :: bool and input :: bytes
  assumes ok: "xxh64_ok st"
  defines "st' \<equiv> XXH64_update le st input" and "tot \<equiv> x64_total_len st + of_nat (length input)"
  shows "xxh64_ok st' \<and> x64_v st' = xxh64_absorb (xxh64_pending st @ input) (x64_v st)
    \<and> xxh64_pending st' = leftover 32 (xxh64_pending st @ input) \<and> x64_total_len st' = tot"
proof -
  note d = st'_def tot_def xxh64_ok_def XXH64_update_def Let_def
  show ?thesis
  proof (cases "x64_memsize st + length input < 32")
    case True
    then have "length (xxh64_pending st @ input) < 32" using ok by (simp add: xxh64_ok_def xxh64_pending_def)
    then show ?thesis
      using True ok by (simp add: d stripes_short) (simp add: xxh64_pending_def take_write_at_within)
  next
    case False
    show ?thesis
    proof (cases "x64_memsize st = 0")
      case True
      then have "length (x64_mem64 st) = 32" "xxh64_pending st = []" using ok by (simp_all add: xxh64_ok_def xxh64_pending_def)
      then show ?thesis
        using False True by (simp add: st'_def tot_def XXH64_update_def XXH64_update_rest_spec Let_def)
    next
      case ms: False
      note c = xxh64_complete [OF ok _ ms, of input]
      show ?thesis
        using False ms c by (simp add: st'_def tot_def XXH64_update_def XXH64_update_rest_spec Let_def)
    qed
  qed
qed

interpretation x64: stripe_stream 32 "XXH64_stripe True XXH_unaligned" xxh64_ok x64_v xxh64_pending "XXH64_update le"
proof
  fix st xs
  assume ok: "xxh64_ok st"
  then show "length (xxh64_pending st) < 32" by (simp add: xxh64_ok_def xxh64_pending_def)
  show "xxh64_ok (XXH64_update le st xs)" "x64_v (XXH64_update le st xs) = xxh64_absorb (xxh64_pending st @ xs) (x64_v st)"
    "xxh64_pending (XXH64_update le st xs) = leftover 32 (xxh64_pending st @ xs)"
    using XXH64_update_spec [OF ok] by blast+
qed simp

lemma xxh64_counts:
  "xxh64_ok st \<Longrightarrow> x64_total_len (foldl (XXH64_update le) st xss) = x64_total_len st + of_nat (length (concat xss))"
proof (induction xss arbitrary: st)
  case (Cons xs xss)
  then show ?case using XXH64_update_spec [OF Cons.prems, of le xs] by simp
qed simp

lemma XXH64_tail1_take: "len \<le> k \<Longrightarrow> XXH64_tail1 h (take k ptr) len = XXH64_tail1 h ptr len"
proof (induction len arbitrary: h ptr k)
  case (Suc len)
  then obtain j where k: "k = Suc j" "len \<le> j" by (cases k) auto
  then show ?case using Suc.IH [of j _ "drop 1 ptr"] by (simp add: Let_def drop_take)
qed simp

lemma XXH64_tail4_take:
  "len \<le> k \<Longrightarrow> XXH64_tail4 le align h (take k ptr) len = XXH64_tail4 True XXH_unaligned h ptr len"
  by (simp add: XXH64_tail4_def XXH_readLE_eq drop_take XXH64_tail1_take)

lemma XXH64_tail8_take:
  "len \<le> k \<Longrightarrow> XXH64_tail8 le align h (take k ptr) len = XXH64_tail8 True XXH_unaligned h ptr len"
proof (induction len arbitrary: h ptr k rule: less_induct)
  case (less len)
  show ?case
  proof (cases "len \<ge> 8")
    case True
    then show ?thesis
      using less.IH [of "len - 8" "k - 8" _ "drop 8 ptr"] less.prems
      by (simp add: XXH64_tail8.simps [of _ _ _ _ len] XXH_readLE_eq Let_def drop_take)
  next
    case False
    then show ?thesis using less.prems by (simp add: XXH64_tail8.simps [of _ _ _ _ len] XXH64_tail4_take)
  qed
qed

lemma XXH64_finalize_eq:
  "XXH64_finalize le h ptr len align = XXH64_tail8 True XXH_unaligned h (take (len mod 32) ptr) (len mod 32)"
  using XXH64_tail8_take [of "len mod 32" "length ptr + 32" le align h ptr]
    XXH64_tail8_take [of "len mod 32" "len mod 32" True XXH_unaligned h ptr]
  by (simp add: XXH64_finalize_def nat_and_31)

lemma xxh64_reset_ok: "xxh64_ok (XXH64_reset seed)" "xxh64_pending (XXH64_reset seed) = []"
    "x64_v (XXH64_reset seed) = XXH64_init_lanes seed" "x64_total_len (XXH64_reset seed) = 0"
  by (simp_all add: XXH64_reset_def xxh64_ok_def xxh64_pending_def)

lemma XXH64_eq:
  "XXH64 le aligned input seed = XXH64_tail8 True XXH_unaligned
     ((if length input \<ge> 32 then XXH64_merge_lanes (xxh64_absorb input (XXH64_init_lanes seed)) else seed + XXH_PRIME64_5)
        + of_nat (length input)) (leftover 32 input) (length input mod 32)"
proof -
  have l: "take (length input mod 32) (leftover 32 input) = leftover 32 input" by (simp add: length_leftover)
  show ?thesis
    by (cases "32 \<le> length input")
      (simp_all add: XXH64_def XXH64_endian_align_def XXH64_loop_stripes XXH64_finalize_eq l stripes_short Let_def)
qed

lemma XXH64_digest_feed:
  assumes len: "length (concat xss) < 2 ^ 64"
  shows "XXH64_digest le (foldl (XXH64_update le) (XXH64_reset seed) xss) = XXH64 le' aligned (concat xss) seed"
proof -
  define st where "st = foldl (XXH64_update le) (XXH64_reset seed) xss"
  have t: "x64_total_len st = of_nat (length (concat xss))"
    using xxh64_counts [OF xxh64_reset_ok(1)] by (simp add: st_def xxh64_reset_ok)
  have u: "unat (x64_total_len st) = length (concat xss)" using len unfolding t by (intro unat_of_nat_id) simp
  have v: "x64_v st = xxh64_absorb (concat xss) (XXH64_init_lanes seed)"
    using x64.feed_lanes [OF xxh64_reset_ok(1), of le seed xss] by (simp add: st_def xxh64_reset_ok)
  have p: "xxh64_pending st = leftover 32 (concat xss)"
    using x64.feed_pending [OF xxh64_reset_ok(1), of le seed xss] by (simp add: st_def xxh64_reset_ok)
  have ok: "xxh64_ok st" using x64.feed_ok [OF xxh64_reset_ok(1)] by (simp add: st_def)
  have ms: "x64_memsize st = length (concat xss) mod 32"
    using arg_cong [OF p, of length] ok by (simp add: length_leftover xxh64_pending_def xxh64_ok_def)
  have short: "\<not> 32 \<le> length (concat xss) \<Longrightarrow> fst (snd (snd (x64_v st))) = seed"
    by (simp add: v stripes_short XXH64_init_lanes_def)
  have g: "x64_total_len st \<ge> 32 \<longleftrightarrow> length (concat xss) \<ge> 32" by (simp add: word_le_nat_alt u)
  show ?thesis
    using p short ms unfolding st_def [symmetric] XXH64_eq XXH64_digest_def Let_def XXH64_finalize_eq u g
    by (simp add: v xxh64_pending_def t)
qed

subsection \<open>Properties\<close>

text \<open>C17. Checksumming in pieces is checksumming the whole: for every way to cut a message into
  pieces, empty ones included, resetting the streaming state, feeding the pieces in order and
  taking the digest gives the one-shot hash of the whole message. This holds for \<open>XXH64\<close> on every
  message shorter than \<open>2^64\<close> bytes and for \<open>XXH32\<close> on every message, although its length counter
  wraps, and the two sides may run on machines of different byte order and alignment and use either
  variant of the final mixing.\<close>

theorem xxhash_streaming:
  assumes "length (concat pieces) < 2 ^ 64"
  shows "XXH64_digest le (foldl (XXH64_update le) (XXH64_reset seed) pieces) = XXH64 le' aligned (concat pieces) seed
    \<and> XXH32_digest endjmp le (foldl (XXH32_update le) (XXH32_reset seed32) pieces)
      = XXH32 endjmp' le' aligned (concat pieces) seed32"
  using XXH64_digest_feed [OF assms] XXH32_digest_feed by blast

theorem xxhash_streaming_witness:
  "XXH64_digest True (foldl (XXH64_update True) (XXH64_reset 0) [[1, 2], [], replicate 40 7]) = XXH64 False False ([1, 2] @ replicate 40 7) 0"
  using xxhash_streaming [of "[[1, 2], [], replicate 40 7]" True 0 False False] by simp

end
