(* ===== verification/Zstd_Copy.thy ===== *)
theory Zstd_Copy
  imports Zstd_Mem
begin

text \<open>
  The copy routines of the block decoder (\<open>zstd_internal.h\<close>, \<open>zstd_decompress_block.c\<close>). They
  move 8, 16 or 32 bytes at a time, may write a few bytes past the end of what was asked for, and
  must still behave like a copy one byte after the other when source and destination overlap.
  All pointers are addresses in one memory, a byte list, so that every overlap is possible;
  an address that may lie before the memory is an integer. The relation \<open>copied\<close> says what a copy
  one byte after the other leaves behind, and the lemmas show that each routine ends in that
  relation and how far it writes.
\<close>

subsection \<open>The routines\<close>

definition ZSTD_copy4 :: "bytes \<Rightarrow> nat \<Rightarrow> nat \<Rightarrow> bytes" where
  "ZSTD_copy4 mem dst src = write_at mem dst (rd mem src 4)"

definition ZSTD_copy8 :: "bytes \<Rightarrow> nat \<Rightarrow> nat \<Rightarrow> bytes" where
  "ZSTD_copy8 mem dst src = write_at mem dst (rd mem src 8)"

definition ZSTD_copy16 :: "bytes \<Rightarrow> nat \<Rightarrow> nat \<Rightarrow> bytes" where
  "ZSTD_copy16 mem dst src = write_at mem dst (rd mem src 16)"

definition ZSTD_memmove :: "bytes \<Rightarrow> nat \<Rightarrow> nat \<Rightarrow> nat \<Rightarrow> bytes" where
  "ZSTD_memmove mem dst src n = write_at mem dst (rd mem src n)"

definition WILDCOPY_OVERLENGTH :: nat where "WILDCOPY_OVERLENGTH = 32"
definition WILDCOPY_VECLEN :: nat where "WILDCOPY_VECLEN = 16"

datatype ZSTD_overlap_e = ZSTD_no_overlap | ZSTD_overlap_src_before_dst

function wildcopy_by8 :: "bytes \<Rightarrow> nat \<Rightarrow> nat \<Rightarrow> nat \<Rightarrow> bytes" where
  "wildcopy_by8 mem op ip oend =
     (let mem = ZSTD_copy8 mem op ip; op = op + 8; ip = ip + 8
      in if op < oend then wildcopy_by8 mem op ip oend else mem)"
  by auto
termination by (relation "measure (\<lambda>(_, op, _, oend). oend - op)") auto

function wildcopy_by32 :: "bytes \<Rightarrow> nat \<Rightarrow> nat \<Rightarrow> nat \<Rightarrow> bytes" where
  "wildcopy_by32 mem op ip oend =
     (let mem = ZSTD_copy16 mem op ip; op = op + 16; ip = ip + 16;
          mem = ZSTD_copy16 mem op ip; op = op + 16; ip = ip + 16
      in if op < oend then wildcopy_by32 mem op ip oend else mem)"
  by auto
termination by (relation "measure (\<lambda>(_, op, _, oend). oend - op)") auto

definition ZSTD_wildcopy :: "bytes \<Rightarrow> nat \<Rightarrow> nat \<Rightarrow> nat \<Rightarrow> ZSTD_overlap_e \<Rightarrow> bytes" where
  "ZSTD_wildcopy mem dst src len ovtype =
     (let diff = int dst - int src; ip = src; op = dst; oend = op + len in
      if ovtype = ZSTD_overlap_src_before_dst \<and> diff < int WILDCOPY_VECLEN
      then wildcopy_by8 mem op ip oend
      else let mem = ZSTD_copy16 mem op ip
           in if 16 \<ge> len then mem
              else wildcopy_by32 mem (op + 16) (ip + 16) oend)"

definition dec32table :: "nat list" where "dec32table = [0, 1, 2, 1, 4, 4, 4, 4]"
definition dec64table :: "nat list" where "dec64table = [8, 8, 8, 7, 8, 9, 10, 11]"

definition ZSTD_overlapCopy8 :: "bytes \<Rightarrow> nat \<Rightarrow> nat \<Rightarrow> nat \<Rightarrow> bytes \<times> nat \<times> nat" where
  "ZSTD_overlapCopy8 mem op ip offset =
     (let (mem, ip) = (if offset < 8
            then let sub2 = dec64table ! offset;
                     mem = mem[op := byte_at mem ip];
                     mem = mem[op + 1 := byte_at mem (ip + 1)];
                     mem = mem[op + 2 := byte_at mem (ip + 2)];
                     mem = mem[op + 3 := byte_at mem (ip + 3)];
                     ip = ip + dec32table ! offset;
                     mem = ZSTD_copy4 mem (op + 4) ip
                 in (mem, ip + 8 - sub2)
            else (ZSTD_copy8 mem op ip, ip + 8))
      in (mem, op + 8, ip))"

fun copy_bytes :: "bytes \<Rightarrow> nat \<Rightarrow> nat \<Rightarrow> nat \<Rightarrow> bytes" where
  "copy_bytes mem op ip 0 = mem"
| "copy_bytes mem op ip (Suc n) = copy_bytes (mem[op := byte_at mem ip]) (op + 1) (ip + 1) n"

text \<open>The part of \<open>ZSTD_safecopy\<close> after the overlap has been widened.\<close>

definition safecopy_rest :: "bytes \<Rightarrow> nat \<Rightarrow> int \<Rightarrow> nat \<Rightarrow> nat \<Rightarrow> ZSTD_overlap_e \<Rightarrow> bytes" where
  "safecopy_rest mem op oend_w ip len ovtype =
     (let oend = op + len in
      if int oend \<le> oend_w then ZSTD_wildcopy mem op ip len ovtype
      else let (mem, op, ip) = (if int op \<le> oend_w
                 then let n = nat (oend_w - int op) in (ZSTD_wildcopy mem op ip n ovtype, op + n, ip + n)
                 else (mem, op, ip))
           in copy_bytes mem op ip (oend - op))"

definition ZSTD_safecopy :: "bytes \<Rightarrow> nat \<Rightarrow> int \<Rightarrow> nat \<Rightarrow> nat \<Rightarrow> ZSTD_overlap_e \<Rightarrow> bytes" where
  "ZSTD_safecopy mem op oend_w ip len ovtype =
     (if len < 8 then copy_bytes mem op ip len
      else if ovtype = ZSTD_overlap_src_before_dst
      then let (mem, op, ip) = ZSTD_overlapCopy8 mem op ip (op - ip)
           in safecopy_rest mem op oend_w ip (len - 8) ovtype
      else safecopy_rest mem op oend_w ip len ovtype)"

definition ZSTD_safecopyDstBeforeSrc :: "bytes \<Rightarrow> nat \<Rightarrow> nat \<Rightarrow> nat \<Rightarrow> bytes" where
  "ZSTD_safecopyDstBeforeSrc mem op ip len =
     (let diff = int op - int ip; oend = op + len in
      if len < 8 \<or> diff > - 8 then copy_bytes mem op ip len
      else let (mem, op, ip) = (if int op \<le> int oend - int WILDCOPY_OVERLENGTH \<and> diff < - int WILDCOPY_VECLEN
                 then let n = oend - WILDCOPY_OVERLENGTH - op
                      in (ZSTD_wildcopy mem op ip n ZSTD_no_overlap, op + n, ip + n)
                 else (mem, op, ip))
           in copy_bytes mem op ip (oend - op))"

declare wildcopy_by8.simps [simp del] wildcopy_by32.simps [simp del]

subsection \<open>What a copy leaves behind\<close>

text \<open>Nothing outside \<open>[op, hi)\<close> has changed, and each of the \<open>n\<close> bytes from \<open>op\<close> equals the byte
  at the same distance from \<open>ip\<close> in the memory as it is now. When \<open>ip\<close> lies before \<open>op\<close> this
  determines every byte below \<open>op + n\<close>: the \<open>op - ip\<close> bytes before \<open>op\<close> repeat.\<close>

definition copied :: "bytes \<Rightarrow> bytes \<Rightarrow> nat \<Rightarrow> nat \<Rightarrow> nat \<Rightarrow> nat \<Rightarrow> bool" where
  "copied m m' op ip n hi \<longleftrightarrow> length m' = length m
     \<and> (\<forall>i. i < op \<or> hi \<le> i \<longrightarrow> byte_at m' i = byte_at m i)
     \<and> (\<forall>j < n. byte_at m' (op + j) = byte_at m' (ip + j))"

lemma byte_at_write_at:
  "p + length xs \<le> length buf \<Longrightarrow>
   byte_at (write_at buf p xs) i = (if p \<le> i \<and> i < p + length xs then xs ! (i - p) else byte_at buf i)"
  by (auto simp: byte_at_def nth_write_at)

lemma copied_refl: "copied m m op ip 0 op"
  by (simp add: copied_def)

lemma copied_mono: "copied m m' op ip n hi \<Longrightarrow> n' \<le> n \<Longrightarrow> hi \<le> hi' \<Longrightarrow> copied m m' op ip n' hi'"
  by (simp add: copied_def)

lemma copied_length: "copied m m' op ip n hi \<Longrightarrow> length m' = length m"
  by (simp add: copied_def)

lemma copied_below: "copied m m' op ip n hi \<Longrightarrow> i < op \<Longrightarrow> byte_at m' i = byte_at m i"
  by (simp add: copied_def)

lemma copied_above: "copied m m' op ip n hi \<Longrightarrow> hi \<le> i \<Longrightarrow> byte_at m' i = byte_at m i"
  by (simp add: copied_def)

lemma copied_repeats: "copied m m' op ip n hi \<Longrightarrow> j < n \<Longrightarrow> byte_at m' (op + j) = byte_at m' (ip + j)"
  by (simp add: copied_def)

lemma copiedI:
  assumes "length m' = length m" "\<And>i. i < op \<Longrightarrow> byte_at m' i = byte_at m i"
    "\<And>i. hi \<le> i \<Longrightarrow> byte_at m' i = byte_at m i"
    "\<And>j. j < n \<Longrightarrow> byte_at m' (op + j) = byte_at m' (ip + j)"
  shows "copied m m' op ip n hi"
  using assms by (auto simp: copied_def)

text \<open>Source and destination are far enough apart to move \<open>w\<close> bytes at once: the source is at least
  \<open>w\<close> bytes before the destination, or all \<open>n\<close> source bytes lie outside \<open>[op, hi)\<close>.\<close>

definition far :: "nat \<Rightarrow> nat \<Rightarrow> nat \<Rightarrow> nat \<Rightarrow> nat \<Rightarrow> bool" where
  "far w op ip n hi \<longleftrightarrow> ip + w \<le> op \<or> ip + n \<le> op \<or> hi \<le> ip"

lemma copied_chunk:
  assumes c: "copied m m1 op ip (min k n) (op + k)" and b: "op + k + w \<le> length m"
    and f: "far w op ip n (op + k + w)"
  shows "copied m (write_at m1 (op + k) (rd m1 (ip + k) w)) op ip (min (k + w) n) (op + k + w)"
proof -
  let ?m2 = "write_at m1 (op + k) (rd m1 (ip + k) w)"
  have l: "length m1 = length m" using c by (rule copied_length)
  have at: "byte_at ?m2 i = (if op + k \<le> i \<and> i < op + k + w then byte_at m1 (ip + (i - op)) else byte_at m1 i)" for i
    using b by (simp add: l byte_at_write_at) (auto intro!: arg_cong [where f = "byte_at m1"])
  have "byte_at ?m2 (op + j) = byte_at ?m2 (ip + j)" if j: "j < min (k + w) n" for j
  proof -
    have "\<not> (op + k \<le> ip + j \<and> ip + j < op + k + w)"
      using f j unfolding far_def by (elim disjE) linarith+
    then have s: "byte_at ?m2 (ip + j) = byte_at m1 (ip + j)" unfolding at by (simp only: if_False)
    show ?thesis
    proof (cases "j < k")
      case True
      then show ?thesis using c j s by (simp add: at copied_def)
    next
      case False
      then show ?thesis using j s by (simp add: at)
    qed
  qed
  moreover have "byte_at ?m2 i = byte_at m i" if "i < op \<or> op + k + w \<le> i" for i
    using that c by (auto simp: at copied_def)
  ultimately show ?thesis using l b by (simp add: copied_def)
qed

subsection \<open>Putting copies together\<close>

lemma far_mono: "far w op ip n hi \<Longrightarrow> w' \<le> w \<Longrightarrow> n' \<le> n \<Longrightarrow> hi' \<le> hi \<Longrightarrow> far w' op ip n' hi'"
  by (auto simp: far_def)

lemma copied_seq:
  assumes c1: "copied m m1 op ip k hi1" and c2: "copied m1 m2 (op + k) (ip + k) n hi2"
    and f: "ip \<le> op \<or> hi2 \<le> ip" and hi: "hi1 \<le> hi" "hi2 \<le> hi" "op + k \<le> hi"
  shows "copied m m2 op ip (k + n) hi"
proof (rule copiedI)
  show "length m2 = length m" using copied_length [OF c1] copied_length [OF c2] by simp
next
  fix i assume "i < op"
  then show "byte_at m2 i = byte_at m i" using copied_below [OF c1] copied_below [OF c2] by simp
next
  fix i assume "hi \<le> i"
  then show "byte_at m2 i = byte_at m i" using copied_above [OF c1] copied_above [OF c2] hi by simp
next
  fix j assume j: "j < k + n"
  show "byte_at m2 (op + j) = byte_at m2 (ip + j)"
  proof (cases "j < k")
    case True
    then have "byte_at m2 (op + j) = byte_at m1 (op + j)" "byte_at m2 (ip + j) = byte_at m1 (ip + j)"
      using f copied_below [OF c2] copied_above [OF c2] by auto
    then show ?thesis using copied_repeats [OF c1 True] by simp
  next
    case False
    then show ?thesis using copied_repeats [OF c2, of "j - k"] j by simp
  qed
qed

lemma periodic_steps:
  fixes f :: "nat \<Rightarrow> 'a"
  assumes "\<And>x. op \<le> x \<Longrightarrow> x < e \<Longrightarrow> f x = f (x - d)" "op \<le> y + d"
  shows "y + t * d < e \<Longrightarrow> f (y + t * d) = f y"
proof (induct t)
  case (Suc t)
  then show ?case using assms(1) [of "y + Suc t * d"] assms(2) by (simp add: algebra_simps)
qed simp

text \<open>Once some bytes have been repeated, the copy may go on from an earlier place, a multiple of the
  offset behind.\<close>

lemma copied_widen:
  assumes c1: "copied m m1 op ip k (op + k)" and c2: "copied m1 m2 (op + k) ip' n hi"
    and d: "op = ip + d" "0 < d" and w: "op + k = ip' + c * d" "0 < c" "ip \<le> ip'" and hi: "op + k \<le> hi"
  shows "copied m m2 op ip (k + n) hi"
proof (rule copiedI)
  fix j assume "j < k + n"
  then show "byte_at m2 (op + j) = byte_at m2 (ip + j)"
  proof (induct j rule: less_induct)
    case (less j)
    show ?case
    proof (cases "j < k")
      case True
      then show ?thesis using copied_repeats [OF c1 True] d by (simp add: copied_below [OF c2])
    next
      case False
      then obtain i where i: "j = k + i" by (metis le_Suc_ex not_less)
      then have "byte_at m2 (op + j) = byte_at m2 (ip' + i)"
        using less.prems copied_repeats [OF c2, of i] by (simp add: add.assoc)
      also have "\<dots> = byte_at m2 (ip' + i + (c - 1) * d)"
      proof (rule periodic_steps [symmetric, where op = op and e = "op + j"])
        fix x assume "op \<le> x" "x < op + j"
        then show "byte_at m2 x = byte_at m2 (x - d)"
          using less.hyps [of "x - op"] less.prems d by simp
      next
        show "op \<le> ip' + i + d" using w d by simp
        have "(c - 1) * d < c * d" using w d by simp
        then show "ip' + i + (c - 1) * d < op + j" using w(1) i by linarith
      qed
      also have "ip' + i + (c - 1) * d = ip + j"
        using w(1,2) i d(1) by (cases c) simp_all
      finally show ?thesis .
    qed
  qed
qed (use hi copied_length [OF c1] copied_length [OF c2] in
      \<open>simp_all add: copied_below [OF c1] copied_below [OF c2] copied_above [OF c1] copied_above [OF c2]\<close>)

text \<open>The relation leaves no choice below \<open>op + n\<close>.\<close>

lemma copied_unique:
  assumes "copied m a op ip n hi" "copied m b op ip n hi'" "0 < w" "far w op ip n hi" "far w op ip n hi'"
    "i < op + n"
  shows "byte_at a i = byte_at b i"
  using assms(6)
proof (induct i rule: less_induct)
  case (less i)
  show ?case
  proof (cases "i < op")
    case False
    then obtain j where j: "i = op + j" "j < n" using less.prems by (metis add_less_cancel_left le_Suc_ex not_less)
    have "byte_at a (ip + j) = byte_at b (ip + j)"
    proof (cases "ip < op")
      case True
      then show ?thesis using less.hyps [of "ip + j"] j by simp
    next
      case False
      then have "hi \<le> ip" "hi' \<le> ip" using assms(3-5) j by (auto simp: far_def)
      then show ?thesis by (simp add: copied_above [OF assms(1)] copied_above [OF assms(2)])
    qed
    then show ?thesis using copied_repeats [OF assms(1) j(2)] copied_repeats [OF assms(2) j(2)] j by simp
  qed (simp add: copied_below [OF assms(1)] copied_below [OF assms(2)])
qed

subsection \<open>The other way round\<close>

text \<open>When the destination may run into the source from below, the bytes of the source are
  overwritten behind the copy; what counts is that each byte arrives as it was before.\<close>

definition moved :: "bytes \<Rightarrow> bytes \<Rightarrow> nat \<Rightarrow> nat \<Rightarrow> nat \<Rightarrow> nat \<Rightarrow> bool" where
  "moved m m' op ip n hi \<longleftrightarrow> length m' = length m
     \<and> (\<forall>i. i < op \<or> hi \<le> i \<longrightarrow> byte_at m' i = byte_at m i)
     \<and> (\<forall>j < n. byte_at m' (op + j) = byte_at m (ip + j))"

definition ahead :: "nat \<Rightarrow> nat \<Rightarrow> nat \<Rightarrow> nat \<Rightarrow> nat \<Rightarrow> bool" where
  "ahead w op ip n hi \<longleftrightarrow> op \<le> ip \<or> ip + n \<le> op"

lemma moved_at: "moved m m' op ip n hi \<Longrightarrow> j < n \<Longrightarrow> byte_at m' (op + j) = byte_at m (ip + j)"
  by (simp add: moved_def)

lemma moved_chunk:
  assumes c: "moved m m1 op ip (min k n) (op + k)" and b: "k + w \<le> h" "op + h \<le> length m"
    and f: "ahead w op ip n (op + h)"
  shows "moved m (write_at m1 (op + k) (rd m1 (ip + k) w)) op ip (min (k + w) n) (op + (k + w))"
proof -
  let ?m2 = "write_at m1 (op + k) (rd m1 (ip + k) w)"
  have l: "length m1 = length m" using c by (simp add: moved_def)
  have at: "byte_at ?m2 i = (if op + k \<le> i \<and> i < op + k + w then byte_at m1 (ip + (i - op)) else byte_at m1 i)" for i
    using b by (simp add: l byte_at_write_at) (auto intro!: arg_cong [where f = "byte_at m1"])
  have "byte_at ?m2 (op + j) = byte_at m (ip + j)" if j: "j < min (k + w) n" for j
  proof (cases "j < k")
    case True
    then show ?thesis using c j by (simp add: at moved_def)
  next
    case False
    then have "ip + j < op \<or> op + k \<le> ip + j" using f j by (auto simp: ahead_def)
    then have "byte_at m1 (ip + j) = byte_at m (ip + j)" using c by (auto simp: moved_def)
    then show ?thesis using False j by (simp add: at)
  qed
  moreover have "byte_at ?m2 i = byte_at m i" if "i < op \<or> op + k + w \<le> i" for i
    using that c by (auto simp: at moved_def)
  ultimately show ?thesis using l b by (simp add: moved_def add.assoc)
qed

subsection \<open>The routines copy\<close>

text \<open>\<open>ZSTD_wildcopy\<close>, asked for the bytes from \<open>k\<close> to \<open>n\<close>, stops at this place, at most 32 bytes late.\<close>

definition spill :: "nat \<Rightarrow> nat \<Rightarrow> nat" where
  "spill k n = (if n \<le> k + 16 then k + 16 else max (k + 48) (n + 31))"

lemma spill_le: "k \<le> n \<Longrightarrow> spill k n \<le> n + 32"
  by (simp add: spill_def)

text \<open>Both relations are built up chunk by chunk in the same way. The locale says what a relation
  must satisfy for that; the loops are treated once, for any such relation.\<close>

locale chunked =
  fixes R :: "bytes \<Rightarrow> bytes \<Rightarrow> nat \<Rightarrow> nat \<Rightarrow> nat \<Rightarrow> nat \<Rightarrow> bool"
    and ok :: "nat \<Rightarrow> nat \<Rightarrow> nat \<Rightarrow> nat \<Rightarrow> nat \<Rightarrow> bool"
  assumes start: "R m m op ip 0 op"
    and mono: "R m m' op ip n hi \<Longrightarrow> n' \<le> n \<Longrightarrow> hi \<le> hi' \<Longrightarrow> R m m' op ip n' hi'"
    and len: "R m m' op ip n hi \<Longrightarrow> length m' = length m"
    and ok_mono: "ok w op ip n hi \<Longrightarrow> w' \<le> w \<Longrightarrow> n' \<le> n \<Longrightarrow> hi' \<le> hi \<Longrightarrow> ok w' op ip n' hi'"
    and chunk: "R m m1 op ip (min k n) (op + k) \<Longrightarrow> k + w \<le> h \<Longrightarrow> op + h \<le> length m \<Longrightarrow>
      ok w op ip n (op + h) \<Longrightarrow>
      R m (write_at m1 (op + k) (rd m1 (ip + k) w)) op ip (min (k + w) n) (op + (k + w))"
begin

lemma copy_bytes_from:
  "R m m1 op ip k (op + k) \<Longrightarrow> op + k + r \<le> length m \<Longrightarrow> ok 1 op ip (k + r) (op + k + r) \<Longrightarrow>
   R m (copy_bytes m1 (op + k) (ip + k) r) op ip (k + r) (op + k + r)"
proof (induct r arbitrary: m1 k)
  case (Suc r)
  have "m1[op + k := byte_at m1 (ip + k)] = write_at m1 (op + k) (rd m1 (ip + k) 1)"
    using Suc.prems len [OF Suc.prems(1)] by (simp add: rd_Suc list_update_write_at)
  moreover have "R m (write_at m1 (op + k) (rd m1 (ip + k) 1)) op ip (min (k + 1) (k + Suc r)) (op + (k + 1))"
    by (rule chunk [of _ _ _ _ _ _ _ "k + Suc r"]) (use Suc.prems in \<open>simp_all add: add.assoc\<close>)
  ultimately show ?case using Suc.hyps [of _ "Suc k"] Suc.prems by simp
qed simp

lemma copy_bytes:
  "op + n \<le> length m \<Longrightarrow> ok 1 op ip n (op + n) \<Longrightarrow> R m (copy_bytes m op ip n) op ip n (op + n)"
  using copy_bytes_from [of m m op ip 0 n] start by simp

lemma wildcopy_by8_from:
  "R m m1 op ip (min k n) (op + k) \<Longrightarrow> op + max (k + 8) (n + 7) \<le> length m \<Longrightarrow>
   ok 8 op ip n (op + max (k + 8) (n + 7)) \<Longrightarrow>
   R m (wildcopy_by8 m1 (op + k) (ip + k) (op + n)) op ip n (op + max (k + 8) (n + 7))"
proof (induct "n - k" arbitrary: m1 k rule: less_induct)
  case less
  let ?m2 = "ZSTD_copy8 m1 (op + k) (ip + k)"
  have c: "R m ?m2 op ip (min (k + 8) n) (op + (k + 8))"
    unfolding ZSTD_copy8_def by (rule chunk [OF less.prems(1) _ less.prems(2,3)]) simp
  show ?case
  proof (cases "k + 8 < n")
    case True
    then have "R m (wildcopy_by8 ?m2 (op + (k + 8)) (ip + (k + 8)) (op + n)) op ip n (op + max (k + 8 + 8) (n + 7))"
      using less.prems c by (intro less.hyps) (auto elim: ok_mono)
    then show ?thesis using True by (subst wildcopy_by8.simps) (auto simp: Let_def ac_simps elim: mono)
  next
    case False
    then show ?thesis using c by (subst wildcopy_by8.simps) (auto simp: Let_def elim!: mono)
  qed
qed

lemma wildcopy_by32_from:
  "R m m1 op ip (min k n) (op + k) \<Longrightarrow> op + max (k + 32) (n + 31) \<le> length m \<Longrightarrow>
   ok 16 op ip n (op + max (k + 32) (n + 31)) \<Longrightarrow>
   R m (wildcopy_by32 m1 (op + k) (ip + k) (op + n)) op ip n (op + max (k + 32) (n + 31))"
proof (induct "n - k" arbitrary: m1 k rule: less_induct)
  case less
  let ?m1 = "ZSTD_copy16 m1 (op + k) (ip + k)"
  let ?m2 = "ZSTD_copy16 ?m1 (op + (k + 16)) (ip + (k + 16))"
  have "R m ?m1 op ip (min (k + 16) n) (op + (k + 16))"
    unfolding ZSTD_copy16_def by (rule chunk [OF less.prems(1) _ less.prems(2,3)]) simp
  then have c: "R m ?m2 op ip (min (k + 32) n) (op + (k + 32))"
    using chunk [OF _ _ less.prems(2,3), of ?m1 "k + 16"] by (simp add: ZSTD_copy16_def add.assoc)
  show ?case
  proof (cases "k + 32 < n")
    case True
    then have "R m (wildcopy_by32 ?m2 (op + (k + 32)) (ip + (k + 32)) (op + n)) op ip n (op + max (k + 32 + 32) (n + 31))"
      using less.prems c by (intro less.hyps) (auto elim: ok_mono)
    then show ?thesis using True by (subst wildcopy_by32.simps) (auto simp: Let_def ac_simps elim: mono)
  next
    case False
    then show ?thesis using c by (subst wildcopy_by32.simps) (auto simp: Let_def ac_simps elim!: mono)
  qed
qed

lemma wildcopy_from:
  assumes c: "R m m1 op ip (min k n) (op + k)" and b: "op + spill k n \<le> length m"
    and f: "ok 16 op ip n (op + spill k n)"
  shows "R m (ZSTD_wildcopy m1 (op + k) (ip + k) (n - k) ZSTD_no_overlap) op ip n (op + spill k n)"
proof -
  let ?m1 = "ZSTD_copy16 m1 (op + k) (ip + k)"
  have c1: "R m ?m1 op ip (min (k + 16) n) (op + (k + 16))"
    unfolding ZSTD_copy16_def by (rule chunk [OF c _ b f]) (simp add: spill_def)
  show ?thesis
  proof (cases "n \<le> k + 16")
    case True
    then have "n - k \<le> 16" by simp
    then show ?thesis using c1 True by (simp add: ZSTD_wildcopy_def spill_def Let_def)
  next
    case False
    then have "max (k + 48) (n + 31) = spill k n" "\<not> n - k \<le> 16" "op + k + (n - k) = op + n"
      by (auto simp: spill_def)
    then show ?thesis
      using wildcopy_by32_from [OF c1] b f by (simp add: ZSTD_wildcopy_def Let_def add.assoc)
  qed
qed

lemma wildcopy_within:
  assumes c: "R m m1 op ip (min k n) (op + k)" and k: "k \<le> n" and b: "op + n + 32 \<le> length m"
    and f: "ok 16 op ip n (op + n + 32)"
  shows "R m (ZSTD_wildcopy m1 (op + k) (ip + k) (n - k) ZSTD_no_overlap) op ip n (op + n + 32)"
proof -
  have s: "op + spill k n \<le> op + n + 32" using spill_le [OF k] by simp
  have "R m (ZSTD_wildcopy m1 (op + k) (ip + k) (n - k) ZSTD_no_overlap) op ip n (op + spill k n)"
    using s b by (intro wildcopy_from [OF c] ok_mono [OF f]) simp_all
  then show ?thesis by (rule mono [OF _ order_refl s])
qed

end

interpretation cp: chunked copied far
proof unfold_locales
  fix m m1 op ip k n w h
  assume "copied m m1 op ip (min k n) (op + k)" "k + w \<le> h" "op + h \<le> length m" "far w op ip n (op + h)"
  then show "copied m (write_at m1 (op + k) (rd m1 (ip + k) w)) op ip (min (k + w) n) (op + (k + w))"
    using copied_chunk [of m m1 op ip k n w] far_mono [of w op ip n "op + h" w n "op + k + w"]
    by (simp add: add.assoc)
qed (auto intro: copied_refl copied_mono copied_length far_mono)

interpretation mv: chunked moved ahead
proof unfold_locales
  fix m m1 op ip k n w h
  assume "moved m m1 op ip (min k n) (op + k)" "k + w \<le> h" "op + h \<le> length m" "ahead w op ip n (op + h)"
  then show "moved m (write_at m1 (op + k) (rd m1 (ip + k) w)) op ip (min (k + w) n) (op + (k + w))"
    by (rule moved_chunk)
qed (auto simp: moved_def ahead_def)

lemma wildcopy_copied:
  assumes "op + n + 32 \<le> length m" "far 16 op ip n (op + n + 32)"
  shows "copied m (ZSTD_wildcopy m op ip n ZSTD_no_overlap) op ip n (op + n + 32)"
  using cp.wildcopy_within [of m m op ip 0 n] assms copied_refl [of m op ip] by simp

lemma wildcopy_overlap:
  assumes "ip + 8 \<le> op" "op + n + 32 \<le> length m"
  shows "copied m (ZSTD_wildcopy m op ip n ZSTD_overlap_src_before_dst) op ip n (op + n + 32)"
proof (cases "int op - int ip < int WILDCOPY_VECLEN")
  case True
  have "copied m (wildcopy_by8 m op ip (op + n)) op ip n (op + max 8 (n + 7))"
    using cp.wildcopy_by8_from [of m m op ip 0 n] assms copied_refl [of m op ip] by (simp add: far_def)
  then show ?thesis using True by (auto simp: ZSTD_wildcopy_def Let_def elim: copied_mono)
next
  case False
  then have "ZSTD_wildcopy m op ip n ZSTD_overlap_src_before_dst = ZSTD_wildcopy m op ip n ZSTD_no_overlap"
    by (simp add: ZSTD_wildcopy_def)
  then show ?thesis using wildcopy_copied [of op n m ip] assms False
    by (simp add: far_def WILDCOPY_VECLEN_def)
qed

subsection \<open>Widening a short offset\<close>

lemma dec_tables:
  assumes "0 < d" "d < 8"
  shows "\<exists>c > 0. d + 4 = dec32table ! d + c * d" "dec32table ! d \<le> d"
    "\<exists>c > 0. d + dec64table ! d = dec32table ! d + c * d" "dec64table ! d \<le> dec32table ! d + 8"
    "8 + dec32table ! d \<le> d + dec64table ! d"
proof -
  have "d \<in> {1, 2, 3, 4, 5, 6, 7}" using assms by auto
  then show "dec32table ! d \<le> d" "dec64table ! d \<le> dec32table ! d + 8" "8 + dec32table ! d \<le> d + dec64table ! d"
    by (auto simp: dec32table_def dec64table_def)
  have "d + 4 = dec32table ! d + [1, 4, 2, 2, 1, 1, 1, 1] ! d * d"
    "d + dec64table ! d = dec32table ! d + [1, 8, 4, 3, 2, 2, 2, 2] ! d * d"
    "[1, 4, 2, 2, 1, 1, 1, 1] ! d > (0::nat)" "[1, 8, 4, 3, 2, 2, 2, 2] ! d > (0::nat)"
    using \<open>d \<in> _\<close> by (auto simp: dec32table_def dec64table_def)
  then show "\<exists>c > 0. d + 4 = dec32table ! d + c * d" "\<exists>c > 0. d + dec64table ! d = dec32table ! d + c * d"
    by blast+
qed

lemma overlapCopy8_short:
  assumes d: "op = ip + d" "0 < d" "d < 8" and b: "op + 8 \<le> length m"
  shows "\<exists>m' ip' c. ZSTD_overlapCopy8 m op ip d = (m', op + 8, ip') \<and> copied m m' op ip 8 (op + 8)
    \<and> op + 8 = ip' + c * d \<and> 0 < c \<and> ip \<le> ip' \<and> ip' + 8 \<le> op + 8"
proof -
  let ?m4 = "copy_bytes m op ip 4"
  let ?ip = "ip + dec32table ! d"
  have 4: "copied m ?m4 op ip 4 (op + 4)" using cp.copy_bytes [of op 4 m ip] d b by (simp add: far_def)
  obtain c where c: "0 < c" "d + 4 = dec32table ! d + c * d" using dec_tables(1) d by blast
  have "copied ?m4 (ZSTD_copy4 ?m4 (op + 4) ?ip) (op + 4) ?ip 4 (op + 8)"
    using cp.chunk [of ?m4 ?m4 "op + 4" ?ip 0 4 4 4] copied_refl [of ?m4 "op + 4" ?ip] copied_length [OF 4]
      dec_tables(2) [of d] d b
    by (simp add: ZSTD_copy4_def far_def add.commute [of 8])
  then have 8: "copied m (ZSTD_copy4 ?m4 (op + 4) ?ip) op ip (4 + 4) (op + 8)"
    by (intro copied_widen [OF 4 _ d(1,2), of _ ?ip _ _ c]) (use c d in simp_all)
  obtain c' where "0 < c'" "d + dec64table ! d = dec32table ! d + c' * d" using dec_tables(3) d by blast
  moreover have "ZSTD_overlapCopy8 m op ip d = (ZSTD_copy4 ?m4 (op + 4) ?ip, op + 8, ?ip + 8 - dec64table ! d)"
    using d by (simp add: ZSTD_overlapCopy8_def Let_def eval_nat_numeral ac_simps)
  ultimately show ?thesis using 8 dec_tables(4,5) [of d] d by (intro exI conjI) auto
qed

lemma overlapCopy8:
  assumes d: "op = ip + d" "0 < d" and b: "op + 8 \<le> length m"
  shows "\<exists>m' ip' c. ZSTD_overlapCopy8 m op ip d = (m', op + 8, ip') \<and> copied m m' op ip 8 (op + 8)
    \<and> op + 8 = ip' + c * d \<and> 0 < c \<and> ip \<le> ip' \<and> ip' + 8 \<le> op + 8"
proof (cases "d < 8")
  case False
  then have "copied m (ZSTD_copy8 m op ip) op ip 8 (op + 8)"
    using cp.chunk [of m m op ip 0 8 8 8] copied_refl [of m op ip] d b by (simp add: ZSTD_copy8_def far_def)
  then show ?thesis using False d by (intro exI [of _ "ZSTD_copy8 m op ip"] exI [of _ "ip + 8"] exI [of _ 1])
      (simp add: ZSTD_overlapCopy8_def)
qed (use overlapCopy8_short [OF d(1,2) _ b] in blast)

text \<open>Eight bytes with the offset widened, then a wild copy of the rest: the end of a match.\<close>

lemma overlapCopy8_then:
  assumes d: "op = ip + d" "0 < d" and b: "op + 8 \<le> length m" and e: "op + 8 \<le> hi"
    and rest: "\<And>m' ip'. length m' = length m \<Longrightarrow> ip' + 8 \<le> op + 8 \<Longrightarrow> copied m' (f m' (op + 8) ip') (op + 8) ip' n hi"
  shows "copied m (case ZSTD_overlapCopy8 m op ip d of (m', op', ip') \<Rightarrow> f m' op' ip') op ip (8 + n) hi"
proof -
  obtain m' ip' c where o: "ZSTD_overlapCopy8 m op ip d = (m', op + 8, ip')" and 8: "copied m m' op ip 8 (op + 8)"
    and c: "op + 8 = ip' + c * d" "0 < c" "ip \<le> ip'" and g: "ip' + 8 \<le> op + 8"
    using overlapCopy8 [OF d b] by blast
  show ?thesis
    using copied_widen [OF 8 rest [OF copied_length [OF 8] g] d c e] by (simp add: o)
qed

subsection \<open>The careful copies\<close>

lemma safecopy_rest_copied:
  assumes W: "\<And>n. n \<le> len \<Longrightarrow> op + n + 32 \<le> E \<Longrightarrow>
      copied m (ZSTD_wildcopy m op ip n ovtype) op ip n (op + n + 32)"
    and f: "far 1 op ip len E" and b: "op + len \<le> E" "E \<le> length m" and w: "oend_w + 32 \<le> int E"
  shows "copied m (safecopy_rest m op oend_w ip len ovtype) op ip len E"
proof -
  consider (in_time) "int (op + len) \<le> oend_w" | (late) "int (op + len) > oend_w" "int op \<le> oend_w"
    | (end_) "int op > oend_w"
    by linarith
  then show ?thesis
  proof cases
    case in_time
    then have "copied m (ZSTD_wildcopy m op ip len ovtype) op ip len E"
      using W [of len] w by (auto elim!: copied_mono)
    then show ?thesis using in_time by (simp add: safecopy_rest_def)
  next
    case late
    define n where "n = nat (oend_w - int op)"
    have n: "op + n + 32 \<le> E" "n \<le> len" using late w by (auto simp: n_def)
    let ?m1 = "ZSTD_wildcopy m op ip n ovtype"
    have c1: "copied m ?m1 op ip n (op + n + 32)" using W [of n] n by simp
    have "copied ?m1 (copy_bytes ?m1 (op + n) (ip + n) (len - n)) (op + n) (ip + n) (len - n) (op + n + (len - n))"
      using cp.copy_bytes [of "op + n" "len - n" ?m1 "ip + n"] f b n copied_length [OF c1] by (auto simp: far_def)
    then have "copied m (copy_bytes ?m1 (op + n) (ip + n) (len - n)) op ip (n + (len - n)) E"
      by (rule copied_seq [OF c1]) (use f b n in \<open>auto simp: far_def\<close>)
    then show ?thesis using late n by (simp add: safecopy_rest_def Let_def n_def [symmetric])
  next
    case end_
    then have "copied m (copy_bytes m op ip len) op ip len (op + len)"
      using cp.copy_bytes [of op len m ip] f b by (auto simp: far_def)
    then show ?thesis using end_ b by (auto simp: safecopy_rest_def elim: copied_mono)
  qed
qed

lemma safecopy_no_overlap:
  assumes "far 16 op ip len E" "op + len \<le> E" "E \<le> length m" "oend_w + 32 \<le> int E"
  shows "copied m (ZSTD_safecopy m op oend_w ip len ZSTD_no_overlap) op ip len E"
proof (cases "len < 8")
  case True
  then show ?thesis
    using cp.copy_bytes [of op len m ip] assms far_mono [OF assms(1), of 1 len "op + len"]
    by (auto simp: ZSTD_safecopy_def elim: copied_mono)
next
  case False
  have "copied m (safecopy_rest m op oend_w ip len ZSTD_no_overlap) op ip len E"
    using assms by (intro safecopy_rest_copied wildcopy_copied) (auto elim: far_mono)
  then show ?thesis using False by (simp add: ZSTD_safecopy_def)
qed

lemma safecopy_overlap:
  assumes "ip < op" "op + len \<le> E" "E \<le> length m" "oend_w + 32 \<le> int E"
  shows "copied m (ZSTD_safecopy m op oend_w ip len ZSTD_overlap_src_before_dst) op ip len E"
proof (cases "len < 8")
  case True
  then show ?thesis
    using cp.copy_bytes [of op len m ip] assms
    by (auto simp: ZSTD_safecopy_def far_def elim: copied_mono)
next
  case False
  have "copied m (case ZSTD_overlapCopy8 m op ip (op - ip) of (m', op', ip') \<Rightarrow>
      safecopy_rest m' op' oend_w ip' (len - 8) ZSTD_overlap_src_before_dst) op ip (8 + (len - 8)) E"
    using assms False
    by (intro overlapCopy8_then safecopy_rest_copied wildcopy_overlap) (auto simp: far_def)
  then show ?thesis using False by (simp add: ZSTD_safecopy_def)
qed

lemma moved_seq:
  assumes "moved m m1 op ip k hi1" "moved m1 m2 (op + k) (ip + k) n hi2" "hi1 \<le> ip + k" "hi1 \<le> hi" "hi2 \<le> hi"
    "op + k \<le> hi"
  shows "moved m m2 op ip (k + n) hi"
proof -
  have "byte_at m2 (op + j) = byte_at m (ip + j)" if j: "j < k + n" for j
  proof (cases "j < k")
    case False
    then have "byte_at m2 (op + j) = byte_at m1 (ip + j)"
      using assms(2) j unfolding moved_def by (metis add.assoc add_less_cancel_left le_add_diff_inverse not_less)
    also have "\<dots> = byte_at m (ip + j)" using assms(1,3) False by (auto simp: moved_def)
    finally show ?thesis .
  qed (use assms in \<open>simp add: moved_def\<close>)
  then show ?thesis using assms by (auto simp: moved_def)
qed

lemma safecopyDstBeforeSrc_moved:
  assumes b: "op + len \<le> length m" and a: "op \<le> ip \<or> ip + len \<le> op"
    and g: "ip \<le> op + 16 \<or> op + 31 \<le> ip \<or> len \<le> 48"
  shows "moved m (ZSTD_safecopyDstBeforeSrc m op ip len) op ip len (op + len)"
proof (cases "8 \<le> len \<and> op + 16 < ip \<and> 32 \<le> len")
  case True
  define n where "n = len - 32"
  let ?m1 = "ZSTD_wildcopy m op ip n ZSTD_no_overlap"
  have n: "len = n + 32" using True by (simp add: n_def)
  have s: "op + spill 0 n \<le> op + len" using spill_le [of 0 n] n by simp
  have c1: "moved m ?m1 op ip n (op + spill 0 n)"
    using mv.wildcopy_from [of m m op ip 0 n] mv.start [of m op ip] s b True by (simp add: ahead_def)
  have "moved ?m1 (copy_bytes ?m1 (op + n) (ip + n) 32) (op + n) (ip + n) 32 (op + n + 32)"
    using mv.copy_bytes [of "op + n" 32 ?m1 "ip + n"] mv.len [OF c1] b n True by (simp add: ahead_def)
  then have "moved m (copy_bytes ?m1 (op + n) (ip + n) 32) op ip (n + 32) (op + len)"
    by (rule moved_seq [OF c1]) (use g n s True in \<open>auto simp: spill_def\<close>)
  then show ?thesis
    using True n by (simp add: ZSTD_safecopyDstBeforeSrc_def Let_def WILDCOPY_OVERLENGTH_def WILDCOPY_VECLEN_def)
next
  case False
  then have "ZSTD_safecopyDstBeforeSrc m op ip len = copy_bytes m op ip len"
    by (auto simp: ZSTD_safecopyDstBeforeSrc_def Let_def WILDCOPY_OVERLENGTH_def WILDCOPY_VECLEN_def)
  then show ?thesis using mv.copy_bytes [of op len m ip] a b by (simp add: ahead_def)
qed

subsection \<open>Properties\<close>

lemma take_byteI:
  assumes "length a = length b" "\<And>i. i < n \<Longrightarrow> byte_at a i = byte_at b i"
  shows "take n a = take n b"
proof (rule nth_equalityI)
  fix i assume "i < length (take n a)"
  then show "take n a ! i = take n b ! i" using assms(1) assms(2) [of i] by (simp add: byte_at_def)
qed (simp add: assms(1))

lemma drop_byteI:
  assumes "length a = length b" "\<And>i. n \<le> i \<Longrightarrow> byte_at a i = byte_at b i"
  shows "drop n a = drop n b"
proof (rule nth_equalityI)
  fix i assume "i < length (drop n a)"
  then have "n + i < length a" by simp
  then show "drop n a ! i = drop n b ! i" using assms(1) assms(2) [of "n + i"] by (simp add: byte_at_def)
qed (simp add: assms(1))

lemma copied_exact:
  assumes "copied m m' op ip len E" "far 1 op ip len E" "op + len \<le> E" "E \<le> length m"
  shows "take (op + len) m' = take (op + len) (copy_bytes m op ip len) \<and> drop E m' = drop E m"
proof -
  have f: "far 1 op ip len (op + len)" using assms(2,3) by (auto simp: far_def)
  have r: "copied m (copy_bytes m op ip len) op ip len (op + len)" using cp.copy_bytes f assms by simp
  show ?thesis
    using copied_unique [OF assms(1) r zero_less_one assms(2) f] copied_length [OF r] copied_length [OF assms(1)]
      copied_above [OF assms(1)]
    by (intro conjI take_byteI drop_byteI) auto
qed

text \<open>
  A match copied with \<open>ZSTD_safecopy\<close> is the match copied one byte after the other, at every
  distance between source and destination, however short, and however close the end of the output
  is. The routine moves 8, 16 or 32 bytes at a time, but what it leaves below the end of the match
  is what the simple loop leaves there, and it changes nothing from the end \<open>E\<close> of the output on
  when \<open>oend_w\<close> is at least 32 bytes before \<open>E\<close>.
\<close>

lemma safecopy_exact:
  assumes "ip < op" "op + len \<le> E" "E \<le> length m" "oend_w + int WILDCOPY_OVERLENGTH \<le> int E"
  shows "take (op + len) (ZSTD_safecopy m op oend_w ip len ZSTD_overlap_src_before_dst)
      = take (op + len) (copy_bytes m op ip len)
    \<and> drop E (ZSTD_safecopy m op oend_w ip len ZSTD_overlap_src_before_dst) = drop E m"
  using copied_exact [OF safecopy_overlap [OF assms(1-3)]] assms by (simp add: far_def WILDCOPY_OVERLENGTH_def)

lemma wildcopy_17:
  assumes "op < ip" "op + 48 \<le> length m"
  shows "moved m (ZSTD_wildcopy m op ip 17 ZSTD_no_overlap) op ip 48 (op + 48)"
proof -
  let ?c = "\<lambda>m k. ZSTD_copy16 m (op + k) (ip + k)"
  have a: "ahead 16 op ip 48 (op + 48)" using assms by (simp add: ahead_def)
  have "moved m (?c m 0) op ip 16 (op + 16)"
    using mv.chunk [of m m op ip 0 48 16 48] mv.start [of m op ip] a assms by (simp add: ZSTD_copy16_def)
  then have "moved m (?c (?c m 0) 16) op ip 32 (op + 32)"
    using mv.chunk [of m "?c m 0" op ip 16 48 16 48] a assms by (simp add: ZSTD_copy16_def)
  then have "moved m (?c (?c (?c m 0) 16) 32) op ip 48 (op + 48)"
    using mv.chunk [of m "?c (?c m 0) 16" op ip 32 48 16 48] a assms by (simp add: ZSTD_copy16_def)
  then show ?thesis
    by (simp add: ZSTD_wildcopy_def Let_def wildcopy_by32.simps [of _ "op + 16"] add.assoc)
qed



end
