(* ===== verification/Zstd_Exec.thy ===== *)
theory Zstd_Exec
  imports Zstd_Copy Zstd_Errors
begin

text \<open>
  Executing one decoded sequence (\<open>zstd_decompress_block.c\<close>): copy the literals to the output, then
  copy the match from the history, which is the output so far and before it, possibly elsewhere in
  memory, the dictionary. There are four versions in the code, the fast one and the one near the
  end of the output, each for literals in a buffer of their own and for literals that lie in the
  output buffer itself.
\<close>

subsection \<open>The operations\<close>

record seq_t =
  seq_litLength :: nat
  seq_matchLength :: nat
  seq_offset :: nat

text \<open>Where the match starts. A match that begins before the prefix is taken from the dictionary,
  completely (\<open>Match_done\<close>), or its first part only; the rest then comes from the start of
  the prefix (\<open>Match_from\<close> the memory, the output position, the source and the length left).\<close>

datatype match_state = Match_done bytes | Match_from bytes nat nat nat

definition match_start :: "bytes \<Rightarrow> nat \<Rightarrow> nat \<Rightarrow> nat \<Rightarrow> nat \<Rightarrow> int \<Rightarrow> nat \<Rightarrow> match_state res" where
  "match_start mem oLitEnd offset matchLength prefixStart virtualStart dictEnd =
     (if offset > oLitEnd - prefixStart
      then if int offset > int oLitEnd - virtualStart then Inl ZSTD_error_corruption_detected
           else let match = nat (int dictEnd - (int prefixStart - (int oLitEnd - int offset)))
                in if match + matchLength \<le> dictEnd
                   then Inr (Match_done (ZSTD_memmove mem oLitEnd match matchLength))
                   else let length1 = dictEnd - match
                        in Inr (Match_from (ZSTD_memmove mem oLitEnd match length1) (oLitEnd + length1)
                                 prefixStart (matchLength - length1))
      else Inr (Match_from mem oLitEnd (oLitEnd - offset) matchLength))"

text \<open>The rest of the match, near the end of the output and away from it.\<close>

definition match_end :: "int \<Rightarrow> match_state \<Rightarrow> bytes" where
  "match_end oend_w st = (case st of Match_done mem \<Rightarrow> mem
     | Match_from mem op match matchLength \<Rightarrow>
         ZSTD_safecopy mem op oend_w match matchLength ZSTD_overlap_src_before_dst)"

definition match_fast :: "nat \<Rightarrow> match_state \<Rightarrow> bytes" where
  "match_fast offset st = (case st of Match_done mem \<Rightarrow> mem
     | Match_from mem op match matchLength \<Rightarrow>
         if offset \<ge> WILDCOPY_VECLEN then ZSTD_wildcopy mem op match matchLength ZSTD_no_overlap
         else (case ZSTD_overlapCopy8 mem op match offset of (mem, op, match) \<Rightarrow>
                 if matchLength > 8
                 then ZSTD_wildcopy mem op match (matchLength - 8) ZSTD_overlap_src_before_dst
                 else mem))"

definition literals_fast :: "bytes \<Rightarrow> nat \<Rightarrow> nat \<Rightarrow> nat \<Rightarrow> bytes" where
  "literals_fast mem op litPtr litLength =
     (let mem = ZSTD_copy16 mem op litPtr
      in if litLength > 16
         then ZSTD_wildcopy mem (op + 16) (litPtr + 16) (litLength - 16) ZSTD_no_overlap else mem)"

text \<open>Each version returns the memory, the number of bytes written and the next literal. The memory
  after an error is of no use to the caller, which gives up the block.\<close>

definition ZSTD_execSequenceEnd ::
  "bytes \<Rightarrow> nat \<Rightarrow> nat \<Rightarrow> seq_t \<Rightarrow> nat \<Rightarrow> nat \<Rightarrow> nat \<Rightarrow> int \<Rightarrow> nat \<Rightarrow> (bytes \<times> nat \<times> nat) res" where
  "ZSTD_execSequenceEnd mem op oend sequence litPtr litLimit prefixStart virtualStart dictEnd =
     (let litLength = seq_litLength sequence; matchLength = seq_matchLength sequence;
          oLitEnd = op + litLength; sequenceLength = litLength + matchLength;
          iLitEnd = litPtr + litLength; oend_w = int oend - int WILDCOPY_OVERLENGTH in
      if sequenceLength > oend - op then Inl ZSTD_error_dstSize_tooSmall
      else if litLength > litLimit - litPtr then Inl ZSTD_error_corruption_detected
      else let mem = ZSTD_safecopy mem op oend_w litPtr litLength ZSTD_no_overlap
           in bind_res (match_start mem oLitEnd (seq_offset sequence) matchLength prefixStart virtualStart dictEnd)
                (\<lambda>st. Inr (match_end oend_w st, sequenceLength, iLitEnd)))"

definition ZSTD_execSequenceEndSplitLitBuffer ::
  "bytes \<Rightarrow> nat \<Rightarrow> nat \<Rightarrow> int \<Rightarrow> seq_t \<Rightarrow> nat \<Rightarrow> nat \<Rightarrow> nat \<Rightarrow> int \<Rightarrow> nat \<Rightarrow> (bytes \<times> nat \<times> nat) res" where
  "ZSTD_execSequenceEndSplitLitBuffer mem op oend oend_w sequence litPtr litLimit prefixStart virtualStart dictEnd =
     (let litLength = seq_litLength sequence; matchLength = seq_matchLength sequence;
          oLitEnd = op + litLength; sequenceLength = litLength + matchLength;
          iLitEnd = litPtr + litLength in
      if sequenceLength > oend - op then Inl ZSTD_error_dstSize_tooSmall
      else if litLength > litLimit - litPtr then Inl ZSTD_error_corruption_detected
      else if op > litPtr \<and> op < litPtr + litLength then Inl ZSTD_error_dstSize_tooSmall
      else let mem = ZSTD_safecopyDstBeforeSrc mem op litPtr litLength
           in bind_res (match_start mem oLitEnd (seq_offset sequence) matchLength prefixStart virtualStart dictEnd)
                (\<lambda>st. Inr (match_end oend_w st, sequenceLength, iLitEnd)))"

definition ZSTD_execSequence ::
  "bytes \<Rightarrow> nat \<Rightarrow> nat \<Rightarrow> seq_t \<Rightarrow> nat \<Rightarrow> nat \<Rightarrow> nat \<Rightarrow> int \<Rightarrow> nat \<Rightarrow> (bytes \<times> nat \<times> nat) res" where
  "ZSTD_execSequence mem op oend sequence litPtr litLimit prefixStart virtualStart dictEnd =
     (let litLength = seq_litLength sequence; matchLength = seq_matchLength sequence;
          oLitEnd = op + litLength; sequenceLength = litLength + matchLength;
          oMatchEnd = op + sequenceLength; oend_w = int oend - int WILDCOPY_OVERLENGTH;
          iLitEnd = litPtr + litLength in
      if iLitEnd > litLimit \<or> int oMatchEnd > oend_w
      then ZSTD_execSequenceEnd mem op oend sequence litPtr litLimit prefixStart virtualStart dictEnd
      else let mem = literals_fast mem op litPtr litLength
           in bind_res (match_start mem oLitEnd (seq_offset sequence) matchLength prefixStart virtualStart dictEnd)
                (\<lambda>st. Inr (match_fast (seq_offset sequence) st, sequenceLength, iLitEnd)))"

definition ZSTD_execSequenceSplitLitBuffer ::
  "bytes \<Rightarrow> nat \<Rightarrow> nat \<Rightarrow> int \<Rightarrow> seq_t \<Rightarrow> nat \<Rightarrow> nat \<Rightarrow> nat \<Rightarrow> int \<Rightarrow> nat \<Rightarrow> (bytes \<times> nat \<times> nat) res" where
  "ZSTD_execSequenceSplitLitBuffer mem op oend oend_w sequence litPtr litLimit prefixStart virtualStart dictEnd =
     (let litLength = seq_litLength sequence; matchLength = seq_matchLength sequence;
          oLitEnd = op + litLength; sequenceLength = litLength + matchLength;
          oMatchEnd = op + sequenceLength; iLitEnd = litPtr + litLength in
      if iLitEnd > litLimit \<or> int oMatchEnd > oend_w
      then ZSTD_execSequenceEndSplitLitBuffer mem op oend oend_w sequence litPtr litLimit prefixStart virtualStart dictEnd
      else let mem = literals_fast mem op litPtr litLength
           in bind_res (match_start mem oLitEnd (seq_offset sequence) matchLength prefixStart virtualStart dictEnd)
                (\<lambda>st. Inr (match_fast (seq_offset sequence) st, sequenceLength, iLitEnd)))"

subsection \<open>Literals\<close>

lemma literals_fast_moved:
  assumes "op + n + 32 \<le> length m" "ahead 16 op ip n (op + n + 32)"
  shows "moved m (literals_fast m op ip n) op ip n (op + n + 32)"
proof -
  have c: "moved m (ZSTD_copy16 m op ip) op ip (min 16 n) (op + 16)"
    using mv.chunk [of m m op ip 0 n 16 "n + 32"] mv.start [of m op ip] assms
    by (simp add: ZSTD_copy16_def add.assoc)
  show ?thesis
  proof (cases "n > 16")
    case True
    then show ?thesis using mv.wildcopy_within [OF c] assms by (simp add: literals_fast_def Let_def)
  next
    case False
    then show ?thesis using mv.mono [OF c, of n "op + n + 32"] by (simp add: literals_fast_def)
  qed
qed

lemma copied_moved:
  assumes "copied m m' op ip n hi" "ip + n \<le> op \<or> hi \<le> ip"
  shows "moved m m' op ip n hi"
proof -
  have "byte_at m' (op + j) = byte_at m (ip + j)" if "j < n" for j
    using copied_repeats [OF assms(1) that] copied_below [OF assms(1), of "ip + j"]
      copied_above [OF assms(1), of "ip + j"] assms(2) that
    by auto
  then show ?thesis using assms(1) by (simp add: copied_def moved_def)
qed

lemma memmove_moved: "op + n \<le> length m \<Longrightarrow> moved m (ZSTD_memmove m op ip n) op ip n (op + n)"
  using byte_at_write_at [of op "rd m ip n" m] by (auto simp: moved_def ZSTD_memmove_def)

subsection \<open>Matches\<close>

text \<open>Where the byte at distance \<open>v\<close> in the history lies: in the prefix, or before it in the
  dictionary, whose end takes the place of the start of the prefix.\<close>

definition history :: "nat \<Rightarrow> nat \<Rightarrow> int \<Rightarrow> nat" where
  "history prefixStart dictEnd v =
     nat (if v < int prefixStart then v + int dictEnd - int prefixStart else v)"

definition matched :: "bytes \<Rightarrow> bytes \<Rightarrow> nat \<Rightarrow> nat \<Rightarrow> nat \<Rightarrow> nat \<Rightarrow> nat \<Rightarrow> nat \<Rightarrow> bool" where
  "matched m m' o' off ml prefixStart dictEnd hi \<longleftrightarrow> length m' = length m
     \<and> (\<forall>i. i < o' \<or> hi \<le> i \<longrightarrow> byte_at m' i = byte_at m i)
     \<and> (\<forall>j < ml. byte_at m' (o' + j) = byte_at m' (history prefixStart dictEnd (int (o' + j) - int off)))"

text \<open>The places in memory are sensible: the history ends at the output position, the dictionary is
  as long as the part of the history before the prefix and is not where the output goes.\<close>

definition history_layout :: "nat \<Rightarrow> nat \<Rightarrow> nat \<Rightarrow> int \<Rightarrow> nat \<Rightarrow> bool" where
  "history_layout op hi prefixStart virtualStart dictEnd \<longleftrightarrow>
     prefixStart \<le> op \<and> virtualStart \<le> int prefixStart \<and> int prefixStart - virtualStart \<le> int dictEnd
     \<and> (dictEnd \<le> op \<or> int hi \<le> int dictEnd - (int prefixStart - virtualStart))"

lemma matched_prefix:
  assumes "copied m m' p mt n hi" "p = mt + off" "prefixStart \<le> mt"
  shows "matched m m' p off n prefixStart dictEnd hi"
proof -
  have "byte_at m' (p + j) = byte_at m' (history prefixStart dictEnd (int (p + j) - int off))" if "j < n" for j
  proof -
    have "history prefixStart dictEnd (int (p + j) - int off) = mt + j"
      using assms by (auto simp: history_def)
    then show ?thesis using copied_repeats [OF assms(1) that] by simp
  qed
  then show ?thesis using assms(1) by (simp add: matched_def copied_def)
qed

text \<open>A match in the dictionary of which \<open>n\<close> bytes were moved to the output.\<close>

lemma matched_dict:
  assumes lay: "history_layout op hi prefixStart virtualStart dictEnd" "op \<le> p" "p + n \<le> hi"
    and off: "int off \<le> int p - virtualStart" and mt: "mt = nat (int dictEnd - (int prefixStart - (int p - int off)))"
    and n: "p < prefixStart + off" "mt + n \<le> dictEnd" and c: "moved m m' p mt n (p + n)"
  shows "matched m m' p off n prefixStart dictEnd (p + n)"
    and "\<And>j. j < n \<Longrightarrow> history prefixStart dictEnd (int (p + j) - int off) < op
            \<or> hi \<le> history prefixStart dictEnd (int (p + j) - int off)"
proof -
  have mt': "int mt = int dictEnd - (int prefixStart - (int p - int off))"
    using lay off mt by (simp add: history_layout_def)
  have h: "history prefixStart dictEnd (int (p + j) - int off) = mt + j" if "j < n" for j
    using mt' n(2) that by (auto simp: history_def)
  have out: "mt + j < op \<or> hi \<le> mt + j" if "j < n" for j
    using lay off mt' n that unfolding history_layout_def by linarith
  then show "history prefixStart dictEnd (int (p + j) - int off) < op
      \<or> hi \<le> history prefixStart dictEnd (int (p + j) - int off)" if "j < n" for j
    using h that by simp
  have "byte_at m' (mt + j) = byte_at m (mt + j)" if "j < n" for j
    using out [OF that] lay c by (auto simp: moved_def)
  then show "matched m m' p off n prefixStart dictEnd (p + n)"
    using c h by (simp add: matched_def moved_def)
qed

lemma matched_seq:
  assumes "matched m m1 p off k prefixStart dictEnd (p + k)" "matched m1 m2 (p + k) off n prefixStart dictEnd hi"
    "p + k \<le> hi"
    "\<And>j. j < k \<Longrightarrow> history prefixStart dictEnd (int (p + j) - int off) < p + k
        \<or> hi \<le> history prefixStart dictEnd (int (p + j) - int off)"
  shows "matched m m2 p off (k + n) prefixStart dictEnd hi"
proof -
  have "byte_at m2 (p + j) = byte_at m2 (history prefixStart dictEnd (int (p + j) - int off))" if j: "j < k + n" for j
  proof (cases "j < k")
    case True
    then have "byte_at m2 (p + j) = byte_at m1 (p + j)"
      "byte_at m2 (history prefixStart dictEnd (int (p + j) - int off))
        = byte_at m1 (history prefixStart dictEnd (int (p + j) - int off))"
      using assms(2,4) unfolding matched_def by auto
    then show ?thesis using assms(1) True by (simp add: matched_def)
  next
    case False
    then obtain i where "j = k + i" "i < n" using j by (metis add_less_cancel_left le_Suc_ex not_less)
    then show ?thesis using assms(2) by (simp add: matched_def add.assoc)
  qed
  then show ?thesis using assms by (auto simp: matched_def)
qed

lemma match_start_matched:
  assumes st: "match_start m p off ml prefixStart virtualStart dictEnd = Inr st"
    and lay: "history_layout op hi prefixStart virtualStart dictEnd" "op \<le> p" "p + ml \<le> hi" "hi \<le> length m"
    and off: "0 < off" and fin: "\<And>m'. fin (Match_done m') = m'"
    and tail: "\<And>m' mt n. length m' = length m \<Longrightarrow> mt + off + n = p + ml \<Longrightarrow>
      copied m' (fin (Match_from m' (mt + off) mt n)) (mt + off) mt n hi"
  shows "matched m (fin st) p off ml prefixStart dictEnd hi"
proof (cases "off > p - prefixStart")
  case False
  then have o: "p = (p - off) + off" "prefixStart \<le> p - off" using lay by (auto simp: history_layout_def)
  have "st = Match_from m p (p - off) ml" using st False by (simp add: match_start_def)
  then show ?thesis using tail [of m "p - off" ml] matched_prefix [of m _ p "p - off"] o by simp
next
  case True
  define mt where "mt = nat (int dictEnd - (int prefixStart - (int p - int off)))"
  have v: "int off \<le> int p - virtualStart" using st True by (auto simp: match_start_def split: if_splits)
  have pre: "p < prefixStart + off" using True lay by (auto simp: history_layout_def)
  have mt': "int mt = int dictEnd - (int prefixStart - (int p - int off))"
    using lay v by (simp add: mt_def history_layout_def)
  note dict = matched_dict [OF lay(1,2) _ v mt_def pre]
  show ?thesis
  proof (cases "mt + ml \<le> dictEnd")
    case whole: True
    then have "st = Match_done (ZSTD_memmove m p mt ml)"
      using st True v by (simp add: match_start_def Let_def mt_def [symmetric])
    moreover have "matched m (ZSTD_memmove m p mt ml) p off ml prefixStart dictEnd (p + ml)"
      by (rule dict(1)) (use lay whole in \<open>auto intro: memmove_moved\<close>)
    ultimately show ?thesis using fin lay(3) by (simp add: matched_def)
  next
    case part: False
    define k where "k = dictEnd - mt"
    have k: "p + k = prefixStart + off" "k < ml" "mt + k = dictEnd" using mt' pre part by (auto simp: k_def)
    let ?m1 = "ZSTD_memmove m p mt k"
    have "st = Match_from ?m1 (prefixStart + off) prefixStart (ml - k)"
      using st True v part k by (simp add: match_start_def Let_def mt_def [symmetric] k_def [symmetric])
    moreover have c1: "moved m ?m1 p mt k (p + k)" using lay k by (intro memmove_moved) simp
    moreover have "matched m ?m1 p off k prefixStart dictEnd (p + k)"
      by (rule dict(1)) (use lay k c1 in auto)
    moreover have "matched ?m1 (fin (Match_from ?m1 (prefixStart + off) prefixStart (ml - k))) (p + k) off
        (ml - k) prefixStart dictEnd hi"
      using tail [of ?m1 prefixStart "ml - k"] c1 k
      by (intro matched_prefix [of _ _ _ prefixStart]) (auto simp: moved_def)
    moreover have "history prefixStart dictEnd (int (p + j) - int off) < p + k
        \<or> hi \<le> history prefixStart dictEnd (int (p + j) - int off)" if "j < k" for j
      using dict(2) [of k _ _ j] lay k c1 that by fastforce
    ultimately show ?thesis
      using matched_seq [of m ?m1 p off k prefixStart dictEnd _ "ml - k" hi] k lay by simp
  qed
qed

lemma match_end_matched:
  assumes "match_start m p off ml prefixStart virtualStart dictEnd = Inr st"
    "history_layout op hi prefixStart virtualStart dictEnd" "op \<le> p" "p + ml \<le> hi" "hi \<le> length m"
    "0 < off" "oend_w + 32 \<le> int hi"
  shows "matched m (match_end oend_w st) p off ml prefixStart dictEnd hi"
  using assms(1-6)
proof (rule match_start_matched)
  fix m' :: bytes and mt n
  assume "length m' = length m" "mt + off + n = p + ml"
  then show "copied m' (match_end oend_w (Match_from m' (mt + off) mt n)) (mt + off) mt n hi"
    using safecopy_overlap [of mt "mt + off" n hi m' oend_w] assms by (simp add: match_end_def)
qed (simp add: match_end_def)

lemma match_fast_copied:
  assumes "0 < off" "mt + off + n + 32 \<le> hi" "hi \<le> length m"
  shows "copied m (match_fast off (Match_from m (mt + off) mt n)) (mt + off) mt n hi"
proof -
  consider (long) "16 \<le> off" | (two) "off < 16" "8 < n" | (one) "off < 16" "n \<le> 8" by linarith
  then show ?thesis
  proof cases
    case long
    then have "copied m (ZSTD_wildcopy m (mt + off) mt n ZSTD_no_overlap) (mt + off) mt n (mt + off + n + 32)"
      using assms by (intro wildcopy_copied) (auto simp: far_def)
    then show ?thesis using long assms(2) by (auto simp: match_fast_def WILDCOPY_VECLEN_def elim: copied_mono)
  next
    case two
    have "copied m (case ZSTD_overlapCopy8 m (mt + off) mt off of (m', op', ip') \<Rightarrow>
        ZSTD_wildcopy m' op' ip' (n - 8) ZSTD_overlap_src_before_dst) (mt + off) mt (8 + (n - 8)) (mt + off + n + 32)"
      using wildcopy_overlap [of _ "mt + off + 8" "n - 8"] two assms
      by (intro overlapCopy8_then) (simp_all add: add.assoc)
    then show ?thesis using two assms(2) by (auto simp: match_fast_def WILDCOPY_VECLEN_def elim: copied_mono)
  next
    case one
    obtain m' ip' where "ZSTD_overlapCopy8 m (mt + off) mt off = (m', mt + off + 8, ip')"
      "copied m m' (mt + off) mt 8 (mt + off + 8)"
      using overlapCopy8 [of "mt + off" mt off m] assms by auto
    then show ?thesis using one assms(2) by (auto simp: match_fast_def WILDCOPY_VECLEN_def elim: copied_mono)
  qed
qed

lemma match_fast_matched:
  assumes "match_start m p off ml prefixStart virtualStart dictEnd = Inr st"
    "history_layout op hi prefixStart virtualStart dictEnd" "op \<le> p" "p + ml + 32 \<le> hi" "hi \<le> length m" "0 < off"
  shows "matched m (match_fast off st) p off ml prefixStart dictEnd hi"
proof (rule match_start_matched [OF assms(1-3) _ assms(5,6)])
  fix m' :: bytes and mt n
  assume "length m' = length m" "mt + off + n = p + ml"
  then show "copied m' (match_fast off (Match_from m' (mt + off) mt n)) (mt + off) mt n hi"
    using assms by (intro match_fast_copied) simp_all
qed (use assms(4) in \<open>simp_all add: match_fast_def\<close>)

subsection \<open>Sequences\<close>

text \<open>What a sequence does to the memory: the literals, then the match, and nothing outside.\<close>

definition executed :: "bytes \<Rightarrow> bytes \<Rightarrow> nat \<Rightarrow> nat \<Rightarrow> seq_t \<Rightarrow> nat \<Rightarrow> nat \<Rightarrow> nat \<Rightarrow> bool" where
  "executed m m' op hi sequence litPtr prefixStart dictEnd \<longleftrightarrow>
     (let litLength = seq_litLength sequence; offset = seq_offset sequence; oLitEnd = op + litLength in
      length m' = length m
      \<and> (\<forall>i. i < op \<or> hi \<le> i \<longrightarrow> byte_at m' i = byte_at m i)
      \<and> (\<forall>j < litLength. byte_at m' (op + j) = byte_at m (litPtr + j))
      \<and> (\<forall>j < seq_matchLength sequence.
           byte_at m' (oLitEnd + j) = byte_at m' (history prefixStart dictEnd (int (oLitEnd + j) - int offset))))"

lemma executedI:
  assumes "moved m m1 op litPtr (seq_litLength sq) hi1" "hi1 \<le> hi"
    "matched m1 m2 (op + seq_litLength sq) (seq_offset sq) (seq_matchLength sq) prefixStart dictEnd hi"
  shows "executed m m2 op hi sq litPtr prefixStart dictEnd"
  using assms by (auto simp: executed_def moved_def matched_def Let_def)

definition seq_fault :: "nat \<Rightarrow> nat \<Rightarrow> seq_t \<Rightarrow> nat \<Rightarrow> nat \<Rightarrow> int \<Rightarrow> ZSTD_ErrorCode option" where
  "seq_fault op oend sequence litPtr litLimit virtualStart =
     (if seq_litLength sequence + seq_matchLength sequence > oend - op then Some ZSTD_error_dstSize_tooSmall
      else if seq_litLength sequence > litLimit - litPtr
        \<or> int (seq_offset sequence) > int (op + seq_litLength sequence) - virtualStart
      then Some ZSTD_error_corruption_detected else None)"

lemma match_start_cases:
  assumes "history_layout op hi prefixStart virtualStart dictEnd" "op \<le> p"
  shows "int off > int p - virtualStart \<Longrightarrow>
      match_start m p off ml prefixStart virtualStart dictEnd = Inl ZSTD_error_corruption_detected"
    and "int off \<le> int p - virtualStart \<Longrightarrow>
      \<exists>st. match_start m p off ml prefixStart virtualStart dictEnd = Inr st"
  using assms by (auto simp: match_start_def history_layout_def Let_def)

lemma history_layout_mono:
  "history_layout op hi prefixStart virtualStart dictEnd \<Longrightarrow> hi' \<le> hi \<Longrightarrow>
   history_layout op hi' prefixStart virtualStart dictEnd"
  by (auto simp: history_layout_def)

text \<open>The literals have been copied, then the match is started and finished in either way.\<close>

lemma finish_sequence:
  assumes lay: "history_layout op hi prefixStart virtualStart dictEnd"
    and lits: "moved m m1 op litPtr (seq_litLength sq) hi1" "hi1 \<le> hi"
    and fin: "\<And>st. match_start m1 (op + seq_litLength sq) (seq_offset sq) (seq_matchLength sq) prefixStart virtualStart dictEnd = Inr st \<Longrightarrow>
      matched m1 (fin st) (op + seq_litLength sq) (seq_offset sq) (seq_matchLength sq) prefixStart dictEnd hi"
    and off: "int (seq_offset sq) \<le> int (op + seq_litLength sq) - virtualStart"
  shows "\<exists>m'. bind_res (match_start m1 (op + seq_litLength sq) (seq_offset sq) (seq_matchLength sq) prefixStart virtualStart dictEnd)
        (\<lambda>st. Inr (fin st, a, b)) = Inr (m', a, b)
      \<and> executed m m' op hi sq litPtr prefixStart dictEnd"
proof -
  obtain st where st: "match_start m1 (op + seq_litLength sq) (seq_offset sq) (seq_matchLength sq) prefixStart virtualStart dictEnd = Inr st"
    using match_start_cases(2) [OF lay _ off] by auto
  show ?thesis using executedI [OF lits fin [OF st]] by (auto simp: st)
qed

lemma execSequenceEnd_runs:
  assumes lay: "history_layout op oend prefixStart virtualStart dictEnd" "oend \<le> length m"
    and lits: "litPtr \<le> litLimit" "litLimit \<le> op \<or> oend \<le> litPtr" and off: "0 < seq_offset sq"
    and ok: "seq_fault op oend sq litPtr litLimit virtualStart = None" "op \<le> oend"
  shows "\<exists>m'. ZSTD_execSequenceEnd m op oend sq litPtr litLimit prefixStart virtualStart dictEnd
        = Inr (m', seq_litLength sq + seq_matchLength sq, litPtr + seq_litLength sq)
      \<and> executed m m' op oend sq litPtr prefixStart dictEnd"
proof -
  let ?w = "int oend - int WILDCOPY_OVERLENGTH"
  let ?m1 = "ZSTD_safecopy m op ?w litPtr (seq_litLength sq) ZSTD_no_overlap"
  have fits: "op + seq_litLength sq + seq_matchLength sq \<le> oend" "litPtr + seq_litLength sq \<le> litLimit"
    "int (seq_offset sq) \<le> int (op + seq_litLength sq) - virtualStart"
    using ok lits(1) by (auto simp: seq_fault_def split: if_splits)
  have "copied m ?m1 op litPtr (seq_litLength sq) oend"
    by (rule safecopy_no_overlap) (use lits fits lay in \<open>auto simp: far_def WILDCOPY_OVERLENGTH_def\<close>)
  then have "moved m ?m1 op litPtr (seq_litLength sq) oend"
    by (rule copied_moved) (use lits fits in auto)
  then show ?thesis
    unfolding ZSTD_execSequenceEnd_def Let_def using fits lay off
    by (auto intro!: finish_sequence match_end_matched simp: WILDCOPY_OVERLENGTH_def moved_def)
qed

lemma execSequence_runs:
  assumes lay: "history_layout op oend prefixStart virtualStart dictEnd" "oend \<le> length m"
    and lits: "litPtr \<le> litLimit" "litLimit \<le> op \<or> oend \<le> litPtr" and off: "0 < seq_offset sq"
    and ok: "seq_fault op oend sq litPtr litLimit virtualStart = None" "op \<le> oend"
  shows "\<exists>m'. ZSTD_execSequence m op oend sq litPtr litLimit prefixStart virtualStart dictEnd
        = Inr (m', seq_litLength sq + seq_matchLength sq, litPtr + seq_litLength sq)
      \<and> executed m m' op oend sq litPtr prefixStart dictEnd"
proof (cases "int (op + (seq_litLength sq + seq_matchLength sq)) > int oend - int WILDCOPY_OVERLENGTH")
  case True
  then show ?thesis
    using execSequenceEnd_runs [OF assms] by (simp add: ZSTD_execSequence_def)
next
  case False
  let ?m1 = "literals_fast m op litPtr (seq_litLength sq)"
  have fits: "op + seq_litLength sq + seq_matchLength sq + 32 \<le> oend" "litPtr + seq_litLength sq \<le> litLimit"
    "int (seq_offset sq) \<le> int (op + seq_litLength sq) - virtualStart"
    using ok lits(1) False by (auto simp: seq_fault_def WILDCOPY_OVERLENGTH_def split: if_splits)
  have c: "moved m ?m1 op litPtr (seq_litLength sq) (op + seq_litLength sq + 32)"
    by (rule literals_fast_moved) (use lits fits lay in \<open>auto simp: ahead_def\<close>)
  then show ?thesis
    unfolding ZSTD_execSequence_def Let_def using fits lay off False
    by (auto intro!: finish_sequence match_fast_matched simp: moved_def)
qed

lemma execSequenceEnd_fault:
  assumes "history_layout op oend prefixStart virtualStart dictEnd" "litPtr \<le> litLimit"
    "seq_fault op oend sq litPtr litLimit virtualStart = Some e"
  shows "ZSTD_execSequenceEnd m op oend sq litPtr litLimit prefixStart virtualStart dictEnd = Inl e"
  using assms match_start_cases(1) [OF assms(1)]
  by (auto simp: ZSTD_execSequenceEnd_def seq_fault_def Let_def split: if_splits)

lemma execSequence_fault:
  assumes "history_layout op oend prefixStart virtualStart dictEnd" "litPtr \<le> litLimit"
    "seq_fault op oend sq litPtr litLimit virtualStart = Some e"
  shows "ZSTD_execSequence m op oend sq litPtr litLimit prefixStart virtualStart dictEnd = Inl e"
  using assms match_start_cases(1) [OF assms(1)] execSequenceEnd_fault [OF assms]
  by (auto simp: ZSTD_execSequence_def seq_fault_def Let_def WILDCOPY_OVERLENGTH_def split: if_splits)

text \<open>
  C31. \<open>ZSTD_execSequence\<close> does to the output what a sequence means, on its fast path and near the
  end of the output alike. If the sequence does not fit into the output it answers
  \<open>dstSize_tooSmall\<close>; if it asks for more literals than there are or reaches back further than the
  history, \<open>corruption_detected\<close>; in every other case it succeeds. Then the literals have been
  copied, each byte of the match equals the byte \<open>offset\<close> earlier in the history (also when that
  byte is part of the match itself, and when the match begins in the dictionary and runs on into
  the prefix), and no byte outside \<open>[op, oend)\<close> has changed.
\<close>

theorem execSequence_exact:
  assumes "history_layout op oend prefixStart virtualStart dictEnd" "op \<le> oend" "oend \<le> length m"
    "litPtr \<le> litLimit" "litLimit \<le> op \<or> oend \<le> litPtr" "0 < seq_offset sq"
  shows "case seq_fault op oend sq litPtr litLimit virtualStart of
      Some e \<Rightarrow> ZSTD_execSequence m op oend sq litPtr litLimit prefixStart virtualStart dictEnd = Inl e
    | None \<Rightarrow> \<exists>m'. ZSTD_execSequence m op oend sq litPtr litLimit prefixStart virtualStart dictEnd
          = Inr (m', seq_litLength sq + seq_matchLength sq, litPtr + seq_litLength sq)
        \<and> executed m m' op oend sq litPtr prefixStart dictEnd"
  using execSequence_runs [OF assms(1,3-6) _ assms(2)] execSequence_fault [OF assms(1,4)]
  by (simp split: option.split)

theorem execSequence_exact_witness:
  "\<exists>m'. ZSTD_execSequence ([1, 2, 3, 4, 5, 6, 7, 8] @ replicate 72 0) 8 80
        \<lparr>seq_litLength = 3, seq_matchLength = 9, seq_offset = 5\<rparr> 0 4 8 4 6 = Inr (m', 12, 3)
      \<and> executed ([1, 2, 3, 4, 5, 6, 7, 8] @ replicate 72 0) m' 8 80
          \<lparr>seq_litLength = 3, seq_matchLength = 9, seq_offset = 5\<rparr> 0 8 6"
  using execSequence_exact [of 8 80 8 4 6 "[1, 2, 3, 4, 5, 6, 7, 8] @ replicate 72 0" 0 4
      "\<lparr>seq_litLength = 3, seq_matchLength = 9, seq_offset = 5\<rparr>"]
  by (simp add: history_layout_def seq_fault_def)

subsection \<open>Literals in the output buffer\<close>

lemma execSequenceSplit_slow:
  assumes lay: "history_layout op oend prefixStart virtualStart dictEnd" "oend \<le> length m" "op \<le> oend"
    and lits: "litPtr \<le> litLimit" and off: "0 < seq_offset sq"
    and gap: "litPtr \<le> op + 16 \<or> op + 31 \<le> litPtr \<or> seq_litLength sq \<le> 48"
    and ok: "seq_fault op oend sq litPtr litLimit virtualStart = None"
      "\<not> (litPtr < op \<and> op < litPtr + seq_litLength sq)"
    and hi: "op + seq_litLength sq + seq_matchLength sq \<le> hi" "oend_w + 32 \<le> int hi" "hi \<le> oend"
  shows "\<exists>m'. ZSTD_execSequenceEndSplitLitBuffer m op oend oend_w sq litPtr litLimit prefixStart virtualStart dictEnd
        = Inr (m', seq_litLength sq + seq_matchLength sq, litPtr + seq_litLength sq)
      \<and> executed m m' op hi sq litPtr prefixStart dictEnd"
proof -
  let ?m1 = "ZSTD_safecopyDstBeforeSrc m op litPtr (seq_litLength sq)"
  have fits: "op + seq_litLength sq + seq_matchLength sq \<le> oend" "litPtr + seq_litLength sq \<le> litLimit"
    "int (seq_offset sq) \<le> int (op + seq_litLength sq) - virtualStart"
    using ok lits(1) lay(3) by (auto simp: seq_fault_def split: if_splits)
  have "moved m ?m1 op litPtr (seq_litLength sq) (op + seq_litLength sq)"
    by (rule safecopyDstBeforeSrc_moved) (use lits fits lay ok gap in auto)
  then show ?thesis
    unfolding ZSTD_execSequenceEndSplitLitBuffer_def Let_def
    using fits lay(2) off ok hi history_layout_mono [OF lay(1) hi(3)]
    by (auto intro!: finish_sequence match_end_matched simp: moved_def)
qed



end
