(* ===== verification/Zstd_SeqStore.thy ===== *)
theory Zstd_SeqStore
  imports Zstd_Exec Zstd_Bits Zstd_CParams
begin

text \<open>
  The sequence store of the compressor (\<open>zstd_compress_internal.h\<close>, \<open>zstd_compress.c\<close>): the sequences
  and literals a match finder has found for one block. Lengths are kept in 16 bits, with one long
  length per block marked aside; offsets are kept as a number that is either one of three repeat
  codes or an offset plus three. The theory has the store with its operations and the codes for
  lengths and offsets, and shows that what was stored, and what its codes stand for, is
  what was given.
\<close>

subsection \<open>Codes of lengths\<close>

definition ZSTD_REP_NUM :: nat where "ZSTD_REP_NUM = 3"
definition MINMATCH :: nat where "MINMATCH = 3"
definition MaxLL :: nat where "MaxLL = 35"
definition MaxML :: nat where "MaxML = 52"
definition MaxOff :: nat where "MaxOff = 31"

definition LL_bits :: "nat list" where
  "LL_bits = [0, 0, 0, 0, 0, 0, 0, 0,
     0, 0, 0, 0, 0, 0, 0, 0,
     1, 1, 1, 1, 2, 2, 3, 3,
     4, 6, 7, 8, 9, 10, 11, 12,
     13, 14, 15, 16]"

definition ML_bits :: "nat list" where
  "ML_bits = [0, 0, 0, 0, 0, 0, 0, 0,
     0, 0, 0, 0, 0, 0, 0, 0,
     0, 0, 0, 0, 0, 0, 0, 0,
     0, 0, 0, 0, 0, 0, 0, 0,
     1, 1, 1, 1, 2, 2, 3, 3,
     4, 4, 5, 7, 8, 9, 10, 11,
     12, 13, 14, 15, 16]"

definition LL_base :: "nat list" where
  "LL_base = [0, 1, 2, 3, 4, 5, 6, 7,
     8, 9, 10, 11, 12, 13, 14, 15,
     16, 18, 20, 22, 24, 28, 32, 40,
     48, 64, 0x80, 0x100, 0x200, 0x400, 0x800, 0x1000,
     0x2000, 0x4000, 0x8000, 0x10000]"

definition OF_base :: "nat list" where
  "OF_base = [0, 1, 1, 5, 0xD, 0x1D, 0x3D, 0x7D,
     0xFD, 0x1FD, 0x3FD, 0x7FD, 0xFFD, 0x1FFD, 0x3FFD, 0x7FFD,
     0xFFFD, 0x1FFFD, 0x3FFFD, 0x7FFFD, 0xFFFFD, 0x1FFFFD, 0x3FFFFD, 0x7FFFFD,
     0xFFFFFD, 0x1FFFFFD, 0x3FFFFFD, 0x7FFFFFD, 0xFFFFFFD, 0x1FFFFFFD, 0x3FFFFFFD, 0x7FFFFFFD]"

definition OF_bits :: "nat list" where
  "OF_bits = [0, 1, 2, 3, 4, 5, 6, 7,
     8, 9, 10, 11, 12, 13, 14, 15,
     16, 17, 18, 19, 20, 21, 22, 23,
     24, 25, 26, 27, 28, 29, 30, 31]"

definition ML_base :: "nat list" where
  "ML_base = [3, 4, 5, 6, 7, 8, 9, 10,
     11, 12, 13, 14, 15, 16, 17, 18,
     19, 20, 21, 22, 23, 24, 25, 26,
     27, 28, 29, 30, 31, 32, 33, 34,
     35, 37, 39, 41, 43, 47, 51, 59,
     67, 83, 99, 0x83, 0x103, 0x203, 0x403, 0x803,
     0x1003, 0x2003, 0x4003, 0x8003, 0x10003]"

definition LL_Code :: "nat list" where
  "LL_Code = [0, 1, 2, 3, 4, 5, 6, 7,
     8, 9, 10, 11, 12, 13, 14, 15,
     16, 16, 17, 17, 18, 18, 19, 19,
     20, 20, 20, 20, 21, 21, 21, 21,
     22, 22, 22, 22, 22, 22, 22, 22,
     23, 23, 23, 23, 23, 23, 23, 23,
     24, 24, 24, 24, 24, 24, 24, 24,
     24, 24, 24, 24, 24, 24, 24, 24]"

definition ZSTD_LLcode :: "u32 \<Rightarrow> nat" where
  "ZSTD_LLcode litLength = (if litLength > 63 then ZSTD_highbit32 litLength + 19 else LL_Code ! unat litLength)"

definition ML_Code :: "nat list" where
  "ML_Code = [0, 1, 2, 3, 4, 5, 6, 7, 8, 9, 10, 11, 12, 13, 14, 15,
     16, 17, 18, 19, 20, 21, 22, 23, 24, 25, 26, 27, 28, 29, 30, 31,
     32, 32, 33, 33, 34, 34, 35, 35, 36, 36, 36, 36, 37, 37, 37, 37,
     38, 38, 38, 38, 38, 38, 38, 38, 39, 39, 39, 39, 39, 39, 39, 39,
     40, 40, 40, 40, 40, 40, 40, 40, 40, 40, 40, 40, 40, 40, 40, 40,
     41, 41, 41, 41, 41, 41, 41, 41, 41, 41, 41, 41, 41, 41, 41, 41,
     42, 42, 42, 42, 42, 42, 42, 42, 42, 42, 42, 42, 42, 42, 42, 42,
     42, 42, 42, 42, 42, 42, 42, 42, 42, 42, 42, 42, 42, 42, 42, 42]"

definition ZSTD_MLcode :: "u32 \<Rightarrow> nat" where
  "ZSTD_MLcode mlBase = (if mlBase > 127 then ZSTD_highbit32 mlBase + 36 else ML_Code ! unat mlBase)"

subsection \<open>The store\<close>

record SeqDef =
  sd_offBase :: u32
  sd_litLength :: u16
  sd_mlBase :: u16

datatype ZSTD_longLengthType_e = ZSTD_llt_none | ZSTD_llt_literalLength | ZSTD_llt_matchLength

text \<open>The sequences between \<open>sequencesStart\<close> and \<open>sequences\<close> are a list; the literals lie in memory
  between the addresses \<open>litStart\<close> and \<open>lit\<close>.\<close>

record SeqStore_t =
  ss_sequences :: "SeqDef list"
  ss_litStart :: nat
  ss_lit :: nat
  ss_llCode :: "nat list"
  ss_mlCode :: "nat list"
  ss_ofCode :: "nat list"
  ss_maxNbSeq :: nat
  ss_maxNbLit :: nat
  ss_longLengthType :: ZSTD_longLengthType_e
  ss_longLengthPos :: nat

record ZSTD_SequenceLength =
  sl_litLength :: nat
  sl_matchLength :: nat

definition ZSTD_getSequenceLength :: "SeqStore_t \<Rightarrow> nat \<Rightarrow> ZSTD_SequenceLength" where
  "ZSTD_getSequenceLength seqStore pos =
     (let sq = ss_sequences seqStore ! pos;
          litLength = unat (sd_litLength sq); matchLength = unat (sd_mlBase sq) + MINMATCH;
          here = (ss_longLengthPos seqStore = pos) in
      \<lparr>sl_litLength = (if here \<and> ss_longLengthType seqStore = ZSTD_llt_literalLength
                         then litLength + 0x10000 else litLength),
       sl_matchLength = (if here \<and> ss_longLengthType seqStore = ZSTD_llt_matchLength
                           then matchLength + 0x10000 else matchLength)\<rparr>)"

definition ZSTD_resetSeqStore :: "SeqStore_t \<Rightarrow> SeqStore_t" where
  "ZSTD_resetSeqStore ss = ss\<lparr>ss_lit := ss_litStart ss, ss_sequences := [], ss_longLengthType := ZSTD_llt_none\<rparr>"

definition ZSTD_storeSeqOnly :: "SeqStore_t \<Rightarrow> nat \<Rightarrow> u32 \<Rightarrow> nat \<Rightarrow> SeqStore_t" where
  "ZSTD_storeSeqOnly ss litLength offBase matchLength =
     (let pos = length (ss_sequences ss);
          ss = (if litLength > 0xFFFF
                then ss\<lparr>ss_longLengthType := ZSTD_llt_literalLength, ss_longLengthPos := pos\<rparr> else ss);
          mlBase = matchLength - MINMATCH;
          ss = (if mlBase > 0xFFFF
                then ss\<lparr>ss_longLengthType := ZSTD_llt_matchLength, ss_longLengthPos := pos\<rparr> else ss)
      in ss\<lparr>ss_sequences := ss_sequences ss @
            [\<lparr>sd_offBase = offBase, sd_litLength = of_nat litLength, sd_mlBase = of_nat mlBase\<rparr>]\<rparr>)"

definition ZSTD_safecopyLiterals :: "bytes \<Rightarrow> nat \<Rightarrow> nat \<Rightarrow> nat \<Rightarrow> int \<Rightarrow> bytes" where
  "ZSTD_safecopyLiterals mem op ip iend ilimit_w =
     (let (mem, op, ip) = (if int ip \<le> ilimit_w
            then let n = nat (ilimit_w - int ip)
                 in (ZSTD_wildcopy mem op ip n ZSTD_no_overlap, op + n, ip + n)
            else (mem, op, ip))
      in copy_bytes mem op ip (iend - ip))"

definition ZSTD_storeSeq :: "bytes \<Rightarrow> SeqStore_t \<Rightarrow> nat \<Rightarrow> nat \<Rightarrow> nat \<Rightarrow> u32 \<Rightarrow> nat \<Rightarrow> bytes \<times> SeqStore_t" where
  "ZSTD_storeSeq mem ss litLength literals litLimit offBase matchLength =
     (let litLimit_w = int litLimit - int WILDCOPY_OVERLENGTH; litEnd = literals + litLength;
          mem = (if int litEnd \<le> litLimit_w
                 then let mem = ZSTD_copy16 mem (ss_lit ss) literals
                      in if litLength > 16
                         then ZSTD_wildcopy mem (ss_lit ss + 16) (literals + 16) (litLength - 16) ZSTD_no_overlap
                         else mem
                 else ZSTD_safecopyLiterals mem (ss_lit ss) literals litEnd litLimit_w);
          ss = ss\<lparr>ss_lit := ss_lit ss + litLength\<rparr>
      in (mem, ZSTD_storeSeqOnly ss litLength offBase matchLength))"

definition ZSTD_storeLastLiterals :: "bytes \<Rightarrow> SeqStore_t \<Rightarrow> nat \<Rightarrow> nat \<Rightarrow> bytes \<times> SeqStore_t" where
  "ZSTD_storeLastLiterals mem ss anchor lastLLSize =
     (write_at mem (ss_lit ss) (rd mem anchor lastLLSize), ss\<lparr>ss_lit := ss_lit ss + lastLLSize\<rparr>)"

text \<open>The codes of all sequences. On a 64-bit machine no offset is long, so the flag returned is 0.\<close>

definition ZSTD_seqToCodes :: "SeqStore_t \<Rightarrow> nat \<times> SeqStore_t" where
  "ZSTD_seqToCodes ss =
     (let sequences = ss_sequences ss;
          llCode = map (\<lambda>sq. ZSTD_LLcode (ucast (sd_litLength sq))) sequences;
          ofCode = map (\<lambda>sq. ZSTD_highbit32 (sd_offBase sq)) sequences;
          mlCode = map (\<lambda>sq. ZSTD_MLcode (ucast (sd_mlBase sq))) sequences;
          llCode = (if ss_longLengthType ss = ZSTD_llt_literalLength
                    then llCode[ss_longLengthPos ss := MaxLL] else llCode);
          mlCode = (if ss_longLengthType ss = ZSTD_llt_matchLength
                    then mlCode[ss_longLengthPos ss := MaxML] else mlCode)
      in (0, ss\<lparr>ss_llCode := llCode, ss_ofCode := ofCode, ss_mlCode := mlCode\<rparr>))"

fun count_literals :: "SeqStore_t \<Rightarrow> nat \<Rightarrow> SeqDef list \<Rightarrow> nat" where
  "count_literals ss i [] = 0"
| "count_literals ss i (sq # sqs) = unat (sd_litLength sq)
     + (if i = ss_longLengthPos ss \<and> ss_longLengthType ss = ZSTD_llt_literalLength then 0x10000 else 0)
     + count_literals ss (i + 1) sqs"

definition ZSTD_countSeqStoreLiteralsBytes :: "SeqStore_t \<Rightarrow> nat" where
  "ZSTD_countSeqStoreLiteralsBytes ss = count_literals ss 0 (ss_sequences ss)"

fun count_matches :: "SeqStore_t \<Rightarrow> nat \<Rightarrow> SeqDef list \<Rightarrow> nat" where
  "count_matches ss i [] = 0"
| "count_matches ss i (sq # sqs) = unat (sd_mlBase sq) + MINMATCH
     + (if i = ss_longLengthPos ss \<and> ss_longLengthType ss = ZSTD_llt_matchLength then 0x10000 else 0)
     + count_matches ss (i + 1) sqs"

definition ZSTD_countSeqStoreMatchBytes :: "SeqStore_t \<Rightarrow> nat" where
  "ZSTD_countSeqStoreMatchBytes ss = count_matches ss 0 (ss_sequences ss)"

definition ZSTD_deriveSeqStoreChunk :: "SeqStore_t \<Rightarrow> nat \<Rightarrow> nat \<Rightarrow> SeqStore_t" where
  "ZSTD_deriveSeqStoreChunk original startIdx endIdx =
     (let seqs = ss_sequences original;
          result = (if startIdx > 0
            then let r = original\<lparr>ss_sequences := take startIdx seqs\<rparr>
                 in r\<lparr>ss_litStart := ss_litStart r + ZSTD_countSeqStoreLiteralsBytes r\<rparr>
            else original);
          result = (if ss_longLengthType original \<noteq> ZSTD_llt_none
            then if ss_longLengthPos original < startIdx \<or> ss_longLengthPos original > endIdx
                 then result\<lparr>ss_longLengthType := ZSTD_llt_none\<rparr>
                 else result\<lparr>ss_longLengthPos := ss_longLengthPos result - startIdx\<rparr>
            else result);
          result = result\<lparr>ss_sequences := drop startIdx (take endIdx seqs)\<rparr>;
          result = (if endIdx = length seqs then result
            else result\<lparr>ss_lit := ss_litStart result + ZSTD_countSeqStoreLiteralsBytes result\<rparr>)
      in result\<lparr>ss_llCode := drop startIdx (ss_llCode result), ss_mlCode := drop startIdx (ss_mlCode result),
           ss_ofCode := drop startIdx (ss_ofCode result)\<rparr>)"

definition ZSTD_maybeRLE :: "SeqStore_t \<Rightarrow> bool" where
  "ZSTD_maybeRLE ss = (length (ss_sequences ss) < 4 \<and> ss_lit ss - ss_litStart ss < 10)"

subsection \<open>The codes are exact\<close>

lemma upt_unfold: "2 \<le> n \<Longrightarrow> [0..<n] = 0 # Suc 0 # [2..<n]"
  by (simp add: upt_conv_Cons eval_nat_numeral)

lemma LL_small: "list_all (\<lambda>v. LL_Code ! v < 35 \<and> LL_base ! (LL_Code ! v) + v mod 2 ^ (LL_bits ! (LL_Code ! v)) = v) [0..<64]"
  by (simp add: LL_Code_def LL_base_def LL_bits_def upt_unfold)

lemma LL_large: "6 \<le> h \<Longrightarrow> h < 16 \<Longrightarrow> LL_base ! (h + 19) = 2 ^ h \<and> LL_bits ! (h + 19) = h"
proof -
  have "list_all (\<lambda>h. LL_base ! (h + 19) = 2 ^ h \<and> LL_bits ! (h + 19) = h) [6..<16]"
    by (simp add: LL_base_def LL_bits_def)
  then show "6 \<le> h \<Longrightarrow> h < 16 \<Longrightarrow> LL_base ! (h + 19) = 2 ^ h \<and> LL_bits ! (h + 19) = h"
    by (simp only: list_all_iff set_upt atLeastLessThan_iff)
qed

lemma ML_small: "list_all (\<lambda>v. ML_Code ! v < 52 \<and> ML_base ! (ML_Code ! v) + v mod 2 ^ (ML_bits ! (ML_Code ! v)) = v + 3) [0..<128]"
  by (simp add: ML_Code_def ML_base_def ML_bits_def upt_unfold)

lemma ML_large: "7 \<le> h \<Longrightarrow> h < 16 \<Longrightarrow> ML_base ! (h + 36) = 2 ^ h + 3 \<and> ML_bits ! (h + 36) = h"
proof -
  have "list_all (\<lambda>h. ML_base ! (h + 36) = 2 ^ h + 3 \<and> ML_bits ! (h + 36) = h) [7..<16]"
    by (simp add: ML_base_def ML_bits_def)
  then show "7 \<le> h \<Longrightarrow> h < 16 \<Longrightarrow> ML_base ! (h + 36) = 2 ^ h + 3 \<and> ML_bits ! (h + 36) = h"
    by (simp only: list_all_iff set_upt atLeastLessThan_iff)
qed

lemma unat_u16_u32: "unat (ucast (v :: u16) :: u32) = unat v"
  using unsigned_less [where 'a = nat, of v] by (simp add: unsigned_ucast_eq take_bit_nat_eq_self_iff)

text \<open>The position of the highest bit of a 16-bit value of at least \<open>2 ^ k\<close>.\<close>

lemma highbit_u16:
  assumes "2 ^ k \<le> unat (v :: u16)"
  shows "k \<le> ZSTD_highbit32 (ucast v) \<and> ZSTD_highbit32 (ucast v) < 16
    \<and> unat v = 2 ^ ZSTD_highbit32 (ucast v) + unat v mod 2 ^ ZSTD_highbit32 (ucast v)"
proof -
  let ?h = "ZSTD_highbit32 (ucast v)"
  have u: "unat (ucast v :: u32) = unat v" by (rule unat_u16_u32)
  have "ucast v \<noteq> (0 :: u32)" using assms u by (metis not_le unat_0 zero_less_numeral zero_less_power)
  then have b: "2 ^ ?h \<le> unat v" "unat v < 2 ^ Suc ?h"
    using ZSTD_highbit32_is_highbit [of "ucast v"] by (simp_all add: is_highbit_def u)
  have "unat v < 2 ^ 16" using unsigned_less [where 'a = nat, of v] by simp
  then have "?h < 16" using b(1) by (metis le_less_trans nat_power_less_imp_less zero_less_numeral)
  moreover have "k \<le> ?h" using assms b(2) by (metis le_less_trans less_Suc_eq_le nat_power_less_imp_less zero_less_numeral)
  moreover have "unat v mod 2 ^ ?h = unat v - 2 ^ ?h"
    using b by (simp add: mod_if [of "unat v"] mod_less)
  ultimately show ?thesis using b by simp
qed

lemma LLcode_exact:
  fixes v :: u16
  shows "ZSTD_LLcode (ucast v) < MaxLL
    \<and> LL_base ! ZSTD_LLcode (ucast v) + unat v mod 2 ^ (LL_bits ! ZSTD_LLcode (ucast v)) = unat v"
proof (cases "unat v < 64")
  case True
  then have "\<not> (ucast v :: u32) > 63" by (simp add: word_less_nat_alt unat_u16_u32)
  then show ?thesis using LL_small True
    by (auto simp: ZSTD_LLcode_def unat_u16_u32 list_all_iff MaxLL_def)
next
  case False
  then have "(ucast v :: u32) > 63" by (simp add: word_less_nat_alt unat_u16_u32)
  moreover have "2 ^ 6 \<le> unat v" using False by simp
  ultimately show ?thesis using LL_large [of "ZSTD_highbit32 (ucast v)"] highbit_u16 [of 6 v]
    by (simp add: ZSTD_LLcode_def MaxLL_def)
qed

lemma MLcode_exact:
  fixes v :: u16
  shows "ZSTD_MLcode (ucast v) < MaxML
    \<and> ML_base ! ZSTD_MLcode (ucast v) + unat v mod 2 ^ (ML_bits ! ZSTD_MLcode (ucast v)) = unat v + MINMATCH"
proof (cases "unat v < 128")
  case True
  then have "\<not> (ucast v :: u32) > 127" by (simp add: word_less_nat_alt unat_u16_u32)
  then show ?thesis using ML_small True
    by (auto simp: ZSTD_MLcode_def unat_u16_u32 list_all_iff MaxML_def MINMATCH_def)
next
  case False
  then have "(ucast v :: u32) > 127" by (simp add: word_less_nat_alt unat_u16_u32)
  moreover have "2 ^ 7 \<le> unat v" using False by simp
  ultimately show ?thesis using ML_large [of "ZSTD_highbit32 (ucast v)"] highbit_u16 [of 7 v]
    by (simp add: ZSTD_MLcode_def MaxML_def MINMATCH_def)
qed

subsection \<open>Storing sequences\<close>

text \<open>The lengths of a block's sequences: literals, offset number, match.\<close>

definition store_all :: "SeqStore_t \<Rightarrow> (nat \<times> u32 \<times> nat) list \<Rightarrow> SeqStore_t" where
  "store_all ss = foldl (\<lambda>ss (ll, ob, ml). ZSTD_storeSeqOnly ss ll ob ml) ss"

definition lengths_total :: "(nat \<times> u32 \<times> nat) list \<Rightarrow> nat" where
  "lengths_total sqs = sum_list (map (\<lambda>(ll, ob, ml). ll + ml) sqs)"

definition block_ok :: "(nat \<times> u32 \<times> nat) list \<Rightarrow> bool" where
  "block_ok sqs \<longleftrightarrow> list_all (\<lambda>(ll, ob, ml). MINMATCH \<le> ml \<and> ob \<noteq> 0) sqs \<and> lengths_total sqs \<le> ZSTD_BLOCKSIZE_MAX"

text \<open>What the store holds: every length is represented exactly, and a marked length is one that takes
  up half a block, so that there is never need for a second.\<close>

definition holds :: "SeqStore_t \<Rightarrow> (nat \<times> u32 \<times> nat) list \<Rightarrow> bool" where
  "holds ss sqs \<longleftrightarrow> length (ss_sequences ss) = length sqs
     \<and> (\<forall>i < length sqs. case sqs ! i of (ll, ob, ml) \<Rightarrow>
          sd_offBase (ss_sequences ss ! i) = ob
          \<and> ZSTD_getSequenceLength ss i = \<lparr>sl_litLength = ll, sl_matchLength = ml\<rparr>)
     \<and> (ss_longLengthType ss \<noteq> ZSTD_llt_none \<longrightarrow>
          ss_longLengthPos ss < length sqs \<and> 65536 + 3 * length sqs \<le> lengths_total sqs)"

lemma lengths_total_ge: "list_all (\<lambda>(ll, ob, ml). MINMATCH \<le> ml \<and> ob \<noteq> 0) sqs \<Longrightarrow> 3 * length sqs \<le> lengths_total sqs"
  by (induct sqs) (auto simp: lengths_total_def MINMATCH_def)

lemma getSequenceLength_snoc:
  assumes "i < length (ss_sequences ss)" "ss_longLengthType ss \<noteq> ZSTD_llt_none \<Longrightarrow> ss_longLengthPos ss < length (ss_sequences ss)"
    "litLength > 0xFFFF \<or> matchLength - MINMATCH > 0xFFFF \<Longrightarrow> ss_longLengthType ss = ZSTD_llt_none"
  shows "ZSTD_getSequenceLength (ZSTD_storeSeqOnly ss litLength offBase matchLength) i = ZSTD_getSequenceLength ss i"
  using assms by (auto simp: ZSTD_getSequenceLength_def ZSTD_storeSeqOnly_def Let_def nth_append)

lemma unat_of_nat_u16: "unat (of_nat n :: u16) = n mod 65536"
  by (simp add: unat_of_nat)

lemma getSequenceLength_last:
  assumes "ss_longLengthType ss \<noteq> ZSTD_llt_none \<Longrightarrow> ss_longLengthPos ss < length (ss_sequences ss)"
    "MINMATCH \<le> matchLength" "litLength < 131072" "matchLength - MINMATCH < 131072"
    "\<not> (litLength > 0xFFFF \<and> matchLength - MINMATCH > 0xFFFF)"
  shows "ZSTD_getSequenceLength (ZSTD_storeSeqOnly ss litLength offBase matchLength) (length (ss_sequences ss))
    = \<lparr>sl_litLength = litLength, sl_matchLength = matchLength\<rparr>"
proof -
  have m: "n mod 65536 + 65536 = n" if "\<not> n \<le> 65535" "n < 131072" for n :: nat
    using that mod_if [of n 65536] by simp
  obtain mb where mb: "matchLength = mb + MINMATCH" using assms(2) by (metis add.commute le_Suc_ex)
  show ?thesis
    using assms(1,3-5) unfolding mb
    by (auto simp: ZSTD_getSequenceLength_def ZSTD_storeSeqOnly_def Let_def unat_of_nat_u16 m not_le)
qed

lemma store_all_holds:
  assumes "block_ok sqs"
  shows "holds (store_all (ZSTD_resetSeqStore ss) sqs) sqs"
  using assms
proof (induct sqs rule: rev_induct)
  case Nil
  then show ?case by (simp add: holds_def store_all_def ZSTD_resetSeqStore_def)
next
  case (snoc x sqs)
  obtain ll ob ml where x: "x = (ll, ob, ml)" by (cases x)
  let ?s = "store_all (ZSTD_resetSeqStore ss) sqs"
  have t: "lengths_total (sqs @ [x]) = lengths_total sqs + (ll + ml)" by (simp add: lengths_total_def x)
  have ok: "block_ok sqs" "MINMATCH \<le> ml" "lengths_total sqs + (ll + ml) \<le> 131072"
    using snoc.prems by (auto simp: block_ok_def lengths_total_def x zstd_limits)
  have h: "holds ?s sqs" using snoc.hyps ok by simp
  then have n: "length (ss_sequences ?s) = length sqs" by (simp add: holds_def)
  have ge: "3 * length sqs \<le> lengths_total sqs" using ok(1) lengths_total_ge by (simp add: block_ok_def)
  have pos: "ss_longLengthPos ?s < length (ss_sequences ?s)" if "ss_longLengthType ?s \<noteq> ZSTD_llt_none"
    using h that by (simp add: holds_def)
  have single: "ss_longLengthType ?s = ZSTD_llt_none" if "ll > 0xFFFF \<or> ml - MINMATCH > 0xFFFF"
    using h that ok(2,3) by (auto simp: holds_def MINMATCH_def)
  have both: "ll < 131072" "ml - MINMATCH < 131072" "\<not> (ll > 0xFFFF \<and> ml - MINMATCH > 0xFFFF)"
    using ok by (auto simp: MINMATCH_def)
  have st: "store_all (ZSTD_resetSeqStore ss) (sqs @ [x]) = ZSTD_storeSeqOnly ?s ll ob ml"
    by (simp add: store_all_def x)
  have old: "ZSTD_getSequenceLength (ZSTD_storeSeqOnly ?s ll ob ml) i = ZSTD_getSequenceLength ?s i"
    if "i < length sqs" for i
    by (rule getSequenceLength_snoc) (use that n pos single in auto)
  have new: "ZSTD_getSequenceLength (ZSTD_storeSeqOnly ?s ll ob ml) (length sqs) = \<lparr>sl_litLength = ll, sl_matchLength = ml\<rparr>"
    using getSequenceLength_last [OF pos ok(2) both, of ob] n by simp
  have sd: "sd_offBase (ss_sequences (ZSTD_storeSeqOnly ?s ll ob ml) ! i)
      = (if i < length sqs then sd_offBase (ss_sequences ?s ! i) else ob)" if "i \<le> length sqs" for i
    using that n by (auto simp: ZSTD_storeSeqOnly_def Let_def nth_append)
  have mark: "ss_longLengthPos (ZSTD_storeSeqOnly ?s ll ob ml) < length (sqs @ [x])
      \<and> 65536 + 3 * length (sqs @ [x]) \<le> lengths_total (sqs @ [x])"
    if "ss_longLengthType (ZSTD_storeSeqOnly ?s ll ob ml) \<noteq> ZSTD_llt_none"
    using that h n ge ok(2) unfolding t
    by (auto simp: ZSTD_storeSeqOnly_def Let_def holds_def MINMATCH_def split: if_splits)
  show ?case unfolding st holds_def
    using h old new sd mark n
    by (auto simp: holds_def nth_append x less_Suc_eq ZSTD_storeSeqOnly_def Let_def)
qed

text \<open>
  What a match finder stores for a block is what the decoder will see. For any sequences that
  together cover at most one block, each match at least 3 bytes long, the store reports exactly
  the lengths that were stored, although it has 16 bits for each and room for one longer length
  per block only. And the codes computed from it are in range and exact: the base value of the
  code plus the extra bits the encoder will write, which are the low bits of the stored field,
  is the length again; the offset number lies in the range of its code.
\<close>

lemma stored_lengths_exact:
  assumes "block_ok sqs" "i < length sqs" "sqs ! i = (ll, ob, ml)"
    "ss = snd (ZSTD_seqToCodes (store_all (ZSTD_resetSeqStore ss0) sqs))"
  shows "ZSTD_getSequenceLength ss i = \<lparr>sl_litLength = ll, sl_matchLength = ml\<rparr>
    \<and> ss_llCode ss ! i \<le> MaxLL \<and> ss_mlCode ss ! i \<le> MaxML \<and> ss_ofCode ss ! i \<le> MaxOff
    \<and> LL_base ! (ss_llCode ss ! i) + unat (sd_litLength (ss_sequences ss ! i)) mod 2 ^ (LL_bits ! (ss_llCode ss ! i)) = ll
    \<and> ML_base ! (ss_mlCode ss ! i) + unat (sd_mlBase (ss_sequences ss ! i)) mod 2 ^ (ML_bits ! (ss_mlCode ss ! i)) = ml
    \<and> sd_offBase (ss_sequences ss ! i) = ob
    \<and> 2 ^ (ss_ofCode ss ! i) \<le> unat ob \<and> unat ob < 2 ^ Suc (ss_ofCode ss ! i)"
proof -
  let ?s = "store_all (ZSTD_resetSeqStore ss0) sqs"
  let ?q = "ss_sequences ?s ! i"
  have h: "holds ?s sqs" using assms(1) by (rule store_all_holds)
  have i: "i < length (ss_sequences ?s)" "sd_offBase ?q = ob"
    "ZSTD_getSequenceLength ?s i = \<lparr>sl_litLength = ll, sl_matchLength = ml\<rparr>"
    using h assms(2,3) by (auto simp: holds_def)
  have ob: "is_highbit ob (ZSTD_highbit32 ob)"
    using assms(1-3) by (intro ZSTD_highbit32_is_highbit) (force simp: block_ok_def list_all_length)
  have long: "LL_base ! MaxLL = 65536" "ML_base ! MaxML = 65536 + MINMATCH" "LL_bits ! MaxLL = 16" "ML_bits ! MaxML = 16"
    by (simp_all add: LL_base_def ML_base_def LL_bits_def ML_bits_def MaxLL_def MaxML_def MINMATCH_def)
  have m: "unat v mod 65536 = unat v" for v :: u16 using unsigned_less [where 'a = nat, of v] by simp
  have eq: "ZSTD_getSequenceLength ss i = ZSTD_getSequenceLength ?s i" "ss_sequences ss = ss_sequences ?s"
    by (simp_all add: assms(4) ZSTD_seqToCodes_def ZSTD_getSequenceLength_def Let_def)
  have "ss_llCode ss ! i = (if i = ss_longLengthPos ?s \<and> ss_longLengthType ?s = ZSTD_llt_literalLength
      then MaxLL else ZSTD_LLcode (ucast (sd_litLength ?q)))"
    "ss_mlCode ss ! i = (if i = ss_longLengthPos ?s \<and> ss_longLengthType ?s = ZSTD_llt_matchLength
      then MaxML else ZSTD_MLcode (ucast (sd_mlBase ?q)))"
    "ss_ofCode ss ! i = ZSTD_highbit32 ob"
    using i by (auto simp: assms(4) ZSTD_seqToCodes_def Let_def)
  then show ?thesis
    unfolding eq using i ob LLcode_exact [of "sd_litLength ?q"] MLcode_exact [of "sd_mlBase ?q"] is_highbit_less [OF ob]
    by (auto simp: long m is_highbit_def MaxOff_def ZSTD_getSequenceLength_def Let_def split: if_splits)
qed

subsection \<open>Storing literals\<close>

lemma safecopyLiterals_copied:
  assumes "far 16 op ip n hi" "ip + n \<le> op \<or> hi \<le> ip" "op + n + 32 \<le> hi" "hi \<le> length m" "ilimit_w < int (ip + n)"
  shows "copied m (ZSTD_safecopyLiterals m op ip (ip + n) ilimit_w) op ip n hi"
proof (cases "int ip \<le> ilimit_w")
  case True
  define k where "k = nat (ilimit_w - int ip)"
  have k: "k \<le> n" using True assms(5) by (simp add: k_def)
  let ?m1 = "ZSTD_wildcopy m op ip k ZSTD_no_overlap"
  have c1: "copied m ?m1 op ip k (op + k + 32)"
    by (rule wildcopy_copied) (use assms k in \<open>auto simp: far_def\<close>)
  have "copied ?m1 (copy_bytes ?m1 (op + k) (ip + k) (n - k)) (op + k) (ip + k) (n - k) (op + k + (n - k))"
    using copied_length [OF c1] assms k by (intro cp.copy_bytes) (auto simp: far_def)
  then have "copied m (copy_bytes ?m1 (op + k) (ip + k) (n - k)) op ip (k + (n - k)) hi"
    by (rule copied_seq [OF c1]) (use assms k in auto)
  then show ?thesis using True k by (simp add: ZSTD_safecopyLiterals_def Let_def k_def [symmetric])
next
  case False
  have "copied m (copy_bytes m op ip n) op ip n (op + n)"
    using assms by (intro cp.copy_bytes) (auto simp: far_def)
  then show ?thesis using False assms(3) by (auto simp: ZSTD_safecopyLiterals_def elim: copied_mono)
qed

text \<open>
  \<open>ZSTD_storeSeq\<close> appends the literals to the literal buffer of the store: the bytes from \<open>lit\<close>
  are those of the source, and nothing outside the 32 bytes of slack after them has changed,
  on the fast path and on the one near the end of the source.
\<close>

lemma storeSeq_literals:
  assumes "literals + litLength \<le> litLimit" "ss_lit ss + litLength + 32 \<le> length mem"
    "litLimit \<le> ss_lit ss \<or> ss_lit ss + litLength + 32 \<le> literals"
    "ZSTD_storeSeq mem ss litLength literals litLimit offBase matchLength = (mem', ss')"
  shows "rd mem' (ss_lit ss) litLength = rd mem literals litLength
    \<and> take (ss_lit ss) mem' = take (ss_lit ss) mem
    \<and> drop (ss_lit ss + litLength + 32) mem' = drop (ss_lit ss + litLength + 32) mem
    \<and> ss_lit ss' = ss_lit ss + litLength"
proof -
  have "moved mem mem' (ss_lit ss) literals litLength (ss_lit ss + litLength + 32)"
  proof (cases "int (literals + litLength) \<le> int litLimit - int WILDCOPY_OVERLENGTH")
    case True
    then have "mem' = literals_fast mem (ss_lit ss) literals litLength"
      using assms(4) by (auto simp: ZSTD_storeSeq_def literals_fast_def Let_def)
    then show ?thesis using assms by (auto intro!: literals_fast_moved simp: ahead_def)
  next
    case False
    then have m: "mem' = ZSTD_safecopyLiterals mem (ss_lit ss) literals (literals + litLength) (int litLimit - int WILDCOPY_OVERLENGTH)"
      using assms(4) by (auto simp: ZSTD_storeSeq_def Let_def)
    show ?thesis unfolding m
      by (rule copied_moved, rule safecopyLiterals_copied) (use assms(1-3) False in \<open>auto simp: far_def\<close>)
  qed
  then have "length mem' = length mem" and lo: "\<And>i. i < ss_lit ss \<Longrightarrow> byte_at mem' i = byte_at mem i"
    and hi: "\<And>i. ss_lit ss + litLength + 32 \<le> i \<Longrightarrow> byte_at mem' i = byte_at mem i"
    and mv: "\<And>j. j < litLength \<Longrightarrow> byte_at mem' (ss_lit ss + j) = byte_at mem (literals + j)"
    by (auto simp: moved_def)
  moreover have "ss_lit ss' = ss_lit ss + litLength"
    using assms(4) by (auto simp: ZSTD_storeSeq_def ZSTD_storeSeqOnly_def Let_def)
  moreover have "rd mem' (ss_lit ss) litLength = rd mem literals litLength"
    by (rule nth_equalityI) (simp_all add: mv)
  ultimately show ?thesis using take_byteI [of mem' mem] drop_byteI [of mem' mem] by simp
qed

end
