(* ===== verification/Zstd_SeqTables.thy ===== *)
theory Zstd_SeqTables
  imports Zstd_SeqStore Zstd_FSE_Stream Zstd_NCount
begin

text \<open>
  The decoding tables of the sequences section (\<open>zstd_decompress_block.c\<close>): one for the codes of
  literal lengths, one for offsets, one for match lengths. A cell has the number of extra
  bits and the base value of its code besides what an FSE table has. A table is built from a
  distribution, from a single code, or is one of three fixed tables.
\<close>

subsection \<open>Tables\<close>

definition MaxSeq :: nat where "MaxSeq = max MaxLL MaxML"
definition DefaultMaxOff :: nat where "DefaultMaxOff = 28"
definition MLFSELog :: nat where "MLFSELog = 9"
definition LLFSELog :: nat where "LLFSELog = 9"
definition OffFSELog :: nat where "OffFSELog = 8"
definition LL_DEFAULTNORMLOG :: nat where "LL_DEFAULTNORMLOG = 6"
definition ML_DEFAULTNORMLOG :: nat where "ML_DEFAULTNORMLOG = 6"
definition OF_DEFAULTNORMLOG :: nat where "OF_DEFAULTNORMLOG = 5"
definition LONGNBSEQ :: nat where "LONGNBSEQ = 0x7F00"
definition MIN_SEQUENCES_SIZE :: nat where "MIN_SEQUENCES_SIZE = 1"

definition LL_defaultNorm :: "int list" where
  "LL_defaultNorm = [4, 3, 2, 2, 2, 2, 2, 2,
     2, 2, 2, 2, 2, 1, 1, 1,
     2, 2, 2, 2, 2, 2, 2, 2,
     2, 3, 2, 1, 1, 1, 1, 1,
     -1, -1, -1, -1]"

definition ML_defaultNorm :: "int list" where
  "ML_defaultNorm = [1, 4, 3, 2, 2, 2, 2, 2,
     2, 1, 1, 1, 1, 1, 1, 1,
     1, 1, 1, 1, 1, 1, 1, 1,
     1, 1, 1, 1, 1, 1, 1, 1,
     1, 1, 1, 1, 1, 1, 1, 1,
     1, 1, 1, 1, 1, 1, -1, -1,
     -1, -1, -1, -1, -1]"

definition OF_defaultNorm :: "int list" where
  "OF_defaultNorm = [1, 1, 1, 1, 1, 1, 2, 2,
     2, 1, 1, 1, 1, 1, 1, 1,
     1, 1, 1, 1, 1, 1, 1, 1,
     -1, -1, -1, -1, -1]"

record ZSTD_seqSymbol =
  sy_nextState :: nat
  sy_nbAdditionalBits :: nat
  sy_nbBits :: nat
  sy_baseValue :: nat

record ZSTD_seqTable =
  sq_fastMode :: bool
  sq_tableLog :: nat
  sq_cells :: "ZSTD_seqSymbol list"

definition seq_cell :: "nat \<times> nat \<times> nat \<times> nat \<Rightarrow> ZSTD_seqSymbol" where
  "seq_cell c = (case c of (ns, add, nb, bv) \<Rightarrow>
     \<lparr>sy_nextState = ns, sy_nbAdditionalBits = add, sy_nbBits = nb, sy_baseValue = bv\<rparr>)"

text \<open>The first entry of each fixed table is its header: fast mode, and the table log.\<close>

definition LL_defaultDTable :: ZSTD_seqTable where
  "LL_defaultDTable = \<lparr>sq_fastMode = True, sq_tableLog = 6, sq_cells = map seq_cell
    [(0, 0, 4, 0), (16, 0, 4, 0), (32, 0, 5, 1), (0, 0, 5, 3),
     (0, 0, 5, 4), (0, 0, 5, 6), (0, 0, 5, 7), (0, 0, 5, 9),
     (0, 0, 5, 10), (0, 0, 5, 12), (0, 0, 6, 14), (0, 1, 5, 16),
     (0, 1, 5, 20), (0, 1, 5, 22), (0, 2, 5, 28), (0, 3, 5, 32),
     (0, 4, 5, 48), (32, 6, 5, 64), (0, 7, 5, 128), (0, 8, 6, 256),
     (0, 10, 6, 1024), (0, 12, 6, 4096), (32, 0, 4, 0), (0, 0, 4, 1),
     (0, 0, 5, 2), (32, 0, 5, 4), (0, 0, 5, 5), (32, 0, 5, 7),
     (0, 0, 5, 8), (32, 0, 5, 10), (0, 0, 5, 11), (0, 0, 6, 13),
     (32, 1, 5, 16), (0, 1, 5, 18), (32, 1, 5, 22), (0, 2, 5, 24),
     (32, 3, 5, 32), (0, 3, 5, 40), (0, 6, 4, 64), (16, 6, 4, 64),
     (32, 7, 5, 128), (0, 9, 6, 512), (0, 11, 6, 2048), (48, 0, 4, 0),
     (16, 0, 4, 1), (32, 0, 5, 2), (32, 0, 5, 3), (32, 0, 5, 5),
     (32, 0, 5, 6), (32, 0, 5, 8), (32, 0, 5, 9), (32, 0, 5, 11),
     (32, 0, 5, 12), (0, 0, 6, 15), (32, 1, 5, 18), (32, 1, 5, 20),
     (32, 2, 5, 24), (32, 2, 5, 28), (32, 3, 5, 40), (32, 4, 5, 48),
     (0, 16, 6, 65536), (0, 15, 6, 32768), (0, 14, 6, 16384), (0, 13, 6, 8192)]\<rparr>"

definition OF_defaultDTable :: ZSTD_seqTable where
  "OF_defaultDTable = \<lparr>sq_fastMode = True, sq_tableLog = 5, sq_cells = map seq_cell
    [(0, 0, 5, 0), (0, 6, 4, 61), (0, 9, 5, 509), (0, 15, 5, 32765),
     (0, 21, 5, 2097149), (0, 3, 5, 5), (0, 7, 4, 125), (0, 12, 5, 4093),
     (0, 18, 5, 262141), (0, 23, 5, 8388605), (0, 5, 5, 29), (0, 8, 4, 253),
     (0, 14, 5, 16381), (0, 20, 5, 1048573), (0, 2, 5, 1), (16, 7, 4, 125),
     (0, 11, 5, 2045), (0, 17, 5, 131069), (0, 22, 5, 4194301), (0, 4, 5, 13),
     (16, 8, 4, 253), (0, 13, 5, 8189), (0, 19, 5, 524285), (0, 1, 5, 1),
     (16, 6, 4, 61), (0, 10, 5, 1021), (0, 16, 5, 65533), (0, 28, 5, 268435453),
     (0, 27, 5, 134217725), (0, 26, 5, 67108861), (0, 25, 5, 33554429), (0, 24, 5, 16777213)]\<rparr>"

definition ML_defaultDTable :: ZSTD_seqTable where
  "ML_defaultDTable = \<lparr>sq_fastMode = True, sq_tableLog = 6, sq_cells = map seq_cell
    [(0, 0, 6, 3), (0, 0, 4, 4), (32, 0, 5, 5), (0, 0, 5, 6),
     (0, 0, 5, 8), (0, 0, 5, 9), (0, 0, 5, 11), (0, 0, 6, 13),
     (0, 0, 6, 16), (0, 0, 6, 19), (0, 0, 6, 22), (0, 0, 6, 25),
     (0, 0, 6, 28), (0, 0, 6, 31), (0, 0, 6, 34), (0, 1, 6, 37),
     (0, 1, 6, 41), (0, 2, 6, 47), (0, 3, 6, 59), (0, 4, 6, 83),
     (0, 7, 6, 131), (0, 9, 6, 515), (16, 0, 4, 4), (0, 0, 4, 5),
     (32, 0, 5, 6), (0, 0, 5, 7), (32, 0, 5, 9), (0, 0, 5, 10),
     (0, 0, 6, 12), (0, 0, 6, 15), (0, 0, 6, 18), (0, 0, 6, 21),
     (0, 0, 6, 24), (0, 0, 6, 27), (0, 0, 6, 30), (0, 0, 6, 33),
     (0, 1, 6, 35), (0, 1, 6, 39), (0, 2, 6, 43), (0, 3, 6, 51),
     (0, 4, 6, 67), (0, 5, 6, 99), (0, 8, 6, 259), (32, 0, 4, 4),
     (48, 0, 4, 4), (16, 0, 4, 5), (32, 0, 5, 7), (32, 0, 5, 8),
     (32, 0, 5, 10), (32, 0, 5, 11), (0, 0, 6, 14), (0, 0, 6, 17),
     (0, 0, 6, 20), (0, 0, 6, 23), (0, 0, 6, 26), (0, 0, 6, 29),
     (0, 0, 6, 32), (0, 16, 6, 65539), (0, 15, 6, 32771), (0, 14, 6, 16387),
     (0, 13, 6, 8195), (0, 12, 6, 4099), (0, 11, 6, 2051), (0, 10, 6, 1027)]\<rparr>"

definition ZSTD_buildSeqTable_rle :: "nat \<Rightarrow> nat \<Rightarrow> ZSTD_seqTable" where
  "ZSTD_buildSeqTable_rle baseValue nbAddBits =
     \<lparr>sq_fastMode = False, sq_tableLog = 0,
      sq_cells = [\<lparr>sy_nextState = 0, sy_nbAdditionalBits = nbAddBits, sy_nbBits = 0, sy_baseValue = baseValue\<rparr>]\<rparr>"

text \<open>The loops that lay down the low-probability symbols and spread the others are those of
  \<open>FSE_buildDTable_internal\<close>, written once more in the code.\<close>

fun seq_build_cells :: "nat \<Rightarrow> nat list \<Rightarrow> nat list \<Rightarrow> nat list \<Rightarrow> nat list \<Rightarrow> ZSTD_seqSymbol list" where
  "seq_build_cells tableLog baseValue nbAdditionalBits [] symbolNext = []"
| "seq_build_cells tableLog baseValue nbAdditionalBits (s # ss) symbolNext =
     (let nextState = symbolNext ! s;
          nb = tableLog - ZSTD_highbit32 (of_nat nextState)
      in \<lparr>sy_nextState = nat ((int (nextState * 2 ^ nb) - 2 ^ tableLog) mod 2 ^ 16),
          sy_nbAdditionalBits = nbAdditionalBits ! s, sy_nbBits = nb, sy_baseValue = baseValue ! s\<rparr>
         # seq_build_cells tableLog baseValue nbAdditionalBits ss (symbolNext[s := (nextState + 1) mod 2 ^ 16]))"

definition ZSTD_buildFSETable_body :: "int list \<Rightarrow> nat \<Rightarrow> nat list \<Rightarrow> nat list \<Rightarrow> nat \<Rightarrow> ZSTD_seqTable" where
  "ZSTD_buildFSETable_body normalizedCounter maxSymbolValue baseValue nbAdditionalBits tableLog =
     (let norm = take (maxSymbolValue + 1) normalizedCounter;
          largeLimit = 2 ^ (tableLog - 1);
          fastMode = list_all (\<lambda>n. n = -1 \<or> n < largeLimit) norm;
          (position, cells) = fse_spread norm tableLog
      in \<lparr>sq_fastMode = fastMode, sq_tableLog = tableLog,
          sq_cells = seq_build_cells tableLog baseValue nbAdditionalBits cells (fse_symbolNext norm)\<rparr>)"

definition ZSTD_buildFSETable :: "int list \<Rightarrow> nat \<Rightarrow> nat list \<Rightarrow> nat list \<Rightarrow> nat \<Rightarrow> ZSTD_seqTable" where
  "ZSTD_buildFSETable normalizedCounter maxSymbolValue baseValue nbAdditionalBits tableLog =
     ZSTD_buildFSETable_body normalizedCounter maxSymbolValue baseValue nbAdditionalBits tableLog"

datatype SymbolEncodingType_e = set_basic | set_rle | set_compressed | set_repeat

definition encoding_type :: "nat \<Rightarrow> SymbolEncodingType_e" where
  "encoding_type n = (if n = 0 then set_basic else if n = 1 then set_rle else if n = 2 then set_compressed else set_repeat)"

text \<open>The number of bytes read and the table to use; \<open>current\<close> is the table of the previous block.\<close>

definition ZSTD_buildSeqTable ::
  "SymbolEncodingType_e \<Rightarrow> nat \<Rightarrow> nat \<Rightarrow> bytes \<Rightarrow> nat list \<Rightarrow> nat list \<Rightarrow> ZSTD_seqTable \<Rightarrow> bool \<Rightarrow> ZSTD_seqTable \<Rightarrow>
   (nat \<times> ZSTD_seqTable) res" where
  "ZSTD_buildSeqTable type max' maxLog src baseValue nbAdditionalBits defaultTable flagRepeatTable current =
     (case type of
        set_rle \<Rightarrow>
          if src = [] then Inl ZSTD_error_srcSize_wrong
          else if unat (src ! 0) > max' then Inl ZSTD_error_corruption_detected
          else let s = unat (src ! 0) in Inr (1, ZSTD_buildSeqTable_rle (baseValue ! s) (nbAdditionalBits ! s))
      | set_basic \<Rightarrow> Inr (0, defaultTable)
      | set_repeat \<Rightarrow> if \<not> flagRepeatTable then Inl ZSTD_error_corruption_detected else Inr (0, current)
      | set_compressed \<Rightarrow>
          (case FSE_readNCount max' src of
             Inl _ \<Rightarrow> Inl ZSTD_error_corruption_detected
           | Inr (norm, max', tableLog, headerSize) \<Rightarrow>
               if tableLog > maxLog then Inl ZSTD_error_corruption_detected
               else Inr (headerSize, ZSTD_buildFSETable norm max' baseValue nbAdditionalBits tableLog)))"

subsection \<open>The header of the section\<close>

record seq_dctx =
  dq_LLTptr :: ZSTD_seqTable
  dq_OFTptr :: ZSTD_seqTable
  dq_MLTptr :: ZSTD_seqTable
  dq_fseEntropy :: bool

text \<open>The number of sequences, and the bytes that follow it.\<close>

definition seq_count :: "bytes \<Rightarrow> (nat \<times> bytes) res" where
  "seq_count src =
     (let nbSeq = unat (src ! 0); ip = drop 1 src in
      if nbSeq > 0x7F
      then if nbSeq = 0xFF
           then if length ip < 2 then Inl ZSTD_error_srcSize_wrong
                else Inr (unat (MEM_readLE16 MEM_isLittleEndian ip 0) + LONGNBSEQ, drop 2 ip)
           else if ip = [] then Inl ZSTD_error_srcSize_wrong
                else Inr ((nbSeq - 0x80) * 2 ^ 8 + unat (ip ! 0), drop 1 ip)
      else Inr (nbSeq, ip))"

definition bad_table :: "'a res \<Rightarrow> 'a res" where
  "bad_table r = (case r of Inl _ \<Rightarrow> Inl ZSTD_error_corruption_detected | Inr x \<Rightarrow> Inr x)"

definition seq_tables :: "seq_dctx \<Rightarrow> bytes \<Rightarrow> (seq_dctx \<times> bytes) res" where
  "seq_tables dctx ip =
     (let b = unat (ip ! 0); LLtype = encoding_type (b div 2 ^ 6); OFtype = encoding_type (b div 2 ^ 4 mod 4);
          MLtype = encoding_type (b div 2 ^ 2 mod 4); ip = drop 1 ip in
      bind_res (bad_table (ZSTD_buildSeqTable LLtype MaxLL LLFSELog ip LL_base LL_bits LL_defaultDTable
                  (dq_fseEntropy dctx) (dq_LLTptr dctx))) (\<lambda>(llhSize, LLT).
      let ip = drop llhSize ip in
      bind_res (bad_table (ZSTD_buildSeqTable OFtype MaxOff OffFSELog ip OF_base OF_bits OF_defaultDTable
                  (dq_fseEntropy dctx) (dq_OFTptr dctx))) (\<lambda>(ofhSize, OFT).
      let ip = drop ofhSize ip in
      bind_res (bad_table (ZSTD_buildSeqTable MLtype MaxML MLFSELog ip ML_base ML_bits ML_defaultDTable
                  (dq_fseEntropy dctx) (dq_MLTptr dctx))) (\<lambda>(mlhSize, MLT).
      Inr (dctx\<lparr>dq_LLTptr := LLT, dq_OFTptr := OFT, dq_MLTptr := MLT\<rparr>, drop mlhSize ip)))))"

definition ZSTD_decodeSeqHeaders :: "seq_dctx \<Rightarrow> bytes \<Rightarrow> (nat \<times> seq_dctx \<times> nat) res" where
  "ZSTD_decodeSeqHeaders dctx src =
     (if length src < MIN_SEQUENCES_SIZE then Inl ZSTD_error_srcSize_wrong
      else bind_res (seq_count src) (\<lambda>(nbSeq, ip).
        if nbSeq = 0
        then if ip \<noteq> [] then Inl ZSTD_error_corruption_detected else Inr (0, dctx, length src)
        else if ip = [] then Inl ZSTD_error_srcSize_wrong
        else if unat (ip ! 0) mod 4 \<noteq> 0 then Inl ZSTD_error_corruption_detected
        else bind_res (seq_tables dctx ip) (\<lambda>(dctx, ip). Inr (nbSeq, dctx, length src - length ip))))"

subsection \<open>Evaluation of the table builder\<close>

text \<open>Rules that evaluate the builder on the fixed distributions, one step of a loop at a time.\<close>

lemma fse_place_numeral:
  "fse_place tableSize step highThreshold s (numeral k) (position, cells) =
     fse_place tableSize step highThreshold s (pred_numeral k)
       (fse_next_position tableSize step highThreshold position, cells[position := s mod 256])"
  by (simp only: numeral_eq_Suc [of k] fse_place.simps)

lemma fse_skip_low_numeral:
  "fse_skip_low (numeral k) tableSize step highThreshold position =
     (if position > highThreshold
      then fse_skip_low (pred_numeral k) tableSize step highThreshold ((position + step) mod tableSize)
      else position)"
  by (simp only: numeral_eq_Suc [of k] fse_skip_low.simps)

lemma list_update_Cons_numeral: "(x # xs)[numeral k := y] = x # xs[pred_numeral k := y]"
  by (simp only: numeral_eq_Suc [of k] list_update.simps nat.case)

lemma replicate_numeral_Cons: "replicate (numeral k) x = x # replicate (pred_numeral k) x"
  by (simp only: numeral_eq_Suc [of k] replicate.simps)

lemma highbit_small:
  "ZSTD_highbit32 1 = 0" "ZSTD_highbit32 2 = 1" "ZSTD_highbit32 3 = 1"
  "ZSTD_highbit32 4 = 2" "ZSTD_highbit32 5 = 2" "ZSTD_highbit32 6 = 2" "ZSTD_highbit32 7 = 2"
  by (rule ZSTD_highbit32_eqI, simp add: is_highbit_def)+

lemma seq_build_cells_Cons:
  "seq_build_cells tableLog baseValue nbAdditionalBits (s # ss) symbolNext =
     \<lparr>sy_nextState = nat ((int (symbolNext ! s * 2 ^ (tableLog - ZSTD_highbit32 (of_nat (symbolNext ! s)))) - 2 ^ tableLog) mod 2 ^ 16),
      sy_nbAdditionalBits = nbAdditionalBits ! s, sy_nbBits = tableLog - ZSTD_highbit32 (of_nat (symbolNext ! s)),
      sy_baseValue = baseValue ! s\<rparr>
     # seq_build_cells tableLog baseValue nbAdditionalBits ss (symbolNext[s := (symbolNext ! s + 1) mod 2 ^ 16])"
  by (simp add: Let_def)

lemmas eval_low = list_update_Cons_numeral replicate_numeral_Cons numeral_2_eq_2 [symmetric]
lemmas eval_place = list_update_Cons_numeral fse_place_numeral fse_skip_low_numeral fse_next_position_def
  numeral_2_eq_2 [symmetric]
lemmas eval_cells = seq_build_cells_Cons highbit_small list_update_Cons_numeral numeral_2_eq_2 [symmetric] seq_cell_def

lemma OF_low: "fse_lay_low OF_defaultNorm 0 (replicate 32 0) 31 = ([0, 0, 0, 0, 0, 0, 0, 0, 0,
    0, 0, 0, 0, 0, 0, 0, 0, 0, 0, 0, 0, 0, 0, 0, 0, 0, 0, 28, 27, 26, 25, 24], 26)"
  by (simp add: OF_defaultNorm_def eval_low)

lemma OF_placed: "fse_place_all 32 23 26 OF_defaultNorm 0 (0, [0, 0, 0, 0, 0, 0, 0, 0, 0, 0, 0,
    0, 0, 0, 0, 0, 0, 0, 0, 0, 0, 0, 0, 0, 0, 0, 0, 28, 27, 26, 25, 24]) = (0, [0, 6, 9, 15,
    21, 3, 7, 12, 18, 23, 5, 8, 14, 20, 2, 7, 11, 17, 22, 4, 8, 13, 19, 1, 6, 10, 16, 28, 27,
    26, 25, 24])"
  by (simp add: OF_defaultNorm_def eval_place)

lemma OF_spread: "fse_spread OF_defaultNorm 5 = (0, [0, 6, 9, 15, 21, 3, 7, 12, 18, 23, 5, 8,
    14, 20, 2, 7, 11, 17, 22, 4, 8, 13, 19, 1, 6, 10, 16, 28, 27, 26, 25, 24])"
  by (simp add: fse_spread_def FSE_TABLESTEP_def OF_low OF_placed)

lemma OF_next: "fse_symbolNext OF_defaultNorm = [1, 1, 1, 1, 1, 1, 2, 2, 2, 1, 1, 1, 1, 1, 1,
    1, 1, 1, 1, 1, 1, 1, 1, 1, 1, 1, 1, 1, 1]"
  by (simp add: OF_defaultNorm_def fse_symbolNext_def)

lemma OF_cells: "seq_build_cells 5 OF_base OF_bits [0, 6, 9, 15, 21, 3, 7, 12, 18, 23, 5, 8,
    14, 20, 2, 7, 11, 17, 22, 4, 8, 13, 19, 1, 6, 10, 16, 28, 27, 26, 25, 24] [1, 1, 1, 1, 1,
    1, 2, 2, 2, 1, 1, 1, 1, 1, 1, 1, 1, 1, 1, 1, 1, 1, 1, 1, 1, 1, 1, 1, 1] = sq_cells OF_defaultDTable"
  by (simp add: OF_defaultDTable_def eval_cells del: seq_build_cells.simps(2))
    (simp add: OF_base_def OF_bits_def numeral_2_eq_2 [symmetric])

lemma OF_default: "OF_defaultDTable = ZSTD_buildFSETable OF_defaultNorm DefaultMaxOff OF_base OF_bits OF_DEFAULTNORMLOG"
proof -
  have a: "take (DefaultMaxOff + 1) OF_defaultNorm = OF_defaultNorm" by (simp add: OF_defaultNorm_def DefaultMaxOff_def)
  have b: "list_all (\<lambda>n. n = -1 \<or> n < 2 ^ (5 - 1)) OF_defaultNorm" by (simp add: OF_defaultNorm_def)
  have c: "sq_fastMode OF_defaultDTable" "sq_tableLog OF_defaultDTable = 5" by (simp_all add: OF_defaultDTable_def)
  show ?thesis unfolding ZSTD_buildFSETable_def ZSTD_buildFSETable_body_def a OF_DEFAULTNORMLOG_def OF_spread OF_next Let_def prod.case OF_cells
    using b c by simp
qed

lemma LL_low: "fse_lay_low LL_defaultNorm 0 (replicate 64 0) 63 = ([0, 0, 0, 0, 0, 0, 0, 0, 0,
    0, 0, 0, 0, 0, 0, 0, 0, 0, 0, 0, 0, 0, 0, 0, 0, 0, 0, 0, 0, 0, 0, 0, 0, 0, 0, 0, 0, 0, 0,
    0, 0, 0, 0, 0, 0, 0, 0, 0, 0, 0, 0, 0, 0, 0, 0, 0, 0, 0, 0, 0, 35, 34, 33, 32], 59)"
  by (simp add: LL_defaultNorm_def eval_low)

lemma LL_placed: "fse_place_all 64 43 59 LL_defaultNorm 0 (0, [0, 0, 0, 0, 0, 0, 0, 0, 0, 0, 0,
    0, 0, 0, 0, 0, 0, 0, 0, 0, 0, 0, 0, 0, 0, 0, 0, 0, 0, 0, 0, 0, 0, 0, 0, 0, 0, 0, 0, 0, 0,
    0, 0, 0, 0, 0, 0, 0, 0, 0, 0, 0, 0, 0, 0, 0, 0, 0, 0, 0, 35, 34, 33, 32]) = (0, [0, 0, 1,
    3, 4, 6, 7, 9, 10, 12, 14, 16, 18, 19, 21, 22, 24, 25, 26, 27, 29, 31, 0, 1, 2, 4, 5, 7, 8,
    10, 11, 13, 16, 17, 19, 20, 22, 23, 25, 25, 26, 28, 30, 0, 1, 2, 3, 5, 6, 8, 9, 11, 12, 15,
    17, 18, 20, 21, 23, 24, 35, 34, 33, 32])"
  by (simp add: LL_defaultNorm_def eval_place)

lemma LL_spread: "fse_spread LL_defaultNorm 6 = (0, [0, 0, 1, 3, 4, 6, 7, 9, 10, 12, 14, 16,
    18, 19, 21, 22, 24, 25, 26, 27, 29, 31, 0, 1, 2, 4, 5, 7, 8, 10, 11, 13, 16, 17, 19, 20,
    22, 23, 25, 25, 26, 28, 30, 0, 1, 2, 3, 5, 6, 8, 9, 11, 12, 15, 17, 18, 20, 21, 23, 24, 35,
    34, 33, 32])"
  by (simp add: fse_spread_def FSE_TABLESTEP_def LL_low LL_placed)

lemma LL_next: "fse_symbolNext LL_defaultNorm = [4, 3, 2, 2, 2, 2, 2, 2, 2, 2, 2, 2, 2, 1, 1,
    1, 2, 2, 2, 2, 2, 2, 2, 2, 2, 3, 2, 1, 1, 1, 1, 1, 1, 1, 1, 1]"
  by (simp add: LL_defaultNorm_def fse_symbolNext_def)

lemma LL_cells: "seq_build_cells 6 LL_base LL_bits [0, 0, 1, 3, 4, 6, 7, 9, 10, 12, 14, 16, 18,
    19, 21, 22, 24, 25, 26, 27, 29, 31, 0, 1, 2, 4, 5, 7, 8, 10, 11, 13, 16, 17, 19, 20, 22,
    23, 25, 25, 26, 28, 30, 0, 1, 2, 3, 5, 6, 8, 9, 11, 12, 15, 17, 18, 20, 21, 23, 24, 35, 34,
    33, 32] [4, 3, 2, 2, 2, 2, 2, 2, 2, 2, 2, 2, 2, 1, 1, 1, 2, 2, 2, 2, 2, 2, 2, 2, 2, 3, 2,
    1, 1, 1, 1, 1, 1, 1, 1, 1] = sq_cells LL_defaultDTable"
  by (simp add: LL_defaultDTable_def eval_cells del: seq_build_cells.simps(2))
    (simp add: LL_base_def LL_bits_def numeral_2_eq_2 [symmetric])

lemma LL_default: "LL_defaultDTable = ZSTD_buildFSETable LL_defaultNorm MaxLL LL_base LL_bits LL_DEFAULTNORMLOG"
proof -
  have a: "take (MaxLL + 1) LL_defaultNorm = LL_defaultNorm" by (simp add: LL_defaultNorm_def MaxLL_def)
  have b: "list_all (\<lambda>n. n = -1 \<or> n < 2 ^ (6 - 1)) LL_defaultNorm" by (simp add: LL_defaultNorm_def)
  have c: "sq_fastMode LL_defaultDTable" "sq_tableLog LL_defaultDTable = 6" by (simp_all add: LL_defaultDTable_def)
  show ?thesis unfolding ZSTD_buildFSETable_def ZSTD_buildFSETable_body_def a LL_DEFAULTNORMLOG_def LL_spread LL_next Let_def prod.case LL_cells
    using b c by simp
qed

lemma ML_low: "fse_lay_low ML_defaultNorm 0 (replicate 64 0) 63 = ([0, 0, 0, 0, 0, 0, 0, 0, 0,
    0, 0, 0, 0, 0, 0, 0, 0, 0, 0, 0, 0, 0, 0, 0, 0, 0, 0, 0, 0, 0, 0, 0, 0, 0, 0, 0, 0, 0, 0,
    0, 0, 0, 0, 0, 0, 0, 0, 0, 0, 0, 0, 0, 0, 0, 0, 0, 0, 52, 51, 50, 49, 48, 47, 46], 56)"
  by (simp add: ML_defaultNorm_def eval_low)

lemma ML_placed: "fse_place_all 64 43 56 ML_defaultNorm 0 (0, [0, 0, 0, 0, 0, 0, 0, 0, 0, 0, 0,
    0, 0, 0, 0, 0, 0, 0, 0, 0, 0, 0, 0, 0, 0, 0, 0, 0, 0, 0, 0, 0, 0, 0, 0, 0, 0, 0, 0, 0, 0,
    0, 0, 0, 0, 0, 0, 0, 0, 0, 0, 0, 0, 0, 0, 0, 0, 52, 51, 50, 49, 48, 47, 46]) = (0, [0, 1,
    2, 3, 5, 6, 8, 10, 13, 16, 19, 22, 25, 28, 31, 33, 35, 37, 39, 41, 43, 45, 1, 2, 3, 4, 6,
    7, 9, 12, 15, 18, 21, 24, 27, 30, 32, 34, 36, 38, 40, 42, 44, 1, 1, 2, 4, 5, 7, 8, 11, 14,
    17, 20, 23, 26, 29, 52, 51, 50, 49, 48, 47, 46])"
  by (simp add: ML_defaultNorm_def eval_place)

lemma ML_spread: "fse_spread ML_defaultNorm 6 = (0, [0, 1, 2, 3, 5, 6, 8, 10, 13, 16, 19, 22,
    25, 28, 31, 33, 35, 37, 39, 41, 43, 45, 1, 2, 3, 4, 6, 7, 9, 12, 15, 18, 21, 24, 27, 30,
    32, 34, 36, 38, 40, 42, 44, 1, 1, 2, 4, 5, 7, 8, 11, 14, 17, 20, 23, 26, 29, 52, 51, 50,
    49, 48, 47, 46])"
  by (simp add: fse_spread_def FSE_TABLESTEP_def ML_low ML_placed)

lemma ML_next: "fse_symbolNext ML_defaultNorm = [1, 4, 3, 2, 2, 2, 2, 2, 2, 1, 1, 1, 1, 1, 1,
    1, 1, 1, 1, 1, 1, 1, 1, 1, 1, 1, 1, 1, 1, 1, 1, 1, 1, 1, 1, 1, 1, 1, 1, 1, 1, 1, 1, 1, 1,
    1, 1, 1, 1, 1, 1, 1, 1]"
  by (simp add: ML_defaultNorm_def fse_symbolNext_def)

lemma ML_cells: "seq_build_cells 6 ML_base ML_bits [0, 1, 2, 3, 5, 6, 8, 10, 13, 16, 19, 22,
    25, 28, 31, 33, 35, 37, 39, 41, 43, 45, 1, 2, 3, 4, 6, 7, 9, 12, 15, 18, 21, 24, 27, 30,
    32, 34, 36, 38, 40, 42, 44, 1, 1, 2, 4, 5, 7, 8, 11, 14, 17, 20, 23, 26, 29, 52, 51, 50,
    49, 48, 47, 46] [1, 4, 3, 2, 2, 2, 2, 2, 2, 1, 1, 1, 1, 1, 1, 1, 1, 1, 1, 1, 1, 1, 1, 1, 1,
    1, 1, 1, 1, 1, 1, 1, 1, 1, 1, 1, 1, 1, 1, 1, 1, 1, 1, 1, 1, 1, 1, 1, 1, 1, 1, 1,
    1] = sq_cells ML_defaultDTable"
  by (simp add: ML_defaultDTable_def eval_cells del: seq_build_cells.simps(2))
    (simp add: ML_base_def ML_bits_def numeral_2_eq_2 [symmetric])

lemma ML_default: "ML_defaultDTable = ZSTD_buildFSETable ML_defaultNorm MaxML ML_base ML_bits ML_DEFAULTNORMLOG"
proof -
  have a: "take (MaxML + 1) ML_defaultNorm = ML_defaultNorm" by (simp add: ML_defaultNorm_def MaxML_def)
  have b: "list_all (\<lambda>n. n = -1 \<or> n < 2 ^ (6 - 1)) ML_defaultNorm" by (simp add: ML_defaultNorm_def)
  have c: "sq_fastMode ML_defaultDTable" "sq_tableLog ML_defaultDTable = 6" by (simp_all add: ML_defaultDTable_def)
  show ?thesis unfolding ZSTD_buildFSETable_def ZSTD_buildFSETable_body_def a ML_DEFAULTNORMLOG_def ML_spread ML_next Let_def prod.case ML_cells
    using b c by simp
qed

subsection \<open>Sequence tables and entropy tables\<close>

text \<open>A sequence table is the FSE table of its distribution with the symbol of each cell replaced by
  the base value and the number of extra bits of that code.\<close>

definition seq_of_cell :: "nat list \<Rightarrow> nat list \<Rightarrow> FSE_decode_t \<Rightarrow> ZSTD_seqSymbol" where
  "seq_of_cell baseValue nbAdditionalBits c =
     \<lparr>sy_nextState = newState c, sy_nbAdditionalBits = nbAdditionalBits ! symbol c, sy_nbBits = nbBits c,
      sy_baseValue = baseValue ! symbol c\<rparr>"

lemma seq_build_cells_map:
  "seq_build_cells L baseValue nbAdditionalBits ss symbolNext =
     map (seq_of_cell baseValue nbAdditionalBits) (fse_build_cells L ss symbolNext)"
  by (induction ss arbitrary: symbolNext) (simp_all add: Let_def seq_of_cell_def)

lemma ZSTD_buildFSETable_eq:
  "ZSTD_buildFSETable nc m baseValue nbAdditionalBits L =
     \<lparr>sq_fastMode = list_all (\<lambda>n. n = -1 \<or> n < 2 ^ (L - 1)) (take (Suc m) nc), sq_tableLog = L,
      sq_cells = map (seq_of_cell baseValue nbAdditionalBits) (fse_dcells (take (Suc m) nc) L)\<rparr>"
  by (simp add: ZSTD_buildFSETable_def ZSTD_buildFSETable_body_def Let_def seq_build_cells_map fse_dcells_def
      split: prod.splits)

text \<open>What the sequence decoder needs of a table: as many cells as its log says, every state reached
  from a cell is inside the table, and base and extra bits are those of one code.\<close>

definition seq_cell_ok :: "nat list \<Rightarrow> nat list \<Rightarrow> nat \<Rightarrow> ZSTD_seqSymbol \<Rightarrow> bool" where
  "seq_cell_ok baseValue nbAdditionalBits tableLog c \<longleftrightarrow>
     sy_nextState c + 2 ^ sy_nbBits c \<le> 2 ^ tableLog \<and>
     list_ex (\<lambda>s. sy_baseValue c = baseValue ! s \<and> sy_nbAdditionalBits c = nbAdditionalBits ! s) [0..<length baseValue]"

definition seq_table_ok :: "nat list \<Rightarrow> nat list \<Rightarrow> nat \<Rightarrow> ZSTD_seqTable \<Rightarrow> bool" where
  "seq_table_ok baseValue nbAdditionalBits maxLog t \<longleftrightarrow>
     sq_tableLog t \<le> maxLog \<and> length (sq_cells t) = 2 ^ sq_tableLog t \<and>
     list_all (seq_cell_ok baseValue nbAdditionalBits (sq_tableLog t)) (sq_cells t)"

lemma seq_table_ok_build:
  assumes "fse_table_ok (take (Suc m) nc) L" "L \<le> maxLog" "m < length baseValue"
  shows "seq_table_ok baseValue nbAdditionalBits maxLog (ZSTD_buildFSETable nc m baseValue nbAdditionalBits L)"
proof -
  let ?cells = "fse_dcells (take (Suc m) nc) L"
  have "seq_cell_ok baseValue nbAdditionalBits L (seq_of_cell baseValue nbAdditionalBits (?cells ! u))"
    if "u < 2 ^ L" for u
    using fse_dcells_closed(2,3) [OF assms(1) that] assms(3)
    by (auto simp: seq_cell_ok_def seq_of_cell_def list_ex_iff intro!: bexI [of _ "symbol (?cells ! u)"])
  then show ?thesis
    using assms(2) length_fse_dcells [OF assms(1)]
    by (simp add: seq_table_ok_def ZSTD_buildFSETable_eq list_all_length)
qed

lemma seq_table_ok_rle:
  "s < length baseValue \<Longrightarrow>
   seq_table_ok baseValue nbAdditionalBits maxLog (ZSTD_buildSeqTable_rle (baseValue ! s) (nbAdditionalBits ! s))"
  by (auto simp: seq_table_ok_def ZSTD_buildSeqTable_rle_def seq_cell_ok_def list_ex_iff)

lemma default_norm_ok:
  "fse_table_ok LL_defaultNorm LL_DEFAULTNORMLOG" "fse_table_ok OF_defaultNorm OF_DEFAULTNORMLOG"
  "fse_table_ok ML_defaultNorm ML_DEFAULTNORMLOG"
  by (simp_all add: fse_table_ok_def fse_norm_ok_def fse_cells_of_def FSE_MIN_TABLELOG_def FSE_MAX_TABLELOG_def
      LL_defaultNorm_def OF_defaultNorm_def ML_defaultNorm_def LL_DEFAULTNORMLOG_def OF_DEFAULTNORMLOG_def
      ML_DEFAULTNORMLOG_def)

lemma default_lengths:
  "take (Suc MaxLL) LL_defaultNorm = LL_defaultNorm" "take (Suc DefaultMaxOff) OF_defaultNorm = OF_defaultNorm"
  "take (Suc MaxML) ML_defaultNorm = ML_defaultNorm"
  "length LL_base = Suc MaxLL" "length OF_base = Suc MaxOff" "length ML_base = Suc MaxML"
  by (simp_all add: LL_defaultNorm_def OF_defaultNorm_def ML_defaultNorm_def MaxLL_def DefaultMaxOff_def MaxML_def
      MaxOff_def LL_base_def OF_base_def ML_base_def)

lemma default_logs:
  "LL_DEFAULTNORMLOG \<le> LLFSELog" "OF_DEFAULTNORMLOG \<le> OffFSELog" "ML_DEFAULTNORMLOG \<le> MLFSELog"
  "MaxLL < Suc MaxLL" "DefaultMaxOff < Suc MaxOff" "MaxML < Suc MaxML"
  by (simp_all add: LL_DEFAULTNORMLOG_def OF_DEFAULTNORMLOG_def ML_DEFAULTNORMLOG_def LLFSELog_def OffFSELog_def
      MLFSELog_def DefaultMaxOff_def MaxOff_def)

lemma default_tables_ok:
  "seq_table_ok LL_base LL_bits LLFSELog LL_defaultDTable"
  "seq_table_ok OF_base OF_bits OffFSELog OF_defaultDTable"
  "seq_table_ok ML_base ML_bits MLFSELog ML_defaultDTable"
  unfolding LL_default OF_default ML_default
  by (rule seq_table_ok_build; simp only: default_norm_ok default_lengths default_logs)+

subsection \<open>Reading the tables of a block\<close>

lemma ZSTD_buildSeqTable_ok:
  assumes "ZSTD_buildSeqTable type m maxLog src baseValue nbAdditionalBits def rep current = Inr (used, t)"
    "m \<le> 255" "maxLog \<le> 12" "length baseValue = Suc m"
    "seq_table_ok baseValue nbAdditionalBits maxLog def" "rep \<longrightarrow> seq_table_ok baseValue nbAdditionalBits maxLog current"
  shows "used \<le> length src \<and> seq_table_ok baseValue nbAdditionalBits maxLog t"
proof (cases type)
  case set_rle
  then show ?thesis
    using assms(1,4) by (auto simp: ZSTD_buildSeqTable_def Let_def Suc_le_eq intro!: seq_table_ok_rle split: if_splits)
next
  case set_compressed
  obtain norm m' L where r: "FSE_readNCount m src = Inr (norm, m', L, used)" and L: "L \<le> maxLog"
    and t: "t = ZSTD_buildFSETable norm m' baseValue nbAdditionalBits L"
    using assms(1) set_compressed by (auto simp: ZSTD_buildSeqTable_def split: sum.splits if_splits)
  note ok = FSE_readNCount_ok [OF r assms(2)]
  then have "fse_table_ok (take (Suc m') norm) L"
    using L assms(2,3) by (auto simp: fse_table_ok_def FSE_MAX_TABLELOG_def FSE_MAX_SYMBOL_VALUE_def)
  then show ?thesis using ok L assms(4) by (auto simp: t intro!: seq_table_ok_build)
qed (use assms in \<open>auto simp: ZSTD_buildSeqTable_def split: if_splits\<close>)

text \<open>The tables a context holds after a block with sequences.\<close>

definition seq_dctx_ok :: "seq_dctx \<Rightarrow> bool" where
  "seq_dctx_ok dctx \<longleftrightarrow>
     seq_table_ok LL_base LL_bits LLFSELog (dq_LLTptr dctx) \<and>
     seq_table_ok OF_base OF_bits OffFSELog (dq_OFTptr dctx) \<and>
     seq_table_ok ML_base ML_bits MLFSELog (dq_MLTptr dctx)"

lemma bad_table_Inr [simp]: "bad_table r = Inr x \<longleftrightarrow> r = Inr x"
  by (auto simp: bad_table_def split: sum.splits)

lemma bad_table_Inl: "bad_table r = Inl e \<Longrightarrow> e = ZSTD_error_corruption_detected"
  by (auto simp: bad_table_def split: sum.splits)

lemma seq_logs_le: "LLFSELog \<le> 12" "OffFSELog \<le> 12" "MLFSELog \<le> 12" "MaxLL \<le> 255" "MaxOff \<le> 255" "MaxML \<le> 255"
  by (simp_all add: LLFSELog_def OffFSELog_def MLFSELog_def MaxLL_def MaxOff_def MaxML_def)

lemma seq_tables_ok:
  assumes "seq_tables dctx ip = Inr (dctx', ip')" "dq_fseEntropy dctx \<longrightarrow> seq_dctx_ok dctx" "ip \<noteq> []"
  shows "seq_dctx_ok dctx' \<and> length ip' < length ip"
proof -
  obtain LLt OFt MLt llh ofh mlh LLT OFT MLT where
    l: "ZSTD_buildSeqTable LLt MaxLL LLFSELog (drop 1 ip) LL_base LL_bits LL_defaultDTable
          (dq_fseEntropy dctx) (dq_LLTptr dctx) = Inr (llh, LLT)" and
    o: "ZSTD_buildSeqTable OFt MaxOff OffFSELog (drop llh (drop 1 ip)) OF_base OF_bits OF_defaultDTable
          (dq_fseEntropy dctx) (dq_OFTptr dctx) = Inr (ofh, OFT)" and
    m: "ZSTD_buildSeqTable MLt MaxML MLFSELog (drop ofh (drop llh (drop 1 ip))) ML_base ML_bits ML_defaultDTable
          (dq_fseEntropy dctx) (dq_MLTptr dctx) = Inr (mlh, MLT)" and
    d: "dctx' = dctx\<lparr>dq_LLTptr := LLT, dq_OFTptr := OFT, dq_MLTptr := MLT\<rparr>"
      "ip' = drop mlh (drop ofh (drop llh (drop 1 ip)))"
    using assms(1) by (auto simp: seq_tables_def Let_def bind_res_Inr_iff simp del: drop_drop)
  note t = ZSTD_buildSeqTable_ok [OF l seq_logs_le(4,1) default_lengths(4) default_tables_ok(1)]
    ZSTD_buildSeqTable_ok [OF o seq_logs_le(5,2) default_lengths(5) default_tables_ok(2)]
    ZSTD_buildSeqTable_ok [OF m seq_logs_le(6,3) default_lengths(6) default_tables_ok(3)]
  have "0 < length ip" using assms(3) by simp
  then show ?thesis using t assms(2) d by (auto simp: seq_dctx_ok_def)
qed

lemma seq_tables_error: "seq_tables dctx ip = Inl e \<Longrightarrow> e = ZSTD_error_corruption_detected"
  by (auto simp: seq_tables_def Let_def bind_res_Inl_iff dest: bad_table_Inl)

lemma seq_count_ok:
  assumes "seq_count src = Inr (n, ip)" "src \<noteq> []"
  shows "length ip < length src \<and> n < 2 ^ 16 + LONGNBSEQ"
proof -
  have "unat (src ! 0) < 256" "unat (drop 1 src ! 0) < 256"
    using unsigned_less [where 'a = nat, of "src ! 0"] unsigned_less [where 'a = nat, of "drop 1 src ! 0"] by simp_all
  then have "(unat (src ! 0) - 128) * 256 + unat (drop 1 src ! 0) < 98048" by linarith
  moreover have "unat (MEM_readLE16 MEM_isLittleEndian (drop 1 src) 0) < 2 ^ 16"
    using unsigned_less [where 'a = nat, of "MEM_readLE16 MEM_isLittleEndian (drop 1 src) 0"] by simp
  ultimately show ?thesis
    using assms by (cases src) (auto simp: seq_count_def Let_def LONGNBSEQ_def split: if_splits)
qed

text \<open>
  C35. Each of the three predefined decoding tables, which the code holds as a literal array, is
  exactly the table \<open>ZSTD_buildFSETable\<close> would build from the predefined distribution of the same
  kind of code: every cell, the table log and the fast mode agree.
\<close>

theorem default_tables_exact:
  "LL_defaultDTable = ZSTD_buildFSETable LL_defaultNorm MaxLL LL_base LL_bits LL_DEFAULTNORMLOG \<and>
   OF_defaultDTable = ZSTD_buildFSETable OF_defaultNorm DefaultMaxOff OF_base OF_bits OF_DEFAULTNORMLOG \<and>
   ML_defaultDTable = ZSTD_buildFSETable ML_defaultNorm MaxML ML_base ML_bits ML_DEFAULTNORMLOG"
  using LL_default OF_default ML_default by blast

text \<open>
  C34. Whatever the bytes of a sequences section are, \<open>ZSTD_decodeSeqHeaders\<close> either fails with one
  of two errors, or it has read at most the bytes it was given, the number of sequences fits the
  format, and if there are any, the three tables it leaves in the context are usable by the sequence
  decoder: each has the cells its log announces and within the log the decoder reserves bits for,
  no cell leads outside its table, and base and extra bits of a cell are those of one code. The
  only thing asked of the context is that tables marked as valid for repetition are usable.
\<close>

theorem decodeSeqHeaders_safe:
  assumes "dq_fseEntropy dctx \<longrightarrow> seq_dctx_ok dctx"
  shows "case ZSTD_decodeSeqHeaders dctx src of
      Inl e \<Rightarrow> e \<in> {ZSTD_error_srcSize_wrong, ZSTD_error_corruption_detected}
    | Inr (nbSeq, dctx', used) \<Rightarrow> used \<le> length src \<and> nbSeq < 2 ^ 16 + LONGNBSEQ \<and>
        (if nbSeq = 0 then dctx' = dctx \<and> used = length src else seq_dctx_ok dctx')"
proof (cases "src = []")
  case True
  then show ?thesis by (simp add: ZSTD_decodeSeqHeaders_def MIN_SEQUENCES_SIZE_def)
next
  case False
  have errs: "seq_count src = Inl e \<Longrightarrow> e = ZSTD_error_srcSize_wrong" for e
    by (auto simp: seq_count_def Let_def split: if_splits)
  show ?thesis
  proof (cases "ZSTD_decodeSeqHeaders dctx src")
    case (Inl e)
    then show ?thesis
      by (auto simp: ZSTD_decodeSeqHeaders_def bind_res_Inl_iff bind_res_Inr_iff split: if_splits
          dest: seq_tables_error errs)
  next
    case (Inr r)
    then obtain n ip where c: "seq_count src = Inr (n, ip)"
      by (auto simp: ZSTD_decodeSeqHeaders_def bind_res_Inr_iff split: if_splits)
    show ?thesis
      using Inr c seq_count_ok [OF c False] seq_tables_ok [OF _ assms]
      by (auto simp: ZSTD_decodeSeqHeaders_def bind_res_Inr_iff split: if_splits)
  qed
qed

text \<open>A header that announces two sequences and the predefined tables.\<close>

theorem decodeSeqHeaders_safe_witness:
  "\<exists>dctx'. ZSTD_decodeSeqHeaders
       \<lparr>dq_LLTptr = ZSTD_buildSeqTable_rle 0 0, dq_OFTptr = ZSTD_buildSeqTable_rle 0 0,
        dq_MLTptr = ZSTD_buildSeqTable_rle 0 0, dq_fseEntropy = False\<rparr> [2, 0, 7] = Inr (2, dctx', 2) \<and>
     seq_dctx_ok dctx'"
proof -
  let ?d = "\<lparr>dq_LLTptr = ZSTD_buildSeqTable_rle 0 0, dq_OFTptr = ZSTD_buildSeqTable_rle 0 0,
        dq_MLTptr = ZSTD_buildSeqTable_rle 0 0, dq_fseEntropy = False\<rparr>"
  let ?r = "?d\<lparr>dq_LLTptr := LL_defaultDTable, dq_OFTptr := OF_defaultDTable, dq_MLTptr := ML_defaultDTable\<rparr>"
  have run: "ZSTD_decodeSeqHeaders ?d [2, 0, 7] = Inr (2, ?r, 2)"
    by (simp add: ZSTD_decodeSeqHeaders_def MIN_SEQUENCES_SIZE_def seq_count_def seq_tables_def encoding_type_def
        ZSTD_buildSeqTable_def bad_table_def)
  show ?thesis using decodeSeqHeaders_safe [of ?d "[2, 0, 7]"] run by auto
qed

end
