(* ===== verification/Zstd_SeqEncode.thy ===== *)
theory Zstd_SeqEncode
  imports Zstd_SeqTables
begin

text \<open>
  Writing the sequences of a block (\<open>zstd_compress_sequences.c\<close>): three states, for the codes of
  literal lengths, offsets and match lengths, and the extra bits of each code go into one bit
  stream, last sequence first. The theory has the encoder and shows which fields it writes.
\<close>

subsection \<open>The encoder\<close>

definition STREAM_ACCUMULATOR_MIN :: nat where "STREAM_ACCUMULATOR_MIN = 57"

record seq_writer =
  w_blockStream :: BIT_CStream_t
  w_stateMatchLength :: FSE_CState_t
  w_stateOffsetBits :: FSE_CState_t
  w_stateLitLength :: FSE_CState_t

definition encode_offset :: "bool \<Rightarrow> BIT_CStream_t \<Rightarrow> u32 \<Rightarrow> nat \<Rightarrow> BIT_CStream_t" where
  "encode_offset longOffsets blockStream offBase ofBits =
     (if longOffsets
      then let extraBits = ofBits - min ofBits (STREAM_ACCUMULATOR_MIN - 1);
               blockStream = (if extraBits \<noteq> 0
                 then BIT_flushBits (BIT_addBits blockStream (ucast offBase) extraBits) else blockStream)
           in BIT_addBits blockStream (ucast (drop_bit extraBits offBase)) (ofBits - extraBits)
      else BIT_addBits blockStream (ucast offBase) ofBits)"

text \<open>The last sequence: its codes are the first states, so that only its extra bits are written.\<close>

definition encode_first ::
  "bool \<Rightarrow> FSE_CTable \<Rightarrow> FSE_CTable \<Rightarrow> FSE_CTable \<Rightarrow> BIT_CStream_t \<Rightarrow> SeqDef \<Rightarrow> nat \<Rightarrow> nat \<Rightarrow> nat \<Rightarrow> seq_writer" where
  "encode_first longOffsets CTable_MatchLength CTable_OffsetBits CTable_LitLength blockStream sq llCode ofCode mlCode =
     (let stateMatchLength = FSE_initCState2 CTable_MatchLength mlCode;
          stateOffsetBits = FSE_initCState2 CTable_OffsetBits ofCode;
          stateLitLength = FSE_initCState2 CTable_LitLength llCode;
          blockStream = BIT_addBits blockStream (ucast (sd_litLength sq)) (LL_bits ! llCode);
          blockStream = BIT_addBits blockStream (ucast (sd_mlBase sq)) (ML_bits ! mlCode);
          blockStream = encode_offset longOffsets blockStream (sd_offBase sq) ofCode;
          blockStream = BIT_flushBits blockStream
      in \<lparr>w_blockStream = blockStream, w_stateMatchLength = stateMatchLength,
          w_stateOffsetBits = stateOffsetBits, w_stateLitLength = stateLitLength\<rparr>)"

definition encode_step :: "bool \<Rightarrow> SeqDef \<Rightarrow> nat \<Rightarrow> nat \<Rightarrow> nat \<Rightarrow> seq_writer \<Rightarrow> seq_writer" where
  "encode_step longOffsets sq llCode ofCode mlCode w =
     (let llBits = LL_bits ! llCode; ofBits = ofCode; mlBits = ML_bits ! mlCode;
          (blockStream, stateOffsetBits) = FSE_encodeSymbol (w_blockStream w) (w_stateOffsetBits w) ofCode;
          (blockStream, stateMatchLength) = FSE_encodeSymbol blockStream (w_stateMatchLength w) mlCode;
          (blockStream, stateLitLength) = FSE_encodeSymbol blockStream (w_stateLitLength w) llCode;
          blockStream = (if ofBits + mlBits + llBits \<ge> 64 - 7 - (LLFSELog + MLFSELog + OffFSELog)
                         then BIT_flushBits blockStream else blockStream);
          blockStream = BIT_addBits blockStream (ucast (sd_litLength sq)) llBits;
          blockStream = BIT_addBits blockStream (ucast (sd_mlBase sq)) mlBits;
          blockStream = (if ofBits + mlBits + llBits > 56 then BIT_flushBits blockStream else blockStream);
          blockStream = encode_offset longOffsets blockStream (sd_offBase sq) ofBits;
          blockStream = BIT_flushBits blockStream
      in \<lparr>w_blockStream = blockStream, w_stateMatchLength = stateMatchLength,
          w_stateOffsetBits = stateOffsetBits, w_stateLitLength = stateLitLength\<rparr>)"

text \<open>The sequences with an index below \<open>n\<close>, from the last to the first.\<close>

fun encode_loop :: "bool \<Rightarrow> SeqDef list \<Rightarrow> nat list \<Rightarrow> nat list \<Rightarrow> nat list \<Rightarrow> nat \<Rightarrow> seq_writer \<Rightarrow> seq_writer" where
  "encode_loop longOffsets sequences llCodeTable ofCodeTable mlCodeTable 0 w = w"
| "encode_loop longOffsets sequences llCodeTable ofCodeTable mlCodeTable (Suc n) w =
     encode_loop longOffsets sequences llCodeTable ofCodeTable mlCodeTable n
       (encode_step longOffsets (sequences ! n) (llCodeTable ! n) (ofCodeTable ! n) (mlCodeTable ! n) w)"

text \<open>The number of bytes written, and the destination.\<close>

definition ZSTD_encodeSequences_body ::
  "bytes \<Rightarrow> FSE_CTable \<Rightarrow> nat list \<Rightarrow> FSE_CTable \<Rightarrow> nat list \<Rightarrow> FSE_CTable \<Rightarrow> nat list \<Rightarrow> SeqDef list \<Rightarrow> nat \<Rightarrow>
   bool \<Rightarrow> (nat \<times> bytes) res" where
  "ZSTD_encodeSequences_body dst CTable_MatchLength mlCodeTable CTable_OffsetBits ofCodeTable
       CTable_LitLength llCodeTable sequences nbSeq longOffsets =
     (case BIT_initCStream dst of
        Inl _ \<Rightarrow> Inl ZSTD_error_dstSize_tooSmall
      | Inr blockStream \<Rightarrow>
          (let w = encode_first longOffsets CTable_MatchLength CTable_OffsetBits CTable_LitLength blockStream
                 (sequences ! (nbSeq - 1)) (llCodeTable ! (nbSeq - 1)) (ofCodeTable ! (nbSeq - 1)) (mlCodeTable ! (nbSeq - 1));
               w = encode_loop longOffsets sequences llCodeTable ofCodeTable mlCodeTable (nbSeq - 1) w;
               blockStream = FSE_flushCState (w_blockStream w) (w_stateMatchLength w);
               blockStream = FSE_flushCState blockStream (w_stateOffsetBits w);
               blockStream = FSE_flushCState blockStream (w_stateLitLength w);
               (streamSize, blockStream) = BIT_closeCStream blockStream
           in if streamSize = 0 then Inl ZSTD_error_dstSize_tooSmall
              else Inr (streamSize, c_buf blockStream)))"

definition ZSTD_encodeSequences ::
  "bytes \<Rightarrow> FSE_CTable \<Rightarrow> nat list \<Rightarrow> FSE_CTable \<Rightarrow> nat list \<Rightarrow> FSE_CTable \<Rightarrow> nat list \<Rightarrow> SeqDef list \<Rightarrow> nat \<Rightarrow>
   bool \<Rightarrow> (nat \<times> bytes) res" where
  "ZSTD_encodeSequences dst CTable_MatchLength mlCodeTable CTable_OffsetBits ofCodeTable
       CTable_LitLength llCodeTable sequences nbSeq longOffsets =
     ZSTD_encodeSequences_body dst CTable_MatchLength mlCodeTable CTable_OffsetBits ofCodeTable
       CTable_LitLength llCodeTable sequences nbSeq longOffsets"

subsection \<open>Coders of one kind of code\<close>

text \<open>A kind of code is coded by a distribution, or is always the same code.\<close>

datatype seq_coder = Coder_fse "int list" nat | Coder_rle nat

fun q_valid :: "seq_coder \<Rightarrow> bool" where
  "q_valid (Coder_fse norm L) = fse_table_ok norm L"
| "q_valid (Coder_rle r) = True"

fun q_codes :: "seq_coder \<Rightarrow> nat \<Rightarrow> bool" where
  "q_codes (Coder_fse norm L) s = fse_codes (norm, L) s"
| "q_codes (Coder_rle r) s = (s = r)"

fun q_log :: "seq_coder \<Rightarrow> nat" where
  "q_log (Coder_fse norm L) = L"
| "q_log (Coder_rle r) = 0"

fun q_states :: "seq_coder \<Rightarrow> nat set" where
  "q_states (Coder_fse norm L) = fse_range (norm, L)"
| "q_states (Coder_rle r) = {0}"

fun q_first :: "seq_coder \<Rightarrow> nat \<Rightarrow> nat" where
  "q_first (Coder_fse norm L) s = fse_first (norm, L) s"
| "q_first (Coder_rle r) s = 0"

fun q_width :: "seq_coder \<Rightarrow> nat \<Rightarrow> nat \<Rightarrow> nat" where
  "q_width (Coder_fse norm L) x s = fse_width (norm, L) x s"
| "q_width (Coder_rle r) x s = 0"

fun q_step :: "seq_coder \<Rightarrow> nat \<Rightarrow> nat \<Rightarrow> nat" where
  "q_step (Coder_fse norm L) x s = fse_step (norm, L) x s"
| "q_step (Coder_rle r) x s = 0"

fun q_cell :: "seq_coder \<Rightarrow> nat \<Rightarrow> FSE_decode_t" where
  "q_cell (Coder_fse norm L) x = fse_at (norm, L) x"
| "q_cell (Coder_rle r) x = \<lparr>newState = 0, symbol = r, nbBits = 0\<rparr>"

fun q_prior :: "seq_coder \<Rightarrow> nat \<Rightarrow> nat \<Rightarrow> nat" where
  "q_prior (Coder_fse norm L) x v = fse_back (norm, L) x v"
| "q_prior (Coder_rle r) x v = v"

interpretation sq: state_coder q_valid q_codes q_states q_first q_width q_step
  "\<lambda>t x. symbol (q_cell t x)" "\<lambda>t x. nbBits (q_cell t x)" q_prior 12
proof
  fix t s x
  assume v: "q_valid t" and c: "q_codes t s"
  show "q_first t s \<in> q_states t \<and> symbol (q_cell t (q_first t s)) = s"
    using v c fse.first_ok by (cases t) (auto simp: fse_valid_def)
  assume x: "x \<in> q_states t"
  show "q_step t x s \<in> q_states t \<and> symbol (q_cell t (q_step t x s)) = s"
    using v c x fse.step_ok by (cases t) (auto simp: fse_valid_def)
  show "nbBits (q_cell t (q_step t x s)) = q_width t x s \<and> q_width t x s \<le> 12"
    using v c x fse.step_bits by (cases t) (auto simp: fse_valid_def)
  show "q_prior t (q_step t x s) (x mod 2 ^ q_width t x s) = x"
    using v c x fse.step_back by (cases t) (auto simp: fse_valid_def)
qed

lemma q_need_log:
  assumes "q_valid t" "x \<in> q_states t"
  shows "nbBits (q_cell t x) \<le> q_log t"
proof (cases t)
  case (Coder_fse norm L)
  then show ?thesis
    using fse_dcells_closed(1) [of norm L "x - 2 ^ L"] assms by (auto simp: fse_range_def fse_at_def)
qed simp

lemma q_width_log:
  assumes "q_valid t" "q_codes t s" "x \<in> q_states t"
  shows "q_width t x s \<le> q_log t"
  using sq.step_bits [OF assms] sq.step_ok [OF assms] q_need_log [OF assms(1)] by metis

lemma q_log_le: "q_valid t \<Longrightarrow> q_log t \<le> 12"
  using fse_table_ok_facts(3) by (cases t) auto

lemma q_states_bound: "q_valid t \<Longrightarrow> x \<in> q_states t \<Longrightarrow> x < 2 ^ 64"
proof (cases t)
  case (Coder_fse norm L)
  assume "q_valid t" "x \<in> q_states t"
  then have "x < 2 * 2 ^ L" "(2::nat) ^ L \<le> 2 ^ 12" using Coder_fse fse_table_ok_facts(5) by (auto simp: fse_range_def)
  then show ?thesis by simp
qed simp

subsection \<open>The states of the encoder\<close>

fun q_ctable :: "seq_coder \<Rightarrow> FSE_CTable \<Rightarrow> bool" where
  "q_ctable (Coder_fse norm L) ct \<longleftrightarrow> ct_tableLog ct = L \<and> ct_stateTable ct = fse_states norm L \<and>
     ct_symbolTT ct = fse_transforms L norm 0"
| "q_ctable (Coder_rle r) ct \<longleftrightarrow> ct = FSE_buildCTable_rle r"

fun q_cholds :: "seq_coder \<Rightarrow> FSE_CState_t \<Rightarrow> nat \<Rightarrow> bool" where
  "q_cholds (Coder_fse norm L) st x \<longleftrightarrow> fse_cholds (norm, L) st x"
| "q_cholds (Coder_rle r) st x \<longleftrightarrow> cs_stateTable st = [0, 0] \<and>
     cs_symbolTT st ! r = \<lparr>deltaFindState = 0, deltaNbBits = 0\<rparr> \<and> cs_stateLog st = 0 \<and> cs_value st = 0 \<and> x = 0"

lemma q_cholds_init:
  assumes "q_ctable t ct" "q_codes t s"
  shows "q_cholds t (FSE_initCState2 ct s) (q_first t s)"
proof (cases t)
  case (Coder_fse norm L)
  then show ?thesis using assms(1) fse_cholds_init [of ct "(norm, L)" s] by simp
next
  case (Coder_rle r)
  define tt where "tt = replicate (r + 1) \<lparr>deltaFindState = 0, deltaNbBits = 0\<rparr>"
  have "tt ! r = \<lparr>deltaFindState = 0, deltaNbBits = 0\<rparr>" unfolding tt_def by (rule nth_replicate) simp
  then show ?thesis
    using assms Coder_rle
    by (simp add: FSE_buildCTable_rle_def tt_def [symmetric] FSE_initCState2_def FSE_initCState_def Let_def
        del: replicate_Suc)
qed

lemma q_cholds_value: "q_cholds t st x \<Longrightarrow> cs_value st = x" "q_cholds t st x \<Longrightarrow> cs_stateLog st = q_log t"
  by (cases t; simp add: fse_cholds_def)+

lemma q_encodeSymbol:
  assumes "q_cholds t st x" "q_codes t s"
  shows "\<exists>st'. FSE_encodeSymbol bitC st s = (BIT_addBits bitC (of_nat x) (q_width t x s), st') \<and>
    q_cholds t st' (q_step t x s)"
proof (cases t)
  case (Coder_fse norm L)
  then show ?thesis
    using FSE_encodeSymbol_eq [of st norm L bitC s] assms(1)
    by (auto simp: fse_cholds_def fse_width_def fse_step_def)
next
  case (Coder_rle r)
  then show ?thesis using assms by (simp add: FSE_encodeSymbol_def)
qed

subsection \<open>The fields of a list of sequences\<close>

text \<open>A sequence as the coder sees it: its three codes and its extra bits. The function gives the
  fields written for a list of sequences and the three states (literal length, offset, match
  length) after it.\<close>

type_synonym seq_item = "nat \<times> nat \<times> nat \<times> (nat \<times> nat) list"

fun enc3 :: "seq_coder \<Rightarrow> seq_coder \<Rightarrow> seq_coder \<Rightarrow> seq_item list \<Rightarrow> (nat \<times> nat) list \<times> nat \<times> nat \<times> nat" where
  "enc3 tL tO tM [(a, b, c, xs)] = (xs, q_first tL a, q_first tO b, q_first tM c)"
| "enc3 tL tO tM ((a, b, c, xs) # r # rs) =
     (let (fs, l, o', m) = enc3 tL tO tM (r # rs)
      in (fs @ [(o' mod 2 ^ q_width tO o' b, q_width tO o' b), (m mod 2 ^ q_width tM m c, q_width tM m c),
                (l mod 2 ^ q_width tL l a, q_width tL l a)] @ xs,
          q_step tL l a, q_step tO o' b, q_step tM m c))"
| "enc3 tL tO tM [] = ([], 0, 0, 0)"

definition item_ok :: "seq_coder \<Rightarrow> seq_coder \<Rightarrow> seq_coder \<Rightarrow> seq_item \<Rightarrow> bool" where
  "item_ok tL tO tM i \<longleftrightarrow> (case i of (a, b, c, xs) \<Rightarrow> q_codes tL a \<and> q_codes tO b \<and> q_codes tM c \<and> fields_ok xs)"

definition coders_ok :: "seq_coder \<Rightarrow> seq_coder \<Rightarrow> seq_coder \<Rightarrow> bool" where
  "coders_ok tL tO tM \<longleftrightarrow> q_valid tL \<and> q_valid tO \<and> q_valid tM \<and>
     q_log tL \<le> LLFSELog \<and> q_log tO \<le> OffFSELog \<and> q_log tM \<le> MLFSELog"

lemma fields_ok_append: "fields_ok (fs @ gs) \<longleftrightarrow> fields_ok fs \<and> fields_ok gs"
  by (auto simp: fields_ok_def)

lemma fields_ok_mod: "fields_ok ((v mod 2 ^ n, n) # fs) \<longleftrightarrow> fields_ok fs"
  by (auto simp: fields_ok_def)

lemma enc3_states:
  assumes "coders_ok tL tO tM" "items \<noteq> []" "list_all (item_ok tL tO tM) items" "enc3 tL tO tM items = (fs, l, o', m)"
  shows "l \<in> q_states tL \<and> o' \<in> q_states tO \<and> m \<in> q_states tM \<and> fields_ok fs"
  using assms
proof (induction tL tO tM items arbitrary: fs l o' m rule: enc3.induct)
  case (1 tL tO tM a b c xs)
  then show ?case by (auto simp: item_ok_def coders_ok_def dest: sq.first_ok)
next
  case (2 tL tO tM a b c xs r rs)
  obtain gs l1 o1 m1 where e: "enc3 tL tO tM (r # rs) = (gs, l1, o1, m1)" by (metis prod_cases4)
  have st: "l1 \<in> q_states tL" "o1 \<in> q_states tO" "m1 \<in> q_states tM" "fields_ok gs"
    using "2.IH" [OF "2.prems"(1) _ _ e] "2.prems"(3) by simp_all
  have c: "q_codes tL a" "q_codes tO b" "q_codes tM c" "fields_ok xs"
    and v: "q_valid tL" "q_valid tO" "q_valid tM"
    using "2.prems"(1,3) by (auto simp: item_ok_def coders_ok_def)
  show ?case
    using "2.prems"(4) e st c(4) sq.step_ok [OF v(1) c(1) st(1)] sq.step_ok [OF v(2) c(2) st(2)]
      sq.step_ok [OF v(3) c(3) st(3)]
    by (auto simp: fields_ok_append fields_ok_mod)
qed simp

text \<open>Taking off the first sequence.\<close>

lemma enc3_head:
  assumes "coders_ok tL tO tM" "list_all (item_ok tL tO tM) ((a, b, c, xs) # r # rs)"
    "enc3 tL tO tM ((a, b, c, xs) # r # rs) = (fs, l, o', m)"
  obtains gs l1 o1 m1 where "enc3 tL tO tM (r # rs) = (gs, l1, o1, m1)"
    "fs = (((gs @ [(o1 mod 2 ^ nbBits (q_cell tO o'), nbBits (q_cell tO o'))])
      @ [(m1 mod 2 ^ nbBits (q_cell tM m), nbBits (q_cell tM m))])
      @ [(l1 mod 2 ^ nbBits (q_cell tL l), nbBits (q_cell tL l))]) @ xs"
    "symbol (q_cell tL l) = a" "symbol (q_cell tO o') = b" "symbol (q_cell tM m) = c"
    "q_prior tL l (l1 mod 2 ^ nbBits (q_cell tL l)) = l1" "q_prior tO o' (o1 mod 2 ^ nbBits (q_cell tO o')) = o1"
    "q_prior tM m (m1 mod 2 ^ nbBits (q_cell tM m)) = m1"
    "l1 \<in> q_states tL" "o1 \<in> q_states tO" "m1 \<in> q_states tM" "fields_ok gs"
proof -
  obtain gs l1 o1 m1 where e: "enc3 tL tO tM (r # rs) = (gs, l1, o1, m1)" by (metis prod_cases4)
  have st: "l1 \<in> q_states tL" "o1 \<in> q_states tO" "m1 \<in> q_states tM" "fields_ok gs"
    using enc3_states [OF assms(1) _ _ e] assms(2) by simp_all
  have v: "q_valid tL" "q_valid tO" "q_valid tM" and c: "q_codes tL a" "q_codes tO b" "q_codes tM c"
    using assms(1,2) by (auto simp: coders_ok_def item_ok_def)
  have s: "l = q_step tL l1 a" "o' = q_step tO o1 b" "m = q_step tM m1 c" using e assms(3) by auto
  note b = sq.step_bits [OF v(1) c(1) st(1)] sq.step_bits [OF v(2) c(2) st(2)] sq.step_bits [OF v(3) c(3) st(3)]
  show thesis
    by (rule that [OF e])
      (use assms(3) e s b st sq.step_ok [OF v(1) c(1) st(1)] sq.step_ok [OF v(2) c(2) st(2)]
        sq.step_ok [OF v(3) c(3) st(3)] sq.step_back [OF v(1) c(1) st(1)] sq.step_back [OF v(2) c(2) st(2)]
        sq.step_back [OF v(3) c(3) st(3)] in auto)
qed

subsection \<open>What the encoder writes\<close>

lemma writes_flush:
  assumes "fse_writes ex e bitC fs k" "k < 64" "ex \<Longrightarrow> fields_bits fs \<le> 8 * e"
  shows "fse_writes ex e (BIT_flushBits bitC) fs 7"
  using fse_writes_flush [OF assms, of False] by (simp add: fse_flush_def)

lemma writes_symbol:
  assumes "fse_writes ex e bitC fs k" "q_cholds t st x" "q_codes t s" "q_valid t" "x \<in> q_states t" "q_log t \<le> n"
    "k + n < 64" "n < 32"
  shows "\<exists>bitC' st'. FSE_encodeSymbol bitC st s = (bitC', st') \<and> q_cholds t st' (q_step t x s) \<and>
    fse_writes ex e bitC' (fs @ [(x mod 2 ^ q_width t x s, q_width t x s)]) (k + n)"
proof -
  obtain st' where e: "FSE_encodeSymbol bitC st s = (BIT_addBits bitC (of_nat x) (q_width t x s), st')"
      "q_cholds t st' (q_step t x s)"
    using q_encodeSymbol [OF assms(2,3)] by blast
  have "q_width t x s \<le> n" using q_width_log [OF assms(4,3,5)] assms(6) by simp
  then show ?thesis
    using fse_writes_add [OF assms(1) _ assms(8,7) q_states_bound [OF assms(4,5)]] e by auto
qed

lemma writes_state:
  assumes "fse_writes ex e bitC fs 7" "q_cholds t st x" "q_valid t" "x \<in> q_states t"
    "ex \<Longrightarrow> fields_bits fs + q_log t \<le> 8 * e"
  shows "fse_writes ex e (FSE_flushCState bitC st) (fs @ [(x mod 2 ^ q_log t, q_log t)]) 7"
proof -
  have L: "q_log t \<le> 12" using assms(3) by (rule q_log_le)
  have "fse_writes ex e (BIT_addBits bitC (of_nat x) (q_log t)) (fs @ [(x mod 2 ^ q_log t, q_log t)]) (7 + 12)"
    by (rule fse_writes_add [OF assms(1) L _ _ q_states_bound [OF assms(3,4)]]) simp_all
  then show ?thesis
    unfolding FSE_flushCState_def q_cholds_value [OF assms(2)]
    by (rule writes_flush) (use assms(5) in \<open>auto simp: fields_bits_append\<close>)
qed

text \<open>The extra bits of a stored sequence. The offset's code is the number of its extra bits.\<close>

definition seq_extra :: "SeqDef \<Rightarrow> nat \<Rightarrow> nat \<Rightarrow> nat \<Rightarrow> (nat \<times> nat) list" where
  "seq_extra sq llCode ofCode mlCode =
     [(unat (sd_litLength sq) mod 2 ^ (LL_bits ! llCode), LL_bits ! llCode),
      (unat (sd_mlBase sq) mod 2 ^ (ML_bits ! mlCode), ML_bits ! mlCode),
      (unat (sd_offBase sq) mod 2 ^ ofCode, ofCode)]"

lemma encode_offset_eq:
  "ofBits \<le> 31 \<Longrightarrow> encode_offset longOffsets bs offBase ofBits = BIT_addBits bs (ucast offBase) ofBits"
  by (simp add: encode_offset_def STREAM_ACCUMULATOR_MIN_def)

lemma unat_u16_u64: "unat (ucast (v :: u16) :: u64) = unat v"
  by (simp add: unsigned_ucast_eq take_bit_nat_eq_self less_trans [OF unsigned_less [where 'a = nat, of v]])

lemma unat_u32_u64: "unat (ucast (v :: u32) :: u64) = unat v"
  by (simp add: unsigned_ucast_eq take_bit_nat_eq_self less_trans [OF unsigned_less [where 'a = nat, of v]])

lemma bits_tables_le: "a \<le> MaxLL \<Longrightarrow> LL_bits ! a \<le> 16" "c \<le> MaxML \<Longrightarrow> ML_bits ! c \<le> 16"
proof -
  have "list_all (\<lambda>a. LL_bits ! a \<le> 16) [0..<36]" "list_all (\<lambda>a. ML_bits ! a \<le> 16) [0..<53]"
    by (simp_all add: LL_bits_def ML_bits_def upt_unfold)
  then show "a \<le> MaxLL \<Longrightarrow> LL_bits ! a \<le> 16" "c \<le> MaxML \<Longrightarrow> ML_bits ! c \<le> 16"
    unfolding list_all_iff set_upt MaxLL_def MaxML_def by auto
qed

text \<open>The last two fields of a sequence and the offset, with the flush between them.\<close>

lemma writes_extra:
  assumes "fse_writes ex e bs fs k" "a \<le> MaxLL" "b \<le> MaxOff" "c \<le> MaxML"
    "k + (b + ML_bits ! c + LL_bits ! a) < 64 \<or> k \<le> 7 \<and> mid"
    "ex \<Longrightarrow> fields_bits fs + fields_bits (seq_extra sq a b c) \<le> 8 * e"
  defines "bs1 \<equiv> BIT_addBits (BIT_addBits bs (ucast (sd_litLength sq)) (LL_bits ! a)) (ucast (sd_mlBase sq)) (ML_bits ! c)"
  shows "fse_writes ex e (BIT_flushBits (encode_offset lo (if mid then BIT_flushBits bs1 else bs1) (sd_offBase sq) b))
    (fs @ seq_extra sq a b c) 7"
proof -
  note le = bits_tables_le(1) [OF assms(2)] bits_tables_le(2) [OF assms(4)]
  have k: "k + (LL_bits ! a + ML_bits ! c) < 64" using assms(5) le by auto
  have w1: "fse_writes ex e bs1 ((fs @ [(unat (sd_litLength sq) mod 2 ^ (LL_bits ! a), LL_bits ! a)])
      @ [(unat (sd_mlBase sq) mod 2 ^ (ML_bits ! c), ML_bits ! c)]) (k + LL_bits ! a + ML_bits ! c)"
    unfolding bs1_def unat_u16_u64 [symmetric]
    by (intro fse_writes_bits assms(1)) (use k le in auto)
  have fit: "fields_bits ((fs @ [(unat (sd_litLength sq) mod 2 ^ (LL_bits ! a), LL_bits ! a)])
      @ [(unat (sd_mlBase sq) mod 2 ^ (ML_bits ! c), ML_bits ! c)]) + b \<le> 8 * e" if ex
    using assms(6) [OF that] by (simp add: fields_bits_append seq_extra_def)
  have fit': "fields_bits (((fs @ [(unat (sd_litLength sq) mod 2 ^ (LL_bits ! a), LL_bits ! a)])
      @ [(unat (sd_mlBase sq) mod 2 ^ (ML_bits ! c), ML_bits ! c)]) @ [(unat (sd_offBase sq) mod 2 ^ b, b)]) \<le> 8 * e" if ex
    using fit [OF that] by (simp add: fields_bits_append)
  let ?bs2 = "if mid then BIT_flushBits bs1 else bs1" and ?k = "if mid then 7 else k + LL_bits ! a + ML_bits ! c"
  have w2: "fse_writes ex e ?bs2 ((fs @ [(unat (sd_litLength sq) mod 2 ^ (LL_bits ! a), LL_bits ! a)])
      @ [(unat (sd_mlBase sq) mod 2 ^ (ML_bits ! c), ML_bits ! c)]) ?k"
    using w1 writes_flush [OF w1 _ add_leD1 [OF fit]] k by auto
  have kb: "?k + b < 64" using assms(3,5) by (auto simp: MaxOff_def)
  have w3: "fse_writes ex e (BIT_addBits ?bs2 (ucast (sd_offBase sq)) b)
      (((fs @ [(unat (sd_litLength sq) mod 2 ^ (LL_bits ! a), LL_bits ! a)])
      @ [(unat (sd_mlBase sq) mod 2 ^ (ML_bits ! c), ML_bits ! c)]) @ [(unat (sd_offBase sq) mod 2 ^ b, b)]) (?k + b)"
    unfolding unat_u32_u64 [of "sd_offBase sq", symmetric]
    by (rule fse_writes_bits [OF w2 _ kb]) (use assms(3) in \<open>simp add: MaxOff_def\<close>)
  have "encode_offset lo ?bs2 (sd_offBase sq) b = BIT_addBits ?bs2 (ucast (sd_offBase sq)) b"
    using assms(3) by (intro encode_offset_eq) (simp add: MaxOff_def)
  then show ?thesis
    using writes_flush [OF w3 kb fit'] by (simp add: seq_extra_def split del: if_split)
qed

text \<open>The writer holds the fields and the states of a list of sequences.\<close>

definition seq_coded ::
  "bool \<Rightarrow> nat \<Rightarrow> seq_coder \<Rightarrow> seq_coder \<Rightarrow> seq_coder \<Rightarrow> seq_writer \<Rightarrow> seq_item list \<Rightarrow> bool" where
  "seq_coded ex e tL tO tM w items \<longleftrightarrow>
     (\<exists>fs l o' m. enc3 tL tO tM items = (fs, l, o', m) \<and> q_cholds tL (w_stateLitLength w) l \<and>
        q_cholds tO (w_stateOffsetBits w) o' \<and> q_cholds tM (w_stateMatchLength w) m \<and>
        fse_writes ex e (w_blockStream w) fs 7)"

text \<open>The items of the encoder's tables.\<close>

definition seq_item_of :: "SeqDef \<Rightarrow> nat \<Rightarrow> nat \<Rightarrow> nat \<Rightarrow> seq_item" where
  "seq_item_of sq llCode ofCode mlCode = (llCode, ofCode, mlCode, seq_extra sq llCode ofCode mlCode)"

definition codes_in_range :: "nat \<Rightarrow> nat \<Rightarrow> nat \<Rightarrow> bool" where
  "codes_in_range a b c \<longleftrightarrow> a \<le> MaxLL \<and> b \<le> MaxOff \<and> c \<le> MaxML"

lemma encode_first_coded:
  assumes "q_ctable tL ctL" "q_ctable tO ctO" "q_ctable tM ctM" "codes_in_range a b c"
    "item_ok tL tO tM (seq_item_of sq a b c)" "fse_writes ex e bs [] 0"
    "ex \<Longrightarrow> fields_bits (seq_extra sq a b c) \<le> 8 * e"
  shows "seq_coded ex e tL tO tM (encode_first lo ctM ctO ctL bs sq a b c) [seq_item_of sq a b c]"
proof -
  let ?bs = "BIT_addBits (BIT_addBits bs (ucast (sd_litLength sq)) (LL_bits ! a)) (ucast (sd_mlBase sq)) (ML_bits ! c)"
  have r: "a \<le> MaxLL" "b \<le> MaxOff" "c \<le> MaxML" using assms(4) by (auto simp: codes_in_range_def)
  have "b + ML_bits ! c + LL_bits ! a < 64"
    using bits_tables_le(1) [OF r(1)] bits_tables_le(2) [OF r(3)] r(2) by (simp add: MaxOff_def)
  then have "fse_writes ex e (BIT_flushBits (encode_offset lo (if False then BIT_flushBits ?bs else ?bs) (sd_offBase sq) b))
      ([] @ seq_extra sq a b c) 7"
    by (intro writes_extra [OF assms(6) r]) (use assms(7) in auto)
  then show ?thesis
    using assms(1-3,5) q_cholds_init
    by (auto simp: seq_coded_def encode_first_def seq_item_of_def item_ok_def)
qed

lemma encode_step_coded:
  assumes "coders_ok tL tO tM" "codes_in_range a b c" "item_ok tL tO tM (seq_item_of sq a b c)"
    "list_all (item_ok tL tO tM) (i # items)" "seq_coded ex e tL tO tM w (i # items)"
    "ex \<Longrightarrow> fields_bits (fst (enc3 tL tO tM (seq_item_of sq a b c # i # items))) \<le> 8 * e"
  shows "seq_coded ex e tL tO tM (encode_step lo sq a b c w) (seq_item_of sq a b c # i # items)"
proof -
  obtain fs l o' m where e: "enc3 tL tO tM (i # items) = (fs, l, o', m)" and h: "q_cholds tL (w_stateLitLength w) l"
    "q_cholds tO (w_stateOffsetBits w) o'" "q_cholds tM (w_stateMatchLength w) m"
    and w: "fse_writes ex e (w_blockStream w) fs 7"
    using assms(5) by (auto simp: seq_coded_def)
  have st: "l \<in> q_states tL" "o' \<in> q_states tO" "m \<in> q_states tM"
    using enc3_states [OF assms(1) _ assms(4) e] by simp_all
  have r: "a \<le> MaxLL" "b \<le> MaxOff" "c \<le> MaxML" using assms(2) by (auto simp: codes_in_range_def)
  have v: "q_valid tL" "q_valid tO" "q_valid tM" "q_log tL \<le> 9" "q_log tO \<le> 8" "q_log tM \<le> 9"
    and cd: "q_codes tL a" "q_codes tO b" "q_codes tM c"
    using assms(1,3) by (auto simp: coders_ok_def item_ok_def seq_item_of_def LLFSELog_def OffFSELog_def MLFSELog_def)
  obtain bs1 sO where s1: "FSE_encodeSymbol (w_blockStream w) (w_stateOffsetBits w) b = (bs1, sO)"
      "q_cholds tO sO (q_step tO o' b)" "fse_writes ex e bs1 (fs @ [(o' mod 2 ^ q_width tO o' b, q_width tO o' b)]) (7 + 8)"
    using writes_symbol [OF w h(2) cd(2) v(2) st(2) v(5)] by auto
  obtain bs2 sM where s2: "FSE_encodeSymbol bs1 (w_stateMatchLength w) c = (bs2, sM)" "q_cholds tM sM (q_step tM m c)"
      "fse_writes ex e bs2 ((fs @ [(o' mod 2 ^ q_width tO o' b, q_width tO o' b)])
        @ [(m mod 2 ^ q_width tM m c, q_width tM m c)]) (7 + 8 + 9)"
    using writes_symbol [OF s1(3) h(3) cd(3) v(3) st(3) v(6)] by auto
  obtain bs3 sL where s3: "FSE_encodeSymbol bs2 (w_stateLitLength w) a = (bs3, sL)" "q_cholds tL sL (q_step tL l a)"
      "fse_writes ex e bs3 (((fs @ [(o' mod 2 ^ q_width tO o' b, q_width tO o' b)])
        @ [(m mod 2 ^ q_width tM m c, q_width tM m c)]) @ [(l mod 2 ^ q_width tL l a, q_width tL l a)]) (7 + 8 + 9 + 9)"
    using writes_symbol [OF s2(3) h(1) cd(1) v(1) st(1) v(4)] by auto
  let ?gs = "((fs @ [(o' mod 2 ^ q_width tO o' b, q_width tO o' b)])
        @ [(m mod 2 ^ q_width tM m c, q_width tM m c)]) @ [(l mod 2 ^ q_width tL l a, q_width tL l a)]"
  let ?big = "64 - 7 - (LLFSELog + MLFSELog + OffFSELog) \<le> b + ML_bits ! c + LL_bits ! a"
  let ?bs4 = "if ?big then BIT_flushBits bs3 else bs3"
  have fit: "fields_bits ?gs + fields_bits (seq_extra sq a b c) \<le> 8 * e" if ex
    using assms(6) [OF that] e by (simp add: seq_item_of_def fields_bits_append)
  have w4: "fse_writes ex e ?bs4 ?gs (if ?big then 7 else 33)"
    using s3(3) writes_flush [OF s3(3) _ add_leD1 [OF fit]] by simp
  have "fse_writes ex e (w_blockStream (encode_step lo sq a b c w)) (?gs @ seq_extra sq a b c) 7"
    unfolding encode_step_def Let_def s1(1) s2(1) s3(1) prod.case seq_writer.simps
    by (rule writes_extra [OF w4 r _ fit]) (auto simp: LLFSELog_def OffFSELog_def MLFSELog_def)
  then show ?thesis
    using e s1 s2 s3 by (simp add: seq_coded_def seq_item_of_def encode_step_def Let_def)
qed

definition seq_items :: "SeqDef list \<Rightarrow> nat list \<Rightarrow> nat list \<Rightarrow> nat list \<Rightarrow> nat \<Rightarrow> seq_item list" where
  "seq_items sequences ll ofs ml n =
     map (\<lambda>i. seq_item_of (sequences ! i) (ll ! i) (ofs ! i) (ml ! i)) [0..<n]"

lemma enc3_bits_Cons: "fields_bits (fst (enc3 tL tO tM items)) \<le> fields_bits (fst (enc3 tL tO tM (i # items)))"
proof (cases items)
  case (Cons r rs)
  obtain a b c xs where i: "i = (a, b, c, xs)" by (cases i)
  obtain fs l o' m where e: "enc3 tL tO tM (r # rs) = (fs, l, o', m)" by (metis prod_cases4)
  then show ?thesis using Cons by (simp add: i fields_bits_append)
qed simp

lemma enc3_bits_drop: "fields_bits (fst (enc3 tL tO tM (drop n items))) \<le> fields_bits (fst (enc3 tL tO tM items))"
proof (induction n)
  case (Suc n)
  show ?case
  proof (cases "n < length items")
    case True
    then have "drop n items = items ! n # drop (Suc n) items" by (simp add: Cons_nth_drop_Suc)
    then show ?thesis using enc3_bits_Cons [of tL tO tM "drop (Suc n) items" "items ! n"] Suc by simp
  next
    case False
    then show ?thesis using Suc by simp
  qed
qed simp

lemma encode_loop_coded:
  assumes "coders_ok tL tO tM" "N \<noteq> 0"
    "\<forall>i < N. codes_in_range (ll ! i) (ofs ! i) (ml ! i)"
    "list_all (item_ok tL tO tM) (seq_items sequences ll ofs ml N)"
    "ex \<Longrightarrow> fields_bits (fst (enc3 tL tO tM (seq_items sequences ll ofs ml N))) \<le> 8 * e"
    "n < N" "seq_coded ex e tL tO tM w (drop n (seq_items sequences ll ofs ml N))"
  shows "seq_coded ex e tL tO tM (encode_loop lo sequences ll ofs ml n w) (seq_items sequences ll ofs ml N)"
  using assms(6,7)
proof (induction n arbitrary: w)
  case (Suc n)
  let ?items = "seq_items sequences ll ofs ml N" and ?i = "seq_item_of (sequences ! n) (ll ! n) (ofs ! n) (ml ! n)"
  have len: "length ?items = N" by (simp add: seq_items_def)
  have d: "drop n ?items = ?i # ?items ! Suc n # drop (Suc (Suc n)) ?items"
    "drop (Suc n) ?items = ?items ! Suc n # drop (Suc (Suc n)) ?items"
    using Suc.prems(1) len Cons_nth_drop_Suc [of n ?items] Cons_nth_drop_Suc [of "Suc n" ?items]
    by (auto simp: seq_items_def)
  have all: "list_all (item_ok tL tO tM) (drop n ?items)"
    using assms(4) by (auto simp: list_all_iff dest: in_set_dropD)
  have "seq_coded ex e tL tO tM (encode_step lo (sequences ! n) (ll ! n) (ofs ! n) (ml ! n) w) (drop n ?items)"
    unfolding d(1)
  proof (rule encode_step_coded [OF assms(1)])
    show "codes_in_range (ll ! n) (ofs ! n) (ml ! n)" using assms(3) Suc.prems(1) by simp
    show "item_ok tL tO tM ?i" "list_all (item_ok tL tO tM) (?items ! Suc n # drop (Suc (Suc n)) ?items)"
      using all d(1) by simp_all
    show "seq_coded ex e tL tO tM w (?items ! Suc n # drop (Suc (Suc n)) ?items)" using Suc.prems(2) d(2) by simp
    show "fields_bits (fst (enc3 tL tO tM (?i # ?items ! Suc n # drop (Suc (Suc n)) ?items))) \<le> 8 * e" if ex
      using assms(5) [OF that] enc3_bits_drop [of tL tO tM n ?items] unfolding d(1) by simp
  qed
  then show ?case using Suc.IH Suc.prems(1) by simp
qed simp

text \<open>The fields of the whole stream: those of the sequences, then the three states.\<close>

definition stream_fields :: "seq_coder \<Rightarrow> seq_coder \<Rightarrow> seq_coder \<Rightarrow> seq_item list \<Rightarrow> (nat \<times> nat) list" where
  "stream_fields tL tO tM items =
     (let (fs, l, o', m) = enc3 tL tO tM items
      in fs @ [(m mod 2 ^ q_log tM, q_log tM), (o' mod 2 ^ q_log tO, q_log tO), (l mod 2 ^ q_log tL, q_log tL)])"

lemma encodeSequences_writes:
  assumes "coders_ok tL tO tM" "q_ctable tL ctL" "q_ctable tO ctO" "q_ctable tM ctM" "N \<noteq> 0"
    "\<forall>i < N. codes_in_range (ll ! i) (ofs ! i) (ml ! i)"
    "list_all (item_ok tL tO tM) (seq_items sequences ll ofs ml N)" "BIT_initCStream dst = Inr bs"
    "ex \<Longrightarrow> fields_bits (stream_fields tL tO tM (seq_items sequences ll ofs ml N)) \<le> 8 * (length dst - 8)"
  shows "\<exists>bs'. fse_writes ex (length dst - 8) bs' (stream_fields tL tO tM (seq_items sequences ll ofs ml N)) 7 \<and>
    ZSTD_encodeSequences dst ctM ml ctO ofs ctL ll sequences N lo =
      (let (sz, bs) = BIT_closeCStream bs' in if sz = 0 then Inl ZSTD_error_dstSize_tooSmall else Inr (sz, c_buf bs))"
proof -
  let ?items = "seq_items sequences ll ofs ml N" and ?n = "N - 1"
  define e where "e = length dst - 8"
  let ?i = "seq_item_of (sequences ! ?n) (ll ! ?n) (ofs ! ?n) (ml ! ?n)"
  have len: "length ?items = N" by (simp add: seq_items_def)
  have last: "drop ?n ?items = [?i]"
    using assms(5) len Cons_nth_drop_Suc [of ?n ?items] by (simp add: seq_items_def)
  obtain fs l o' m where e3: "enc3 tL tO tM ?items = (fs, l, o', m)" by (metis prod_cases4)
  have fit: "fields_bits fs + q_log tM + q_log tO + q_log tL \<le> 8 * e" if ex
    using assms(9) [OF that] e3 by (simp add: stream_fields_def e_def fields_bits_append)
  have bits: "fields_bits (fst (enc3 tL tO tM ?items)) \<le> 8 * e" if ex using fit [OF that] e3 by simp
  have w0: "fse_writes ex e bs [] 0"
    using assms(8) c_inv_init [OF assms(8)]
    by (auto simp: fse_writes_def c_written_def BIT_initCStream_def e_def split: if_splits)
  have i: "item_ok tL tO tM ?i" using assms(5,7) last by (metis append_take_drop_id list.pred_inject(2) list_all_append)
  have bi: "fields_bits (seq_extra (sequences ! ?n) (ll ! ?n) (ofs ! ?n) (ml ! ?n)) \<le> 8 * e" if ex
    using bits [OF that] enc3_bits_drop [of tL tO tM ?n ?items] unfolding last by (simp add: seq_item_of_def)
  define w where "w = encode_first lo ctM ctO ctL bs (sequences ! ?n) (ll ! ?n) (ofs ! ?n) (ml ! ?n)"
  have "seq_coded ex e tL tO tM w (drop ?n ?items)"
    unfolding w_def last by (rule encode_first_coded [OF assms(2-4) _ i w0 bi]) (use assms(5,6) in simp)
  then have "seq_coded ex e tL tO tM (encode_loop lo sequences ll ofs ml ?n w) ?items"
    by (intro encode_loop_coded [OF assms(1,5-7) bits]) (use assms(5) in auto)
  moreover define w' where "w' = encode_loop lo sequences ll ofs ml ?n w"
  ultimately have h: "q_cholds tL (w_stateLitLength w') l" "q_cholds tO (w_stateOffsetBits w') o'"
      "q_cholds tM (w_stateMatchLength w') m" "fse_writes ex e (w_blockStream w') fs 7"
    using e3 by (auto simp: seq_coded_def)
  have "?items \<noteq> []" using len assms(5) by fastforce
  then have st: "l \<in> q_states tL" "o' \<in> q_states tO" "m \<in> q_states tM"
    using enc3_states [OF assms(1) _ assms(7) e3] by simp_all
  have v: "q_valid tL" "q_valid tO" "q_valid tM" using assms(1) by (auto simp: coders_ok_def)
  let ?b1 = "FSE_flushCState (w_blockStream w') (w_stateMatchLength w')"
  let ?b2 = "FSE_flushCState ?b1 (w_stateOffsetBits w')"
  let ?b3 = "FSE_flushCState ?b2 (w_stateLitLength w')"
  have w1: "fse_writes ex e ?b1 (fs @ [(m mod 2 ^ q_log tM, q_log tM)]) 7"
    by (rule writes_state [OF h(4,3) v(3) st(3)]) (use fit in force)
  have w2: "fse_writes ex e ?b2 ((fs @ [(m mod 2 ^ q_log tM, q_log tM)]) @ [(o' mod 2 ^ q_log tO, q_log tO)]) 7"
    by (rule writes_state [OF w1 h(2) v(2) st(2)]) (use fit in \<open>force simp: fields_bits_append\<close>)
  have "fse_writes ex e ?b3 (((fs @ [(m mod 2 ^ q_log tM, q_log tM)]) @ [(o' mod 2 ^ q_log tO, q_log tO)])
      @ [(l mod 2 ^ q_log tL, q_log tL)]) 7"
    by (rule writes_state [OF w2 h(1) v(1) st(1)]) (use fit in \<open>force simp: fields_bits_append\<close>)
  then show ?thesis
    using assms(8) e3 unfolding e_def [symmetric]
    by (intro exI [of _ ?b3]) (simp add: stream_fields_def ZSTD_encodeSequences_def ZSTD_encodeSequences_body_def Let_def
        w'_def w_def split: prod.splits)
qed

lemma encodeSequences_image:
  assumes "coders_ok tL tO tM" "q_ctable tL ctL" "q_ctable tO ctO" "q_ctable tM ctM" "N \<noteq> 0"
    "\<forall>i < N. codes_in_range (ll ! i) (ofs ! i) (ml ! i)"
    "list_all (item_ok tL tO tM) (seq_items sequences ll ofs ml N)"
    "ZSTD_encodeSequences dst ctM ml ctO ofs ctL ll sequences N lo = Inr (sz, dst')"
  shows "c_image (stream_fields tL tO tM (seq_items sequences ll ofs ml N)) (take sz dst')"
proof -
  obtain bs where bs: "BIT_initCStream dst = Inr bs"
    using assms(8) by (auto simp: ZSTD_encodeSequences_def ZSTD_encodeSequences_body_def split: sum.splits)
  obtain bs' where w: "fse_writes False (length dst - 8) bs' (stream_fields tL tO tM (seq_items sequences ll ofs ml N)) 7"
      "ZSTD_encodeSequences dst ctM ml ctO ofs ctL ll sequences N lo =
        (let (sz, bs) = BIT_closeCStream bs' in if sz = 0 then Inl ZSTD_error_dstSize_tooSmall else Inr (sz, c_buf bs))"
    using encodeSequences_writes [OF assms(1-7) bs, of False] by auto
  obtain s b where c: "BIT_closeCStream bs' = (s, b)" by fastforce
  then have "s \<noteq> 0" "sz = s" "dst' = c_buf b" using assms(8) w(2) by (auto split: if_splits)
  then show ?thesis using fse_writes_image [OF w(1) c] by simp
qed

lemma encodeSequences_fits:
  assumes "coders_ok tL tO tM" "q_ctable tL ctL" "q_ctable tO ctO" "q_ctable tM ctM" "N \<noteq> 0"
    "\<forall>i < N. codes_in_range (ll ! i) (ofs ! i) (ml ! i)"
    "list_all (item_ok tL tO tM) (seq_items sequences ll ofs ml N)"
    "fields_bits (stream_fields tL tO tM (seq_items sequences ll ofs ml N)) + 8 \<le> 8 * (length dst - 8)"
  shows "\<exists>sz dst'. ZSTD_encodeSequences dst ctM ml ctO ofs ctL ll sequences N lo = Inr (sz, dst')"
proof -
  have "\<exists>bs. BIT_initCStream dst = Inr bs" using assms(8) by (cases "length dst \<le> 8") (auto simp: BIT_initCStream_def)
  then obtain bs where bs: "BIT_initCStream dst = Inr bs" ..
  obtain bs' where w: "fse_writes True (length dst - 8) bs' (stream_fields tL tO tM (seq_items sequences ll ofs ml N)) 7"
      "ZSTD_encodeSequences dst ctM ml ctO ofs ctL ll sequences N lo =
        (let (sz, bs) = BIT_closeCStream bs' in if sz = 0 then Inl ZSTD_error_dstSize_tooSmall else Inr (sz, c_buf bs))"
    using encodeSequences_writes [OF assms(1-7) bs, of True] assms(8) by auto
  show ?thesis using fse_writes_close [OF w(1) assms(8)] w(2) by (auto split: prod.splits)
qed

text \<open>Each sequence takes at most 89 bits.\<close>

lemma stream_fields_bound:
  assumes "coders_ok tL tO tM" "N \<noteq> 0" "\<forall>i < N. codes_in_range (ll ! i) (ofs ! i) (ml ! i)"
    "list_all (item_ok tL tO tM) (seq_items sequences ll ofs ml N)"
  shows "fields_bits (stream_fields tL tO tM (seq_items sequences ll ofs ml N)) \<le> 89 * N"
proof -
  have x: "fields_bits (seq_extra sq a b c) \<le> 63" if "codes_in_range a b c" for sq a b c
    using that bits_tables_le(1) [of a] bits_tables_le(2) [of c] by (auto simp: codes_in_range_def seq_extra_def MaxOff_def)
  have logs: "q_log tL \<le> 9" "q_log tO \<le> 8" "q_log tM \<le> 9" "q_valid tL" "q_valid tO" "q_valid tM"
    using assms(1) by (auto simp: coders_ok_def LLFSELog_def OffFSELog_def MLFSELog_def)
  have "fields_bits (fst (enc3 tL tO tM items)) + 26 \<le> 89 * length items"
    if "items \<noteq> []" "list_all (item_ok tL tO tM) items" "\<forall>(a, b, c, xs) \<in> set items. fields_bits xs \<le> 63" for items
    using that
  proof (induction items)
    case (Cons i items)
    obtain a b c xs where i: "i = (a, b, c, xs)" by (cases i)
    show ?case
    proof (cases items)
      case Nil
      then show ?thesis using Cons.prems i by simp
    next
      case (Cons r rs)
      obtain fs l o' m where e: "enc3 tL tO tM items = (fs, l, o', m)" by (metis prod_cases4)
      have st: "l \<in> q_states tL" "o' \<in> q_states tO" "m \<in> q_states tM"
        using enc3_states [OF assms(1) _ _ e] Cons.prems Cons by simp_all
      have c: "q_codes tL a" "q_codes tO b" "q_codes tM c" using Cons.prems i by (auto simp: item_ok_def)
      have "fields_bits fs + 26 \<le> 89 * length items" using Cons.IH Cons.prems Cons e by simp
      moreover have "q_width tL l a \<le> 9" "q_width tO o' b \<le> 8" "q_width tM m c \<le> 9" "fields_bits xs \<le> 63"
        using q_width_log [OF logs(4) c(1) st(1)] q_width_log [OF logs(5) c(2) st(2)]
          q_width_log [OF logs(6) c(3) st(3)] logs Cons.prems i by auto
      ultimately show ?thesis using e Cons i by (simp add: fields_bits_append)
    qed
  qed simp
  moreover have "\<forall>(a, b, c, xs) \<in> set (seq_items sequences ll ofs ml N). fields_bits xs \<le> 63"
    using x assms(3) by (auto simp: seq_items_def seq_item_of_def)
  ultimately have "fields_bits (fst (enc3 tL tO tM (seq_items sequences ll ofs ml N))) + 26 \<le> 89 * N"
    using assms(2,4) by (metis (no_types, lifting) diff_zero length_map length_upt list.size(3) seq_items_def)
  then show ?thesis using logs by (auto simp: stream_fields_def fields_bits_append split: prod.splits)
qed

end
