(* ===== verification/Zstd_SeqOffsets.thy ===== *)
theory Zstd_SeqOffsets
  imports Zstd_SeqStore
begin

text \<open>
  Offsets of sequences (\<open>zstd_compress_internal.h\<close>, \<open>zstd_compress.c\<close>). An offset is stored as a number:
  1 to 3 repeat one of the last three offsets, larger numbers are an offset plus three. The
  theory has the history of repeated offsets, the repair of repeat codes after a block was
  emitted in another way than planned, the choice of the number for an offset, and the operations
  on sequences that come from outside or go there.
\<close>

subsection \<open>Offsets and repeat codes\<close>

definition OFFSET_TO_OFFBASE :: "u32 \<Rightarrow> u32" where "OFFSET_TO_OFFBASE o' = o' + 3"
definition OFFBASE_IS_OFFSET :: "u32 \<Rightarrow> bool" where "OFFBASE_IS_OFFSET o' \<longleftrightarrow> o' > 3"
definition OFFBASE_IS_REPCODE :: "u32 \<Rightarrow> bool" where "OFFBASE_IS_REPCODE o' \<longleftrightarrow> 1 \<le> o' \<and> o' \<le> 3"
definition OFFBASE_TO_OFFSET :: "u32 \<Rightarrow> u32" where "OFFBASE_TO_OFFSET o' = o' - 3"

definition ZSTD_updateRep :: "u32 list \<Rightarrow> u32 \<Rightarrow> nat \<Rightarrow> u32 list" where
  "ZSTD_updateRep rep offBase ll0 =
     (if OFFBASE_IS_OFFSET offBase
      then let rep = rep[2 := rep ! 1]; rep = rep[1 := rep ! 0] in rep[0 := OFFBASE_TO_OFFSET offBase]
      else let repCode = unat offBase - 1 + ll0 in
           if repCode > 0
           then let currentOffset = (if repCode = ZSTD_REP_NUM then rep ! 0 - 1 else rep ! repCode);
                    rep = rep[2 := (if repCode \<ge> 2 then rep ! 1 else rep ! 2)];
                    rep = rep[1 := rep ! 0]
                in rep[0 := currentOffset]
           else rep)"

definition ZSTD_newRep :: "u32 list \<Rightarrow> u32 \<Rightarrow> nat \<Rightarrow> u32 list" where
  "ZSTD_newRep rep offBase ll0 = ZSTD_updateRep rep offBase ll0"

definition ZSTD_resolveRepcodeToRawOffset :: "u32 list \<Rightarrow> u32 \<Rightarrow> nat \<Rightarrow> u32" where
  "ZSTD_resolveRepcodeToRawOffset rep offBase ll0 =
     (let adjustedRepCode = unat offBase - 1 + ll0
      in if adjustedRepCode = ZSTD_REP_NUM then rep ! 0 - 1 else rep ! adjustedRepCode)"

fun resolve_loop :: "nat \<Rightarrow> u32 list \<Rightarrow> u32 list \<Rightarrow> nat \<Rightarrow> SeqDef list \<Rightarrow> SeqDef list \<times> u32 list \<times> u32 list" where
  "resolve_loop longLitLenIdx dRep cRep idx [] = ([], dRep, cRep)"
| "resolve_loop longLitLenIdx dRep cRep idx (sq # sqs) =
     (let ll0 = of_bool (sd_litLength sq = 0 \<and> idx \<noteq> longLitLenIdx);
          offBase = sd_offBase sq;
          sq' = (if OFFBASE_IS_REPCODE offBase
                 then let dRawOffset = ZSTD_resolveRepcodeToRawOffset dRep offBase ll0;
                          cRawOffset = ZSTD_resolveRepcodeToRawOffset cRep offBase ll0
                      in if dRawOffset \<noteq> cRawOffset then sq\<lparr>sd_offBase := OFFSET_TO_OFFBASE cRawOffset\<rparr> else sq
                 else sq);
          dRep = ZSTD_updateRep dRep (sd_offBase sq') ll0;
          cRep = ZSTD_updateRep cRep offBase ll0;
          (sqs', dRep, cRep) = resolve_loop longLitLenIdx dRep cRep (idx + 1) sqs
      in (sq' # sqs', dRep, cRep))"

definition ZSTD_seqStore_resolveOffCodes :: "u32 list \<Rightarrow> u32 list \<Rightarrow> SeqStore_t \<Rightarrow> u32 list \<times> u32 list \<times> SeqStore_t" where
  "ZSTD_seqStore_resolveOffCodes dRepcodes cRepcodes ss =
     (let nbSeq = length (ss_sequences ss);
          longLitLenIdx = (if ss_longLengthType ss = ZSTD_llt_literalLength then ss_longLengthPos ss else nbSeq);
          (sqs, d, c) = resolve_loop longLitLenIdx dRepcodes cRepcodes 0 (ss_sequences ss)
      in (d, c, ss\<lparr>ss_sequences := sqs\<rparr>))"

definition ZSTD_finalizeOffBase :: "u32 \<Rightarrow> u32 list \<Rightarrow> nat \<Rightarrow> u32" where
  "ZSTD_finalizeOffBase rawOffset rep ll0 =
     (if ll0 = 0 \<and> rawOffset = rep ! 0 then 1
      else if rawOffset = rep ! 1 then of_nat (2 - ll0)
      else if rawOffset = rep ! 2 then of_nat (3 - ll0)
      else if ll0 \<noteq> 0 \<and> rawOffset = rep ! 0 - 1 then 3
      else OFFSET_TO_OFFBASE rawOffset)"

subsection \<open>Sequences from outside\<close>

record ZSTD_Sequence =
  zs_offset :: u32
  zs_litLength :: u32
  zs_matchLength :: u32
  zs_rep :: u32

definition ZSTD_sequenceBound :: "nat \<Rightarrow> nat" where
  "ZSTD_sequenceBound srcSize =
     (let maxNbSeq = srcSize div ZSTD_MINMATCH_MIN + 1; maxNbDelims = srcSize div ZSTD_BLOCKSIZE_MAX_MIN + 1
      in maxNbSeq + maxNbDelims)"

text \<open>The sequences of a store, with their offsets resolved, for the caller of \<open>ZSTD_generateSequences\<close>;
  \<open>room\<close> is what is left of the caller's array.\<close>

fun copy_sequences :: "SeqStore_t \<Rightarrow> u32 list \<Rightarrow> nat \<Rightarrow> SeqDef list \<Rightarrow> ZSTD_Sequence list" where
  "copy_sequences ss rep i [] = []"
| "copy_sequences ss rep i (sq # sqs) =
     (let litLength = ucast (sd_litLength sq) :: u32; matchLength = ucast (sd_mlBase sq) + of_nat MINMATCH :: u32;
          litLength = (if i = ss_longLengthPos ss \<and> ss_longLengthType ss = ZSTD_llt_literalLength
                       then litLength + 0x10000 else litLength);
          matchLength = (if i = ss_longLengthPos ss \<and> ss_longLengthType ss = ZSTD_llt_matchLength
                         then matchLength + 0x10000 else matchLength);
          offBase = sd_offBase sq;
          rawOffset = (if OFFBASE_IS_REPCODE offBase
            then if litLength \<noteq> 0 then rep ! (unat offBase - 1)
                 else if offBase = 3 then rep ! 0 - 1 else rep ! unat offBase
            else OFFBASE_TO_OFFSET offBase);
          out = \<lparr>zs_offset = rawOffset, zs_litLength = litLength, zs_matchLength = matchLength,
                 zs_rep = (if OFFBASE_IS_REPCODE offBase then offBase else 0)\<rparr>;
          rep = ZSTD_updateRep rep offBase (of_bool (sd_litLength sq = 0))
      in out # copy_sequences ss rep (i + 1) sqs)"

definition ZSTD_copyBlockSequences :: "nat \<Rightarrow> SeqStore_t \<Rightarrow> u32 list \<Rightarrow> ZSTD_Sequence list res" where
  "ZSTD_copyBlockSequences room ss prevRepcodes =
     (let nbInLiterals = ss_lit ss - ss_litStart ss in
      if length (ss_sequences ss) + 1 > room then Inl ZSTD_error_dstSize_tooSmall
      else let outSeqs = copy_sequences ss prevRepcodes 0 (ss_sequences ss);
               nbOutLiterals = sum_list (map (unat \<circ> zs_litLength) outSeqs);
               lastLLSize = nbInLiterals - nbOutLiterals
           in Inr (outSeqs @ [\<lparr>zs_offset = 0, zs_litLength = of_nat lastLLSize, zs_matchLength = 0, zs_rep = 0\<rparr>]))"

text \<open>Block delimiters are taken out, their literals added to the next sequence; \<open>out\<close> are the
  sequences kept so far.\<close>

fun merge_loop :: "ZSTD_Sequence list \<Rightarrow> ZSTD_Sequence list \<Rightarrow> ZSTD_Sequence list" where
  "merge_loop out [] = out"
| "merge_loop out (sq # sqs) =
     (if zs_offset sq = 0 \<and> zs_matchLength sq = 0
      then case sqs of [] \<Rightarrow> out
           | nx # rest \<Rightarrow> merge_loop out (nx\<lparr>zs_litLength := zs_litLength nx + zs_litLength sq\<rparr> # rest)
      else merge_loop (out @ [sq]) sqs)"

definition ZSTD_mergeBlockDelimiters :: "ZSTD_Sequence list \<Rightarrow> ZSTD_Sequence list" where
  "ZSTD_mergeBlockDelimiters sequences = merge_loop [] sequences"

definition ZSTD_validateSequence :: "u32 \<Rightarrow> nat \<Rightarrow> nat \<Rightarrow> nat \<Rightarrow> nat \<Rightarrow> nat \<Rightarrow> bool \<Rightarrow> unit res" where
  "ZSTD_validateSequence offBase matchLength min_match posInSrc window_log dictSize useSequenceProducer =
     (let windowSize = 2 ^ window_log;
          offsetBound = (if posInSrc > windowSize then windowSize else posInSrc + dictSize);
          matchLenLowerBound = (if min_match = 3 \<or> useSequenceProducer then 3 else 4) in
      if unat offBase > offsetBound + 3 then Inl ZSTD_error_externalSequences_invalid
      else if matchLength < matchLenLowerBound then Inl ZSTD_error_externalSequences_invalid
      else Inr ())"

text \<open>The size of the block up to the next delimiter. The two lengths of a sequence are added in 32
  bits.\<close>

fun explicit_size :: "nat \<Rightarrow> ZSTD_Sequence list \<Rightarrow> nat res" where
  "explicit_size blockSize [] = Inl ZSTD_error_externalSequences_invalid"
| "explicit_size blockSize (sq # sqs) =
     (let blockSize = blockSize + unat (zs_litLength sq + zs_matchLength sq) in
      if zs_offset sq = 0
      then if zs_matchLength sq \<noteq> 0 then Inl ZSTD_error_externalSequences_invalid else Inr blockSize
      else explicit_size blockSize sqs)"

definition blockSize_explicitDelimiter :: "ZSTD_Sequence list \<Rightarrow> nat \<Rightarrow> nat res" where
  "blockSize_explicitDelimiter inSeqs idx = explicit_size 0 (drop idx inSeqs)"

datatype ZSTD_SequenceFormat_e = ZSTD_sf_noBlockDelimiters | ZSTD_sf_explicitBlockDelimiters

definition determine_blockSize :: "ZSTD_SequenceFormat_e \<Rightarrow> nat \<Rightarrow> nat \<Rightarrow> ZSTD_Sequence list \<Rightarrow> nat \<Rightarrow> nat res" where
  "determine_blockSize mode blockSize remaining inSeqs idx =
     (if mode = ZSTD_sf_noBlockDelimiters then Inr (min remaining blockSize)
      else bind_res (blockSize_explicitDelimiter inSeqs idx) (\<lambda>explicitBlockSize.
             if explicitBlockSize > blockSize then Inl ZSTD_error_externalSequences_invalid
             else if explicitBlockSize > remaining then Inl ZSTD_error_externalSequences_invalid
             else Inr explicitBlockSize))"

definition ZSTD_fastSequenceLengthSum :: "ZSTD_Sequence list \<Rightarrow> nat" where
  "ZSTD_fastSequenceLengthSum seqBuf =
     (sum_list (map (unat \<circ> zs_litLength) seqBuf) + sum_list (map (unat \<circ> zs_matchLength) seqBuf)) mod 2 ^ 64"

definition ZSTD_postProcessSequenceProducerResult :: "ZSTD_Sequence list \<Rightarrow> nat \<Rightarrow> nat \<Rightarrow> nat \<Rightarrow> (ZSTD_Sequence list \<times> nat) res" where
  "ZSTD_postProcessSequenceProducerResult outSeqs nbExternalSeqs outSeqsCapacity srcSize =
     (let delim = \<lparr>zs_offset = 0, zs_litLength = 0, zs_matchLength = 0, zs_rep = 0\<rparr> in
      if nbExternalSeqs > outSeqsCapacity then Inl ZSTD_error_sequenceProducer_failed
      else if nbExternalSeqs = 0 \<and> srcSize > 0 then Inl ZSTD_error_sequenceProducer_failed
      else if srcSize = 0 then Inr (outSeqs[0 := delim], 1)
      else let lastSeq = outSeqs ! (nbExternalSeqs - 1) in
           if zs_offset lastSeq = 0 \<and> zs_matchLength lastSeq = 0 then Inr (outSeqs, nbExternalSeqs)
           else if nbExternalSeqs = outSeqsCapacity then Inl ZSTD_error_sequenceProducer_failed
           else Inr (outSeqs[nbExternalSeqs := delim], nbExternalSeqs + 1))"

text \<open>What the transfer reads of the compression context.\<close>

record transfer_env =
  te_dictSize :: nat
  te_validateSequences :: bool
  te_minMatch :: nat
  te_windowLog :: nat
  te_hasExtSeqProd :: bool
  te_repSearch :: bool
  te_prevRep :: "u32 list"

text \<open>The loop up to the block delimiter; \<open>n\<close> counts the sequences stored. It returns what follows
  the stored sequences.\<close>

fun transfer_loop ::
  "transfer_env \<Rightarrow> bytes \<Rightarrow> SeqStore_t \<Rightarrow> u32 list \<Rightarrow> nat \<Rightarrow> nat \<Rightarrow> nat \<Rightarrow> nat \<Rightarrow> ZSTD_Sequence list \<Rightarrow>
   (bytes \<times> SeqStore_t \<times> u32 list \<times> nat \<times> nat \<times> nat \<times> ZSTD_Sequence list) res" where
  "transfer_loop te mem ss rep posInSrc ip iend n [] = Inr (mem, ss, rep, posInSrc, ip, n, [])"
| "transfer_loop te mem ss rep posInSrc ip iend n (sq # sqs) =
     (if zs_matchLength sq = 0 \<and> zs_offset sq = 0 then Inr (mem, ss, rep, posInSrc, ip, n, sq # sqs)
      else let litLength = unat (zs_litLength sq); matchLength = unat (zs_matchLength sq);
               ll0 = of_bool (litLength = 0);
               offBase = (if te_repSearch te then ZSTD_finalizeOffBase (zs_offset sq) rep ll0
                          else OFFSET_TO_OFFBASE (zs_offset sq));
               rep = (if te_repSearch te then ZSTD_updateRep rep offBase ll0 else rep);
               posInSrc = (if te_validateSequences te then posInSrc + unat (zs_litLength sq + zs_matchLength sq) else posInSrc) in
           bind_res (if te_validateSequences te
                     then ZSTD_validateSequence offBase matchLength (te_minMatch te) posInSrc (te_windowLog te)
                            (te_dictSize te) (te_hasExtSeqProd te)
                     else Inr ())
             (\<lambda>_. if n \<ge> ss_maxNbSeq ss then Inl ZSTD_error_externalSequences_invalid
                   else let (mem, ss) = ZSTD_storeSeq mem ss litLength ip iend offBase matchLength
                        in transfer_loop te mem ss rep posInSrc (ip + unat (zs_matchLength sq + zs_litLength sq)) iend (n + 1) sqs))"

text \<open>Without the search for repeat codes the history is made up at the end from the last offsets.\<close>

definition rep_from_offsets :: "u32 list \<Rightarrow> u32 list \<Rightarrow> u32 list" where
  "rep_from_offsets rep offs =
     (let k = length offs in
      if k \<ge> 3 then [offs ! (k - 1), offs ! (k - 2), offs ! (k - 3)]
      else if k = 2 then [offs ! 1, offs ! 0, rep ! 0]
      else if k = 1 then [offs ! 0, rep ! 0, rep ! 1]
      else rep)"

definition ZSTD_transferSequences_wBlockDelim ::
  "transfer_env \<Rightarrow> bytes \<Rightarrow> SeqStore_t \<Rightarrow> nat \<Rightarrow> ZSTD_Sequence list \<Rightarrow> nat \<Rightarrow> nat \<Rightarrow>
   (bytes \<times> SeqStore_t \<times> u32 list \<times> nat \<times> nat) res" where
  "ZSTD_transferSequences_wBlockDelim te mem ss posInSrc inSeqs src blockSize =
     bind_res (transfer_loop te mem ss (te_prevRep te) posInSrc src (src + blockSize) 0 inSeqs)
       (\<lambda>(mem, ss, rep, posInSrc, ip, n, rest).
          case rest of [] \<Rightarrow> Inl ZSTD_error_externalSequences_invalid
          | delim # _ \<Rightarrow>
              let rep = (if te_repSearch te then rep
                         else rep_from_offsets rep (map zs_offset (take n inSeqs)));
                  lastLits = unat (zs_litLength delim);
                  (mem, ss) = (if lastLits \<noteq> 0 then ZSTD_storeLastLiterals mem ss ip lastLits else (mem, ss));
                  ip = ip + lastLits; posInSrc = posInSrc + lastLits
              in if ip \<noteq> src + blockSize then Inl ZSTD_error_externalSequences_invalid
                 else Inr (mem, ss, rep, posInSrc, n + 1))"


subsection \<open>The history of offsets\<close>

text \<open>The offset a number stands for, given the history.\<close>

definition raw_offset :: "u32 list \<Rightarrow> u32 \<Rightarrow> nat \<Rightarrow> u32" where
  "raw_offset rep offBase ll0 =
     (if OFFBASE_IS_OFFSET offBase then OFFBASE_TO_OFFSET offBase else ZSTD_resolveRepcodeToRawOffset rep offBase ll0)"

fun raw_offsets :: "u32 list \<Rightarrow> (u32 \<times> nat) list \<Rightarrow> u32 list" where
  "raw_offsets rep [] = []"
| "raw_offsets rep ((offBase, ll0) # r) = raw_offset rep offBase ll0 # raw_offsets (ZSTD_updateRep rep offBase ll0) r"

fun final_rep :: "u32 list \<Rightarrow> (u32 \<times> nat) list \<Rightarrow> u32 list" where
  "final_rep rep [] = rep"
| "final_rep rep ((offBase, ll0) # r) = final_rep (ZSTD_updateRep rep offBase ll0) r"

definition offset_ok :: "u32 \<Rightarrow> bool" where
  "offset_ok off \<longleftrightarrow> 0 < unat off \<and> unat off < 2 ^ 32 - 3"

lemma rep3E:
  assumes "length (rep :: u32 list) = 3"
  obtains a b c where "rep = [a, b, c]"
  using assms by (auto simp: length_Suc_conv eval_nat_numeral)

lemma length_updateRep [simp]: "length (ZSTD_updateRep rep offBase ll0) = length rep"
  by (simp add: ZSTD_updateRep_def Let_def)

lemma OFFSET_TO_OFFBASE_offset:
  assumes "offset_ok off"
  shows "OFFBASE_IS_OFFSET (OFFSET_TO_OFFBASE off)" "OFFBASE_TO_OFFSET (OFFSET_TO_OFFBASE off) = off"
    "OFFSET_TO_OFFBASE off \<noteq> 0"
proof -
  have "unat (off + 3) = unat off + 3" using assms by (subst unat_plus_simple [THEN iffD1])
      (simp_all add: offset_ok_def no_olen_add_nat)
  then show "OFFBASE_IS_OFFSET (OFFSET_TO_OFFBASE off)" "OFFSET_TO_OFFBASE off \<noteq> 0"
    using assms by (auto simp: OFFBASE_IS_OFFSET_def OFFSET_TO_OFFBASE_def word_less_nat_alt offset_ok_def unat_eq_zero)
qed (simp add: OFFBASE_TO_OFFSET_def OFFSET_TO_OFFBASE_def)

lemma repcode_cases:
  assumes "offBase \<noteq> 0" "\<not> OFFBASE_IS_OFFSET offBase"
  shows "offBase = 1 \<or> offBase = 2 \<or> offBase = 3"
proof -
  have "unat offBase \<le> 3" "unat offBase \<noteq> 0"
    using assms by (auto simp: OFFBASE_IS_OFFSET_def word_less_nat_alt unat_eq_zero)
  then have "unat offBase \<in> {1, 2, 3}" by auto
  then show ?thesis by (auto simp: word_unat_eq_iff)
qed

lemma is_repcode_iff: "offBase \<noteq> 0 \<Longrightarrow> OFFBASE_IS_REPCODE offBase \<longleftrightarrow> \<not> OFFBASE_IS_OFFSET offBase"
  using unat_eq_zero [of offBase]
  by (auto simp: OFFBASE_IS_REPCODE_def OFFBASE_IS_OFFSET_def word_le_nat_alt word_less_nat_alt Suc_le_eq not_less)

text \<open>After a sequence its offset is the first of the history.\<close>

lemma updateRep_first:
  assumes "length rep = 3" "offBase \<noteq> 0" "ll0 \<le> 1"
  shows "ZSTD_updateRep rep offBase ll0 ! 0 = raw_offset rep offBase ll0"
proof -
  obtain a b c where r: "rep = [a, b, c]" using assms(1) by (rule rep3E)
  have "ll0 = 0 \<or> ll0 = 1" using assms(3) by auto
  then show ?thesis using repcode_cases [OF assms(2)]
    by (cases "OFFBASE_IS_OFFSET offBase")
      (auto simp: r ZSTD_updateRep_def raw_offset_def ZSTD_resolveRepcodeToRawOffset_def Let_def ZSTD_REP_NUM_def)
qed

subsection \<open>Repairing repeat codes\<close>

text \<open>The numbers in a store, each with the flag that its sequence has no literals.\<close>

fun numbers :: "nat \<Rightarrow> nat \<Rightarrow> SeqDef list \<Rightarrow> (u32 \<times> nat) list" where
  "numbers longLitLenIdx i [] = []"
| "numbers longLitLenIdx i (sq # sqs) =
     (sd_offBase sq, of_bool (sd_litLength sq = 0 \<and> i \<noteq> longLitLenIdx)) # numbers longLitLenIdx (i + 1) sqs"

definition store_numbers :: "SeqStore_t \<Rightarrow> (u32 \<times> nat) list" where
  "store_numbers ss = numbers
     (if ss_longLengthType ss = ZSTD_llt_literalLength then ss_longLengthPos ss else length (ss_sequences ss))
     0 (ss_sequences ss)"

lemma resolved_number:
  assumes "offBase \<noteq> 0" "offset_ok (raw_offset c offBase ll0)"
  shows "raw_offset d (if OFFBASE_IS_REPCODE offBase
      then let dRawOffset = ZSTD_resolveRepcodeToRawOffset d offBase ll0;
               cRawOffset = ZSTD_resolveRepcodeToRawOffset c offBase ll0
           in if dRawOffset \<noteq> cRawOffset then OFFSET_TO_OFFBASE cRawOffset else offBase
      else offBase) ll0 = raw_offset c offBase ll0"
  using assms OFFSET_TO_OFFBASE_offset [of "raw_offset c offBase ll0"]
  by (cases "OFFBASE_IS_OFFSET offBase") (simp_all add: raw_offset_def Let_def is_repcode_iff)

lemma resolve_loop_sound:
  assumes "\<forall>sq \<in> set sqs. sd_offBase sq \<noteq> 0" "\<forall>off \<in> set (raw_offsets c (numbers L i sqs)). offset_ok off"
    "resolve_loop L d c i sqs = (sqs', d', c')"
  shows "raw_offsets d (numbers L i sqs') = raw_offsets c (numbers L i sqs)
    \<and> d' = final_rep d (numbers L i sqs') \<and> c' = final_rep c (numbers L i sqs)
    \<and> map (\<lambda>sq. (sd_litLength sq, sd_mlBase sq)) sqs' = map (\<lambda>sq. (sd_litLength sq, sd_mlBase sq)) sqs"
  using assms
proof (induct sqs arbitrary: d c i sqs' d' c')
  case (Cons sq sqs)
  define ll0 :: nat where "ll0 = of_bool (sd_litLength sq = 0 \<and> i \<noteq> L)"
  define ob' where "ob' = (if OFFBASE_IS_REPCODE (sd_offBase sq)
      then let dRawOffset = ZSTD_resolveRepcodeToRawOffset d (sd_offBase sq) ll0;
               cRawOffset = ZSTD_resolveRepcodeToRawOffset c (sd_offBase sq) ll0
           in if dRawOffset \<noteq> cRawOffset then OFFSET_TO_OFFBASE cRawOffset else sd_offBase sq
      else sd_offBase sq)"
  obtain t' d1 c1 where t: "resolve_loop L (ZSTD_updateRep d ob' ll0) (ZSTD_updateRep c (sd_offBase sq) ll0) (i + 1) sqs = (t', d1, c1)"
    by (metis prod_cases3)
  have r: "sqs' = sq\<lparr>sd_offBase := ob'\<rparr> # t'" "d' = d1" "c' = c1"
    using Cons.prems(3) t by (auto simp: ob'_def ll0_def Let_def split: if_splits)
  have "raw_offset d ob' ll0 = raw_offset c (sd_offBase sq) ll0"
    unfolding ob'_def by (rule resolved_number) (use Cons.prems in \<open>auto simp: ll0_def\<close>)
  moreover note Cons.hyps [OF _ _ t]
  ultimately show ?case using Cons.prems by (simp add: r ll0_def [symmetric])
qed auto

text \<open>
  C33. After a block was emitted raw or run-length coded, the decoder's history of offsets is not the
  one the match finder assumed. \<open>ZSTD_seqStore_resolveOffCodes\<close> repairs the sequences found under the
  assumed history \<open>c\<close>: decoded with the decoder's actual history \<open>d\<close>, the repaired sequences give the
  offsets the match finder meant, whatever the two histories are; lengths are
  untouched, and the two histories returned are those after these sequences.
\<close>

theorem resolveOffCodes_sound:
  assumes "\<forall>sq \<in> set (ss_sequences ss). sd_offBase sq \<noteq> 0"
    "\<forall>off \<in> set (raw_offsets c (store_numbers ss)). offset_ok off"
    "ZSTD_seqStore_resolveOffCodes d c ss = (d', c', ss')"
  shows "raw_offsets d (store_numbers ss') = raw_offsets c (store_numbers ss)
    \<and> d' = final_rep d (store_numbers ss') \<and> c' = final_rep c (store_numbers ss)
    \<and> map (\<lambda>sq. (sd_litLength sq, sd_mlBase sq)) (ss_sequences ss')
      = map (\<lambda>sq. (sd_litLength sq, sd_mlBase sq)) (ss_sequences ss)"
proof -
  define L where "L = (if ss_longLengthType ss = ZSTD_llt_literalLength then ss_longLengthPos ss else length (ss_sequences ss))"
  obtain sqs' where r: "resolve_loop L d c 0 (ss_sequences ss) = (sqs', d', c')" "ss' = ss\<lparr>ss_sequences := sqs'\<rparr>"
    using assms(3) by (auto simp: ZSTD_seqStore_resolveOffCodes_def Let_def L_def split: prod.splits)
  note s = resolve_loop_sound [OF assms(1) _ r(1)]
  have L: "store_numbers ss = numbers L 0 (ss_sequences ss)" by (simp add: store_numbers_def L_def)
  then have "map (\<lambda>sq. (sd_litLength sq, sd_mlBase sq)) sqs' = map (\<lambda>sq. (sd_litLength sq, sd_mlBase sq)) (ss_sequences ss)"
    using s assms(2) by simp
  from arg_cong [OF this, of length] have "length sqs' = length (ss_sequences ss)" by simp
  then have "store_numbers ss' = numbers L 0 sqs'" by (simp add: store_numbers_def L_def r(2))
  then show ?thesis using s assms(2) L r(2) by simp
qed

theorem resolveOffCodes_sound_witness:
  "raw_offsets [5, 6, 7] (store_numbers (snd (snd (ZSTD_seqStore_resolveOffCodes [5, 6, 7] [1, 4, 8]
      \<lparr>ss_sequences = [\<lparr>sd_offBase = 1, sd_litLength = 2, sd_mlBase = 0\<rparr>, \<lparr>sd_offBase = 2, sd_litLength = 3, sd_mlBase = 1\<rparr>],
        ss_litStart = 0, ss_lit = 5, ss_llCode = [], ss_mlCode = [], ss_ofCode = [],
        ss_maxNbSeq = 10, ss_maxNbLit = 16, ss_longLengthType = ZSTD_llt_none, ss_longLengthPos = 0\<rparr>)))) = [1, 4]"
  using resolveOffCodes_sound [of "\<lparr>ss_sequences = [\<lparr>sd_offBase = 1, sd_litLength = 2, sd_mlBase = 0\<rparr>, \<lparr>sd_offBase = 2, sd_litLength = 3, sd_mlBase = 1\<rparr>],
        ss_litStart = 0, ss_lit = 5, ss_llCode = [], ss_mlCode = [], ss_ofCode = [],
        ss_maxNbSeq = 10, ss_maxNbLit = 16, ss_longLengthType = ZSTD_llt_none, ss_longLengthPos = 0\<rparr>" "[1, 4, 8]" "[5, 6, 7]",
      OF _ _ prod.collapse [symmetric, THEN trans, OF arg_cong [where f = "Pair _", OF prod.collapse [symmetric]]]]
  by (simp add: store_numbers_def raw_offset_def offset_ok_def OFFBASE_IS_OFFSET_def ZSTD_resolveRepcodeToRawOffset_def
      ZSTD_updateRep_def Let_def ZSTD_REP_NUM_def)

subsection \<open>Choosing a number\<close>

lemma finalizeOffBase_sound:
  assumes "length rep = 3" "ll0 \<le> 1" "offset_ok raw"
  shows "raw_offset rep (ZSTD_finalizeOffBase raw rep ll0) ll0 = raw" "ZSTD_finalizeOffBase raw rep ll0 \<noteq> 0"
proof -
  obtain a b c where r: "rep = [a, b, c]" using assms(1) by (rule rep3E)
  have l: "ll0 = 0 \<or> ll0 = 1" using assms(2) by auto
  show "raw_offset rep (ZSTD_finalizeOffBase raw rep ll0) ll0 = raw"
    using l OFFSET_TO_OFFBASE_offset [OF assms(3)]
    by (auto simp: r ZSTD_finalizeOffBase_def raw_offset_def ZSTD_resolveRepcodeToRawOffset_def
        OFFBASE_IS_OFFSET_def ZSTD_REP_NUM_def Let_def)
  show "ZSTD_finalizeOffBase raw rep ll0 \<noteq> 0"
    using l OFFSET_TO_OFFBASE_offset(3) [OF assms(3)] by (auto simp: ZSTD_finalizeOffBase_def)
qed

subsection \<open>Transfer of sequences\<close>

text \<open>The lengths and numbers under which a list of sequences is stored.\<close>

fun assign :: "bool \<Rightarrow> u32 list \<Rightarrow> ZSTD_Sequence list \<Rightarrow> (nat \<times> u32 \<times> nat) list" where
  "assign rs rep [] = []"
| "assign rs rep (sq # sqs) =
     (let ll = unat (zs_litLength sq); ll0 = of_bool (ll = 0);
          ob = (if rs then ZSTD_finalizeOffBase (zs_offset sq) rep ll0 else OFFSET_TO_OFFBASE (zs_offset sq))
      in (ll, ob, unat (zs_matchLength sq)) # assign rs (ZSTD_updateRep rep ob ll0) sqs)"

definition nums :: "(nat \<times> u32 \<times> nat) list \<Rightarrow> (u32 \<times> nat) list" where
  "nums = map (\<lambda>(ll, ob, ml). (ob, of_bool (ll = 0)))"

lemma assign_offsets:
  "length rep = 3 \<Longrightarrow> \<forall>sq \<in> set sqs. offset_ok (zs_offset sq) \<Longrightarrow>
   raw_offsets rep (nums (assign rs rep sqs)) = map zs_offset sqs
   \<and> list_all (\<lambda>(ll, ob, ml). ob \<noteq> 0) (assign rs rep sqs)"
proof (induct sqs arbitrary: rep)
  case (Cons sq sqs)
  define ll0 :: nat where "ll0 = of_bool (unat (zs_litLength sq) = 0)"
  have ok: "offset_ok (zs_offset sq)" "ll0 \<le> 1" using Cons.prems by (auto simp: ll0_def)
  have "raw_offset rep (OFFSET_TO_OFFBASE (zs_offset sq)) ll0 = zs_offset sq"
    using OFFSET_TO_OFFBASE_offset [OF ok(1)] by (simp add: raw_offset_def)
  then show ?case
    using finalizeOffBase_sound [OF Cons.prems(1) ok(2,1)] OFFSET_TO_OFFBASE_offset(3) [OF ok(1)] Cons
    by (simp add: nums_def Let_def ll0_def [symmetric])
qed (simp add: nums_def)

lemma assign_False: "assign False rep sqs = assign False rep' sqs"
  by (induct sqs arbitrary: rep rep') (auto simp: Let_def)

lemma storeSeqOnly_lit:
  "ZSTD_storeSeqOnly (ss\<lparr>ss_lit := l\<rparr>) ll ob ml = (ZSTD_storeSeqOnly ss ll ob ml)\<lparr>ss_lit := l\<rparr>"
  by (simp add: ZSTD_storeSeqOnly_def Let_def)

lemma store_all_lit: "store_all (ss\<lparr>ss_lit := l\<rparr>) sqs = (store_all ss sqs)\<lparr>ss_lit := l\<rparr>"
  by (induct sqs arbitrary: ss) (auto simp: store_all_def storeSeqOnly_lit)

lemma store_all_Cons: "store_all ss ((ll, ob, ml) # sqs) = store_all (ZSTD_storeSeqOnly ss ll ob ml) sqs"
  by (simp add: store_all_def)

text \<open>The loop stores a first part of the list; what is left is empty or begins with a delimiter.\<close>

lemma transfer_loop_stores:
  "transfer_loop te mem ss rep pos ip iend n sqs = Inr (mem', ss', rep', pos', ip', n', rest) \<Longrightarrow>
   \<exists>done l. sqs = done @ rest \<and> n' = n + length done
     \<and> ss' = (store_all ss (assign (te_repSearch te) rep done))\<lparr>ss_lit := l\<rparr>
     \<and> rep' = (if te_repSearch te then final_rep rep (nums (assign True rep done)) else rep)
     \<and> ip' = ip + sum_list (map (\<lambda>sq. unat (zs_matchLength sq + zs_litLength sq)) done)
     \<and> (case rest of [] \<Rightarrow> True | d # _ \<Rightarrow> zs_matchLength d = 0 \<and> zs_offset d = 0)"
proof (induct sqs arbitrary: mem ss rep pos ip n)
  case Nil
  then show ?case by (intro exI [of _ "[]"] exI [of _ "ss_lit ss"]) (auto simp: store_all_def nums_def)
next
  case (Cons sq sqs)
  show ?case
  proof (cases "zs_matchLength sq = 0 \<and> zs_offset sq = 0")
    case True
    then show ?thesis using Cons.prems
      by (intro exI [of _ "[]"] exI [of _ "ss_lit ss"]) (auto simp: store_all_def nums_def)
  next
    case False
    define ll where "ll = unat (zs_litLength sq)"
    define ml where "ml = unat (zs_matchLength sq)"
    define ob where "ob = (if te_repSearch te then ZSTD_finalizeOffBase (zs_offset sq) rep (of_bool (ll = 0))
      else OFFSET_TO_OFFBASE (zs_offset sq))"
    define rep1 where "rep1 = (if te_repSearch te then ZSTD_updateRep rep ob (of_bool (ll = 0)) else rep)"
    obtain mem1 pos1 where "transfer_loop te mem1 (ZSTD_storeSeqOnly (ss\<lparr>ss_lit := ss_lit ss + ll\<rparr>) ll ob ml) rep1 pos1
        (ip + unat (zs_matchLength sq + zs_litLength sq)) iend (n + 1) sqs = Inr (mem', ss', rep', pos', ip', n', rest)"
      using Cons.prems False
      by (auto simp: Let_def ZSTD_storeSeq_def ll_def ml_def ob_def rep1_def split: if_splits sum.splits elim!: bind_res_InrE)
    from Cons.hyps [OF this] obtain dn l where d: "sqs = dn @ rest" "n' = n + 1 + length dn"
      "ss' = (store_all (ZSTD_storeSeqOnly (ss\<lparr>ss_lit := ss_lit ss + ll\<rparr>) ll ob ml) (assign (te_repSearch te) rep1 dn))\<lparr>ss_lit := l\<rparr>"
      "rep' = (if te_repSearch te then final_rep rep1 (nums (assign True rep1 dn)) else rep1)"
      "ip' = ip + unat (zs_matchLength sq + zs_litLength sq) + sum_list (map (\<lambda>sq. unat (zs_matchLength sq + zs_litLength sq)) dn)"
      "case rest of [] \<Rightarrow> True | d # _ \<Rightarrow> zs_matchLength d = 0 \<and> zs_offset d = 0"
      by blast
    have a: "assign (te_repSearch te) rep (sq # dn) = (ll, ob, ml) # assign (te_repSearch te) rep1 dn"
      using assign_False by (auto simp: Let_def ll_def ml_def ob_def rep1_def)
    have "ss' = (store_all ss (assign (te_repSearch te) rep (sq # dn)))\<lparr>ss_lit := l\<rparr>"
      unfolding a using d(3) by (simp add: store_all_Cons storeSeqOnly_lit store_all_lit)
    moreover have "te_repSearch te \<Longrightarrow> rep' = final_rep rep (nums (assign True rep (sq # dn)))"
      using d(4) a by (simp add: nums_def rep1_def del: assign.simps)
    ultimately show ?thesis using d by (intro exI [of _ "sq # dn"] exI [of _ l]) (auto simp: rep1_def simp del: assign.simps)
  qed
qed

lemma final_rep_snoc: "final_rep rep (xs @ [(ob, ll0)]) = ZSTD_updateRep (final_rep rep xs) ob ll0"
  by (induct rep xs rule: final_rep.induct) simp_all

lemma updateRep_offset:
  "length rep = 3 \<Longrightarrow> offset_ok off \<Longrightarrow> ZSTD_updateRep rep (OFFSET_TO_OFFBASE off) ll0 = [off, rep ! 0, rep ! 1]"
  using OFFSET_TO_OFFBASE_offset [of off] by (auto simp: ZSTD_updateRep_def Let_def elim!: rep3E)

text \<open>Three offsets kept by hand are the history that number after number would have left.\<close>

lemma rep_from_offsets_snoc:
  assumes "length rep = 3"
  shows "rep_from_offsets rep (offs @ [off]) = [off, rep_from_offsets rep offs ! 0, rep_from_offsets rep offs ! 1]"
proof -
  consider "length offs \<ge> 3" | "length offs = 2" | "length offs = 1" | "offs = []"
    by (metis One_nat_def Suc_1 length_0_conv less_2_cases not_less_eq_eq numeral_3_eq_3 order_antisym_conv less_Suc_eq_le linorder_le_less_linear)
  then show ?thesis
  proof cases
    case 1
    then show ?thesis by (auto simp: rep_from_offsets_def Let_def nth_append)
  next
    case 2
    then show ?thesis by (simp add: rep_from_offsets_def Let_def nth_append)
  next
    case 3
    then show ?thesis by (simp add: rep_from_offsets_def Let_def nth_append)
  qed (simp add: rep_from_offsets_def)
qed

lemma final_rep_offsets:
  assumes "length rep = 3" "\<forall>sq \<in> set sqs. offset_ok (zs_offset sq)"
  shows "final_rep rep (nums (assign False rep sqs)) = rep_from_offsets rep (map zs_offset sqs)"
  using assms(2)
proof (induct sqs rule: rev_induct)
  case (snoc sq sqs)
  have app: "assign False r (xs @ [sq]) = assign False r xs @ [(unat (zs_litLength sq), OFFSET_TO_OFFBASE (zs_offset sq), unat (zs_matchLength sq))]"
    for r xs by (induct xs arbitrary: r) (auto simp: Let_def)
  have "length (rep_from_offsets rep (map zs_offset sqs)) = 3"
    using assms(1) by (simp add: rep_from_offsets_def Let_def)
  then show ?case using snoc assms(1)
    by (simp add: app nums_def final_rep_snoc updateRep_offset rep_from_offsets_snoc)
qed (simp add: nums_def rep_from_offsets_def)

lemma numbers_nth:
  "j < length sqs \<Longrightarrow> numbers L i sqs ! j = (sd_offBase (sqs ! j), of_bool (sd_litLength (sqs ! j) = 0 \<and> i + j \<noteq> L))"
proof (induct sqs arbitrary: i j)
  case (Cons sq sqs)
  then show ?case by (cases j) auto
qed simp

lemma length_numbers [simp]: "length (numbers L i sqs) = length sqs"
  by (induct sqs arbitrary: i) simp_all

lemma holds_numbers:
  assumes "holds ss sqs"
  shows "store_numbers ss = nums sqs"
proof (rule nth_equalityI)
  show "length (store_numbers ss) = length (nums sqs)" using assms by (simp add: store_numbers_def nums_def holds_def)
next
  fix i assume "i < length (store_numbers ss)"
  then have i: "i < length (ss_sequences ss)" "i < length sqs" using assms by (simp_all add: store_numbers_def holds_def)
  obtain ll ob ml where x: "sqs ! i = (ll, ob, ml)" by (cases "sqs ! i")
  then have "sd_offBase (ss_sequences ss ! i) = ob" "sl_litLength (ZSTD_getSequenceLength ss i) = ll"
    using assms i by (auto simp: holds_def)
  then show "store_numbers ss ! i = nums sqs ! i"
    using i x by (auto simp: store_numbers_def numbers_nth nums_def ZSTD_getSequenceLength_def Let_def unat_eq_zero unat_gt_0 split: if_splits)
qed

lemma assign_lengths:
  "length (assign rs rep sqs) = length sqs"
  "map (\<lambda>(ll, ob, ml). (ll, ml)) (assign rs rep sqs) = map (\<lambda>sq. (unat (zs_litLength sq), unat (zs_matchLength sq))) sqs"
  by (induct sqs arbitrary: rep) (simp_all add: Let_def)

definition total_length :: "ZSTD_Sequence list \<Rightarrow> nat" where
  "total_length sqs = sum_list (map (\<lambda>sq. unat (zs_litLength sq) + unat (zs_matchLength sq)) sqs)"

lemma assign_block_ok:
  assumes "length rep = 3" "\<forall>sq \<in> set sqs. offset_ok (zs_offset sq) \<and> 3 \<le> unat (zs_matchLength sq)"
    "total_length sqs \<le> ZSTD_BLOCKSIZE_MAX"
  shows "block_ok (assign rs rep sqs)"
proof -
  let ?a = "assign rs rep sqs"
  have "lengths_total ?a = sum_list (map (\<lambda>(l, m). l + m) (map (\<lambda>(ll, ob, ml). (ll, ml)) ?a))"
    by (simp add: lengths_total_def comp_def case_prod_unfold)
  also have "\<dots> = total_length sqs" unfolding assign_lengths by (simp add: total_length_def comp_def)
  finally have t: "lengths_total ?a = total_length sqs" .
  have "list_all (\<lambda>(l, m). 3 \<le> m) (map (\<lambda>(ll, ob, ml). (ll, ml)) ?a)"
    unfolding assign_lengths using assms(2) by (simp add: list_all_iff)
  moreover have "list_all (\<lambda>(ll, ob, ml). ob \<noteq> 0) ?a" using assign_offsets [of rep sqs rs] assms by simp
  ultimately show ?thesis using assms(3)
    by (auto simp: block_ok_def t list_all_iff MINMATCH_def)
qed



subsection \<open>Sequences for the caller\<close>

lemma copy_sequences_offsets:
  assumes "\<And>j. j < length sqs \<Longrightarrow> sd_offBase (sqs ! j) \<noteq> 0"
    "ss_longLengthType ss = ZSTD_llt_literalLength \<Longrightarrow> i \<le> ss_longLengthPos ss \<Longrightarrow>
       ss_longLengthPos ss - i < length sqs \<Longrightarrow> sd_litLength (sqs ! (ss_longLengthPos ss - i)) \<noteq> 0"
    "L = (if ss_longLengthType ss = ZSTD_llt_literalLength then ss_longLengthPos ss else i + length sqs)"
  shows "map zs_offset (copy_sequences ss rep i sqs) = raw_offsets rep (numbers L i sqs)"
  using assms
proof (induct sqs arbitrary: i rep)
  case (Cons sq sqs)
  let ?long = "i = ss_longLengthPos ss \<and> ss_longLengthType ss = ZSTD_llt_literalLength"
  have IH: "map zs_offset (copy_sequences ss r (i + 1) sqs) = raw_offsets r (numbers L (i + 1) sqs)" for r
  proof (rule Cons.hyps)
    show "\<And>j. j < length sqs \<Longrightarrow> sd_offBase (sqs ! j) \<noteq> 0" using Cons.prems(1) [of "Suc _"] by simp
    show "sd_litLength (sqs ! (ss_longLengthPos ss - (i + 1))) \<noteq> 0"
      if "ss_longLengthType ss = ZSTD_llt_literalLength" "i + 1 \<le> ss_longLengthPos ss"
        "ss_longLengthPos ss - (i + 1) < length sqs"
      using Cons.prems(2) that by (simp add: nth_Cons')
  qed (use Cons.prems(3) in auto)
  have z: "sd_litLength sq = 0 \<and> i \<noteq> L \<longleftrightarrow> sd_litLength sq = 0"
    using Cons.prems(2,3) by auto
  have nz: "sd_litLength sq \<noteq> 0" if ?long using Cons.prems(2) that by simp
  have u: "ucast (sd_litLength sq) = (0 :: u32) \<longleftrightarrow> sd_litLength sq = 0"
    by (metis unat_u16_u32 unat_eq_zero)
  have u': "ucast (sd_litLength sq) + 0x10000 \<noteq> (0 :: u32)"
  proof -
    have b: "unat (ucast (sd_litLength sq) :: u32) < 65536"
      using unsigned_less [where 'a = nat, of "sd_litLength sq"] by (simp add: unat_u16_u32)
    then have "unat (ucast (sd_litLength sq) + 0x10000 :: u32) = unat (ucast (sd_litLength sq) :: u32) + 65536"
      by (subst unat_plus_simple [THEN iffD1]) (simp_all add: no_olen_add_nat)
    then show ?thesis by (metis add_is_0 unat_0 zero_neq_numeral)
  qed
  have ob: "sd_offBase sq \<noteq> 0" using Cons.prems(1) [of 0] by simp
  have h1: "(if OFFBASE_IS_REPCODE (sd_offBase sq)
      then if sd_litLength sq \<noteq> 0 then rep ! (unat (sd_offBase sq) - 1)
           else if sd_offBase sq = 3 then rep ! 0 - 1 else rep ! unat (sd_offBase sq)
      else OFFBASE_TO_OFFSET (sd_offBase sq)) = raw_offset rep (sd_offBase sq) (of_bool (sd_litLength sq = 0))"
    using repcode_cases [OF ob]
    by (cases "OFFBASE_IS_OFFSET (sd_offBase sq)")
      (auto simp: raw_offset_def is_repcode_iff ob ZSTD_resolveRepcodeToRawOffset_def Let_def ZSTD_REP_NUM_def numeral_2_eq_2 [symmetric])
  have h2: "(if ?long then ucast (sd_litLength sq) + 0x10000 else ucast (sd_litLength sq) :: u32) = 0
      \<longleftrightarrow> sd_litLength sq = 0"
    using nz u u' by auto
  show ?case
    by (simp only: copy_sequences.simps numbers.simps raw_offsets.simps Let_def list.map ZSTD_Sequence.select_convs h2 z h1 IH)
qed simp

text \<open>
  The sequences returned to the caller have the offsets a decoder would use, under one condition:
  if the block has a long literal length, it is not 65536.
\<close>

lemma copyBlockSequences_exact:
  assumes "\<forall>sq \<in> set (ss_sequences ss). sd_offBase sq \<noteq> 0" "length (ss_sequences ss) < room"
    "ss_longLengthType ss = ZSTD_llt_literalLength \<longrightarrow> ss_longLengthPos ss < length (ss_sequences ss)
       \<and> sl_litLength (ZSTD_getSequenceLength ss (ss_longLengthPos ss)) \<noteq> 65536"
  shows "\<exists>out n. ZSTD_copyBlockSequences room ss rep
      = Inr (out @ [\<lparr>zs_offset = 0, zs_litLength = n, zs_matchLength = 0, zs_rep = 0\<rparr>])
    \<and> map zs_offset out = raw_offsets rep (store_numbers ss)"
proof -
  have "map zs_offset (copy_sequences ss rep 0 (ss_sequences ss)) = raw_offsets rep (store_numbers ss)"
    unfolding store_numbers_def
  proof (rule copy_sequences_offsets)
    show "sd_litLength (ss_sequences ss ! (ss_longLengthPos ss - 0)) \<noteq> 0"
      if "ss_longLengthType ss = ZSTD_llt_literalLength"
      using assms(3) that by (auto simp: ZSTD_getSequenceLength_def Let_def)
  qed (use assms(1) in auto)
  then show ?thesis using assms(2) by (simp add: ZSTD_copyBlockSequences_def Let_def)
qed



lemma merge_loop_no_delims:
  "\<forall>sq \<in> set out. zs_offset sq \<noteq> 0 \<or> zs_matchLength sq \<noteq> 0 \<Longrightarrow>
   \<forall>sq \<in> set (merge_loop out sqs). zs_offset sq \<noteq> 0 \<or> zs_matchLength sq \<noteq> 0"
proof (induct out sqs rule: merge_loop.induct)
  case (2 out sq sqs)
  show ?case
  proof (cases "zs_offset sq = 0 \<and> zs_matchLength sq = 0")
    case True
    then show ?thesis using 2 by (cases sqs) (auto simp: merge_loop.simps(2) [of out sq] simp del: merge_loop.simps(2))
  next
    case False
    then have "\<forall>x \<in> set (out @ [sq]). zs_offset x \<noteq> 0 \<or> zs_matchLength x \<noteq> 0" using 2(3) by auto
    then show ?thesis using 2(2) False by (auto simp: merge_loop.simps(2) [of out sq] simp del: merge_loop.simps(2))
  qed
qed simp

lemma mergeBlockDelimiters_no_delims:
  "sq \<in> set (ZSTD_mergeBlockDelimiters sqs) \<Longrightarrow> zs_offset sq \<noteq> 0 \<or> zs_matchLength sq \<noteq> 0"
  using merge_loop_no_delims [of "[]" sqs] by (simp add: ZSTD_mergeBlockDelimiters_def)

end
