(* ===== verification/Zstd_SeqDecode.thy ===== *)
theory Zstd_SeqDecode
  imports Zstd_SeqEncode Zstd_SeqOffsets
begin

text \<open>
  Reading the sequences of a block (\<open>zstd_decompress_block.c\<close>): the three states, the extra bits and
  the history of offsets. The decoder follows the encoder of \<open>Zstd_SeqEncode\<close> field by field; and on
  bits of any kind it stays inside its tables and never produces an offset of zero.
\<close>

subsection \<open>The decoder of one sequence\<close>

definition STREAM_ACCUMULATOR_MIN_64 :: nat where "STREAM_ACCUMULATOR_MIN_64 = 57"

record ZSTD_fseState =
  fs_state :: nat
  fs_table :: "ZSTD_seqSymbol list"

record seqState_t =
  qs_DStream :: BIT_DStream_t
  qs_stateLL :: ZSTD_fseState
  qs_stateOffb :: ZSTD_fseState
  qs_stateML :: ZSTD_fseState
  qs_prevOffset :: "u64 list"

definition ZSTD_initFseState :: "BIT_DStream_t \<Rightarrow> ZSTD_seqTable \<Rightarrow> ZSTD_fseState \<times> BIT_DStream_t" where
  "ZSTD_initFseState bitD dt =
     (let (v, bitD) = BIT_readBits bitD (sq_tableLog dt);
          (_, bitD) = BIT_reloadDStream bitD
      in (\<lparr>fs_state = unat v, fs_table = sq_cells dt\<rparr>, bitD))"

definition ZSTD_updateFseStateWithDInfo ::
  "ZSTD_fseState \<Rightarrow> BIT_DStream_t \<Rightarrow> nat \<Rightarrow> nat \<Rightarrow> ZSTD_fseState \<times> BIT_DStream_t" where
  "ZSTD_updateFseStateWithDInfo st bitD nextState nb =
     (let (lowBits, bitD) = BIT_readBits bitD nb
      in (st\<lparr>fs_state := nextState + unat lowBits\<rparr>, bitD))"

text \<open>The offset of a sequence, the history after it and the stream.\<close>

definition decode_offset ::
  "ZSTD_seqSymbol \<Rightarrow> ZSTD_seqSymbol \<Rightarrow> u64 list \<Rightarrow> BIT_DStream_t \<Rightarrow> u64 \<times> u64 list \<times> BIT_DStream_t" where
  "decode_offset llDInfo ofDInfo prevOffset bitD =
     (let ofBase = sy_baseValue ofDInfo; ofBits = sy_nbAdditionalBits ofDInfo in
      if ofBits > 1
      then let (v, bitD) = BIT_readBitsFast bitD ofBits;
               offset = of_nat ofBase + v;
               prevOffset = prevOffset[2 := prevOffset ! 1];
               prevOffset = prevOffset[1 := prevOffset ! 0];
               prevOffset = prevOffset[0 := offset]
           in (offset, prevOffset, bitD)
      else let ll0 = of_bool (sy_baseValue llDInfo = 0) in
           if ofBits = 0
           then let offset = prevOffset ! ll0;
                    prevOffset = prevOffset[1 := prevOffset ! (1 - ll0)];
                    prevOffset = prevOffset[0 := offset]
                in (offset, prevOffset, bitD)
           else let (v, bitD) = BIT_readBitsFast bitD 1;
                    offset = ofBase + ll0 + unat v;
                    temp = (if offset = 3 then prevOffset ! 0 - 1 else prevOffset ! offset);
                    temp = temp - of_bool (temp = 0);
                    prevOffset = (if offset \<noteq> 1 then prevOffset[2 := prevOffset ! 1] else prevOffset);
                    prevOffset = prevOffset[1 := prevOffset ! 0];
                    prevOffset = prevOffset[0 := temp]
                in (temp, prevOffset, bitD))"

text \<open>A length: the base value of its code, and its extra bits if there are any.\<close>

definition read_extra :: "nat \<Rightarrow> nat \<Rightarrow> BIT_DStream_t \<Rightarrow> nat \<times> BIT_DStream_t" where
  "read_extra base n bitD =
     (if n > 0 then let (v, bitD) = BIT_readBitsFast bitD n in (base + unat v, bitD) else (base, bitD))"

definition ZSTD_decodeSequence :: "seqState_t \<Rightarrow> bool \<Rightarrow> seq_t \<times> seqState_t" where
  "ZSTD_decodeSequence seqState isLastSeq =
     (let llDInfo = fs_table (qs_stateLL seqState) ! fs_state (qs_stateLL seqState);
          mlDInfo = fs_table (qs_stateML seqState) ! fs_state (qs_stateML seqState);
          ofDInfo = fs_table (qs_stateOffb seqState) ! fs_state (qs_stateOffb seqState);
          matchLength = sy_baseValue mlDInfo;
          litLength = sy_baseValue llDInfo;
          llBits = sy_nbAdditionalBits llDInfo;
          mlBits = sy_nbAdditionalBits mlDInfo;
          ofBits = sy_nbAdditionalBits ofDInfo;
          totalBits = (llBits + mlBits + ofBits) mod 2 ^ 8;
          (offset, prevOffset, bitD) = decode_offset llDInfo ofDInfo (qs_prevOffset seqState) (qs_DStream seqState);
          (matchLength, bitD) = read_extra matchLength mlBits bitD;
          bitD = (if totalBits \<ge> STREAM_ACCUMULATOR_MIN_64 - (LLFSELog + MLFSELog + OffFSELog)
                  then snd (BIT_reloadDStream bitD) else bitD);
          (litLength, bitD) = read_extra litLength llBits bitD;
          seqState = seqState\<lparr>qs_prevOffset := prevOffset\<rparr>;
          seqState = (if \<not> isLastSeq
            then let (stateLL, bitD) = ZSTD_updateFseStateWithDInfo (qs_stateLL seqState) bitD
                       (sy_nextState llDInfo) (sy_nbBits llDInfo);
                     (stateML, bitD) = ZSTD_updateFseStateWithDInfo (qs_stateML seqState) bitD
                       (sy_nextState mlDInfo) (sy_nbBits mlDInfo);
                     (stateOffb, bitD) = ZSTD_updateFseStateWithDInfo (qs_stateOffb seqState) bitD
                       (sy_nextState ofDInfo) (sy_nbBits ofDInfo);
                     bitD = snd (BIT_reloadDStream bitD)
                 in seqState\<lparr>qs_DStream := bitD, qs_stateLL := stateLL, qs_stateML := stateML, qs_stateOffb := stateOffb\<rparr>
            else seqState\<lparr>qs_DStream := bitD\<rparr>)
      in (\<lparr>seq_litLength = litLength, seq_matchLength = matchLength, seq_offset = unat offset\<rparr>, seqState))"

text \<open>The states at the start of the sequences of a block.\<close>

definition decode_start :: "seq_dctx \<Rightarrow> u32 list \<Rightarrow> bytes \<Rightarrow> seqState_t res" where
  "decode_start dctx rep src = (case BIT_initDStream src of
     Inl _ \<Rightarrow> Inl ZSTD_error_corruption_detected
   | Inr bitD \<Rightarrow>
       let (stateLL, bitD) = ZSTD_initFseState bitD (dq_LLTptr dctx);
           (stateOffb, bitD) = ZSTD_initFseState bitD (dq_OFTptr dctx);
           (stateML, bitD) = ZSTD_initFseState bitD (dq_MLTptr dctx)
       in Inr \<lparr>qs_DStream = bitD, qs_stateLL = stateLL, qs_stateOffb = stateOffb, qs_stateML = stateML,
               qs_prevOffset = map ucast rep\<rparr>)"

subsection \<open>Reading fields\<close>

text \<open>The stream still holds the given fields, the last on top, and at most \<open>k\<close> bits of its register are
  used up unless it stands at the start of the buffer.\<close>

definition reads :: "BIT_DStream_t \<Rightarrow> (nat \<times> nat) list \<Rightarrow> nat \<Rightarrow> bool" where
  "reads ds fs k \<longleftrightarrow> d_inv ds \<and> d_rem ds = fields_bits fs \<and> fields_ok fs \<and>
     bits_of (d_val ds) 0 (fields_bits fs) = fields_val fs \<and> (d_bitsConsumed ds \<le> k \<or> d_ptr ds = 0)"

lemma reads_mono: "reads ds fs k \<Longrightarrow> k \<le> k' \<Longrightarrow> reads ds fs k'"
  by (auto simp: reads_def)

lemma reads_take:
  assumes "reads ds (fs @ [(v, n)]) k" "k + n \<le> 64" "n < 64"
  shows "unat (BIT_lookBits ds n) = v" "reads (BIT_skipBits ds n) fs (k + n)"
    "0 < n \<Longrightarrow> BIT_lookBitsFast ds n = BIT_lookBits ds n"
proof -
  have i: "d_inv ds" "d_rem ds = fields_bits fs + n" "fields_ok fs"
    and b: "bits_of (d_val ds) 0 (fields_bits (fs @ [(v, n)])) = fields_val (fs @ [(v, n)])"
    using assms(1) by (auto simp: reads_def fields_bits_append fields_ok_append)
  have room: "d_bitsConsumed ds + n \<le> 64"
    using assms(1,2) i(2) by (auto simp: reads_def d_rem_def d_inv_def)
  note top = fields_top [OF b i(3)]
  show "unat (BIT_lookBits ds n) = v"
    using BIT_lookBits_spec [OF i(1) room assms(3)] i(2) top(2) by simp
  show "reads (BIT_skipBits ds n) fs (k + n)"
    using d_inv_skip [OF i(1) room] d_rem_skip [OF room] i top(1) assms(1) by (auto simp: reads_def)
  show "BIT_lookBitsFast ds n = BIT_lookBits ds n" if "0 < n"
    using BIT_lookBitsFast_eq [OF _ assms(3) room] that by simp
qed

lemma reads_reload:
  assumes "reads ds fs k"
  shows "reads (snd (BIT_reloadDStream ds)) fs 8"
  using assms reload_keeps [of ds] reload_ready [of ds] by (auto simp: reads_def d_ready_def)

text \<open>A field that is read only if it has bits.\<close>

lemma reads_optional:
  assumes "reads ds (fs @ [(v, n)]) k" "k + n \<le> 64" "n < 64"
  shows "\<exists>ds'. read_extra base n ds = (base + v, ds') \<and> reads ds' fs (k + n)"
proof (cases "n = 0")
  case True
  then have "v = 0" using assms(1) by (simp add: reads_def fields_ok_append fields_ok_def)
  then show ?thesis using True reads_take(2) [OF assms] by (simp add: read_extra_def BIT_skipBits_def)
next
  case False
  then show ?thesis using reads_take [OF assms] by (simp add: read_extra_def BIT_readBitsFast_def)
qed

subsection \<open>Offsets\<close>

lemma OF_tables:
  "b \<le> MaxOff \<Longrightarrow> OF_bits ! b = b" "2 \<le> b \<Longrightarrow> b \<le> MaxOff \<Longrightarrow> OF_base ! b = 2 ^ b - 3"
proof -
  have "list_all (\<lambda>b. OF_bits ! b = b \<and> (2 \<le> b \<longrightarrow> OF_base ! b = 2 ^ b - 3)) [0..<32]"
    by (simp add: OF_bits_def OF_base_def upt_unfold)
  then have *: "\<forall>b \<in> {0..<32}. OF_bits ! b = b \<and> (2 \<le> b \<longrightarrow> OF_base ! b = 2 ^ b - 3)"
    by (simp only: list_all_iff set_upt)
  show "b \<le> MaxOff \<Longrightarrow> OF_bits ! b = b" "2 \<le> b \<Longrightarrow> b \<le> MaxOff \<Longrightarrow> OF_base ! b = 2 ^ b - 3"
    using bspec [OF *, of b] by (simp_all add: MaxOff_def)
qed

lemma ucast_u32_u64_minus_1: "x \<noteq> 0 \<Longrightarrow> (ucast (x - 1 :: u32) :: u64) = ucast x - 1"
  by (simp add: word_unat_eq_iff unat_u32_u64 unat_minus_one)

lemma highbit_number:
  assumes "is_highbit (ob :: u32) b"
  shows "unat ob = 2 ^ b + unat ob mod 2 ^ b"
proof -
  have "unat ob div 2 ^ b = 1" using assms by (intro div_nat_eqI) (auto simp: is_highbit_def)
  then show ?thesis using div_mult_mod_eq [of "unat ob" "2 ^ b"] by simp
qed

lemma decode_offset_new:
  assumes "reads ds (fs @ [(unat ob mod 2 ^ b, b)]) k" "k + b \<le> 64" "is_highbit ob b" "1 < b" "b \<le> MaxOff"
    "length rep = 3" "sy_baseValue ofD = OF_base ! b" "sy_nbAdditionalBits ofD = b"
  shows "\<exists>ds'. decode_offset llD ofD (map ucast rep) ds =
      (ucast (raw_offset rep ob ll0), map ucast (ZSTD_updateRep rep ob ll0), ds') \<and> reads ds' fs (k + b)"
proof -
  obtain x y z where r: "rep = [x, y, z]" using assms(6) by (rule rep3E)
  have b: "b < 64" "4 \<le> (2::nat) ^ b" "(2::nat) ^ b < 2 ^ 32"
    using assms(4,5) power_increasing [of 2 b "2::nat"] power_strict_increasing [of b 32 "2::nat"] by (auto simp: MaxOff_def)
  note t = reads_take [OF assms(1,2) b(1)]
  define v where "v = BIT_lookBits ds b"
  have ob: "unat ob = 2 ^ b + unat v" using highbit_number [OF assms(3)] t(1) by (simp add: v_def)
  then have isoff: "OFFBASE_IS_OFFSET ob" using b by (simp add: OFFBASE_IS_OFFSET_def word_less_nat_alt)
  have "unat (ob - 3) = unat ob - 3" using unat_sub [of 3 ob] ob b(2) by (simp add: word_le_nat_alt)
  moreover have "unat (of_nat (2 ^ b - 3) + v) = 2 ^ b - 3 + unat v"
  proof -
    have u: "unat (of_nat (2 ^ b - 3) :: u64) = 2 ^ b - 3" using b(3) by (intro unat_of_nat_id) simp
    have "unat v < 2 ^ b" using BIT_lookBits_less by (simp add: v_def)
    then have "unat (of_nat (2 ^ b - 3) :: u64) + unat v < 2 ^ LENGTH(64)" using u b(3) by simp
    then show ?thesis using u by (simp add: unat_word_ariths)
  qed
  ultimately have "(of_nat (2 ^ b - 3) + v :: u64) = ucast (ob - 3)"
    using ob b(2) by (simp add: word_unat_eq_iff unat_u32_u64)
  then show ?thesis
    using t assms(4,7,8) isoff OF_tables(2) [of b] assms(5)
    by (simp add: r decode_offset_def Let_def BIT_readBitsFast_def raw_offset_def ZSTD_updateRep_def OFFBASE_TO_OFFSET_def
        v_def)
qed

lemma decode_offset_repeat:
  assumes "reads ds (fs @ [(unat ob mod 2 ^ b, b)]) k" "k + b \<le> 64" "is_highbit ob b" "b \<le> 1"
    "length rep = 3" "sy_baseValue ofD = OF_base ! b" "sy_nbAdditionalBits ofD = b"
    "ll0 = of_bool (sy_baseValue llD = 0)" "offset_ok (raw_offset rep ob ll0)"
  shows "\<exists>ds'. decode_offset llD ofD (map ucast rep) ds =
      (ucast (raw_offset rep ob ll0), map ucast (ZSTD_updateRep rep ob ll0), ds') \<and> reads ds' fs (k + b)"
proof -
  obtain x y z where r: "rep = [x, y, z]" using assms(5) by (rule rep3E)
  note t = reads_take [OF assms(1,2)]
  have nz: "(ucast (raw_offset rep ob ll0) :: u64) \<noteq> 0"
    using assms(9) by (simp add: offset_ok_def word_unat_eq_iff unat_u32_u64)
  have base: "OF_base ! 1 = 1" "OF_base ! 0 = 0" by (simp_all add: OF_base_def)
  consider "b = 0" "ob = 1" | "b = 1" "ob = 2" | "b = 1" "ob = 3"
  proof -
    have "b = 0 \<and> unat ob = 1 \<or> b = 1 \<and> (unat ob = 2 \<or> unat ob = 3)"
      using assms(3,4) by (cases b) (auto simp: is_highbit_def)
    then show thesis using that by (auto simp: word_unat_eq_iff)
  qed
  then show ?thesis
  proof cases
    case 1
    then show ?thesis
      using assms(1,2,6-8) by (auto simp: r decode_offset_def raw_offset_def ZSTD_updateRep_def OFFBASE_IS_OFFSET_def
          ZSTD_resolveRepcodeToRawOffset_def ZSTD_REP_NUM_def Let_def reads_def fields_bits_append fields_val_append
          fields_ok_append)
  next
    case 2
    then have v: "unat (BIT_lookBits ds 1) = 0" "BIT_lookBitsFast ds 1 = BIT_lookBits ds 1"
        "reads (BIT_skipBits ds 1) fs (k + 1)" using t by simp_all
    then show ?thesis
      using assms(6-8) 2 nz base by (auto simp: r decode_offset_def raw_offset_def ZSTD_updateRep_def OFFBASE_IS_OFFSET_def
          ZSTD_resolveRepcodeToRawOffset_def ZSTD_REP_NUM_def Let_def BIT_readBitsFast_def)
  next
    case 3
    then have v: "unat (BIT_lookBits ds 1) = 1" "BIT_lookBitsFast ds 1 = BIT_lookBits ds 1"
        "reads (BIT_skipBits ds 1) fs (k + 1)" using t by simp_all
    have "unat (- 1 :: u32) = 2 ^ 32 - 1" by (simp add: unsigned_minus_1_eq_mask mask_eq_exp_minus_1)
    then have "x \<noteq> 0" if "ll0 = 1"
      using assms(9) that 3 by (auto simp: r raw_offset_def OFFBASE_IS_OFFSET_def offset_ok_def
          ZSTD_resolveRepcodeToRawOffset_def ZSTD_REP_NUM_def)
    then show ?thesis
      using assms(6-8) 3 nz base v by (auto simp: r decode_offset_def raw_offset_def ZSTD_updateRep_def OFFBASE_IS_OFFSET_def
          ZSTD_resolveRepcodeToRawOffset_def ZSTD_REP_NUM_def Let_def BIT_readBitsFast_def ucast_u32_u64_minus_1)
  qed
qed

lemma decode_offset_exact:
  assumes "reads ds (fs @ [(unat ob mod 2 ^ b, b)]) k" "k + b \<le> 64" "is_highbit ob b" "b \<le> MaxOff"
    "length rep = 3" "sy_baseValue ofD = OF_base ! b" "sy_nbAdditionalBits ofD = b"
    "ll0 = of_bool (sy_baseValue llD = 0)" "offset_ok (raw_offset rep ob ll0)"
  shows "\<exists>ds'. decode_offset llD ofD (map ucast rep) ds =
      (ucast (raw_offset rep ob ll0), map ucast (ZSTD_updateRep rep ob ll0), ds') \<and> reads ds' fs (k + b)"
  using decode_offset_new [OF assms(1-3) _ assms(4-7)] decode_offset_repeat [OF assms(1-3) _ assms(5-9)]
  by (cases "b \<le> 1") auto

subsection \<open>The decoder follows the encoder\<close>

fun q_dtable :: "nat list \<Rightarrow> nat list \<Rightarrow> seq_coder \<Rightarrow> ZSTD_seqTable" where
  "q_dtable base bits (Coder_fse norm L) = ZSTD_buildFSETable norm (length norm - 1) base bits L"
| "q_dtable base bits (Coder_rle r) = ZSTD_buildSeqTable_rle (base ! r) (bits ! r)"

fun q_off :: "seq_coder \<Rightarrow> nat" where
  "q_off (Coder_fse norm L) = 2 ^ L"
| "q_off (Coder_rle r) = 0"

definition q_dholds :: "nat list \<Rightarrow> nat list \<Rightarrow> seq_coder \<Rightarrow> ZSTD_fseState \<Rightarrow> nat \<Rightarrow> bool" where
  "q_dholds base bits t st x \<longleftrightarrow> x \<in> q_states t \<and> fs_table st = sq_cells (q_dtable base bits t) \<and>
     fs_state st + q_off t = x"

lemma fse_table_ok_nonempty:
  assumes "fse_table_ok norm L"
  shows "norm \<noteq> []"
proof
  assume "norm = []"
  then have "2 ^ L = (0 :: nat)" using fse_table_ok_facts(7) [OF assms] by simp
  then show False by simp
qed

lemma q_dtable_cells:
  assumes "q_valid (Coder_fse norm L)"
  shows "sq_cells (q_dtable base bits (Coder_fse norm L)) = map (seq_of_cell base bits) (fse_dcells norm L)"
  using assms fse_table_ok_nonempty [of norm L] by (simp add: ZSTD_buildFSETable_eq)

lemma q_dtable_log: "sq_tableLog (q_dtable base bits t) = q_log t"
  by (cases t) (simp_all add: ZSTD_buildFSETable_eq ZSTD_buildSeqTable_rle_def)

lemma q_dholds_cell:
  assumes "q_valid t" "q_dholds base bits t st x"
  shows "fs_table st ! fs_state st = seq_of_cell base bits (q_cell t x)"
proof (cases t)
  case (Coder_fse norm L)
  then have "fs_state st = x - 2 ^ L" "x - 2 ^ L < length (fse_dcells norm L)"
    using assms length_fse_dcells [of norm L] by (auto simp: q_dholds_def fse_range_def)
  moreover have "fs_table st = map (seq_of_cell base bits) (fse_dcells norm L)"
    using assms q_dtable_cells [of norm L] Coder_fse by (simp add: q_dholds_def)
  ultimately show ?thesis using Coder_fse by (simp add: fse_at_def)
next
  case (Coder_rle r)
  then show ?thesis using assms by (simp add: q_dholds_def ZSTD_buildSeqTable_rle_def seq_of_cell_def)
qed

lemma q_dholds_step:
  assumes "q_dholds base bits t st x" "y \<in> q_states t" "q_prior t x v = y"
  shows "q_dholds base bits t (st\<lparr>fs_state := newState (q_cell t x) + v\<rparr>) y"
  using assms by (cases t) (auto simp: q_dholds_def fse_back_def)

lemma q_dholds_init:
  assumes "q_valid t" "x \<in> q_states t"
  shows "q_dholds base bits t \<lparr>fs_state = x mod 2 ^ q_log t, fs_table = sq_cells (q_dtable base bits t)\<rparr> x"
proof (cases t)
  case (Coder_fse norm L)
  then have "x mod 2 ^ L + 2 ^ L = x" using assms(2) by (auto simp: fse_range_def mod_if)
  then show ?thesis using Coder_fse assms(2) by (simp add: q_dholds_def)
next
  case (Coder_rle r)
  then show ?thesis using assms(2) by (simp add: q_dholds_def)
qed

definition seq_follows :: "seq_coder \<Rightarrow> seq_coder \<Rightarrow> seq_coder \<Rightarrow> seqState_t \<Rightarrow> seq_item list \<Rightarrow> bool" where
  "seq_follows tL tO tM s items \<longleftrightarrow>
     (\<exists>fs l o' m. enc3 tL tO tM items = (fs, l, o', m) \<and> q_dholds LL_base LL_bits tL (qs_stateLL s) l \<and>
        q_dholds OF_base OF_bits tO (qs_stateOffb s) o' \<and> q_dholds ML_base ML_bits tM (qs_stateML s) m \<and>
        reads (qs_DStream s) fs 8)"

lemma updateFseState_follows:
  assumes "q_valid t" "q_dholds base bits t st x" "y \<in> q_states t" "q_prior t x (y mod 2 ^ nbBits (q_cell t x)) = y"
    "reads ds (fs @ [(y mod 2 ^ nbBits (q_cell t x), nbBits (q_cell t x))]) k" "k + q_log t \<le> 64"
  shows "\<exists>st' ds'. ZSTD_updateFseStateWithDInfo st ds (newState (q_cell t x)) (nbBits (q_cell t x)) = (st', ds') \<and>
    q_dholds base bits t st' y \<and> reads ds' fs (k + q_log t)"
proof -
  have "x \<in> q_states t" using assms(2) by (simp add: q_dholds_def)
  then have n: "nbBits (q_cell t x) \<le> q_log t" by (rule q_need_log [OF assms(1)])
  moreover have "q_log t \<le> 12" by (rule q_log_le [OF assms(1)])
  ultimately have "k + nbBits (q_cell t x) \<le> 64" "nbBits (q_cell t x) < 64" using assms(6) by auto
  note t = reads_take [OF assms(5) this]
  show ?thesis
    using q_dholds_step [OF assms(2-4)] t(1) reads_mono [OF t(2), of "k + q_log t"] n
    by (simp add: ZSTD_updateFseStateWithDInfo_def BIT_readBits_def)
qed

text \<open>The part of \<open>ZSTD_decodeSequence\<close> that does not touch the states: offset, lengths, history and stream.\<close>

definition decode_numbers ::
  "ZSTD_seqSymbol \<Rightarrow> ZSTD_seqSymbol \<Rightarrow> ZSTD_seqSymbol \<Rightarrow> u64 list \<Rightarrow> BIT_DStream_t \<Rightarrow> seq_t \<times> u64 list \<times> BIT_DStream_t" where
  "decode_numbers llDInfo mlDInfo ofDInfo prevOffset bitD =
     (let llBits = sy_nbAdditionalBits llDInfo;
          mlBits = sy_nbAdditionalBits mlDInfo;
          ofBits = sy_nbAdditionalBits ofDInfo;
          totalBits = (llBits + mlBits + ofBits) mod 2 ^ 8;
          (offset, prevOffset, bitD) = decode_offset llDInfo ofDInfo prevOffset bitD;
          (matchLength, bitD) = read_extra (sy_baseValue mlDInfo) mlBits bitD;
          bitD = (if totalBits \<ge> STREAM_ACCUMULATOR_MIN_64 - (LLFSELog + MLFSELog + OffFSELog)
                  then snd (BIT_reloadDStream bitD) else bitD);
          (litLength, bitD) = read_extra (sy_baseValue llDInfo) llBits bitD
      in (\<lparr>seq_litLength = litLength, seq_matchLength = matchLength, seq_offset = unat offset\<rparr>, prevOffset, bitD))"

definition update_states :: "ZSTD_seqSymbol \<Rightarrow> ZSTD_seqSymbol \<Rightarrow> ZSTD_seqSymbol \<Rightarrow> seqState_t \<Rightarrow> seqState_t" where
  "update_states llDInfo mlDInfo ofDInfo s =
     (let (stateLL, bitD) = ZSTD_updateFseStateWithDInfo (qs_stateLL s) (qs_DStream s) (sy_nextState llDInfo) (sy_nbBits llDInfo);
          (stateML, bitD) = ZSTD_updateFseStateWithDInfo (qs_stateML s) bitD (sy_nextState mlDInfo) (sy_nbBits mlDInfo);
          (stateOffb, bitD) = ZSTD_updateFseStateWithDInfo (qs_stateOffb s) bitD (sy_nextState ofDInfo) (sy_nbBits ofDInfo)
      in s\<lparr>qs_DStream := snd (BIT_reloadDStream bitD), qs_stateLL := stateLL, qs_stateML := stateML, qs_stateOffb := stateOffb\<rparr>)"

definition cell_now :: "ZSTD_fseState \<Rightarrow> ZSTD_seqSymbol" where
  "cell_now st = fs_table st ! fs_state st"

lemma ZSTD_decodeSequence_eq:
  "ZSTD_decodeSequence s isLast =
     (let llD = cell_now (qs_stateLL s); mlD = cell_now (qs_stateML s); ofD = cell_now (qs_stateOffb s);
          (sq, prev, bitD) = decode_numbers llD mlD ofD (qs_prevOffset s) (qs_DStream s);
          s = s\<lparr>qs_prevOffset := prev, qs_DStream := bitD\<rparr>
      in (sq, if isLast then s else update_states llD mlD ofD s))"
  by (simp add: ZSTD_decodeSequence_def decode_numbers_def update_states_def cell_now_def Let_def split: prod.splits)

lemma decode_numbers_exact:
  assumes "reads ds (gs @ seq_extra sq a b c) 8" "codes_in_range a b c" "is_highbit (sd_offBase sq) b"
    "length rep = 3" "ll0 = of_bool (LL_base ! a = 0)" "offset_ok (raw_offset rep (sd_offBase sq) ll0)"
    "symbol cl = a" "symbol co = b" "symbol cm = c"
  shows "\<exists>ds'. decode_numbers (seq_of_cell LL_base LL_bits cl) (seq_of_cell ML_base ML_bits cm)
        (seq_of_cell OF_base OF_bits co) (map ucast rep) ds =
      (\<lparr>seq_litLength = LL_base ! a + unat (sd_litLength sq) mod 2 ^ (LL_bits ! a),
        seq_matchLength = ML_base ! c + unat (sd_mlBase sq) mod 2 ^ (ML_bits ! c),
        seq_offset = unat (raw_offset rep (sd_offBase sq) ll0)\<rparr>,
       map ucast (ZSTD_updateRep rep (sd_offBase sq) ll0), ds') \<and> reads ds' gs (64 - 26)"
proof -
  let ?lx = "(unat (sd_litLength sq) mod 2 ^ (LL_bits ! a), LL_bits ! a)"
  let ?mx = "(unat (sd_mlBase sq) mod 2 ^ (ML_bits ! c), ML_bits ! c)"
  let ?ox = "(unat (sd_offBase sq) mod 2 ^ b, b)"
  have r: "a \<le> MaxLL" "b \<le> MaxOff" "c \<le> MaxML" using assms(2) by (auto simp: codes_in_range_def)
  note le = bits_tables_le(1) [OF r(1)] bits_tables_le(2) [OF r(3)]
  have b31: "b \<le> 31" using r(2) by (simp add: MaxOff_def)
  obtain d1 where d1: "decode_offset (seq_of_cell LL_base LL_bits cl) (seq_of_cell OF_base OF_bits co) (map ucast rep) ds =
      (ucast (raw_offset rep (sd_offBase sq) ll0), map ucast (ZSTD_updateRep rep (sd_offBase sq) ll0), d1)"
      "reads d1 ((gs @ [?lx]) @ [?mx]) (8 + b)"
    using decode_offset_exact [of ds "(gs @ [?lx]) @ [?mx]" "sd_offBase sq" b 8 rep "seq_of_cell OF_base OF_bits co"
        ll0 "seq_of_cell LL_base LL_bits cl"] assms b31 r(2) OF_tables(1) [OF r(2)]
    by (auto simp: seq_extra_def seq_of_cell_def)
  obtain d2 where d2: "read_extra (ML_base ! c) (ML_bits ! c) d1 = (ML_base ! c + fst ?mx, d2)" "reads d2 (gs @ [?lx]) (8 + b + ML_bits ! c)"
    using reads_optional [OF d1(2), of "ML_base ! c"] le b31 by auto
  define big where "big \<longleftrightarrow> STREAM_ACCUMULATOR_MIN_64 - (LLFSELog + MLFSELog + OffFSELog) \<le> (LL_bits ! a + ML_bits ! c + b) mod 2 ^ 8"
  have big: "big \<longleftrightarrow> 31 \<le> LL_bits ! a + ML_bits ! c + b"
    using le b31 by (simp add: big_def STREAM_ACCUMULATOR_MIN_64_def LLFSELog_def MLFSELog_def OffFSELog_def)
  define d3 where "d3 = (if big then snd (BIT_reloadDStream d2) else d2)"
  define k where "k = (if big then 8 else 8 + b + ML_bits ! c)"
  have r3: "reads d3 (gs @ [?lx]) k" using d2(2) reads_reload [OF d2(2)] by (simp add: d3_def k_def)
  have k: "k + LL_bits ! a \<le> 64 - 26" using le by (auto simp: k_def big)
  then have k64: "k + LL_bits ! a \<le> 64" "LL_bits ! a < 64" by simp_all
  obtain d4 where d4: "read_extra (LL_base ! a) (LL_bits ! a) d3 = (LL_base ! a + fst ?lx, d4)" "reads d4 gs (k + LL_bits ! a)"
    using reads_optional [OF r3 k64, of "LL_base ! a"] by auto
  have "OF_bits ! b = b" by (rule OF_tables(1) [OF r(2)])
  then show ?thesis
    using d1(1) d2(1) d4(1) reads_mono [OF d4(2) k] assms(7-9)
    by (simp add: decode_numbers_def Let_def seq_of_cell_def big_def [symmetric, simplified] d3_def [symmetric] unat_u32_u64)
qed

lemma update_states_follows:
  assumes "coders_ok tL tO tM" "list_all (item_ok tL tO tM) ((a, b, c, xs) # r # rs)"
    "enc3 tL tO tM ((a, b, c, xs) # r # rs) = (fs, l, o', m)"
    "q_dholds LL_base LL_bits tL (qs_stateLL s) l" "q_dholds OF_base OF_bits tO (qs_stateOffb s) o'"
    "q_dholds ML_base ML_bits tM (qs_stateML s) m" "fs = gs @ xs" "reads (qs_DStream s) gs (64 - 26)"
  shows "seq_follows tL tO tM (update_states (seq_of_cell LL_base LL_bits (q_cell tL l))
      (seq_of_cell ML_base ML_bits (q_cell tM m)) (seq_of_cell OF_base OF_bits (q_cell tO o')) s) (r # rs)"
proof -
  obtain hs l1 o1 m1 where e: "enc3 tL tO tM (r # rs) = (hs, l1, o1, m1)"
    "fs = (((hs @ [(o1 mod 2 ^ nbBits (q_cell tO o'), nbBits (q_cell tO o'))])
      @ [(m1 mod 2 ^ nbBits (q_cell tM m), nbBits (q_cell tM m))])
      @ [(l1 mod 2 ^ nbBits (q_cell tL l), nbBits (q_cell tL l))]) @ xs"
    and pr: "q_prior tL l (l1 mod 2 ^ nbBits (q_cell tL l)) = l1" "q_prior tO o' (o1 mod 2 ^ nbBits (q_cell tO o')) = o1"
    "q_prior tM m (m1 mod 2 ^ nbBits (q_cell tM m)) = m1"
    and st: "l1 \<in> q_states tL" "o1 \<in> q_states tO" "m1 \<in> q_states tM"
    by (rule enc3_head [OF assms(1-3)])
  have v: "q_valid tL" "q_valid tO" "q_valid tM" "q_log tL \<le> 9" "q_log tO \<le> 8" "q_log tM \<le> 9"
    using assms(1) by (auto simp: coders_ok_def LLFSELog_def OffFSELog_def MLFSELog_def)
  let ?hs = "(hs @ [(o1 mod 2 ^ nbBits (q_cell tO o'), nbBits (q_cell tO o'))])
      @ [(m1 mod 2 ^ nbBits (q_cell tM m), nbBits (q_cell tM m))]"
  have g: "reads (qs_DStream s) (?hs @ [(l1 mod 2 ^ nbBits (q_cell tL l), nbBits (q_cell tL l))]) 38"
    using assms(7,8) e(2) by simp
  obtain s1 d1 where u1: "ZSTD_updateFseStateWithDInfo (qs_stateLL s) (qs_DStream s) (newState (q_cell tL l)) (nbBits (q_cell tL l))
      = (s1, d1)" "q_dholds LL_base LL_bits tL s1 l1" "reads d1 ?hs (38 + q_log tL)"
    using updateFseState_follows [OF v(1) assms(4) st(1) pr(1) g] v(4) by auto
  obtain s2 d2 where u2: "ZSTD_updateFseStateWithDInfo (qs_stateML s) d1 (newState (q_cell tM m)) (nbBits (q_cell tM m)) = (s2, d2)"
      "q_dholds ML_base ML_bits tM s2 m1"
      "reads d2 (hs @ [(o1 mod 2 ^ nbBits (q_cell tO o'), nbBits (q_cell tO o'))]) (38 + q_log tL + q_log tM)"
    using updateFseState_follows [OF v(3) assms(6) st(3) pr(3) u1(3)] v(4,6) by auto
  obtain s3 d3 where u3: "ZSTD_updateFseStateWithDInfo (qs_stateOffb s) d2 (newState (q_cell tO o')) (nbBits (q_cell tO o')) = (s3, d3)"
      "q_dholds OF_base OF_bits tO s3 o1" "reads d3 hs (38 + q_log tL + q_log tM + q_log tO)"
    using updateFseState_follows [OF v(2) assms(5) st(2) pr(2) u2(3)] v(4-6) by auto
  show ?thesis
    unfolding seq_follows_def using e(1) u1(1,2) u2(1,2) u3(1,2) reads_reload [OF u3(3)]
    by (simp add: update_states_def seq_of_cell_def)
qed

text \<open>One sequence is decoded as it was encoded.\<close>

definition decoded_seq :: "u32 list \<Rightarrow> SeqDef \<Rightarrow> nat \<Rightarrow> nat \<Rightarrow> seq_t" where
  "decoded_seq rep sq llCode mlCode =
     \<lparr>seq_litLength = LL_base ! llCode + unat (sd_litLength sq) mod 2 ^ (LL_bits ! llCode),
      seq_matchLength = ML_base ! mlCode + unat (sd_mlBase sq) mod 2 ^ (ML_bits ! mlCode),
      seq_offset = unat (raw_offset rep (sd_offBase sq) (of_bool (LL_base ! llCode = 0)))\<rparr>"

lemma decodeSequence_follows:
  assumes "coders_ok tL tO tM" "list_all (item_ok tL tO tM) (seq_item_of sq a b c # items)"
    "codes_in_range a b c" "is_highbit (sd_offBase sq) b" "seq_follows tL tO tM s (seq_item_of sq a b c # items)"
    "length rep = 3" "qs_prevOffset s = map ucast rep"
    "offset_ok (raw_offset rep (sd_offBase sq) (of_bool (LL_base ! a = 0)))"
  shows "\<exists>s'. ZSTD_decodeSequence s (items = []) = (decoded_seq rep sq a c, s') \<and>
    qs_prevOffset s' = map ucast (ZSTD_updateRep rep (sd_offBase sq) (of_bool (LL_base ! a = 0))) \<and>
    (if items = [] then BIT_endOfDStream (qs_DStream s') else seq_follows tL tO tM s' items)"
proof -
  obtain fs l o' m where e: "enc3 tL tO tM (seq_item_of sq a b c # items) = (fs, l, o', m)"
    and h: "q_dholds LL_base LL_bits tL (qs_stateLL s) l" "q_dholds OF_base OF_bits tO (qs_stateOffb s) o'"
      "q_dholds ML_base ML_bits tM (qs_stateML s) m" and rd: "reads (qs_DStream s) fs 8"
    using assms(5) by (auto simp: seq_follows_def)
  have v: "q_valid tL" "q_valid tO" "q_valid tM" and cd: "q_codes tL a" "q_codes tO b" "q_codes tM c"
    using assms(1,2) by (auto simp: coders_ok_def item_ok_def seq_item_of_def)
  obtain gs where gs: "fs = gs @ seq_extra sq a b c" and sy: "symbol (q_cell tL l) = a" "symbol (q_cell tO o') = b"
      "symbol (q_cell tM m) = c" and one: "items = [] \<Longrightarrow> gs = []"
  proof (cases items)
    case Nil
    then show thesis
      using that [of "[]"] e sq.first_ok [OF v(1) cd(1)] sq.first_ok [OF v(2) cd(2)] sq.first_ok [OF v(3) cd(3)]
      by (auto simp: seq_item_of_def)
  next
    case (Cons r rs)
    show thesis
      by (rule enc3_head [OF assms(1) assms(2) [unfolded Cons seq_item_of_def] e [unfolded Cons seq_item_of_def]])
        (use that Cons in auto)
  qed
  have cells: "cell_now (qs_stateLL s) = seq_of_cell LL_base LL_bits (q_cell tL l)"
    "cell_now (qs_stateOffb s) = seq_of_cell OF_base OF_bits (q_cell tO o')"
    "cell_now (qs_stateML s) = seq_of_cell ML_base ML_bits (q_cell tM m)"
    using q_dholds_cell [OF v(1) h(1)] q_dholds_cell [OF v(2) h(2)] q_dholds_cell [OF v(3) h(3)] by (simp_all add: cell_now_def)
  obtain ds' where n: "decode_numbers (cell_now (qs_stateLL s)) (cell_now (qs_stateML s)) (cell_now (qs_stateOffb s))
        (qs_prevOffset s) (qs_DStream s) =
      (decoded_seq rep sq a c, map ucast (ZSTD_updateRep rep (sd_offBase sq) (of_bool (LL_base ! a = 0))), ds')"
      "reads ds' gs (64 - 26)"
    using decode_numbers_exact [OF rd [unfolded gs] assms(3,4,6) refl assms(8) sy] assms(7) cells
    by (auto simp: decoded_seq_def)
  let ?s = "s\<lparr>qs_prevOffset := map ucast (ZSTD_updateRep rep (sd_offBase sq) (of_bool (LL_base ! a = 0))), qs_DStream := ds'\<rparr>"
  show ?thesis
  proof (cases items)
    case Nil
    then have "BIT_endOfDStream ds'" using n(2) one BIT_endOfDStream_iff [of ds'] by (simp add: reads_def)
    then show ?thesis using n(1) Nil by (simp add: ZSTD_decodeSequence_eq)
  next
    case (Cons r rs)
    have "seq_follows tL tO tM (update_states (cell_now (qs_stateLL s)) (cell_now (qs_stateML s)) (cell_now (qs_stateOffb s)) ?s) (r # rs)"
      unfolding cells
      by (rule update_states_follows [OF assms(1) assms(2) [unfolded Cons seq_item_of_def] e [unfolded Cons seq_item_of_def]])
        (use h gs n(2) in simp_all)
    moreover have "qs_prevOffset (update_states x y z ?s) = qs_prevOffset ?s" for x y z
      by (simp add: update_states_def split: prod.splits)
    ultimately show ?thesis using n(1) Cons by (simp add: ZSTD_decodeSequence_eq)
  qed
qed

subsection \<open>All sequences of a block\<close>

primrec decode_all :: "nat \<Rightarrow> seqState_t \<Rightarrow> seq_t list \<times> seqState_t" where
  "decode_all 0 s = ([], s)"
| "decode_all (Suc n) s =
     (let (sequence, s) = ZSTD_decodeSequence s (n = 0); (rest, s) = decode_all n s in (sequence # rest, s))"

text \<open>Sequences with their codes, the offsets they stand for and the decoded sequences.\<close>

type_synonym coded_seq = "SeqDef \<times> nat \<times> nat \<times> nat"

definition item_of :: "coded_seq \<Rightarrow> seq_item" where
  "item_of = (\<lambda>(sq, a, b, c). seq_item_of sq a b c)"

definition number_of :: "coded_seq \<Rightarrow> u32 \<times> nat" where
  "number_of = (\<lambda>(sq, a, b, c). (sd_offBase sq, of_bool (LL_base ! a = 0)))"

definition coded_ok :: "coded_seq \<Rightarrow> bool" where
  "coded_ok = (\<lambda>(sq, a, b, c). codes_in_range a b c \<and> is_highbit (sd_offBase sq) b)"

fun decoded_seqs :: "u32 list \<Rightarrow> coded_seq list \<Rightarrow> seq_t list" where
  "decoded_seqs rep [] = []"
| "decoded_seqs rep ((sq, a, b, c) # qs) = decoded_seq rep sq a c #
     decoded_seqs (ZSTD_updateRep rep (sd_offBase sq) (of_bool (LL_base ! a = 0))) qs"

lemma decode_all_follows:
  assumes "coders_ok tL tO tM" "qs \<noteq> []" "list_all (item_ok tL tO tM) (map item_of qs)" "list_all coded_ok qs"
    "seq_follows tL tO tM s (map item_of qs)" "length rep = 3" "qs_prevOffset s = map ucast rep"
    "list_all offset_ok (raw_offsets rep (map number_of qs))"
  shows "\<exists>s'. decode_all (length qs) s = (decoded_seqs rep qs, s') \<and>
    qs_prevOffset s' = map ucast (final_rep rep (map number_of qs)) \<and> BIT_endOfDStream (qs_DStream s')"
  using assms(2-8)
proof (induction qs arbitrary: s rep)
  case (Cons q qs)
  obtain sq a b c where q: "q = (sq, a, b, c)" by (cases q)
  define rep' where "rep' = ZSTD_updateRep rep (sd_offBase sq) (of_bool (LL_base ! a = 0))"
  have ok: "list_all (item_ok tL tO tM) (seq_item_of sq a b c # map item_of qs)" "codes_in_range a b c"
    "is_highbit (sd_offBase sq) b" "seq_follows tL tO tM s (seq_item_of sq a b c # map item_of qs)"
    "offset_ok (raw_offset rep (sd_offBase sq) (of_bool (LL_base ! a = 0)))"
    "list_all offset_ok (raw_offsets rep' (map number_of qs))"
    using Cons.prems by (simp_all add: q item_of_def coded_ok_def number_of_def rep'_def)
  obtain s1 where s1: "ZSTD_decodeSequence s (map item_of qs = []) = (decoded_seq rep sq a c, s1)"
      "qs_prevOffset s1 = map ucast rep'"
      "if map item_of qs = [] then BIT_endOfDStream (qs_DStream s1) else seq_follows tL tO tM s1 (map item_of qs)"
    using decodeSequence_follows [OF assms(1) ok(1-4) Cons.prems(5,6) ok(5)] by (auto simp: rep'_def)
  show ?case
  proof (cases "qs = []")
    case True
    then show ?thesis using s1 by (simp add: q number_of_def rep'_def)
  next
    case False
    moreover have "length rep' = 3" using Cons.prems(5) by (simp add: rep'_def)
    ultimately show ?thesis
      using Cons.IH [of s1 rep'] Cons.prems(2,3) s1 ok(6) by (auto simp: q number_of_def rep'_def)
  qed
qed simp

lemma initFseState_follows:
  assumes "q_valid t" "x \<in> q_states t" "reads ds (fs @ [(x mod 2 ^ q_log t, q_log t)]) 8" "q_log t \<le> 9"
  shows "\<exists>st ds'. ZSTD_initFseState ds (q_dtable base bits t) = (st, ds') \<and> q_dholds base bits t st x \<and> reads ds' fs 8"
proof -
  note r = reads_take [OF assms(3)]
  show ?thesis
    using q_dholds_init [OF assms(1,2), of base bits] r(1) reads_reload [OF r(2)] assms(4)
    by (auto simp: ZSTD_initFseState_def BIT_readBits_def q_dtable_log split: prod.splits)
qed

lemma decode_start_follows:
  assumes "coders_ok tL tO tM" "items \<noteq> []" "list_all (item_ok tL tO tM) items" "c_image (stream_fields tL tO tM items) src"
    "dq_LLTptr dctx = q_dtable LL_base LL_bits tL" "dq_OFTptr dctx = q_dtable OF_base OF_bits tO"
    "dq_MLTptr dctx = q_dtable ML_base ML_bits tM"
  shows "\<exists>s. decode_start dctx rep src = Inr s \<and> seq_follows tL tO tM s items \<and> qs_prevOffset s = map ucast rep"
proof -
  obtain fs l o' m where e: "enc3 tL tO tM items = (fs, l, o', m)" by (metis prod_cases4)
  have st: "l \<in> q_states tL" "o' \<in> q_states tO" "m \<in> q_states tM" "fields_ok fs"
    using enc3_states [OF assms(1-3) e] by auto
  have v: "q_valid tL" "q_valid tO" "q_valid tM" "q_log tL \<le> 9" "q_log tO \<le> 9" "q_log tM \<le> 9"
    using assms(1) by (auto simp: coders_ok_def LLFSELog_def OffFSELog_def MLFSELog_def)
  have sf: "stream_fields tL tO tM items = ((fs @ [(m mod 2 ^ q_log tM, q_log tM)]) @ [(o' mod 2 ^ q_log tO, q_log tO)])
      @ [(l mod 2 ^ q_log tL, q_log tL)]" using e by (simp add: stream_fields_def)
  have fok: "fields_ok (stream_fields tL tO tM items)"
    unfolding sf fields_ok_append using st(4) by (simp add: fields_ok_def)
  obtain ds where ds: "BIT_initDStream src = Inr ds" "reads ds (stream_fields tL tO tM items) 8"
    using open_c_image [OF assms(4) fok] fok by (auto simp: reads_def d_ready_def)
  obtain s1 d1 where s1: "ZSTD_initFseState ds (dq_LLTptr dctx) = (s1, d1)" "q_dholds LL_base LL_bits tL s1 l"
      "reads d1 ((fs @ [(m mod 2 ^ q_log tM, q_log tM)]) @ [(o' mod 2 ^ q_log tO, q_log tO)]) 8"
    using initFseState_follows [OF v(1) st(1) ds(2) [unfolded sf] v(4)] assms(5) by metis
  obtain s2 d2 where s2: "ZSTD_initFseState d1 (dq_OFTptr dctx) = (s2, d2)" "q_dholds OF_base OF_bits tO s2 o'"
      "reads d2 (fs @ [(m mod 2 ^ q_log tM, q_log tM)]) 8"
    using initFseState_follows [OF v(2) st(2) s1(3) v(5)] assms(6) by metis
  obtain s3 d3 where s3: "ZSTD_initFseState d2 (dq_MLTptr dctx) = (s3, d3)" "q_dholds ML_base ML_bits tM s3 m"
      "reads d3 fs 8"
    using initFseState_follows [OF v(3) st(3) s2(3) v(6)] assms(7) by metis
  show ?thesis using ds(1) s1(1,2) s2(1,2) s3 e by (simp add: decode_start_def seq_follows_def)
qed

subsection \<open>The round trip\<close>

text \<open>The sequences with the offsets their numbers stand for.\<close>

definition plain_seqs :: "u32 list \<Rightarrow> (nat \<times> u32 \<times> nat) list \<Rightarrow> seq_t list" where
  "plain_seqs rep sqs = map2 (\<lambda>(ll, ob, ml) off. \<lparr>seq_litLength = ll, seq_matchLength = ml, seq_offset = unat off\<rparr>)
     sqs (raw_offsets rep (nums sqs))"

definition coded_seqs :: "SeqStore_t \<Rightarrow> coded_seq list" where
  "coded_seqs ss = map (\<lambda>i. (ss_sequences ss ! i, ss_llCode ss ! i, ss_ofCode ss ! i, ss_mlCode ss ! i))
     [0..<length (ss_sequences ss)]"

definition codes_exact :: "coded_seq \<Rightarrow> nat \<times> u32 \<times> nat \<Rightarrow> bool" where
  "codes_exact = (\<lambda>(sq, a, b, c) (ll, ob, ml).
     LL_base ! a + unat (sd_litLength sq) mod 2 ^ (LL_bits ! a) = ll \<and>
     ML_base ! c + unat (sd_mlBase sq) mod 2 ^ (ML_bits ! c) = ml \<and> sd_offBase sq = ob \<and> (LL_base ! a = 0 \<longleftrightarrow> ll = 0))"

lemma decoded_seqs_plain:
  assumes "list_all2 codes_exact qs sqs"
  shows "map number_of qs = nums sqs \<and> decoded_seqs rep qs = plain_seqs rep sqs"
  using assms
proof (induction arbitrary: rep rule: list_all2_induct)
  case (Cons q qs x sqs)
  then show ?case
    by (cases q; cases x) (simp add: codes_exact_def number_of_def nums_def decoded_seq_def plain_seqs_def)
qed (simp add: nums_def plain_seqs_def)

lemma LL_base_zero: "a \<le> MaxLL \<Longrightarrow> LL_base ! a = 0 \<longleftrightarrow> a = 0"
proof -
  assume "a \<le> MaxLL"
  moreover have "\<forall>a \<in> set [1..<36]. LL_base ! a \<noteq> 0" by (simp add: LL_base_def upt_rec)
  moreover have "LL_base ! 0 = 0" by (simp add: LL_base_def)
  ultimately show ?thesis by (cases a) (auto simp: MaxLL_def)
qed

lemma seq_extra_fields_ok: "fields_ok (seq_extra sq a b c)"
  by (simp add: seq_extra_def fields_ok_def)


lemma stored_codes_exact:
  assumes "block_ok sqs" "ss = snd (ZSTD_seqToCodes (store_all (ZSTD_resetSeqStore ss0) sqs))"
  shows "list_all2 codes_exact (coded_seqs ss) sqs" "list_all coded_ok (coded_seqs ss)" "length (ss_sequences ss) = length sqs"
proof -
  have len: "length (ss_sequences ss) = length sqs"
    using store_all_holds [OF assms(1), of ss0] by (simp add: assms(2) ZSTD_seqToCodes_def holds_def Let_def)
  have "codes_exact (coded_seqs ss ! i) (sqs ! i) \<and> coded_ok (coded_seqs ss ! i)" if i: "i < length sqs" for i
  proof -
    obtain ll ob ml where x: "sqs ! i = (ll, ob, ml)" by (cases "sqs ! i")
    note e = stored_lengths_exact [OF assms(1) i x assms(2)]
    then have a: "ss_llCode ss ! i \<le> MaxLL" by simp
    have "LL_base ! (ss_llCode ss ! i) = 0 \<longleftrightarrow> ll = 0" using e LL_base_zero [OF a] by (auto simp: LL_bits_def)
    then show ?thesis
      using e i len by (auto simp: codes_exact_def coded_ok_def coded_seqs_def x codes_in_range_def is_highbit_def)
  qed
  then show "list_all2 codes_exact (coded_seqs ss) sqs" "list_all coded_ok (coded_seqs ss)"
    using len by (auto simp: list_all2_conv_all_nth list_all_length coded_seqs_def)
  show "length (ss_sequences ss) = length sqs" by (rule len)
qed

text \<open>The codes of the store are in the three coding tables, and the tables of both sides belong
  together.\<close>

definition codes_in_tables :: "seq_coder \<Rightarrow> seq_coder \<Rightarrow> seq_coder \<Rightarrow> SeqStore_t \<Rightarrow> bool" where
  "codes_in_tables tL tO tM ss \<longleftrightarrow> coders_ok tL tO tM \<and>
     list_all (\<lambda>(sq, a, b, c). q_codes tL a \<and> q_codes tO b \<and> q_codes tM c) (coded_seqs ss)"

definition dctx_tables :: "seq_coder \<Rightarrow> seq_coder \<Rightarrow> seq_coder \<Rightarrow> seq_dctx \<Rightarrow> bool" where
  "dctx_tables tL tO tM dctx \<longleftrightarrow> dq_LLTptr dctx = q_dtable LL_base LL_bits tL \<and>
     dq_OFTptr dctx = q_dtable OF_base OF_bits tO \<and> dq_MLTptr dctx = q_dtable ML_base ML_bits tM"

lemma encoded_image:
  fixes dst :: bytes and lo :: bool
  assumes "sqs \<noteq> []" "block_ok sqs" "ss = snd (ZSTD_seqToCodes (store_all (ZSTD_resetSeqStore ss0) sqs))"
    "codes_in_tables tL tO tM ss" "q_ctable tL ctL" "q_ctable tO ctO" "q_ctable tM ctM"
  defines "items \<equiv> map item_of (coded_seqs ss)"
    and "enc \<equiv> ZSTD_encodeSequences dst ctM (ss_mlCode ss) ctO (ss_ofCode ss) ctL (ss_llCode ss) (ss_sequences ss) (length sqs) lo"
  shows "items \<noteq> []" "list_all (item_ok tL tO tM) items"
    "enc = Inr (sz, dst') \<Longrightarrow> c_image (stream_fields tL tO tM items) (take sz dst')"
    "89 * length sqs + 8 \<le> 8 * (length dst - 8) \<Longrightarrow> \<exists>sz dst'. enc = Inr (sz, dst')"
proof -
  note st = stored_codes_exact [OF assms(2,3)]
  let ?N = "length sqs"
  have it: "items = seq_items (ss_sequences ss) (ss_llCode ss) (ss_ofCode ss) (ss_mlCode ss) ?N"
    using st(3) by (simp add: items_def coded_seqs_def seq_items_def item_of_def)
  show "items \<noteq> []" using assms(1) st(3) by (simp add: items_def coded_seqs_def)
  have ok: "coders_ok tL tO tM" using assms(4) by (simp add: codes_in_tables_def)
  have r: "\<forall>i < ?N. codes_in_range (ss_llCode ss ! i) (ss_ofCode ss ! i) (ss_mlCode ss ! i)"
    using st(2,3) by (auto simp: list_all_length coded_seqs_def coded_ok_def)
  show io: "list_all (item_ok tL tO tM) items"
    using assms(4) seq_extra_fields_ok by (auto simp: items_def codes_in_tables_def item_of_def item_ok_def seq_item_of_def list_all_iff)
  have n: "?N \<noteq> 0" using assms(1) by simp
  show "c_image (stream_fields tL tO tM items) (take sz dst')" if "enc = Inr (sz, dst')"
    using encodeSequences_image [OF ok assms(5-7) n r io [unfolded it]] that by (simp add: it enc_def)
  show "\<exists>sz dst'. enc = Inr (sz, dst')" if "89 * length sqs + 8 \<le> 8 * (length dst - 8)"
    using encodeSequences_fits [OF ok assms(5-7) n r io [unfolded it]] stream_fields_bound [OF ok n r io [unfolded it]] that
    by (simp add: enc_def)
qed

lemma decode_encoded:
  assumes "sqs \<noteq> []" "block_ok sqs" "ss = snd (ZSTD_seqToCodes (store_all (ZSTD_resetSeqStore ss0) sqs))"
    "codes_in_tables tL tO tM ss" "dctx_tables tL tO tM dctx" "length rep = 3" "list_all offset_ok (raw_offsets rep (nums sqs))"
    "c_image (stream_fields tL tO tM (map item_of (coded_seqs ss))) src"
  shows "\<exists>s s'. decode_start dctx rep src = Inr s \<and> decode_all (length sqs) s = (plain_seqs rep sqs, s') \<and>
    BIT_endOfDStream (qs_DStream s') \<and> qs_prevOffset s' = map ucast (final_rep rep (nums sqs))"
proof -
  note st = stored_codes_exact [OF assms(2,3)]
  note pl = decoded_seqs_plain [OF st(1), of rep]
  have io: "list_all (item_ok tL tO tM) (map item_of (coded_seqs ss))" and ok: "coders_ok tL tO tM"
    using assms(4) seq_extra_fields_ok by (auto simp: codes_in_tables_def item_of_def item_ok_def seq_item_of_def list_all_iff)
  have ne: "coded_seqs ss \<noteq> []" "length (coded_seqs ss) = length sqs" using assms(1) st(3) by (auto simp: coded_seqs_def)
  obtain s where s: "decode_start dctx rep src = Inr s" "seq_follows tL tO tM s (map item_of (coded_seqs ss))"
      "qs_prevOffset s = map ucast rep"
    using decode_start_follows [OF ok _ io assms(8)] ne assms(5) by (auto simp: dctx_tables_def)
  show ?thesis
    using decode_all_follows [OF ok ne(1) io st(2) s(2) assms(6) s(3)] pl assms(7) s(1) ne(2) by auto
qed

text \<open>The predefined tables have every code but the largest offset codes.\<close>

lemma default_coders_ok:
  "coders_ok (Coder_fse LL_defaultNorm LL_DEFAULTNORMLOG) (Coder_fse OF_defaultNorm OF_DEFAULTNORMLOG)
     (Coder_fse ML_defaultNorm ML_DEFAULTNORMLOG)"
  using default_norm_ok default_logs by (simp add: coders_ok_def)

lemma default_norm_codes:
  "length LL_defaultNorm = Suc MaxLL" "length OF_defaultNorm = 29" "length ML_defaultNorm = Suc MaxML"
  "list_all (\<lambda>n. n \<noteq> 0) LL_defaultNorm" "list_all (\<lambda>n. n \<noteq> 0) OF_defaultNorm" "list_all (\<lambda>n. n \<noteq> 0) ML_defaultNorm"
  by (simp_all add: LL_defaultNorm_def OF_defaultNorm_def ML_defaultNorm_def MaxLL_def MaxML_def)

lemma default_q_dtable:
  "q_dtable LL_base LL_bits (Coder_fse LL_defaultNorm LL_DEFAULTNORMLOG) = LL_defaultDTable"
  "q_dtable OF_base OF_bits (Coder_fse OF_defaultNorm OF_DEFAULTNORMLOG) = OF_defaultDTable"
  "q_dtable ML_base ML_bits (Coder_fse ML_defaultNorm ML_DEFAULTNORMLOG) = ML_defaultDTable"
  using LL_default OF_default ML_default
  by (simp_all add: default_norm_codes(1-3) DefaultMaxOff_def)

lemma default_codes_in_tables:
  assumes "block_ok sqs" "\<forall>(ll, ob, ml) \<in> set sqs. unat ob < 2 ^ 29"
    "ss = snd (ZSTD_seqToCodes (store_all (ZSTD_resetSeqStore ss0) sqs))"
  shows "codes_in_tables (Coder_fse LL_defaultNorm LL_DEFAULTNORMLOG) (Coder_fse OF_defaultNorm OF_DEFAULTNORMLOG)
     (Coder_fse ML_defaultNorm ML_DEFAULTNORMLOG) ss"
proof -
  note st = stored_codes_exact [OF assms(1,3)]
  have "a < length LL_defaultNorm \<and> b < length OF_defaultNorm \<and> c < length ML_defaultNorm"
    if m: "(sq, a, b, c) \<in> set (coded_seqs ss)" for sq a b c
  proof -
    obtain i where i: "i < length sqs" "coded_seqs ss ! i = (sq, a, b, c)"
      using m list_all2_lengthD [OF st(1)] by (auto simp: in_set_conv_nth)
    have ok: "codes_in_range a b c" "is_highbit (sd_offBase sq) b" using m st(2) by (auto simp: list_all_iff coded_ok_def)
    have "unat (sd_offBase sq) < 2 ^ 29"
      using list_all2_nthD2 [OF st(1) i(1)] assms(2) nth_mem [OF i(1)] i(2) by (auto simp: codes_exact_def)
    then have "(2::nat) ^ b < 2 ^ 29" using ok(2) by (simp add: is_highbit_def)
    then have "b < 29" using power_less_imp_less_exp [of "2::nat" b 29] by simp
    then show ?thesis using ok(1) by (simp add: codes_in_range_def default_norm_codes(1-3))
  qed
  then show ?thesis
    using default_coders_ok default_norm_codes(4-6) by (auto simp: codes_in_tables_def list_all_iff fse_codes_def)
qed

text \<open>
  C11. Sequences survive the entropy stage. For any sequences that fit into one block, stored by
  \<open>ZSTD_storeSeqOnly\<close>, turned into codes by \<open>ZSTD_seqToCodes\<close> and written by
  \<open>ZSTD_encodeSequences\<close> with three coding tables (each from a valid distribution or of one
  symbol) in which their codes occur: if the encoder succeeds, and it does whenever the
  destination has room for 89 bits per sequence, then the decoder that holds the matching three
  decoding tables and the same history of offsets reads back, from exactly the bytes written,
  every literal length, match length and offset, the offsets being those the numbers stood for when
  they were chosen. It then stands at the end of the bit stream, and its history of
  offsets is the one the encoder has after the block.
\<close>

theorem sequences_roundtrip:
  assumes "sqs \<noteq> []" "block_ok sqs" "ss = snd (ZSTD_seqToCodes (store_all (ZSTD_resetSeqStore ss0) sqs))"
    "codes_in_tables tL tO tM ss" "q_ctable tL ctL" "q_ctable tO ctO" "q_ctable tM ctM"
    "dctx_tables tL tO tM dctx" "length rep = 3" "list_all offset_ok (raw_offsets rep (nums sqs))"
  shows "case ZSTD_encodeSequences dst ctM (ss_mlCode ss) ctO (ss_ofCode ss) ctL (ss_llCode ss) (ss_sequences ss) (length sqs) lo of
      Inl e \<Rightarrow> 8 * (length dst - 8) < 89 * length sqs + 8
    | Inr (sz, dst') \<Rightarrow> \<exists>s s'. decode_start dctx rep (take sz dst') = Inr s \<and>
        decode_all (length sqs) s = (plain_seqs rep sqs, s') \<and>
        BIT_endOfDStream (qs_DStream s') \<and> qs_prevOffset s' = map ucast (final_rep rep (nums sqs))"
proof (cases "ZSTD_encodeSequences dst ctM (ss_mlCode ss) ctO (ss_ofCode ss) ctL (ss_llCode ss) (ss_sequences ss) (length sqs) lo")
  case (Inl e)
  then show ?thesis using encoded_image(4) [OF assms(1-7), of dst lo] by (cases "8 * (length dst - 8) < 89 * length sqs + 8") auto
next
  case (Inr r)
  obtain sz dst' where r: "r = (sz, dst')" by (cases r)
  show ?thesis using decode_encoded [OF assms(1-4,8-10) encoded_image(3) [OF assms(1-7) Inr [unfolded r]]] Inr r by simp
qed

theorem sequences_roundtrip_witness:
  "\<exists>ctL ctO ctM dctx (ss :: SeqStore_t) sz dst' s s'.
     ZSTD_encodeSequences (replicate 100 0) ctM (ss_mlCode ss) ctO (ss_ofCode ss) ctL (ss_llCode ss) (ss_sequences ss) 2 False
       = Inr (sz, dst') \<and>
     decode_start dctx [1, 4, 8] (take sz dst') = Inr s \<and>
     decode_all 2 s = ([\<lparr>seq_litLength = 3, seq_matchLength = 9, seq_offset = 7\<rparr>,
       \<lparr>seq_litLength = 70000, seq_matchLength = 5, seq_offset = 7\<rparr>], s') \<and> BIT_endOfDStream (qs_DStream s')"
proof -
  let ?sqs = "[(3, 10, 9), (70000, 1, 5)] :: (nat \<times> u32 \<times> nat) list"
  let ?ss = "snd (ZSTD_seqToCodes (store_all (ZSTD_resetSeqStore \<lparr>ss_sequences = [], ss_litStart = 0, ss_lit = 0, ss_llCode = [],
    ss_mlCode = [], ss_ofCode = [], ss_maxNbSeq = 10, ss_maxNbLit = 131072, ss_longLengthType = ZSTD_llt_none,
    ss_longLengthPos = 0\<rparr>) ?sqs))"
  let ?ct = "\<lambda>norm L. \<lparr>ct_tableLog = L, ct_maxSymbolValue = length norm - 1, ct_stateTable = fse_states norm L,
    ct_symbolTT = fse_transforms L norm 0\<rparr>"
  let ?L = "?ct LL_defaultNorm LL_DEFAULTNORMLOG" and ?O = "?ct OF_defaultNorm OF_DEFAULTNORMLOG"
    and ?M = "?ct ML_defaultNorm ML_DEFAULTNORMLOG"
  let ?d = "\<lparr>dq_LLTptr = LL_defaultDTable, dq_OFTptr = OF_defaultDTable, dq_MLTptr = ML_defaultDTable, dq_fseEntropy = False\<rparr>"
  have ok: "block_ok ?sqs" by (simp add: block_ok_def lengths_total_def zstd_limits MINMATCH_def)
  have offs: "raw_offsets [1, 4, 8] (nums ?sqs) = [7, 7]"
    by (simp add: nums_def raw_offset_def OFFBASE_IS_OFFSET_def OFFBASE_TO_OFFSET_def ZSTD_resolveRepcodeToRawOffset_def
        ZSTD_updateRep_def Let_def ZSTD_REP_NUM_def)
  let ?enc = "ZSTD_encodeSequences (replicate 100 0) ?M (ss_mlCode ?ss) ?O (ss_ofCode ?ss) ?L (ss_llCode ?ss) (ss_sequences ?ss)
    (length ?sqs) False"
  have r: "case ?enc of
      Inl e \<Rightarrow> 8 * (length (replicate 100 (0 :: 8 word)) - 8) < 89 * length ?sqs + 8
    | Inr (sz, dst') \<Rightarrow> \<exists>s s'. decode_start ?d [1, 4, 8] (take sz dst') = Inr s \<and>
        decode_all (length ?sqs) s = (plain_seqs [1, 4, 8] ?sqs, s') \<and>
        BIT_endOfDStream (qs_DStream s') \<and> qs_prevOffset s' = map ucast (final_rep [1, 4, 8] (nums ?sqs))"
    by (rule sequences_roundtrip [OF _ ok refl default_codes_in_tables [OF ok _ refl]])
      (simp_all add: offs offset_ok_def dctx_tables_def default_q_dtable del: q_dtable.simps)
  have "plain_seqs [1, 4, 8] ?sqs = [\<lparr>seq_litLength = 3, seq_matchLength = 9, seq_offset = 7\<rparr>,
       \<lparr>seq_litLength = 70000, seq_matchLength = 5, seq_offset = 7\<rparr>]" "length ?sqs = 2"
    by (simp_all add: plain_seqs_def offs)
  moreover obtain sz dst' where "?enc = Inr (sz, dst')" using r by (cases ?enc) auto
  ultimately show ?thesis using r by (simp only: sum.case prod.case) blast
qed

end
