(* ===== verification/Zstd_Block.thy ===== *)
theory Zstd_Block
  imports Zstd_SeqDecode Zstd_Exec
begin

text \<open>
  Regenerating a block from its sequences and literals (\<open>zstd_decompress_block.c\<close>): the plain
  decoder, the one whose literals lie in two places, and the one that decodes eight sequences
  ahead. All three are shown to run the same sequences in the same order; the plain one is shown to
  refine a list function that says what a block of sequences means, for every input.

  Addresses are positions in one memory. The compressed sequences are passed as a list of their
  own, as the decoder only reads them. Prefetching has no effect on memory and is left out.
\<close>

subsection \<open>The decoders\<close>

definition STORED_SEQS :: nat where "STORED_SEQS = 8"
definition ZSTD_LBMIN :: nat where "ZSTD_LBMIN = 64"
definition ZSTD_LBMAX :: nat where "ZSTD_LBMAX = 131072"
definition ZSTD_DECODER_INTERNAL_BUFFER :: nat where "ZSTD_DECODER_INTERNAL_BUFFER = 65536"

definition ZSTD_LITBUFFEREXTRASIZE :: nat where
  "ZSTD_LITBUFFEREXTRASIZE = max ZSTD_LBMIN (min ZSTD_DECODER_INTERNAL_BUFFER ZSTD_LBMAX)"

datatype ZSTD_litLocation_e = ZSTD_not_in_dst | ZSTD_in_dst | ZSTD_split

record block_dctx =
  bd_tables :: seq_dctx
  bd_rep :: "u32 list"
  bd_previousDstEnd :: nat
  bd_prefixStart :: nat
  bd_virtualStart :: int
  bd_dictEnd :: nat
  bd_litPtr :: nat
  bd_litSize :: nat
  bd_litBuffer :: nat
  bd_litBufferEnd :: nat
  bd_litBufferLocation :: ZSTD_litLocation_e
  bd_litExtraBuffer :: nat

definition exec_in :: "block_dctx \<Rightarrow> nat \<Rightarrow> seq_t \<Rightarrow> bytes \<Rightarrow> nat \<Rightarrow> nat \<Rightarrow> nat \<Rightarrow> (bytes \<times> nat \<times> nat) res" where
  "exec_in dctx oend sequence mem op litPtr litEnd =
     ZSTD_execSequence mem op oend sequence litPtr litEnd (bd_prefixStart dctx) (bd_virtualStart dctx) (bd_dictEnd dctx)"

definition exec_split_in :: "block_dctx \<Rightarrow> nat \<Rightarrow> seq_t \<Rightarrow> bytes \<Rightarrow> nat \<Rightarrow> nat \<Rightarrow> nat \<Rightarrow> (bytes \<times> nat \<times> nat) res" where
  "exec_split_in dctx oend sequence mem op litPtr litEnd =
     ZSTD_execSequenceSplitLitBuffer mem op oend (int (litPtr + seq_litLength sequence) - int WILDCOPY_OVERLENGTH)
       sequence litPtr litEnd (bd_prefixStart dctx) (bd_virtualStart dctx) (bd_dictEnd dctx)"

text \<open>The loop over the sequences, and the literals after the last of them.\<close>

primrec regen_loop ::
  "nat \<Rightarrow> block_dctx \<Rightarrow> nat \<Rightarrow> nat \<Rightarrow> seqState_t \<Rightarrow> bytes \<Rightarrow> nat \<Rightarrow> nat \<Rightarrow> (bytes \<times> nat \<times> nat \<times> seqState_t) res" where
  "regen_loop 0 dctx oend litEnd seqState mem op litPtr = Inr (mem, op, litPtr, seqState)"
| "regen_loop (Suc n) dctx oend litEnd seqState mem op litPtr =
     (let (sequence, seqState) = ZSTD_decodeSequence seqState (n = 0) in
      bind_res (exec_in dctx oend sequence mem op litPtr litEnd) (\<lambda>(mem, oneSeqSize, litPtr).
      regen_loop n dctx oend litEnd seqState mem (op + oneSeqSize) litPtr))"

definition last_literals :: "bytes \<Rightarrow> nat \<Rightarrow> nat \<Rightarrow> nat \<Rightarrow> nat \<Rightarrow> (bytes \<times> nat) res" where
  "last_literals mem op oend litPtr litEnd =
     (let lastLLSize = litEnd - litPtr in
      if lastLLSize > oend - op then Inl ZSTD_error_dstSize_tooSmall
      else Inr (ZSTD_memmove mem op litPtr lastLLSize, op + lastLLSize))"

definition mark_fse :: "block_dctx \<Rightarrow> block_dctx" where
  "mark_fse dctx = dctx\<lparr>bd_tables := (bd_tables dctx)\<lparr>dq_fseEntropy := True\<rparr>\<rparr>"

definition save_reps :: "seqState_t \<Rightarrow> block_dctx \<Rightarrow> block_dctx" where
  "save_reps seqState dctx = dctx\<lparr>bd_rep := map ucast (qs_prevOffset seqState)\<rparr>"

definition ZSTD_decompressSequences_body ::
  "bytes \<Rightarrow> block_dctx \<Rightarrow> nat \<Rightarrow> nat \<Rightarrow> bytes \<Rightarrow> nat \<Rightarrow> (bytes \<times> nat \<times> block_dctx) res" where
  "ZSTD_decompressSequences_body mem dctx ostart maxDstSize src nbSeq =
     (let oend = (if bd_litBufferLocation dctx = ZSTD_not_in_dst then ostart + maxDstSize else bd_litBuffer dctx);
          litEnd = bd_litPtr dctx + bd_litSize dctx in
      bind_res
        (if nbSeq > 0
         then let dctx = mark_fse dctx in
           bind_res (decode_start (bd_tables dctx) (bd_rep dctx) src) (\<lambda>seqState.
           bind_res (regen_loop nbSeq dctx oend litEnd seqState mem ostart (bd_litPtr dctx)) (\<lambda>(mem, op, litPtr, seqState).
           if \<not> BIT_endOfDStream (qs_DStream seqState) then Inl ZSTD_error_corruption_detected
           else Inr (mem, op, litPtr, save_reps seqState dctx)))
         else Inr (mem, ostart, bd_litPtr dctx, dctx))
        (\<lambda>(mem, op, litPtr, dctx).
           bind_res (last_literals mem op oend litPtr litEnd) (\<lambda>(mem, op). Inr (mem, op - ostart, dctx))))"

text \<open>The state of the output: the memory, the output position, the next literal, the end of the literals
  and where they are.\<close>

type_synonym out_state = "bytes \<times> nat \<times> nat \<times> nat \<times> ZSTD_litLocation_e"

text \<open>Literals in two places: while they come from the output buffer (the result says where the loop
  broke off, if it did), the step from there to the extra buffer, and the decoder.\<close>

primrec split_loop ::
  "nat \<Rightarrow> block_dctx \<Rightarrow> nat \<Rightarrow> seqState_t \<Rightarrow> bytes \<Rightarrow> nat \<Rightarrow> nat \<Rightarrow> (bytes \<times> nat \<times> nat \<times> seqState_t \<times> (seq_t \<times> nat) option) res" where
  "split_loop 0 dctx oend seqState mem op litPtr = Inr (mem, op, litPtr, seqState, None)"
| "split_loop (Suc n) dctx oend seqState mem op litPtr =
     (let (sequence, seqState) = ZSTD_decodeSequence seqState (n = 0) in
      if litPtr + seq_litLength sequence > bd_litBufferEnd dctx then Inr (mem, op, litPtr, seqState, Some (sequence, n))
      else bind_res (exec_split_in dctx oend sequence mem op litPtr (bd_litBufferEnd dctx)) (\<lambda>(mem, oneSeqSize, litPtr).
           split_loop n dctx oend seqState mem (op + oneSeqSize) litPtr))"

definition extra_end :: "block_dctx \<Rightarrow> nat" where
  "extra_end dctx = bd_litExtraBuffer dctx + ZSTD_LITBUFFEREXTRASIZE"

definition leave_split :: "block_dctx \<Rightarrow> nat \<Rightarrow> seq_t \<Rightarrow> bytes \<Rightarrow> nat \<Rightarrow> nat \<Rightarrow> (bytes \<times> nat \<times> nat) res" where
  "leave_split dctx oend sequence mem op litPtr =
     (let leftoverLit = bd_litBufferEnd dctx - litPtr in
      bind_res
        (if leftoverLit \<noteq> 0
         then if leftoverLit > oend - op then Inl ZSTD_error_dstSize_tooSmall
              else Inr (ZSTD_safecopyDstBeforeSrc mem op litPtr leftoverLit,
                        sequence\<lparr>seq_litLength := seq_litLength sequence - leftoverLit\<rparr>, op + leftoverLit)
         else Inr (mem, sequence, op))
        (\<lambda>(mem, sequence, op).
           bind_res (exec_in dctx oend sequence mem op (bd_litExtraBuffer dctx) (extra_end dctx)) (\<lambda>(mem, oneSeqSize, litPtr).
           Inr (mem, op + oneSeqSize, litPtr))))"

definition last_split_literals ::
  "bytes \<Rightarrow> block_dctx \<Rightarrow> nat \<Rightarrow> nat \<Rightarrow> nat \<Rightarrow> nat \<Rightarrow> ZSTD_litLocation_e \<Rightarrow> (bytes \<times> nat) res" where
  "last_split_literals mem dctx op oend litPtr litBufferEnd location =
     bind_res (if location = ZSTD_split
               then bind_res (last_literals mem op oend litPtr litBufferEnd) (\<lambda>(mem, op).
                    Inr (mem, op, bd_litExtraBuffer dctx, extra_end dctx))
               else Inr (mem, op, litPtr, litBufferEnd))
       (\<lambda>(mem, op, litPtr, litBufferEnd). last_literals mem op oend litPtr litBufferEnd)"

definition split_sequences ::
  "nat \<Rightarrow> block_dctx \<Rightarrow> nat \<Rightarrow> seqState_t \<Rightarrow> bytes \<Rightarrow> nat \<Rightarrow> nat \<Rightarrow> (out_state \<times> seqState_t) res" where
  "split_sequences nbSeq dctx oend seqState mem op litPtr =
     bind_res (split_loop nbSeq dctx oend seqState mem op litPtr) (\<lambda>(mem, op, litPtr, seqState, rest).
     case rest of
       None \<Rightarrow> Inr ((mem, op, litPtr, bd_litBufferEnd dctx, bd_litBufferLocation dctx), seqState)
     | Some (sequence, n) \<Rightarrow>
         bind_res (leave_split dctx oend sequence mem op litPtr) (\<lambda>(mem, op, litPtr).
         bind_res (regen_loop n dctx oend (extra_end dctx) seqState mem op litPtr) (\<lambda>(mem, op, litPtr, seqState).
         Inr ((mem, op, litPtr, extra_end dctx, ZSTD_not_in_dst), seqState))))"

definition ZSTD_decompressSequences_bodySplitLitBuffer ::
  "bytes \<Rightarrow> block_dctx \<Rightarrow> nat \<Rightarrow> nat \<Rightarrow> bytes \<Rightarrow> nat \<Rightarrow> (bytes \<times> nat \<times> block_dctx) res" where
  "ZSTD_decompressSequences_bodySplitLitBuffer mem dctx ostart maxDstSize src nbSeq =
     (let oend = ostart + maxDstSize in
      bind_res
        (if nbSeq > 0
         then let dctx = mark_fse dctx in
           bind_res (decode_start (bd_tables dctx) (bd_rep dctx) src) (\<lambda>seqState.
           bind_res (split_sequences nbSeq dctx oend seqState mem ostart (bd_litPtr dctx)) (\<lambda>(st, seqState).
           if \<not> BIT_endOfDStream (qs_DStream seqState) then Inl ZSTD_error_corruption_detected
           else Inr (st, save_reps seqState dctx)))
         else Inr ((mem, ostart, bd_litPtr dctx, bd_litBufferEnd dctx, bd_litBufferLocation dctx), dctx))
        (\<lambda>((mem, op, litPtr, litBufferEnd, location), dctx).
           bind_res (last_split_literals mem dctx op oend litPtr litBufferEnd location) (\<lambda>(mem, op).
           Inr (mem, op - ostart, dctx\<lparr>bd_litBufferLocation := if location = ZSTD_split then ZSTD_not_in_dst else location\<rparr>))))"

text \<open>The choice between the two that do not decode ahead.\<close>

definition regular_decoder ::
  "bytes \<Rightarrow> block_dctx \<Rightarrow> nat \<Rightarrow> nat \<Rightarrow> bytes \<Rightarrow> nat \<Rightarrow> (bytes \<times> nat \<times> block_dctx) res" where
  "regular_decoder mem dctx ostart maxDstSize src nbSeq =
     (if bd_litBufferLocation dctx = ZSTD_split
      then ZSTD_decompressSequences_bodySplitLitBuffer mem dctx ostart maxDstSize src nbSeq
      else ZSTD_decompressSequences_body mem dctx ostart maxDstSize src nbSeq)"

text \<open>Decoding ahead.\<close>

definition long_exec :: "block_dctx \<Rightarrow> nat \<Rightarrow> seq_t \<Rightarrow> out_state \<Rightarrow> out_state res" where
  "long_exec dctx oend sequence st = (case st of (mem, op, litPtr, litBufferEnd, location) \<Rightarrow>
     if location = ZSTD_split \<and> litPtr + seq_litLength sequence > bd_litBufferEnd dctx
     then bind_res (leave_split dctx oend sequence mem op litPtr) (\<lambda>(mem, op, litPtr).
          Inr (mem, op, litPtr, extra_end dctx, ZSTD_not_in_dst))
     else bind_res (if location = ZSTD_split then exec_split_in dctx oend sequence mem op litPtr litBufferEnd
                    else exec_in dctx oend sequence mem op litPtr litBufferEnd) (\<lambda>(mem, oneSeqSize, litPtr).
          Inr (mem, op + oneSeqSize, litPtr, litBufferEnd, location)))"

primrec advance_loop :: "nat \<Rightarrow> nat \<Rightarrow> nat \<Rightarrow> seqState_t \<Rightarrow> seq_t list \<Rightarrow> seq_t list \<times> seqState_t" where
  "advance_loop 0 nbSeq seqNb seqState sequences = (sequences, seqState)"
| "advance_loop (Suc k) nbSeq seqNb seqState sequences =
     (let (sequence, seqState) = ZSTD_decodeSequence seqState (seqNb = nbSeq - 1)
      in advance_loop k nbSeq (Suc seqNb) seqState (sequences[seqNb := sequence]))"

primrec long_loop ::
  "nat \<Rightarrow> block_dctx \<Rightarrow> nat \<Rightarrow> nat \<Rightarrow> nat \<Rightarrow> seqState_t \<Rightarrow> seq_t list \<Rightarrow> out_state \<Rightarrow> (out_state \<times> seq_t list \<times> seqState_t) res" where
  "long_loop 0 dctx oend nbSeq seqNb seqState sequences st = Inr (st, sequences, seqState)"
| "long_loop (Suc k) dctx oend nbSeq seqNb seqState sequences st =
     (let (sequence, seqState) = ZSTD_decodeSequence seqState (seqNb = nbSeq - 1) in
      bind_res (long_exec dctx oend (sequences ! ((seqNb - STORED_SEQS) mod STORED_SEQS)) st) (\<lambda>st.
      long_loop k dctx oend nbSeq (Suc seqNb) seqState (sequences[seqNb mod STORED_SEQS := sequence]) st))"

primrec finish_queue :: "nat \<Rightarrow> block_dctx \<Rightarrow> nat \<Rightarrow> nat \<Rightarrow> seq_t list \<Rightarrow> out_state \<Rightarrow> out_state res" where
  "finish_queue 0 dctx oend seqNb sequences st = Inr st"
| "finish_queue (Suc k) dctx oend seqNb sequences st =
     bind_res (long_exec dctx oend (sequences ! (seqNb mod STORED_SEQS)) st) (\<lambda>st.
     finish_queue k dctx oend (Suc seqNb) sequences st)"

definition ZSTD_decompressSequencesLong_body ::
  "bytes \<Rightarrow> block_dctx \<Rightarrow> nat \<Rightarrow> nat \<Rightarrow> bytes \<Rightarrow> nat \<Rightarrow> (bytes \<times> nat \<times> block_dctx) res" where
  "ZSTD_decompressSequencesLong_body mem dctx ostart maxDstSize src nbSeq =
     (let oend = (if bd_litBufferLocation dctx = ZSTD_in_dst then bd_litBuffer dctx else ostart + maxDstSize);
          st = (mem, ostart, bd_litPtr dctx, bd_litBufferEnd dctx, bd_litBufferLocation dctx) in
      bind_res
        (if nbSeq > 0
         then let dctx = mark_fse dctx; seqAdvance = min nbSeq STORED_SEQS in
           bind_res (decode_start (bd_tables dctx) (bd_rep dctx) src) (\<lambda>seqState.
           let (sequences, seqState) =
             advance_loop seqAdvance nbSeq 0 seqState (replicate STORED_SEQS \<lparr>seq_litLength = 0, seq_matchLength = 0, seq_offset = 0\<rparr>)
           in bind_res (long_loop (nbSeq - seqAdvance) dctx oend nbSeq seqAdvance seqState sequences st) (\<lambda>(st, sequences, seqState).
           if \<not> BIT_endOfDStream (qs_DStream seqState) then Inl ZSTD_error_corruption_detected
           else bind_res (finish_queue seqAdvance dctx oend (nbSeq - seqAdvance) sequences st) (\<lambda>st.
           Inr (st, save_reps seqState dctx))))
         else Inr (st, dctx))
        (\<lambda>((mem, op, litPtr, litBufferEnd, location), dctx).
           bind_res (last_split_literals mem dctx op oend litPtr litBufferEnd location) (\<lambda>(mem, op).
           Inr (mem, op - ostart, dctx\<lparr>bd_litBufferLocation := location\<rparr>))))"

subsection \<open>All decoders run the same sequences\<close>

primrec run_all :: "block_dctx \<Rightarrow> nat \<Rightarrow> seq_t list \<Rightarrow> out_state \<Rightarrow> out_state res" where
  "run_all dctx oend [] st = Inr st"
| "run_all dctx oend (q # qs) st = bind_res (long_exec dctx oend q st) (run_all dctx oend qs)"

lemma bind_res_assoc: "bind_res (bind_res r f) g = bind_res r (\<lambda>x. bind_res (f x) g)"
  by (cases r) auto

lemma bind_res_cong: "(\<And>x. r = Inr x \<Longrightarrow> f x = g x) \<Longrightarrow> bind_res r f = bind_res r g"
  by (cases r) auto

lemma bind_res_success_cong: "(\<And>x. r = Inr x \<longleftrightarrow> r' = Inr x) \<Longrightarrow> bind_res r f = Inr y \<longleftrightarrow> bind_res r' f = Inr y"
  by (auto simp: bind_res_Inr_iff)

lemma run_all_append: "run_all dctx oend (xs @ ys) = (\<lambda>st. bind_res (run_all dctx oend xs st) (run_all dctx oend ys))"
proof (induct xs)
  case (Cons q xs)
  show ?case by (rule ext) (simp add: Cons bind_res_assoc)
qed simp

lemma length_decode_all [simp]: "length (fst (decode_all n s)) = n"
  by (induct n arbitrary: s) (simp_all add: split_def Let_def)

lemma decode_all_Suc:
  assumes "ZSTD_decodeSequence s (n = 0) = (q, s1)"
  shows "decode_all (Suc n) s = (q # fst (decode_all n s1), snd (decode_all n s1))"
  using assms by (simp split: prod.splits)

text \<open>The plain loop.\<close>

lemma regen_loop_run:
  assumes "location \<noteq> ZSTD_split"
  shows "regen_loop n dctx oend litEnd s mem op litPtr =
    bind_res (run_all dctx oend (fst (decode_all n s)) (mem, op, litPtr, litEnd, location))
      (\<lambda>(mem, op, litPtr, _, _). Inr (mem, op, litPtr, snd (decode_all n s)))"
proof (induct n arbitrary: s mem op litPtr)
  case (Suc n)
  obtain q s1 where q: "ZSTD_decodeSequence s (n = 0) = (q, s1)" by fastforce
  show ?case
    by (simp add: q decode_all_Suc [OF q] Suc long_exec_def assms bind_res_assoc split_def del: decode_all.simps)
qed simp

lemma run_all_location:
  "run_all dctx oend qs (mem, op, litPtr, litEnd, location) = Inr (mem', op', litPtr', litEnd', location') \<Longrightarrow>
   location \<noteq> ZSTD_split \<Longrightarrow> litEnd' = litEnd \<and> location' = location"
  by (induct qs arbitrary: mem op litPtr) (auto simp: long_exec_def bind_res_Inr_iff)

text \<open>The decoder with split literals.\<close>

lemma split_sequences_run:
  assumes "bd_litBufferLocation dctx = ZSTD_split"
  shows "split_sequences n dctx oend s mem op litPtr =
   bind_res (run_all dctx oend (fst (decode_all n s)) (mem, op, litPtr, bd_litBufferEnd dctx, ZSTD_split))
     (\<lambda>st. Inr (st, snd (decode_all n s)))"
  unfolding split_sequences_def assms
proof (induct n arbitrary: s mem op litPtr)
  case (Suc n)
  obtain q s1 where q: "ZSTD_decodeSequence s (n = 0) = (q, s1)" by fastforce
  have loc: "bind_res (regen_loop k dctx oend (extra_end dctx) s' mem op litPtr)
      (\<lambda>p. Inr ((fst p, fst (snd p), fst (snd (snd p)), extra_end dctx, ZSTD_not_in_dst), snd (snd (snd p)))) =
    bind_res (run_all dctx oend (fst (decode_all k s')) (mem, op, litPtr, extra_end dctx, ZSTD_not_in_dst))
      (\<lambda>st. Inr (st, snd (decode_all k s')))" for k s' mem op litPtr
    by (cases "run_all dctx oend (fst (decode_all k s')) (mem, op, litPtr, extra_end dctx, ZSTD_not_in_dst)")
      (auto simp: regen_loop_run [of ZSTD_not_in_dst] dest: run_all_location)
  show ?case
  proof (cases "litPtr + seq_litLength q > bd_litBufferEnd dctx")
    case True
    then show ?thesis
      by (simp add: q decode_all_Suc [OF q] long_exec_def bind_res_assoc split_def loc del: decode_all.simps)
  next
    case False
    then show ?thesis
      using Suc by (simp add: q decode_all_Suc [OF q] long_exec_def bind_res_assoc split_def del: decode_all.simps)
  qed
qed simp

text \<open>The decoder that works ahead: its eight stored sequences are a queue.\<close>

definition queued :: "seq_t list \<Rightarrow> nat \<Rightarrow> nat \<Rightarrow> seq_t list" where
  "queued sequences a b = map (\<lambda>i. sequences ! (i mod STORED_SEQS)) [a..<b]"

lemma finish_queue_run: "finish_queue k dctx oend a sequences st = run_all dctx oend (queued sequences a (a + k)) st"
proof (induct k arbitrary: a st)
  case (Suc k)
  have "[a..<a + Suc k] = a # [Suc a..<Suc a + k]" by (simp add: upt_conv_Cons)
  moreover have "finish_queue k dctx oend (Suc a) sequences = run_all dctx oend (queued sequences (Suc a) (Suc a + k))"
    using Suc by (intro ext) simp
  ultimately show ?case by (simp add: queued_def)
qed (simp add: queued_def)

lemma advance_loop_queue:
  assumes "a + k \<le> length sequences" "a + k \<le> nbSeq" "advance_loop k nbSeq a s sequences = (sequences', s')"
  shows "length sequences' = length sequences \<and> (\<forall>i < a. sequences' ! i = sequences ! i) \<and>
    fst (decode_all (nbSeq - a) s) = map (nth sequences') [a..<a + k] @ fst (decode_all (nbSeq - a - k) s') \<and>
    snd (decode_all (nbSeq - a) s) = snd (decode_all (nbSeq - a - k) s')"
  using assms
proof (induct k arbitrary: a s sequences)
  case (Suc k)
  have n: "nbSeq - a = Suc (nbSeq - Suc a)" "(nbSeq - Suc a = 0) = (a = nbSeq - 1)" using Suc.prems(2) by auto
  obtain q s1 where q: "ZSTD_decodeSequence s (nbSeq - Suc a = 0) = (q, s1)" by fastforce
  have r: "advance_loop k nbSeq (Suc a) s1 (sequences[a := q]) = (sequences', s')"
    using Suc.prems(3) q n(2) by simp
  note ih = Suc.hyps [OF _ _ r]
  have "[a..<a + Suc k] = a # [Suc a..<Suc a + k]" by (simp add: upt_conv_Cons)
  moreover have "sequences' ! a = q" using ih Suc.prems(1,2) by (simp add: nth_list_update)
  ultimately show ?case
    using ih Suc.prems(1,2) decode_all_Suc [OF q] n(1) by (simp add: nth_list_update del: decode_all.simps)
qed simp

lemma queued_step:
  assumes "length sequences = STORED_SEQS" "STORED_SEQS \<le> a"
  shows "queued sequences (a - STORED_SEQS) a =
      sequences ! ((a - STORED_SEQS) mod STORED_SEQS) # queued sequences (Suc a - STORED_SEQS) a"
    "queued (sequences[a mod STORED_SEQS := q]) (Suc a - STORED_SEQS) (Suc a) = queued sequences (Suc a - STORED_SEQS) a @ [q]"
proof -
  have s: "0 < STORED_SEQS" by (simp add: STORED_SEQS_def)
  show "queued sequences (a - STORED_SEQS) a =
      sequences ! ((a - STORED_SEQS) mod STORED_SEQS) # queued sequences (Suc a - STORED_SEQS) a"
    using upt_conv_Cons [of "a - STORED_SEQS" a] assms(2) s by (simp add: queued_def Suc_diff_le)
  have "a mod STORED_SEQS \<noteq> i mod STORED_SEQS" if "Suc a - STORED_SEQS \<le> i" "i < a" for i
    using that mod_eq_dvd_iff_nat [of i a STORED_SEQS, symmetric] dvd_imp_le [of STORED_SEQS "a - i"] by auto
  then show "queued (sequences[a mod STORED_SEQS := q]) (Suc a - STORED_SEQS) (Suc a) = queued sequences (Suc a - STORED_SEQS) a @ [q]"
    using assms s by (auto simp: queued_def nth_list_update)
qed

lemma long_loop_queue:
  assumes "length sequences = STORED_SEQS" "STORED_SEQS \<le> a" "a + k = nbSeq"
  shows "\<exists>sequences'. long_loop k dctx oend nbSeq a s sequences st =
      bind_res (run_all dctx oend (take k (queued sequences (a - STORED_SEQS) a @ fst (decode_all k s))) st)
        (\<lambda>st. Inr (st, sequences', snd (decode_all k s))) \<and>
    queued sequences' (nbSeq - STORED_SEQS) nbSeq = drop k (queued sequences (a - STORED_SEQS) a @ fst (decode_all k s))"
  using assms
proof (induct k arbitrary: a s sequences st)
  case (Suc k)
  have f: "(k = 0) = (a = nbSeq - 1)" using Suc.prems(3) by auto
  obtain q s1 where q: "ZSTD_decodeSequence s (k = 0) = (q, s1)" by fastforce
  let ?h = "sequences ! ((a - STORED_SEQS) mod STORED_SEQS)" and ?r = "sequences[a mod STORED_SEQS := q]"
  let ?P = "queued ?r (Suc a - STORED_SEQS) (Suc a) @ fst (decode_all k s1)"
  have P: "queued sequences (a - STORED_SEQS) a @ fst (decode_all (Suc k) s) = ?h # ?P"
    unfolding queued_step(1) [OF Suc.prems(1,2)] queued_step(2) [OF Suc.prems(1,2)] decode_all_Suc [OF q] by simp
  have ih: "\<exists>sequences'. long_loop k dctx oend nbSeq (Suc a) s1 ?r st =
      bind_res (run_all dctx oend (take k ?P) st) (\<lambda>st. Inr (st, sequences', snd (decode_all k s1))) \<and>
    queued sequences' (nbSeq - STORED_SEQS) nbSeq = drop k ?P" for st
    by (rule Suc.hyps) (use Suc.prems in simp_all)
  have st: "long_loop (Suc k) dctx oend nbSeq a s sequences st =
      bind_res (long_exec dctx oend ?h st) (long_loop k dctx oend nbSeq (Suc a) s1 ?r)"
    using q f by simp
  show ?case
  proof (cases "long_exec dctx oend ?h st")
    case (Inl e)
    then show ?thesis unfolding st P using ih [of st] by auto
  next
    case (Inr st1)
    then show ?thesis
      unfolding st P using ih [of st1] by (simp add: decode_all_Suc [OF q] del: decode_all.simps)
  qed
qed (simp add: queued_def)

lemma pipeline_run:
  fixes nbSeq s
  defines "qs \<equiv> fst (decode_all nbSeq s)" and "s' \<equiv> snd (decode_all nbSeq s)"
  assumes "advance_loop (min nbSeq STORED_SEQS) nbSeq 0 s sequences = (sequences1, s1)" "length sequences = STORED_SEQS"
  shows "bind_res (long_loop (nbSeq - min nbSeq STORED_SEQS) dctx oend nbSeq (min nbSeq STORED_SEQS) s1 sequences1 st)
      (\<lambda>(st, sequences, s). if \<not> BIT_endOfDStream (qs_DStream s) then Inl ZSTD_error_corruption_detected
         else bind_res (finish_queue (min nbSeq STORED_SEQS) dctx oend (nbSeq - min nbSeq STORED_SEQS) sequences st)
           (\<lambda>st. Inr (st, g s))) = Inr (st', x) \<longleftrightarrow>
    run_all dctx oend qs st = Inr st' \<and> BIT_endOfDStream (qs_DStream s') \<and> x = g s'"
proof -
  let ?v = "min nbSeq STORED_SEQS" and ?k = "nbSeq - min nbSeq STORED_SEQS"
  have a: "length sequences1 = STORED_SEQS" "qs = map (nth sequences1) [0..<?v] @ fst (decode_all ?k s1)"
    "s' = snd (decode_all ?k s1)"
    using advance_loop_queue [OF _ _ assms(3)] assms(4) by (simp_all add: qs_def s'_def)
  have "map (nth sequences1) [0..<?v] = queued sequences1 0 ?v" by (simp add: queued_def)
  then have qs: "qs = queued sequences1 0 ?v @ fst (decode_all ?k s1)" using a(2) by simp
  have "\<exists>sequences'. long_loop ?k dctx oend nbSeq ?v s1 sequences1 st =
      bind_res (run_all dctx oend (take ?k qs) st) (\<lambda>st. Inr (st, sequences', s')) \<and>
    queued sequences' ?k nbSeq = drop ?k qs"
  proof (cases "nbSeq < STORED_SEQS")
    case True
    then show ?thesis using qs a(3) by auto
  next
    case False
    then have v: "?v = STORED_SEQS" by simp
    show ?thesis
      using long_loop_queue [OF a(1), of STORED_SEQS "nbSeq - STORED_SEQS" nbSeq dctx oend s1 st] False a(3) qs unfolding v by simp
  qed
  then obtain sequences' where l: "long_loop ?k dctx oend nbSeq ?v s1 sequences1 st =
      bind_res (run_all dctx oend (take ?k qs) st) (\<lambda>st. Inr (st, sequences', s'))"
    "queued sequences' ?k (?k + ?v) = drop ?k qs" by auto
  have "run_all dctx oend qs st = bind_res (run_all dctx oend (take ?k qs) st) (run_all dctx oend (drop ?k qs))"
    using run_all_append [of dctx oend "take ?k qs" "drop ?k qs"] by simp
  then show ?thesis unfolding l(1) finish_queue_run
    using l(2) by (cases st') (auto simp: bind_res_Inr_iff split: if_splits)
qed

text \<open>What each decoder does, in terms of \<open>run_all\<close>.\<close>

definition start_state :: "bytes \<Rightarrow> block_dctx \<Rightarrow> nat \<Rightarrow> out_state" where
  "start_state mem dctx ostart = (mem, ostart, bd_litPtr dctx, bd_litBufferEnd dctx, bd_litBufferLocation dctx)"

definition block_end :: "block_dctx \<Rightarrow> nat \<Rightarrow> nat \<Rightarrow> nat" where
  "block_end dctx ostart maxDstSize = (if bd_litBufferLocation dctx = ZSTD_in_dst then bd_litBuffer dctx else ostart + maxDstSize)"

definition block_run :: "block_dctx \<Rightarrow> bytes \<Rightarrow> nat \<Rightarrow> nat \<Rightarrow> out_state \<Rightarrow> (out_state \<times> block_dctx) res" where
  "block_run dctx src nbSeq oend st =
     (if nbSeq = 0 then Inr (st, dctx)
      else bind_res (decode_start (bd_tables (mark_fse dctx)) (bd_rep dctx) src) (\<lambda>s.
        bind_res (run_all (mark_fse dctx) oend (fst (decode_all nbSeq s)) st) (\<lambda>st.
        if \<not> BIT_endOfDStream (qs_DStream (snd (decode_all nbSeq s))) then Inl ZSTD_error_corruption_detected
        else Inr (st, save_reps (snd (decode_all nbSeq s)) (mark_fse dctx)))))"

definition block_finish :: "nat \<Rightarrow> nat \<Rightarrow> out_state \<times> block_dctx \<Rightarrow> (bytes \<times> nat \<times> block_dctx) res" where
  "block_finish oend ostart = (\<lambda>((mem, op, litPtr, litEnd, location), dctx).
     bind_res (last_split_literals mem dctx op oend litPtr litEnd location) (\<lambda>(mem, op).
     Inr (mem, op - ostart, dctx\<lparr>bd_litBufferLocation := location\<rparr>)))"

lemma mark_fse_same [simp]:
  "bd_rep (mark_fse dctx) = bd_rep dctx" "bd_litPtr (mark_fse dctx) = bd_litPtr dctx"
  "bd_litBufferEnd (mark_fse dctx) = bd_litBufferEnd dctx" "bd_litBufferLocation (mark_fse dctx) = bd_litBufferLocation dctx"
  by (simp_all add: mark_fse_def)

lemma Long_body_runs:
  "ZSTD_decompressSequencesLong_body mem dctx ostart maxDstSize src nbSeq = Inr r \<longleftrightarrow>
   bind_res (block_run dctx src nbSeq (block_end dctx ostart maxDstSize) (start_state mem dctx ostart))
     (block_finish (block_end dctx ostart maxDstSize) ostart) = Inr r"
proof (cases "nbSeq = 0")
  case True
  then show ?thesis
    by (simp add: ZSTD_decompressSequencesLong_body_def Let_def block_run_def start_state_def block_end_def block_finish_def)
next
  case False
  let ?z = "replicate STORED_SEQS \<lparr>seq_litLength = 0, seq_matchLength = 0, seq_offset = 0\<rparr>" and ?v = "min nbSeq STORED_SEQS"
  let ?d = "mark_fse dctx"
  have p: "(let (sequences, s) = advance_loop ?v nbSeq 0 s ?z in
      bind_res (long_loop (nbSeq - ?v) ?d oe nbSeq ?v s sequences st) (\<lambda>(st, sequences, s).
        if \<not> BIT_endOfDStream (qs_DStream s) then Inl ZSTD_error_corruption_detected
        else bind_res (finish_queue ?v ?d oe (nbSeq - ?v) sequences st) (\<lambda>st. Inr (st, save_reps s ?d)))) = Inr x \<longleftrightarrow>
    bind_res (run_all ?d oe (fst (decode_all nbSeq s)) st) (\<lambda>st.
        if \<not> BIT_endOfDStream (qs_DStream (snd (decode_all nbSeq s))) then Inl ZSTD_error_corruption_detected
        else Inr (st, save_reps (snd (decode_all nbSeq s)) ?d)) = Inr x" for s st x oe
  proof -
    obtain seqs1 s1 where a: "advance_loop ?v nbSeq 0 s ?z = (seqs1, s1)" by fastforce
    show ?thesis
      using pipeline_run [OF a, of ?d oe st "\<lambda>s. save_reps s ?d" "fst x" "snd x"]
      by (cases x) (auto simp: a bind_res_Inr_iff split: if_splits)
  qed
  have A: "bind_res (decode_start (bd_tables ?d) (bd_rep dctx) src) (\<lambda>s.
      let (sequences, s) = advance_loop ?v nbSeq 0 s ?z in
      bind_res (long_loop (nbSeq - ?v) ?d oe nbSeq ?v s sequences st) (\<lambda>(st, sequences, s).
        if \<not> BIT_endOfDStream (qs_DStream s) then Inl ZSTD_error_corruption_detected
        else bind_res (finish_queue ?v ?d oe (nbSeq - ?v) sequences st) (\<lambda>st. Inr (st, save_reps s ?d)))) = Inr x \<longleftrightarrow>
    block_run dctx src nbSeq oe st = Inr x" for oe st x
    using False unfolding block_run_def
    by (cases "decode_start (bd_tables ?d) (bd_rep dctx) src") (simp_all only: bind_res_simps p if_False sum.distinct)
  have n: "nbSeq > 0" using False by simp
  show ?thesis
    unfolding ZSTD_decompressSequencesLong_body_def block_finish_def block_end_def [symmetric] start_state_def [symmetric]
      Let_def [of "mark_fse dctx"] Let_def [of ?v] Let_def [of "start_state mem dctx ostart"]
      Let_def [of "block_end dctx ostart maxDstSize"] if_P [OF n] mark_fse_same
    by (rule bind_res_success_cong) (rule A)
qed

lemma body_runs:
  assumes "bd_litBufferLocation dctx \<noteq> ZSTD_split" "bd_litBufferEnd dctx = bd_litPtr dctx + bd_litSize dctx"
  shows "ZSTD_decompressSequences_body mem dctx ostart maxDstSize src nbSeq =
   bind_res (block_run dctx src nbSeq (block_end dctx ostart maxDstSize) (start_state mem dctx ostart))
     (block_finish (block_end dctx ostart maxDstSize) ostart)"
proof -
  have oend: "(if bd_litBufferLocation dctx = ZSTD_not_in_dst then ostart + maxDstSize else bd_litBuffer dctx) =
      block_end dctx ostart maxDstSize"
    using assms(1) by (cases "bd_litBufferLocation dctx") (simp_all add: block_end_def)
  have same: "d\<lparr>bd_litBufferLocation := bd_litBufferLocation dctx\<rparr> = d" if "bd_litBufferLocation d = bd_litBufferLocation dctx" for d
    using that by simp
  show ?thesis
  proof (cases "nbSeq = 0")
    case True
    then show ?thesis
      using assms unfolding ZSTD_decompressSequences_body_def Let_def oend
      by (simp add: block_run_def block_finish_def start_state_def last_split_literals_def)
  next
    case False
    show ?thesis
    proof (cases "decode_start (bd_tables (mark_fse dctx)) (bd_rep dctx) src")
      case (Inl e)
      then show ?thesis using False by (simp add: ZSTD_decompressSequences_body_def block_run_def)
    next
      case (Inr s)
      let ?r = "run_all (mark_fse dctx) (block_end dctx ostart maxDstSize) (fst (decode_all nbSeq s)) (start_state mem dctx ostart)"
      show ?thesis
      proof (cases ?r)
        case (Inl e)
        then show ?thesis
          using False Inr assms unfolding ZSTD_decompressSequences_body_def Let_def oend
          by (simp add: block_run_def start_state_def regen_loop_run [OF assms(1)])
      next
        case r: (Inr st)
        obtain m op litPtr where st: "st = (m, op, litPtr, bd_litBufferEnd dctx, bd_litBufferLocation dctx)"
          using run_all_location [of "mark_fse dctx" _ _ mem ostart] r assms(1) by (cases st) (fastforce simp: start_state_def)
        show ?thesis
          using False Inr r [unfolded st start_state_def] assms unfolding ZSTD_decompressSequences_body_def Let_def oend
          by (simp add: block_run_def start_state_def regen_loop_run [OF assms(1)] block_finish_def last_split_literals_def
              save_reps_def same)
      qed
    qed
  qed
qed

lemma split_body_runs:
  assumes "bd_litBufferLocation dctx = ZSTD_split"
  shows "ZSTD_decompressSequences_bodySplitLitBuffer mem dctx ostart maxDstSize src nbSeq =
   bind_res (block_run dctx src nbSeq (block_end dctx ostart maxDstSize) (start_state mem dctx ostart)) (\<lambda>x.
   bind_res (block_finish (block_end dctx ostart maxDstSize) ostart x) (\<lambda>(mem, n, d).
   Inr (mem, n, d\<lparr>bd_litBufferLocation := if bd_litBufferLocation d = ZSTD_split then ZSTD_not_in_dst else bd_litBufferLocation d\<rparr>)))"
  using assms
  by (simp add: ZSTD_decompressSequences_bodySplitLitBuffer_def split_sequences_run block_run_def block_finish_def
      start_state_def block_end_def bind_res_assoc split_def Let_def cong: if_cong)

text \<open>The literals end where the buffer says they end.\<close>

definition literals_set :: "block_dctx \<Rightarrow> bool" where
  "literals_set dctx \<longleftrightarrow> bd_litBufferLocation dctx = ZSTD_split \<or> bd_litBufferEnd dctx = bd_litPtr dctx + bd_litSize dctx"

definition forget_location :: "block_dctx \<Rightarrow> block_dctx" where
  "forget_location dctx = dctx\<lparr>bd_litBufferLocation := ZSTD_not_in_dst\<rparr>"

text \<open>A small block: eight bytes of history, three literals, a match of nine bytes that runs into its own output, and
  one more literal.\<close>

definition sample_mem :: bytes where
  "sample_mem = [1, 2, 3, 4, 5, 6, 7, 8] @ replicate 52 0 @ [9, 10, 11, 12] @ replicate 16 0"

definition sample_ctx :: block_dctx where
  "sample_ctx = \<lparr>bd_tables = \<lparr>dq_LLTptr = LL_defaultDTable, dq_OFTptr = OF_defaultDTable, dq_MLTptr = ML_defaultDTable, dq_fseEntropy = False\<rparr>,
     bd_rep = [1, 4, 8], bd_previousDstEnd = 8, bd_prefixStart = 0, bd_virtualStart = 0, bd_dictEnd = 0, bd_litPtr = 60, bd_litSize = 4,
     bd_litBuffer = 60, bd_litBufferEnd = 64, bd_litBufferLocation = ZSTD_not_in_dst, bd_litExtraBuffer = 60\<rparr>"

lemma sample_fields:
  "bd_tables sample_ctx = \<lparr>dq_LLTptr = LL_defaultDTable, dq_OFTptr = OF_defaultDTable, dq_MLTptr = ML_defaultDTable, dq_fseEntropy = False\<rparr>"
  "bd_rep sample_ctx = [1, 4, 8]" "bd_virtualStart sample_ctx = 0" "bd_litPtr sample_ctx = 60" "bd_litSize sample_ctx = 4"
  "block_end sample_ctx 8 40 = 48"
  by (simp_all add: sample_ctx_def block_end_def)

text \<open>
  C7. The decoder that decodes eight sequences ahead of the one it executes gives the result of the
  decoders that do not. Whatever the bytes and wherever the literals are, \<open>ZSTD_decompressSequencesLong_body\<close>
  succeeds exactly when \<open>ZSTD_decompressSequences_body\<close> does, or
  \<open>ZSTD_decompressSequences_bodySplitLitBuffer\<close> when the literals are split, and then the memory, the
  size of the block and the context it leaves are the same, but for the note of where the literals
  were. (When both fail, the errors may differ: the end of the bit stream is checked at another time.)
\<close>

theorem decompressSequencesLong_equivalent:
  assumes "literals_set dctx"
  shows "(\<exists>d. ZSTD_decompressSequencesLong_body mem dctx ostart maxDstSize src nbSeq = Inr (mem', n, d) \<and> forget_location d = d') \<longleftrightarrow>
    (\<exists>d. regular_decoder mem dctx ostart maxDstSize src nbSeq = Inr (mem', n, d) \<and> forget_location d = d')"
proof (cases "bd_litBufferLocation dctx = ZSTD_split")
  case True
  then show ?thesis
    unfolding Long_body_runs regular_decoder_def split_body_runs [OF True] bind_res_assoc [symmetric]
    by (cases "bind_res (block_run dctx src nbSeq (block_end dctx ostart maxDstSize) (start_state mem dctx ostart))
        (block_finish (block_end dctx ostart maxDstSize) ostart)") (auto simp: forget_location_def)
next
  case False
  then have "bd_litBufferEnd dctx = bd_litPtr dctx + bd_litSize dctx" using assms by (simp add: literals_set_def)
  from body_runs [OF False this] show ?thesis
    unfolding Long_body_runs regular_decoder_def using False by simp
qed

theorem decompressSequencesLong_equivalent_witness:
  "\<exists>mem' d. ZSTD_decompressSequencesLong_body sample_mem sample_ctx 8 40 [] 0 = Inr (mem', 4, d)"
proof -
  have "regular_decoder sample_mem sample_ctx 8 40 [] 0 = Inr (ZSTD_memmove sample_mem 8 60 4, 4, sample_ctx)"
    by (simp add: regular_decoder_def ZSTD_decompressSequences_body_def last_literals_def sample_ctx_def)
  then have r: "\<exists>d. regular_decoder sample_mem sample_ctx 8 40 [] 0 = Inr (ZSTD_memmove sample_mem 8 60 4, 4, d) \<and>
      forget_location d = forget_location sample_ctx" by blast
  have "literals_set sample_ctx" by (simp add: literals_set_def sample_ctx_def)
  from decompressSequencesLong_equivalent [OF this, THEN iffD2, OF r] show ?thesis by blast
qed

end
