(* ===== verification/Zstd_Regen.thy ===== *)
theory Zstd_Regen
  imports Zstd_Block
begin

text \<open>
  What a block of sequences means, as a function on lists of bytes, and the proof that the decoder
  of \<open>Zstd_Block\<close> computes it: for every bit stream, with the same errors, and without touching a
  byte outside the block.
\<close>

subsection \<open>The meaning of sequences\<close>

text \<open>A match copies, byte by byte, from \<open>off\<close> bytes back; it may run into its own output.\<close>

primrec lz_match :: "nat \<Rightarrow> nat \<Rightarrow> bytes \<Rightarrow> bytes" where
  "lz_match off 0 h = h"
| "lz_match off (Suc n) h = lz_match off n (h @ [h ! (length h - off)])"

text \<open>A history that may grow to \<open>cap\<close> bytes, the literals left, and the sequences.\<close>

definition lz_fault :: "nat \<Rightarrow> bytes \<Rightarrow> bytes \<Rightarrow> seq_t \<Rightarrow> ZSTD_ErrorCode option" where
  "lz_fault cap h lits q =
     (if seq_litLength q + seq_matchLength q > cap - length h then Some ZSTD_error_dstSize_tooSmall
      else if seq_litLength q > length lits \<or> seq_offset q > length h + seq_litLength q
      then Some ZSTD_error_corruption_detected else None)"

definition lz_step :: "bytes \<Rightarrow> bytes \<Rightarrow> seq_t \<Rightarrow> bytes" where
  "lz_step h lits q = lz_match (seq_offset q) (seq_matchLength q) (h @ take (seq_litLength q) lits)"

fun lz_run :: "nat \<Rightarrow> bytes \<Rightarrow> bytes \<Rightarrow> seq_t list \<Rightarrow> (bytes \<times> bytes) res" where
  "lz_run cap h lits [] = Inr (h, lits)"
| "lz_run cap h lits (q # qs) = (case lz_fault cap h lits q of
     Some e \<Rightarrow> Inl e | None \<Rightarrow> lz_run cap (lz_step h lits q) (drop (seq_litLength q) lits) qs)"

definition lz_finish :: "nat \<Rightarrow> bytes \<times> bytes \<Rightarrow> bytes res" where
  "lz_finish cap = (\<lambda>(h, lits). if length lits > cap - length h then Inl ZSTD_error_dstSize_tooSmall else Inr (h @ lits))"

lemma length_lz_match [simp]: "length (lz_match off n h) = length h + n"
  by (induct n arbitrary: h) simp_all

lemma lz_match_unique:
  assumes "0 < off" "off \<le> length h" "length ys = length h + n" "take (length h) ys = h"
    "\<forall>j < n. ys ! (length h + j) = ys ! (length h + j - off)"
  shows "lz_match off n h = ys"
  using assms
proof (induct n arbitrary: h)
  case (Suc n)
  have y: "ys ! length h = h ! (length h - off)"
    using spec [OF Suc.prems(5), of 0] Suc.prems(1,2,3) nth_take [of "length h - off" "length h" ys] Suc.prems(4) by simp
  have "ys ! (Suc (length h) + j) = ys ! (Suc (length h) + j - off)" if "j < n" for j
    using spec [OF Suc.prems(5), of "Suc j"] that by simp
  then show ?case
    using Suc.hyps [of "h @ [h ! (length h - off)]"] Suc.prems y by (simp add: take_Suc_conv_app_nth)
qed simp

subsection \<open>The history in memory\<close>

definition hist :: "block_dctx \<Rightarrow> bytes \<Rightarrow> nat \<Rightarrow> bytes" where
  "hist dctx mem op = map (\<lambda>j. byte_at mem (history (bd_prefixStart dctx) (bd_dictEnd dctx) (bd_virtualStart dctx + int j)))
     [0..<nat (int op - bd_virtualStart dctx)]"

lemma length_hist [simp]: "length (hist dctx mem op) = nat (int op - bd_virtualStart dctx)"
  by (simp add: hist_def)

lemma hist_nth:
  "j < nat (int op - bd_virtualStart dctx) \<Longrightarrow>
   hist dctx mem op ! j = byte_at mem (history (bd_prefixStart dctx) (bd_dictEnd dctx) (bd_virtualStart dctx + int j))"
  by (simp add: hist_def)

definition layout_at :: "block_dctx \<Rightarrow> nat \<Rightarrow> nat \<Rightarrow> bool" where
  "layout_at dctx op oend \<longleftrightarrow> history_layout op oend (bd_prefixStart dctx) (bd_virtualStart dctx) (bd_dictEnd dctx) \<and> op \<le> oend"

lemma history_outside:
  assumes "layout_at dctx op oend" "bd_virtualStart dctx \<le> v" "v < int op"
  shows "history (bd_prefixStart dctx) (bd_dictEnd dctx) v < op \<or> oend \<le> history (bd_prefixStart dctx) (bd_dictEnd dctx) v"
  using assms by (auto simp: history_def layout_at_def history_layout_def)

lemma hist_executed:
  assumes "layout_at dctx op oend" "executed m m' op oend q litPtr (bd_prefixStart dctx) (bd_dictEnd dctx)"
    "op + seq_litLength q + seq_matchLength q \<le> oend" "0 < seq_offset q"
    "int (seq_offset q) \<le> int (op + seq_litLength q) - bd_virtualStart dctx"
  shows "hist dctx m' (op + seq_litLength q + seq_matchLength q) =
    lz_match (seq_offset q) (seq_matchLength q) (hist dctx m op @ rd m litPtr (seq_litLength q))"
proof -
  let ?V = "bd_virtualStart dctx" and ?ll = "seq_litLength q" and ?ml = "seq_matchLength q" and ?off = "seq_offset q"
  let ?k = "nat (int op - ?V)"
  have V: "?V \<le> int (bd_prefixStart dctx)" "bd_prefixStart dctx \<le> op" using assms(1) by (auto simp: layout_at_def history_layout_def)
  have len: "nat (int (op + ?ll + ?ml) - ?V) = ?k + ?ll + ?ml" using V by linarith
  have e: "i < op \<or> oend \<le> i \<Longrightarrow> byte_at m' i = byte_at m i" "j < ?ll \<Longrightarrow> byte_at m' (op + j) = byte_at m (litPtr + j)"
    "j < ?ml \<Longrightarrow> byte_at m' (op + ?ll + j) =
      byte_at m' (history (bd_prefixStart dctx) (bd_dictEnd dctx) (int (op + ?ll + j) - int ?off))" for i j
    using assms(2) unfolding executed_def Let_def by blast+
  have old: "hist dctx m' (op + ?ll + ?ml) ! j = hist dctx m op ! j" if "j < ?k" for j
  proof -
    have "?V + int j < int op" using that by linarith
    then show ?thesis
      using e(1) [OF history_outside [OF assms(1), of "?V + int j"]] that len
      by (simp add: hist_nth del: of_nat_add)
  qed
  have at: "history (bd_prefixStart dctx) (bd_dictEnd dctx) (?V + int (?k + i)) = op + i" for i
    using V by (auto simp: history_def)
  have lit: "hist dctx m' (op + ?ll + ?ml) ! (?k + i) = byte_at m (litPtr + i)" if "i < ?ll" for i
    using that e(2) len at [of i] by (simp add: hist_nth del: of_nat_add)
  have mat: "hist dctx m' (op + ?ll + ?ml) ! (?k + ?ll + j) = hist dctx m' (op + ?ll + ?ml) ! (?k + ?ll + j - ?off)" if "j < ?ml" for j
  proof -
    have "int (op + ?ll + j) - int ?off = ?V + int (?k + ?ll + j - ?off)" using assms(5) V by linarith
    then show ?thesis
      using that e(3) assms(4) len at [of "?ll + j"] by (simp add: hist_nth add.assoc del: of_nat_add)
  qed
  have "take (?k + ?ll) (hist dctx m' (op + ?ll + ?ml)) = hist dctx m op @ rd m litPtr ?ll"
  proof (rule nth_equalityI)
    show "length (take (?k + ?ll) (hist dctx m' (op + ?ll + ?ml))) = length (hist dctx m op @ rd m litPtr ?ll)"
      unfolding length_take length_hist len by simp
  next
    fix i assume "i < length (take (?k + ?ll) (hist dctx m' (op + ?ll + ?ml)))"
    then have i: "i < ?k + ?ll" by simp
    show "take (?k + ?ll) (hist dctx m' (op + ?ll + ?ml)) ! i = (hist dctx m op @ rd m litPtr ?ll) ! i"
    proof (cases "i < ?k")
      case True
      then show ?thesis using i old by (simp add: nth_append)
    next
      case False
      then obtain j where "i = ?k + j" using le_Suc_ex [of ?k i] by auto
      then show ?thesis using i lit [of j] by (simp add: nth_append rd_def)
    qed
  qed
  then show ?thesis
    using lz_match_unique [of ?off "hist dctx m op @ rd m litPtr ?ll" "hist dctx m' (op + ?ll + ?ml)" ?ml] assms(4,5) mat len
    by (auto simp: rd_def)
qed

subsection \<open>The sequences of a block\<close>

text \<open>The memory is large enough, and the literals are not where the output goes.\<close>

definition out_ok :: "block_dctx \<Rightarrow> nat \<Rightarrow> nat \<Rightarrow> bytes \<Rightarrow> nat \<Rightarrow> nat \<Rightarrow> bool" where
  "out_ok dctx oend litEnd m op litPtr \<longleftrightarrow>
     layout_at dctx op oend \<and> oend \<le> length m \<and> litPtr \<le> litEnd \<and> (litEnd \<le> op \<or> oend \<le> litPtr)"

definition kept :: "nat \<Rightarrow> nat \<Rightarrow> bytes \<Rightarrow> bytes \<Rightarrow> bool" where
  "kept op oend m m' \<longleftrightarrow> length m' = length m \<and> (\<forall>i. i < op \<or> oend \<le> i \<longrightarrow> byte_at m' i = byte_at m i)"

lemma kept_trans: "kept op oend m m1 \<Longrightarrow> kept op1 oend m1 m2 \<Longrightarrow> op \<le> op1 \<Longrightarrow> kept op oend m m2"
  by (auto simp: kept_def)

lemma rd_kept: "kept op oend m m' \<Longrightarrow> p + n \<le> op \<or> oend \<le> p \<Longrightarrow> rd m' p n = rd m p n"
  by (auto simp: kept_def rd_def)

lemma rd_split: "k \<le> n \<Longrightarrow> take k (rd m p n) = rd m p k" "k \<le> n \<Longrightarrow> drop k (rd m p n) = rd m (p + k) (n - k)"
  by (auto simp: rd_def take_map drop_map)

lemma out_okD:
  assumes "out_ok dctx oend litEnd m op litPtr"
  shows "history_layout op oend (bd_prefixStart dctx) (bd_virtualStart dctx) (bd_dictEnd dctx)" "op \<le> oend" "oend \<le> length m"
    "litPtr \<le> litEnd" "litEnd \<le> op \<or> oend \<le> litPtr" "bd_virtualStart dctx \<le> int op"
  using assms by (auto simp: out_ok_def layout_at_def history_layout_def)

lemma lz_fault_eq:
  assumes "out_ok dctx oend litEnd m op litPtr"
  shows "lz_fault (nat (int oend - bd_virtualStart dctx)) (hist dctx m op) (rd m litPtr (litEnd - litPtr)) q =
    seq_fault op oend q litPtr litEnd (bd_virtualStart dctx)"
proof -
  note ok = out_okD [OF assms]
  have "nat (int oend - bd_virtualStart dctx) - length (hist dctx m op) = oend - op" using ok(2,6) by simp
  moreover have "seq_offset q > length (hist dctx m op) + seq_litLength q \<longleftrightarrow>
      int (seq_offset q) > int (op + seq_litLength q) - bd_virtualStart dctx" using ok(6) by simp linarith
  ultimately show ?thesis by (simp add: lz_fault_def seq_fault_def)
qed

lemma exec_in_step:
  assumes "out_ok dctx oend litEnd m op litPtr" "0 < seq_offset q" "seq_fault op oend q litPtr litEnd (bd_virtualStart dctx) = None"
  defines "n \<equiv> seq_litLength q + seq_matchLength q" and "l \<equiv> litPtr + seq_litLength q"
  shows "\<exists>m'. exec_in dctx oend q m op litPtr litEnd = Inr (m', n, l) \<and> kept op oend m m' \<and>
    out_ok dctx oend litEnd m' (op + n) l \<and> hist dctx m' (op + n) = lz_step (hist dctx m op) (rd m litPtr (litEnd - litPtr)) q \<and>
    rd m' l (litEnd - l) = drop (seq_litLength q) (rd m litPtr (litEnd - litPtr))"
proof -
  note lay = out_okD [OF assms(1)]
  have fits: "op + seq_litLength q + seq_matchLength q \<le> oend" "l \<le> litEnd"
    "int (seq_offset q) \<le> int (op + seq_litLength q) - bd_virtualStart dctx"
    using assms(3) lay(2,4) by (auto simp: seq_fault_def l_def split: if_splits)
  obtain m' where m': "exec_in dctx oend q m op litPtr litEnd = Inr (m', n, l)"
      "executed m m' op oend q litPtr (bd_prefixStart dctx) (bd_dictEnd dctx)"
    using execSequence_runs [OF lay(1,3,4,5) assms(2,3) lay(2)] by (auto simp: exec_in_def n_def l_def)
  have k: "kept op oend m m'" using m'(2) by (auto simp: kept_def executed_def Let_def)
  have "hist dctx m' (op + n) = lz_match (seq_offset q) (seq_matchLength q) (hist dctx m op @ rd m litPtr (seq_litLength q))"
    using hist_executed [OF _ m'(2) fits(1) assms(2) fits(3)] lay by (simp add: layout_at_def n_def add.assoc)
  moreover have "take (seq_litLength q) (rd m litPtr (litEnd - litPtr)) = rd m litPtr (seq_litLength q)"
    "drop (seq_litLength q) (rd m litPtr (litEnd - litPtr)) = rd m l (litEnd - l)"
    using fits(2) by (simp_all add: rd_split l_def)
  moreover have "rd m' l (litEnd - l) = rd m l (litEnd - l)"
    by (rule rd_kept [OF k]) (use lay fits in \<open>auto simp: l_def\<close>)
  moreover have "out_ok dctx oend litEnd m' (op + n) l"
    using lay fits k by (auto simp: out_ok_def layout_at_def history_layout_def kept_def l_def n_def)
  ultimately show ?thesis using m'(1) k by (simp add: lz_step_def)
qed

lemma run_all_refines:
  assumes "location \<noteq> ZSTD_split" "out_ok dctx oend litEnd m op litPtr" "list_all (\<lambda>q. 0 < seq_offset q) qs"
  shows "case lz_run (nat (int oend - bd_virtualStart dctx)) (hist dctx m op) (rd m litPtr (litEnd - litPtr)) qs of
      Inl e \<Rightarrow> run_all dctx oend qs (m, op, litPtr, litEnd, location) = Inl e
    | Inr (h, lits) \<Rightarrow> \<exists>m' op' litPtr'. run_all dctx oend qs (m, op, litPtr, litEnd, location) = Inr (m', op', litPtr', litEnd, location) \<and>
        kept op oend m m' \<and> op \<le> op' \<and> out_ok dctx oend litEnd m' op' litPtr' \<and>
        h = hist dctx m' op' \<and> lits = rd m' litPtr' (litEnd - litPtr')"
  using assms(2,3)
proof (induct qs arbitrary: m op litPtr)
  case Nil
  then show ?case by (auto simp: kept_def)
next
  case (Cons q qs)
  have off: "0 < seq_offset q" "list_all (\<lambda>q. 0 < seq_offset q) qs" using Cons.prems(2) by auto
  show ?case
  proof (cases "seq_fault op oend q litPtr litEnd (bd_virtualStart dctx)")
    case None
    let ?op = "op + (seq_litLength q + seq_matchLength q)" and ?l = "litPtr + seq_litLength q"
    obtain m1 where m1: "exec_in dctx oend q m op litPtr litEnd = Inr (m1, seq_litLength q + seq_matchLength q, ?l)"
        "kept op oend m m1" "out_ok dctx oend litEnd m1 ?op ?l"
        "hist dctx m1 ?op = lz_step (hist dctx m op) (rd m litPtr (litEnd - litPtr)) q"
        "rd m1 ?l (litEnd - ?l) = drop (seq_litLength q) (rd m litPtr (litEnd - litPtr))"
      using exec_in_step [OF Cons.prems(1) off(1) None] by auto
    have r: "run_all dctx oend (q # qs) (m, op, litPtr, litEnd, location) = run_all dctx oend qs (m1, ?op, ?l, litEnd, location)"
      using assms(1) m1(1) by (simp add: long_exec_def)
    show ?thesis
      using Cons.hyps [OF m1(3) off(2)] unfolding r m1(4,5) using kept_trans [OF m1(2)]
      by (fastforce simp: lz_fault_eq [OF Cons.prems(1)] None split: sum.splits)
  next
    case (Some e)
    then have "exec_in dctx oend q m op litPtr litEnd = Inl e"
      using execSequence_fault out_okD [OF Cons.prems(1)] by (simp add: exec_in_def)
    then show ?thesis using Some assms(1) by (simp add: lz_fault_eq [OF Cons.prems(1)] long_exec_def)
  qed
qed

lemma hist_append:
  assumes "layout_at dctx op oend" "kept op oend m m'" "\<forall>i < n. byte_at m' (op + i) = byte_at m (p + i)"
  shows "hist dctx m' (op + n) = hist dctx m op @ rd m p n"
proof (rule nth_equalityI)
  let ?V = "bd_virtualStart dctx" and ?k = "nat (int op - bd_virtualStart dctx)"
  have V: "?V \<le> int (bd_prefixStart dctx)" "bd_prefixStart dctx \<le> op" using assms(1) by (auto simp: layout_at_def history_layout_def)
  have len: "nat (int (op + n) - ?V) = ?k + n" using V by linarith
  then show "length (hist dctx m' (op + n)) = length (hist dctx m op @ rd m p n)" by simp
  fix i assume "i < length (hist dctx m' (op + n))"
  then have i: "i < ?k + n" using len by simp
  show "hist dctx m' (op + n) ! i = (hist dctx m op @ rd m p n) ! i"
  proof (cases "i < ?k")
    case True
    then have "?V + int i < int op" by linarith
    then have "byte_at m' (history (bd_prefixStart dctx) (bd_dictEnd dctx) (?V + int i)) =
        byte_at m (history (bd_prefixStart dctx) (bd_dictEnd dctx) (?V + int i))"
      using assms(2) history_outside [OF assms(1), of "?V + int i"] unfolding kept_def by auto
    then show ?thesis using True len by (simp add: hist_nth nth_append del: of_nat_add)
  next
    case False
    then obtain j where j: "i = ?k + j" using le_Suc_ex [of ?k i] by auto
    have "history (bd_prefixStart dctx) (bd_dictEnd dctx) (?V + int i) = op + j" using V j by (auto simp: history_def)
    then show ?thesis using i j assms(3) len by (simp add: hist_nth nth_append rd_def del: of_nat_add)
  qed
qed

lemma last_literals_refines:
  assumes "out_ok dctx oend litEnd m op litPtr"
  shows "case lz_finish (nat (int oend - bd_virtualStart dctx)) (hist dctx m op, rd m litPtr (litEnd - litPtr)) of
      Inl e \<Rightarrow> last_literals m op oend litPtr litEnd = Inl e
    | Inr h \<Rightarrow> \<exists>m'. last_literals m op oend litPtr litEnd = Inr (m', op + (litEnd - litPtr)) \<and> kept op oend m m' \<and>
        hist dctx m' (op + (litEnd - litPtr)) = h \<and> op + (litEnd - litPtr) \<le> oend"
proof -
  let ?n = "litEnd - litPtr" and ?m = "ZSTD_memmove m op litPtr (litEnd - litPtr)"
  note ok = out_okD [OF assms]
  have cap: "nat (int oend - bd_virtualStart dctx) - length (hist dctx m op) = oend - op" using ok(2,6) by simp
  have "kept op oend m ?m \<and> (\<forall>i < ?n. byte_at ?m (op + i) = byte_at m (litPtr + i))" if "?n \<le> oend - op"
    using that ok(2,3) byte_at_write_at [of op "rd m litPtr ?n" m] by (auto simp: ZSTD_memmove_def kept_def)
  then have "kept op oend m ?m \<and> hist dctx ?m (op + ?n) = hist dctx m op @ rd m litPtr ?n" if "?n \<le> oend - op"
    using that hist_append [of dctx op oend m ?m ?n litPtr] assms by (auto simp: out_ok_def)
  then show ?thesis using ok(2) unfolding lz_finish_def last_literals_def Let_def prod.case length_rd cap by auto
qed

subsection \<open>Decoding any bits\<close>

text \<open>A state the decoder can be in: inside its tables, and without an offset of zero. The only offset
  that does not fit into 32 bits is the one a repeated offset of 1 is turned into when it is to be
  decreased, which no history can satisfy.\<close>

definition fse_state_ok :: "nat list \<Rightarrow> nat list \<Rightarrow> ZSTD_fseState \<Rightarrow> bool" where
  "fse_state_ok base bits st \<longleftrightarrow> (\<exists>L. fs_state st < 2 ^ L \<and> length (fs_table st) = 2 ^ L \<and>
     list_all (seq_cell_ok base bits L) (fs_table st))"

definition offsets_nonzero :: "u64 list \<Rightarrow> bool" where
  "offsets_nonzero prev \<longleftrightarrow> length prev = 3 \<and> 0 \<notin> set prev"

definition offsets_small :: "u64 list \<Rightarrow> bool" where
  "offsets_small prev \<longleftrightarrow> length prev = 3 \<and> (\<forall>v \<in> set prev. 0 < unat v \<and> unat v < 2 ^ 32)"

lemma offsets_small_nonzero: "offsets_small prev \<Longrightarrow> offsets_nonzero prev"
  by (auto simp: offsets_small_def offsets_nonzero_def)

lemma prev3E:
  assumes "length (prev :: u64 list) = 3"
  obtains a b c where "prev = [a, b, c]"
  using assms by (auto simp: length_Suc_conv numeral_3_eq_3)

lemma OF_cell:
  assumes "seq_cell_ok OF_base OF_bits L c"
  obtains b where "b \<le> MaxOff" "sy_nbAdditionalBits c = b" "sy_baseValue c = OF_base ! b"
  using assms OF_tables(1) by (auto simp: seq_cell_ok_def list_ex_iff default_lengths(5) less_Suc_eq_le)

lemma decode_offset_new_any:
  assumes "2 \<le> b" "b \<le> MaxOff" "unat (v :: u64) < 2 ^ b"
  shows "0 < unat (of_nat (OF_base ! b) + v)" "unat (of_nat (OF_base ! b) + v) < 2 ^ 32"
proof -
  have p: "(4::nat) \<le> 2 ^ b" "(2::nat) ^ b \<le> 2 ^ 31"
    using power_increasing [of 2 b "2::nat"] power_increasing [of b 31 "2::nat"] assms by (auto simp: MaxOff_def)
  define B where "B = OF_base ! b"
  have B: "B + 3 = 2 ^ b" using OF_tables(2) [OF assms(1,2)] p(1) by (simp add: B_def)
  then have u: "unat (of_nat B :: u64) = B" using p(2) by (simp add: unat_of_nat take_bit_nat_eq_self)
  have "unat (of_nat B + v) = unat (of_nat B :: u64) + unat v"
    by (rule unat_add_lem [THEN iffD1]) (use u B p assms(3) in simp)
  then show "0 < unat (of_nat (OF_base ! b) + v)" "unat (of_nat (OF_base ! b) + v) < 2 ^ 32"
    using u B p assms(3) unfolding B_def [symmetric] by auto
qed

text \<open>The new history: the offset in front, and of the old entries those that are left.\<close>

lemma offsets_pushed:
  assumes "length prev = 3" "set prev' \<subseteq> insert off (set prev)" "length prev' = 3"
  shows "offsets_nonzero prev \<Longrightarrow> off \<noteq> 0 \<Longrightarrow> offsets_nonzero prev'"
    "offsets_small prev \<Longrightarrow> off \<noteq> 0 \<Longrightarrow> unat off < 2 ^ 32 \<Longrightarrow> offsets_small prev'"
  using assms by (auto simp: offsets_nonzero_def offsets_small_def unat_gt_0 subset_iff)

lemma decode_offset_history:
  assumes "length prev = 3" "decode_offset llD ofD prev ds = (off, prev', ds')"
  shows "set prev' \<subseteq> insert off (set prev)" "length prev' = 3"
proof -
  obtain a b c where "prev = [a, b, c]" using assms(1) by (rule prev3E)
  then show "set prev' \<subseteq> insert off (set prev)" "length prev' = 3"
    using assms(2) by (auto simp: decode_offset_def Let_def numeral_2_eq_2 split: if_splits prod.splits)
qed

lemma decode_offset_value:
  assumes "seq_cell_ok OF_base OF_bits L ofD" "length prev = 3" "decode_offset llD ofD prev ds = (off, prev', ds')"
  shows "(0 < unat off \<and> unat off < 2 ^ 32) \<or> off \<in> set prev \<or> off = - 1 \<or> (off = prev ! 0 - 1 \<and> off \<noteq> 0)"
proof -
  obtain b where b: "b \<le> MaxOff" "sy_nbAdditionalBits ofD = b" "sy_baseValue ofD = OF_base ! b" by (rule OF_cell [OF assms(1)])
  obtain x y z where prev: "prev = [x, y, z]" using assms(2) by (rule prev3E)
  consider "2 \<le> b" | "b = 0" | "b = 1" by linarith
  then show ?thesis
  proof cases
    case 1
    then have "unat (BIT_lookBitsFast ds b) < 2 ^ b" using b(1) by (intro BIT_lookBitsFast_less) (auto simp: MaxOff_def)
    from decode_offset_new_any [OF 1 b(1) this] show ?thesis
      using assms(3) 1 b by (auto simp: decode_offset_def BIT_readBitsFast_def Let_def)
  next
    case 2
    then have "off = prev ! of_bool (sy_baseValue llD = 0)" using assms(3) b by (auto simp: decode_offset_def Let_def)
    then show ?thesis using prev by (cases "sy_baseValue llD = 0") simp_all
  next
    case 3
    let ?k = "Suc (of_bool (sy_baseValue llD = 0) + unat (BIT_lookBitsFast ds 1))"
    define p where "p = (if ?k = 3 then x - 1 else prev ! ?k)"
    have "unat (BIT_lookBitsFast ds 1) < 2" using BIT_lookBitsFast_less [of 1 ds] by simp
    then have "?k = 1 \<or> ?k = 2 \<or> ?k = 3" by (cases "sy_baseValue llD = 0") auto
    then have "p \<in> set prev \<or> p = x - 1" by (auto simp: p_def prev)
    moreover have "off = (if p = 0 then - 1 else p)"
      using assms(3) b prev 3 unfolding p_def by (auto simp: decode_offset_def BIT_readBitsFast_def OF_base_def Let_def)
    ultimately show ?thesis using prev by auto
  qed
qed

lemma decode_offset_any:
  assumes "seq_cell_ok OF_base OF_bits L ofD" "offsets_nonzero prev" "decode_offset llD ofD prev ds = (off, prev', ds')"
  shows "off \<noteq> 0" "offsets_nonzero prev'" "offsets_small prev \<Longrightarrow> unat off < 2 ^ 64 - 1 \<Longrightarrow> offsets_small prev'"
proof -
  have l: "length prev = 3" using assms(2) by (simp add: offsets_nonzero_def)
  note v = decode_offset_value [OF assms(1) l assms(3)]
  show n: "off \<noteq> 0" using v assms(2) by (auto simp: offsets_nonzero_def)
  show "offsets_nonzero prev'"
    using offsets_pushed(1) [OF l decode_offset_history [OF l assms(3)] assms(2) n] .
  show "offsets_small prev'" if s: "offsets_small prev" and o: "unat off < 2 ^ 64 - 1"
  proof (rule offsets_pushed(2) [OF l decode_offset_history [OF l assms(3)] s n])
    have m: "unat (- 1 :: u64) = 2 ^ 64 - 1" by (simp add: unsigned_minus_1_eq_mask mask_eq_exp_minus_1)
    have "prev ! 0 \<in> set prev" using l by simp
    then have "0 < unat (prev ! 0) \<and> unat (prev ! 0) < 2 ^ 32" using s by (simp add: offsets_small_def)
    then have "unat (prev ! 0 - 1) < 2 ^ 32" using unat_sub [of 1 "prev ! 0"] by (auto simp: offsets_small_def word_le_nat_alt)
    then show "unat off < 2 ^ 32"
      using v s o m by (auto simp: offsets_small_def split: if_splits)
  qed
qed

definition seq_state_ok :: "seqState_t \<Rightarrow> bool" where
  "seq_state_ok s \<longleftrightarrow> fse_state_ok LL_base LL_bits (qs_stateLL s) \<and> fse_state_ok OF_base OF_bits (qs_stateOffb s) \<and>
     fse_state_ok ML_base ML_bits (qs_stateML s) \<and> offsets_nonzero (qs_prevOffset s)"

lemma update_state_ok:
  assumes "fse_state_ok base bits st"
    "ZSTD_updateFseStateWithDInfo st ds (sy_nextState (cell_now st)) (sy_nbBits (cell_now st)) = (st', ds')"
  shows "fse_state_ok base bits st'"
proof -
  obtain L where L: "fs_state st < 2 ^ L" "length (fs_table st) = 2 ^ L" "list_all (seq_cell_ok base bits L) (fs_table st)"
    using assms(1) by (auto simp: fse_state_ok_def)
  then have "seq_cell_ok base bits L (cell_now st)" by (simp add: list_all_length cell_now_def)
  then have "sy_nextState (cell_now st) + unat (BIT_lookBits ds (sy_nbBits (cell_now st))) < 2 ^ L"
    using BIT_lookBits_less [of ds "sy_nbBits (cell_now st)"] by (simp add: seq_cell_ok_def)
  then show ?thesis
    using assms(2) L by (auto simp: ZSTD_updateFseStateWithDInfo_def BIT_readBits_def fse_state_ok_def)
qed

lemma decodeSequence_any:
  assumes "seq_state_ok s" "ZSTD_decodeSequence s isLast = (q, s')"
  shows "0 < seq_offset q" "seq_state_ok s'"
    "offsets_small (qs_prevOffset s) \<Longrightarrow> seq_offset q < 2 ^ 64 - 1 \<Longrightarrow> offsets_small (qs_prevOffset s')"
proof -
  let ?ll = "cell_now (qs_stateLL s)" and ?of = "cell_now (qs_stateOffb s)" and ?ml = "cell_now (qs_stateML s)"
  obtain off prev' ds1 where o: "decode_offset ?ll ?of (qs_prevOffset s) (qs_DStream s) = (off, prev', ds1)" by (metis prod_cases3)
  obtain L where "seq_cell_ok OF_base OF_bits L ?of"
    using assms(1) by (auto simp: seq_state_ok_def fse_state_ok_def list_all_length cell_now_def)
  note any = decode_offset_any [OF this _ o]
  have n: "offsets_nonzero (qs_prevOffset s)" using assms(1) by (simp add: seq_state_ok_def)
  obtain ds2 where d: "seq_offset q = unat off"
    "s' = (if isLast then s\<lparr>qs_prevOffset := prev', qs_DStream := ds2\<rparr>
           else update_states ?ll ?ml ?of (s\<lparr>qs_prevOffset := prev', qs_DStream := ds2\<rparr>))"
    using assms(2) o unfolding ZSTD_decodeSequence_eq by (auto simp: decode_numbers_def Let_def split: prod.splits if_splits)
  show "0 < seq_offset q" using any(1) [OF n] d(1) by (simp add: unat_gt_0)
  have prev: "qs_prevOffset s' = prev'" using d(2) by (auto simp: update_states_def split: prod.splits)
  show "offsets_small (qs_prevOffset s')" if "offsets_small (qs_prevOffset s)" "seq_offset q < 2 ^ 64 - 1"
    using any(3) [OF n] that d(1) prev by simp
  show "seq_state_ok s'"
    using d(2) any(2) [OF n] assms(1) prev
    by (auto simp: seq_state_ok_def update_states_def split: prod.splits intro: update_state_ok)
qed

lemma decode_all_any:
  assumes "seq_state_ok s"
  shows "list_all (\<lambda>q. 0 < seq_offset q) (fst (decode_all n s)) \<and>
    (offsets_small (qs_prevOffset s) \<longrightarrow> list_all (\<lambda>q. seq_offset q < 2 ^ 64 - 1) (fst (decode_all n s)) \<longrightarrow>
     offsets_small (qs_prevOffset (snd (decode_all n s))))"
  using assms
proof (induct n arbitrary: s)
  case (Suc n)
  obtain q s1 where q: "ZSTD_decodeSequence s (n = 0) = (q, s1)" by fastforce
  note any = decodeSequence_any [OF Suc.prems q]
  show ?case unfolding decode_all_Suc [OF q] using Suc.hyps [OF any(2)] any(1,3) by auto
qed simp

lemma initFseState_ok:
  assumes "seq_table_ok base bits maxLog t" "ZSTD_initFseState ds t = (st, ds')"
  shows "fse_state_ok base bits st"
  using assms BIT_lookBits_less [of ds "sq_tableLog t"]
  by (auto simp: ZSTD_initFseState_def BIT_readBits_def seq_table_ok_def fse_state_ok_def split: prod.splits)

lemma decode_start_any:
  assumes "seq_dctx_ok dctx" "length rep = 3" "0 \<notin> set rep" "decode_start dctx rep src = Inr s"
  shows "seq_state_ok s" "offsets_small (qs_prevOffset s)"
proof -
  have "0 < unat r" if "r \<in> set rep" for r using that assms(3) by (metis unat_gt_0)
  then show sm: "offsets_small (qs_prevOffset s)"
    using assms(2,4) unsigned_less [where 'a = nat and 'b = 32]
    by (auto simp: decode_start_def offsets_small_def unat_u32_u64 split: sum.splits prod.splits)
  show "seq_state_ok s"
    using assms(1,4) offsets_small_nonzero [OF sm]
    by (auto simp: decode_start_def seq_state_ok_def seq_dctx_ok_def split: sum.splits prod.splits intro: initFseState_ok)
qed

subsection \<open>The block\<close>

definition lz_sequences ::
  "seq_dctx \<Rightarrow> u32 list \<Rightarrow> bytes \<Rightarrow> nat \<Rightarrow> nat \<Rightarrow> bytes \<Rightarrow> bytes \<Rightarrow> ((bytes \<times> bytes) \<times> u32 list) res" where
  "lz_sequences tables rep src nbSeq cap h lits =
     (if nbSeq = 0 then Inr ((h, lits), rep)
      else bind_res (decode_start tables rep src) (\<lambda>s.
        bind_res (lz_run cap h lits (fst (decode_all nbSeq s))) (\<lambda>x.
        if \<not> BIT_endOfDStream (qs_DStream (snd (decode_all nbSeq s))) then Inl ZSTD_error_corruption_detected
        else Inr (x, map ucast (qs_prevOffset (snd (decode_all nbSeq s)))))))"

definition lz_block :: "seq_dctx \<Rightarrow> u32 list \<Rightarrow> bytes \<Rightarrow> nat \<Rightarrow> nat \<Rightarrow> bytes \<Rightarrow> bytes \<Rightarrow> (bytes \<times> u32 list) res" where
  "lz_block tables rep src nbSeq cap h lits =
     bind_res (lz_sequences tables rep src nbSeq cap h lits) (\<lambda>(x, rep). bind_res (lz_finish cap x) (\<lambda>h. Inr (h, rep)))"

text \<open>The context is ready for a block: literals in one place and apart from the output, a sensible
  history, usable tables and offsets.\<close>

definition block_ready :: "bytes \<Rightarrow> block_dctx \<Rightarrow> nat \<Rightarrow> nat \<Rightarrow> nat \<Rightarrow> bool" where
  "block_ready mem dctx ostart maxDstSize nbSeq \<longleftrightarrow>
     bd_litBufferLocation dctx \<noteq> ZSTD_split \<and> bd_litBufferEnd dctx = bd_litPtr dctx + bd_litSize dctx \<and>
     out_ok dctx (block_end dctx ostart maxDstSize) (bd_litBufferEnd dctx) mem ostart (bd_litPtr dctx) \<and>
     (nbSeq = 0 \<or> seq_dctx_ok (bd_tables dctx)) \<and> length (bd_rep dctx) = 3 \<and> 0 \<notin> set (bd_rep dctx)"

lemma mark_fse_neutral [simp]:
  "out_ok (mark_fse dctx) = out_ok dctx" "hist (mark_fse dctx) = hist dctx" "bd_virtualStart (mark_fse dctx) = bd_virtualStart dctx"
  "decode_start (bd_tables (mark_fse dctx)) = decode_start (bd_tables dctx)"
  by (simp_all add: fun_eq_iff out_ok_def layout_at_def hist_def mark_fse_def decode_start_def split: sum.split)

lemma sample_hist: "hist sample_ctx sample_mem 8 = [1, 2, 3, 4, 5, 6, 7, 8]"
  by (simp add: hist_def history_def byte_at_def sample_mem_def sample_ctx_def upt_rec)

lemma sample_ready: "block_ready sample_mem sample_ctx 8 40 n"
  by (simp add: block_ready_def sample_ctx_def sample_mem_def out_ok_def layout_at_def history_layout_def block_end_def
      seq_dctx_ok_def default_tables_ok)

lemma sample_lits: "rd sample_mem 60 4 = [9, 10, 11, 12]"
  by (simp add: rd_def byte_at_def sample_mem_def nth_append upt_rec)

lemma block_run_refines:
  assumes "block_ready mem dctx ostart maxDstSize nbSeq"
  defines "oend \<equiv> block_end dctx ostart maxDstSize" and "litEnd \<equiv> bd_litBufferEnd dctx"
  defines "cap \<equiv> nat (int oend - bd_virtualStart dctx)"
  shows "case lz_sequences (bd_tables dctx) (bd_rep dctx) src nbSeq cap (hist dctx mem ostart)
        (rd mem (bd_litPtr dctx) (bd_litSize dctx)) of
      Inl e \<Rightarrow> block_run dctx src nbSeq oend (start_state mem dctx ostart) = Inl e
    | Inr ((h, lits), rep) \<Rightarrow> \<exists>m op litPtr d. block_run dctx src nbSeq oend (start_state mem dctx ostart) =
          Inr ((m, op, litPtr, litEnd, bd_litBufferLocation dctx), d) \<and> bd_rep d = rep \<and>
        kept ostart oend mem m \<and> ostart \<le> op \<and> out_ok dctx oend litEnd m op litPtr \<and>
        h = hist dctx m op \<and> lits = rd m litPtr (litEnd - litPtr)"
proof -
  have ok: "bd_litBufferLocation dctx \<noteq> ZSTD_split" "out_ok dctx oend litEnd mem ostart (bd_litPtr dctx)"
    "litEnd - bd_litPtr dctx = bd_litSize dctx"
    using assms(1) by (auto simp: block_ready_def oend_def litEnd_def)
  show ?thesis
  proof (cases "nbSeq = 0")
    case True
    then show ?thesis using ok by (auto simp: lz_sequences_def block_run_def start_state_def kept_def litEnd_def)
  next
    case False
    show ?thesis
    proof (cases "decode_start (bd_tables dctx) (bd_rep dctx) src")
      case (Inl e)
      then show ?thesis using False by (simp add: lz_sequences_def block_run_def)
    next
      case (Inr s)
      have "list_all (\<lambda>q. 0 < seq_offset q) (fst (decode_all nbSeq s))"
        using decode_all_any decode_start_any(1) [OF _ _ _ Inr] assms(1) False by (simp add: block_ready_def)
      from run_all_refines [OF ok(1), of "mark_fse dctx" oend litEnd mem ostart "bd_litPtr dctx", simplified, OF ok(2) this]
      show ?thesis
        using False Inr ok(3) unfolding lz_sequences_def block_run_def start_state_def
        by (auto simp: cap_def litEnd_def save_reps_def split: sum.splits prod.splits)
    qed
  qed
qed

lemma body_refines:
  assumes "block_ready mem dctx ostart maxDstSize nbSeq"
  defines "oend \<equiv> block_end dctx ostart maxDstSize"
  shows "case lz_block (bd_tables dctx) (bd_rep dctx) src nbSeq (nat (int oend - bd_virtualStart dctx)) (hist dctx mem ostart)
        (rd mem (bd_litPtr dctx) (bd_litSize dctx)) of
      Inl e \<Rightarrow> ZSTD_decompressSequences_body mem dctx ostart maxDstSize src nbSeq = Inl e
    | Inr (h, rep) \<Rightarrow> \<exists>mem' n d. ZSTD_decompressSequences_body mem dctx ostart maxDstSize src nbSeq = Inr (mem', n, d) \<and>
        ostart + n \<le> oend \<and> kept ostart oend mem mem' \<and> hist dctx mem' (ostart + n) = h \<and> bd_rep d = rep"
proof -
  let ?s = "lz_sequences (bd_tables dctx) (bd_rep dctx) src nbSeq (nat (int oend - bd_virtualStart dctx)) (hist dctx mem ostart)
        (rd mem (bd_litPtr dctx) (bd_litSize dctx))"
  have loc: "bd_litBufferLocation dctx \<noteq> ZSTD_split" "bd_litBufferEnd dctx = bd_litPtr dctx + bd_litSize dctx"
    using assms(1) by (auto simp: block_ready_def)
  have body: "ZSTD_decompressSequences_body mem dctx ostart maxDstSize src nbSeq =
      bind_res (block_run dctx src nbSeq oend (start_state mem dctx ostart)) (block_finish oend ostart)"
    unfolding oend_def by (rule body_runs [OF loc])
  note run = block_run_refines [OF assms(1), of src, folded oend_def]
  show ?thesis
  proof (cases ?s)
    case (Inl e)
    then show ?thesis using run unfolding body lz_block_def by simp
  next
    case (Inr x)
    obtain h lits rep where x: "x = ((h, lits), rep)" by (metis prod.exhaust)
    obtain m op litPtr d where r: "block_run dctx src nbSeq oend (start_state mem dctx ostart) =
          Inr ((m, op, litPtr, bd_litBufferEnd dctx, bd_litBufferLocation dctx), d)" "bd_rep d = rep"
        "kept ostart oend mem m" "ostart \<le> op" "out_ok dctx oend (bd_litBufferEnd dctx) m op litPtr"
        "h = hist dctx m op" "lits = rd m litPtr (bd_litBufferEnd dctx - litPtr)"
      using run Inr x by auto
    show ?thesis
      using last_literals_refines [OF r(5)] kept_trans [OF r(3)] r(1,2,4) loc(1) Inr x
      unfolding body lz_block_def r(6) [symmetric] r(7) [symmetric]
      by (auto simp: block_finish_def last_split_literals_def split: sum.splits)
  qed
qed

text \<open>
  C3. The block decoder refines the meaning of a block. Let the context be ready for a block: literals
  in one place and apart from the output, a history that ends where the output begins, usable tables
  and offsets. Then for every sequence of bytes \<open>ZSTD_decompressSequences_body\<close> does what
  \<open>lz_block\<close>, a function on lists, says: the sequences decoded from the bits are applied one
  after the other to the history and the literals, the bit stream must end exactly there, and
  what is left of the literals follows. The decoder gives the same error if there is one. If not,
  the history in memory followed by the output is that list, the history of offsets is saved,
  and outside the block's part of the memory no byte has changed.
\<close>

theorem decompressSequences_refines:
  assumes "block_ready mem dctx ostart maxDstSize nbSeq"
  shows "case lz_block (bd_tables dctx) (bd_rep dctx) src nbSeq
        (nat (int (block_end dctx ostart maxDstSize) - bd_virtualStart dctx)) (hist dctx mem ostart)
        (rd mem (bd_litPtr dctx) (bd_litSize dctx)) of
      Inl e \<Rightarrow> ZSTD_decompressSequences_body mem dctx ostart maxDstSize src nbSeq = Inl e
    | Inr (h, rep) \<Rightarrow> \<exists>mem' n d. ZSTD_decompressSequences_body mem dctx ostart maxDstSize src nbSeq = Inr (mem', n, d) \<and>
        ostart + n \<le> block_end dctx ostart maxDstSize \<and> kept ostart (block_end dctx ostart maxDstSize) mem mem' \<and>
        hist dctx mem' (ostart + n) = h \<and> bd_rep d = rep"
  using assms by (rule body_refines)

theorem decompressSequences_refines_witness:
  "\<exists>mem' n d. ZSTD_decompressSequences_body sample_mem sample_ctx 8 40 [] 0 = Inr (mem', n, d) \<and>
     hist sample_ctx mem' (8 + n) = [1, 2, 3, 4, 5, 6, 7, 8, 9, 10, 11, 12] \<and> bd_rep d = [1, 4, 8]"
  using decompressSequences_refines [OF sample_ready [of 0], of "[]"]
  by (auto simp: lz_block_def lz_sequences_def lz_finish_def sample_hist sample_fields sample_lits)

text \<open>Errors, and the offsets after a block.\<close>

lemma lz_run_facts:
  "lz_run cap h lits qs = Inl e \<Longrightarrow> e \<in> {ZSTD_error_dstSize_tooSmall, ZSTD_error_corruption_detected}"
  "lz_run cap h lits qs = Inr x \<Longrightarrow> length h \<le> cap \<Longrightarrow> list_all (\<lambda>q. seq_offset q \<le> cap) qs"
proof -
  show "lz_run cap h lits qs = Inl e \<Longrightarrow> e \<in> {ZSTD_error_dstSize_tooSmall, ZSTD_error_corruption_detected}"
    by (induct cap h lits qs rule: lz_run.induct) (auto simp: lz_fault_def split: option.splits if_splits)
  show "lz_run cap h lits qs = Inr x \<Longrightarrow> length h \<le> cap \<Longrightarrow> list_all (\<lambda>q. seq_offset q \<le> cap) qs"
    by (induct cap h lits qs rule: lz_run.induct) (auto simp: lz_fault_def lz_step_def split: option.splits if_splits)
qed

lemma offsets_small_saved:
  assumes "offsets_small prev"
  shows "length (map ucast prev :: u32 list) = 3" "0 \<notin> set (map ucast prev :: u32 list)"
proof -
  have "unat (ucast v :: u32) = unat v" if "v \<in> set prev" for v
    using assms that by (simp add: offsets_small_def unsigned_ucast_eq take_bit_nat_eq_self)
  then show "0 \<notin> set (map ucast prev :: u32 list)" using assms by (force simp: offsets_small_def)
  show "length (map ucast prev :: u32 list) = 3" using assms by (simp add: offsets_small_def)
qed

lemma lz_block_facts:
  assumes "nbSeq = 0 \<or> seq_dctx_ok tables" "length rep = 3" "0 \<notin> set rep" "length h \<le> cap" "cap < 2 ^ 64 - 1"
  shows "case lz_block tables rep src nbSeq cap h lits of
      Inl e \<Rightarrow> e \<in> {ZSTD_error_dstSize_tooSmall, ZSTD_error_corruption_detected}
    | Inr (h', rep') \<Rightarrow> length rep' = 3 \<and> 0 \<notin> set rep'"
proof (cases "lz_sequences tables rep src nbSeq cap h lits")
  case (Inl e)
  then show ?thesis
    using lz_run_facts(1) [of cap h lits]
    by (auto simp: lz_block_def lz_sequences_def bind_res_Inl_iff decode_start_def Let_def
        split: if_splits sum.splits prod.splits)
next
  case (Inr x)
  have "length (snd x) = 3 \<and> 0 \<notin> set (snd x)"
  proof (cases "nbSeq = 0")
    case False
    then obtain s y where s: "decode_start tables rep src = Inr s" "lz_run cap h lits (fst (decode_all nbSeq s)) = Inr y"
        "snd x = map ucast (qs_prevOffset (snd (decode_all nbSeq s)))"
      using Inr by (auto simp: lz_sequences_def bind_res_Inr_iff split: if_splits)
    note st = decode_start_any [OF _ assms(2,3) s(1)]
    have "list_all (\<lambda>q. seq_offset q < 2 ^ 64 - 1) (fst (decode_all nbSeq s))"
      using lz_run_facts(2) [OF s(2) assms(4)] assms(5) by (auto simp: list_all_iff)
    then show ?thesis
      using decode_all_any [of s nbSeq] st assms(1) False offsets_small_saved s(3) by auto
  qed (use Inr assms in \<open>auto simp: lz_sequences_def\<close>)
  then show ?thesis using Inr by (cases x) (auto simp: lz_block_def lz_finish_def split: if_splits)
qed

text \<open>
  C9. The block decoder is safe on every input. With a context that is ready for a block and a
  history that fits the address space, \<open>ZSTD_decompressSequences_body\<close> either fails with one of two errors
  or produces at most what the output has room for; it never writes outside its part
  of the output; and the history of offsets it saves is free of zeros again, as the next block
  requires, although the arithmetic on it can wrap around inside the block.
\<close>

theorem decompressSequences_safe:
  assumes "block_ready mem dctx ostart maxDstSize nbSeq"
    "int (block_end dctx ostart maxDstSize) - bd_virtualStart dctx < 2 ^ 63"
  shows "case ZSTD_decompressSequences_body mem dctx ostart maxDstSize src nbSeq of
      Inl e \<Rightarrow> e \<in> {ZSTD_error_dstSize_tooSmall, ZSTD_error_corruption_detected}
    | Inr (mem', n, d) \<Rightarrow> ostart + n \<le> block_end dctx ostart maxDstSize \<and>
        kept ostart (block_end dctx ostart maxDstSize) mem mem' \<and> length (bd_rep d) = 3 \<and> 0 \<notin> set (bd_rep d)"
proof -
  let ?cap = "nat (int (block_end dctx ostart maxDstSize) - bd_virtualStart dctx)"
  have ready: "nbSeq = 0 \<or> seq_dctx_ok (bd_tables dctx)" "length (bd_rep dctx) = 3" "0 \<notin> set (bd_rep dctx)"
    and "ostart \<le> block_end dctx ostart maxDstSize"
    using assms(1) by (auto simp: block_ready_def out_ok_def layout_at_def)
  then have "length (hist dctx mem ostart) \<le> ?cap" "?cap < 2 ^ 64 - 1" using assms(2) by auto
  from lz_block_facts [OF ready this, of src "rd mem (bd_litPtr dctx) (bd_litSize dctx)"] body_refines [OF assms(1), of src]
  show ?thesis by (auto split: sum.splits)
qed

theorem decompressSequences_safe_witness:
  "case ZSTD_decompressSequences_body sample_mem sample_ctx 8 40 [3, 1, 4, 1, 5] 2 of
     Inl e \<Rightarrow> e \<in> {ZSTD_error_dstSize_tooSmall, ZSTD_error_corruption_detected}
   | Inr (mem', n, d) \<Rightarrow> 8 + n \<le> 48 \<and> kept 8 48 sample_mem mem' \<and> length (bd_rep d) = 3 \<and> 0 \<notin> set (bd_rep d)"
  using decompressSequences_safe [OF sample_ready [of 2], of "[3, 1, 4, 1, 5]", unfolded sample_fields] by simp

subsection \<open>From the encoder to the decoder\<close>

text \<open>Sequences that describe data \<open>x\<close> from position \<open>p\<close> on: each match repeats what is \<open>offset\<close> bytes before it.\<close>

fun describes :: "bytes \<Rightarrow> nat \<Rightarrow> seq_t list \<Rightarrow> bool" where
  "describes x p [] \<longleftrightarrow> p \<le> length x"
| "describes x p (q # qs) \<longleftrightarrow>
     (let m = p + seq_litLength q in
      m + seq_matchLength q \<le> length x \<and> 0 < seq_offset q \<and> seq_offset q \<le> m \<and>
      (\<forall>j < seq_matchLength q. x ! (m + j) = x ! (m + j - seq_offset q)) \<and> describes x (m + seq_matchLength q) qs)"

fun literals_of :: "bytes \<Rightarrow> nat \<Rightarrow> seq_t list \<Rightarrow> bytes" where
  "literals_of x p [] = drop p x"
| "literals_of x p (q # qs) =
     take (seq_litLength q) (drop p x) @ literals_of x (p + seq_litLength q + seq_matchLength q) qs"

lemma lz_step_describes:
  assumes "describes x p (q # qs)" "take (seq_litLength q) lits = take (seq_litLength q) (drop p x)"
  shows "lz_step (take p x) lits q = take (p + seq_litLength q + seq_matchLength q) x"
proof -
  let ?m = "p + seq_litLength q"
  have d: "?m + seq_matchLength q \<le> length x" "0 < seq_offset q" "seq_offset q \<le> ?m"
    "\<forall>j < seq_matchLength q. x ! (?m + j) = x ! (?m + j - seq_offset q)"
    using assms(1) by (simp_all add: Let_def)
  have h: "take p x @ take (seq_litLength q) lits = take ?m x" using assms(2) by (simp add: take_add)
  show ?thesis unfolding lz_step_def h
    by (rule lz_match_unique) (use d in \<open>auto simp: min_def\<close>)
qed

lemma lz_run_describes:
  assumes "describes x p qs" "length x \<le> cap"
  shows "\<exists>p' \<le> length x. lz_run cap (take p x) (literals_of x p qs) qs = Inr (take p' x, drop p' x)"
  using assms
proof (induct qs arbitrary: p)
  case (Cons q qs)
  let ?p = "p + seq_litLength q + seq_matchLength q" and ?l = "literals_of x p (q # qs)"
  have d: "?p \<le> length x" "seq_offset q \<le> p + seq_litLength q" "describes x ?p qs"
    using Cons.prems(1) by (simp_all add: Let_def)
  have "length (take (seq_litLength q) (drop p x)) = seq_litLength q" using d(1) by simp
  then have l: "take (seq_litLength q) ?l = take (seq_litLength q) (drop p x)" "drop (seq_litLength q) ?l = literals_of x ?p qs"
    "seq_litLength q \<le> length ?l" by simp_all
  have "lz_fault cap (take p x) ?l q = None" using d Cons.prems(2) l(3) by (auto simp: lz_fault_def min_def)
  then have "lz_run cap (take p x) ?l (q # qs) = lz_run cap (take ?p x) (literals_of x ?p qs) qs"
    using lz_step_describes [OF Cons.prems(1) l(1)] l(2) by (simp del: literals_of.simps)
  then show ?case using Cons.hyps [OF d(3) Cons.prems(2)] by simp
qed auto

lemma hist_tail:
  assumes "layout_at dctx op oend"
  shows "drop (length (hist dctx m op)) (hist dctx m (op + n)) = rd m op n"
proof -
  have V: "bd_virtualStart dctx \<le> int (bd_prefixStart dctx)" "bd_prefixStart dctx \<le> op"
    using assms by (auto simp: layout_at_def history_layout_def)
  have "history (bd_prefixStart dctx) (bd_dictEnd dctx) (bd_virtualStart dctx + int (nat (int op - bd_virtualStart dctx) + j)) = op + j" for j
    using V by (auto simp: history_def)
  moreover have "nat (int (op + n) - bd_virtualStart dctx) = nat (int op - bd_virtualStart dctx) + n" using V by linarith
  ultimately show ?thesis
    by (intro nth_equalityI) (simp_all add: hist_nth rd_def del: of_nat_add)
qed

lemma encoded_lz_block:
  assumes "sqs \<noteq> []" "block_ok sqs" "ss = snd (ZSTD_seqToCodes (store_all (ZSTD_resetSeqStore ss0) sqs))"
    "codes_in_tables tL tO tM ss" "dctx_tables tL tO tM tables" "length rep = 3" "list_all offset_ok (raw_offsets rep (nums sqs))"
    "c_image (stream_fields tL tO tM (map item_of (coded_seqs ss))) src"
    "describes x p (plain_seqs rep sqs)" "length x \<le> cap"
  shows "lz_block tables rep src (length sqs) cap (take p x) (literals_of x p (plain_seqs rep sqs)) = Inr (x, final_rep rep (nums sqs))"
proof -
  obtain s s' where s: "decode_start tables rep src = Inr s" "decode_all (length sqs) s = (plain_seqs rep sqs, s')"
      "BIT_endOfDStream (qs_DStream s')" "qs_prevOffset s' = map ucast (final_rep rep (nums sqs))"
    using decode_encoded [OF assms(1-8)] by auto
  obtain p' where p': "p' \<le> length x" "lz_run cap (take p x) (literals_of x p (plain_seqs rep sqs)) (plain_seqs rep sqs) = Inr (take p' x, drop p' x)"
    using lz_run_describes [OF assms(9,10)] by auto
  have "(ucast (ucast r :: u64) :: u32) = r" for r :: u32
    by (rule bit_word_eqI) (simp add: bit_simps)
  then have "map ucast (map ucast (rep :: u32 list) :: u64 list) = rep" for rep
    by (simp add: comp_def)
  then show ?thesis
    using s p' assms(1,10) by (simp add: lz_block_def lz_sequences_def lz_finish_def del: map_map)
qed

text \<open>
  C1. What the encoder writes, the decoder turns back into the data. Let any sequences describe data \<open>x\<close>
  after the history both sides have (each match repeats what stands at its offset, which is all that is
  asked of a match finder), with numbers for the offsets that stand for them. If
  \<open>ZSTD_encodeSequences\<close> has written them, after \<open>ZSTD_storeSeqOnly\<close> and
  \<open>ZSTD_seqToCodes\<close>, then \<open>ZSTD_decompressSequences_body\<close>, given exactly those bytes, the
  literals and tables that belong together and room for the data, succeeds, writes the data and
  nothing else, and saves the history of offsets the encoder has after the block.
\<close>

theorem block_roundtrip:
  assumes "sqs \<noteq> []" "block_ok sqs" "ss = snd (ZSTD_seqToCodes (store_all (ZSTD_resetSeqStore ss0) sqs))"
    "codes_in_tables tL tO tM ss" "q_ctable tL ctL" "q_ctable tO ctO" "q_ctable tM ctM"
    "list_all offset_ok (raw_offsets (bd_rep dctx) (nums sqs))"
    "ZSTD_encodeSequences dst ctM (ss_mlCode ss) ctO (ss_ofCode ss) ctL (ss_llCode ss) (ss_sequences ss) (length sqs) lo = Inr (sz, dst')"
    "block_ready mem dctx ostart maxDstSize (length sqs)" "dctx_tables tL tO tM (bd_tables dctx)"
    "describes (hist dctx mem ostart @ x) (length (hist dctx mem ostart)) (plain_seqs (bd_rep dctx) sqs)"
    "rd mem (bd_litPtr dctx) (bd_litSize dctx) =
       literals_of (hist dctx mem ostart @ x) (length (hist dctx mem ostart)) (plain_seqs (bd_rep dctx) sqs)"
    "ostart + length x \<le> block_end dctx ostart maxDstSize"
  shows "\<exists>mem' d. ZSTD_decompressSequences_body mem dctx ostart maxDstSize (take sz dst') (length sqs) = Inr (mem', length x, d) \<and>
    rd mem' ostart (length x) = x \<and> kept ostart (block_end dctx ostart maxDstSize) mem mem' \<and>
    bd_rep d = final_rep (bd_rep dctx) (nums sqs)"
proof -
  let ?h = "hist dctx mem ostart" and ?e = "block_end dctx ostart maxDstSize"
  have lay: "layout_at dctx ostart ?e" and rep: "length (bd_rep dctx) = 3" using assms(10) by (auto simp: block_ready_def out_ok_def)
  then have V: "bd_virtualStart dctx \<le> int ostart" by (auto simp: layout_at_def history_layout_def)
  then have cap: "length (?h @ x) \<le> nat (int ?e - bd_virtualStart dctx)" using assms(14) by simp
  have lz: "lz_block (bd_tables dctx) (bd_rep dctx) (take sz dst') (length sqs) (nat (int ?e - bd_virtualStart dctx)) ?h
      (rd mem (bd_litPtr dctx) (bd_litSize dctx)) = Inr (?h @ x, final_rep (bd_rep dctx) (nums sqs))"
    using encoded_lz_block [OF assms(1-4,11) rep assms(8) encoded_image(3) [OF assms(1-7,9)] assms(12) cap] assms(13) by simp
  obtain mem' n d where r: "ZSTD_decompressSequences_body mem dctx ostart maxDstSize (take sz dst') (length sqs) = Inr (mem', n, d)"
      "kept ostart ?e mem mem'" "hist dctx mem' (ostart + n) = ?h @ x" "bd_rep d = final_rep (bd_rep dctx) (nums sqs)"
    using body_refines [OF assms(10), of "take sz dst'"] lz by auto
  have "rd mem' ostart n = x" using hist_tail [OF lay, of mem' n] r(3) by simp
  moreover from this have "n = length x" by (metis length_rd)
  ultimately show ?thesis using r by auto
qed

definition sample_seqs :: "(nat \<times> u32 \<times> nat) list" where "sample_seqs = [(3, 8, 9)]"

lemma sample_offsets: "raw_offsets [1, 4, 8] (nums sample_seqs) = [5]"
  by (simp add: sample_seqs_def nums_def raw_offset_def OFFBASE_IS_OFFSET_def OFFBASE_TO_OFFSET_def)

lemma sample_plain: "plain_seqs [1, 4, 8] sample_seqs = [\<lparr>seq_litLength = 3, seq_matchLength = 9, seq_offset = 5\<rparr>]"
  by (simp add: plain_seqs_def sample_seqs_def nums_def raw_offset_def OFFBASE_IS_OFFSET_def OFFBASE_TO_OFFSET_def)

lemma sample_describes:
  "describes [1, 2, 3, 4, 5, 6, 7, 8, 9, 10, 11, 7, 8, 9, 10, 11, 7, 8, 9, 10, 12] 8
     [\<lparr>seq_litLength = 3, seq_matchLength = 9, seq_offset = 5\<rparr>]"
  by (simp add: numeral_eq_Suc All_less_Suc2)

lemma sample_literals:
  "rd sample_mem 60 4 = literals_of [1, 2, 3, 4, 5, 6, 7, 8, 9, 10, 11, 7, 8, 9, 10, 11, 7, 8, 9, 10, 12] 8
     [\<lparr>seq_litLength = 3, seq_matchLength = 9, seq_offset = 5\<rparr>]"
  by (simp add: sample_lits)

theorem block_roundtrip_witness:
  "\<exists>ctL ctO ctM (ss :: SeqStore_t) sz dst' mem' d.
     ZSTD_encodeSequences (replicate 100 0) ctM (ss_mlCode ss) ctO (ss_ofCode ss) ctL (ss_llCode ss) (ss_sequences ss) 1 False
       = Inr (sz, dst') \<and>
     ZSTD_decompressSequences_body sample_mem sample_ctx 8 40 (take sz dst') 1 = Inr (mem', 13, d) \<and>
     rd mem' 8 13 = [9, 10, 11, 7, 8, 9, 10, 11, 7, 8, 9, 10, 12]"
proof -
  let ?x = "[9, 10, 11, 7, 8, 9, 10, 11, 7, 8, 9, 10, 12] :: bytes"
  let ?ss = "snd (ZSTD_seqToCodes (store_all (ZSTD_resetSeqStore \<lparr>ss_sequences = [], ss_litStart = 0, ss_lit = 0, ss_llCode = [],
    ss_mlCode = [], ss_ofCode = [], ss_maxNbSeq = 10, ss_maxNbLit = 131072, ss_longLengthType = ZSTD_llt_none,
    ss_longLengthPos = 0\<rparr>) sample_seqs))"
  let ?ct = "\<lambda>norm L. \<lparr>ct_tableLog = L, ct_maxSymbolValue = length norm - 1, ct_stateTable = fse_states norm L,
    ct_symbolTT = fse_transforms L norm 0\<rparr>"
  let ?L = "?ct LL_defaultNorm LL_DEFAULTNORMLOG" and ?O = "?ct OF_defaultNorm OF_DEFAULTNORMLOG"
    and ?M = "?ct ML_defaultNorm ML_DEFAULTNORMLOG"
  let ?enc = "ZSTD_encodeSequences (replicate 100 0) ?M (ss_mlCode ?ss) ?O (ss_ofCode ?ss) ?L (ss_llCode ?ss) (ss_sequences ?ss)
    (length sample_seqs) False"
  have ok: "sample_seqs \<noteq> []" "block_ok sample_seqs" "length sample_seqs = 1"
    by (simp_all add: sample_seqs_def block_ok_def lengths_total_def zstd_limits MINMATCH_def)
  have tab: "codes_in_tables (Coder_fse LL_defaultNorm LL_DEFAULTNORMLOG) (Coder_fse OF_defaultNorm OF_DEFAULTNORMLOG)
      (Coder_fse ML_defaultNorm ML_DEFAULTNORMLOG) ?ss"
    by (rule default_codes_in_tables [OF ok(2) _ refl]) (simp add: sample_seqs_def)
  have ct: "q_ctable (Coder_fse LL_defaultNorm LL_DEFAULTNORMLOG) ?L" "q_ctable (Coder_fse OF_defaultNorm OF_DEFAULTNORMLOG) ?O"
    "q_ctable (Coder_fse ML_defaultNorm ML_DEFAULTNORMLOG) ?M" by simp_all
  have dt: "dctx_tables (Coder_fse LL_defaultNorm LL_DEFAULTNORMLOG) (Coder_fse OF_defaultNorm OF_DEFAULTNORMLOG)
      (Coder_fse ML_defaultNorm ML_DEFAULTNORMLOG) (bd_tables sample_ctx)"
    by (simp add: dctx_tables_def default_q_dtable sample_fields del: q_dtable.simps)
  obtain sz dst' where enc: "?enc = Inr (sz, dst')"
    using encoded_image(4) [OF ok(1,2) refl tab ct, of "replicate 100 0" False] ok(3) by auto
  have len: "length (hist sample_ctx sample_mem 8) = 8" by (simp add: sample_fields)
  have "list_all offset_ok (raw_offsets (bd_rep sample_ctx) (nums sample_seqs))"
    by (simp add: sample_fields sample_offsets offset_ok_def)
  moreover have "describes (hist sample_ctx sample_mem 8 @ ?x) (length (hist sample_ctx sample_mem 8)) (plain_seqs (bd_rep sample_ctx) sample_seqs)"
    unfolding len unfolding sample_hist sample_fields sample_plain using sample_describes by (simp del: describes.simps)
  moreover have "rd sample_mem (bd_litPtr sample_ctx) (bd_litSize sample_ctx) =
      literals_of (hist sample_ctx sample_mem 8 @ ?x) (length (hist sample_ctx sample_mem 8)) (plain_seqs (bd_rep sample_ctx) sample_seqs)"
    unfolding len unfolding sample_hist sample_fields sample_plain using sample_literals by (simp del: literals_of.simps)
  ultimately have "\<exists>mem' d. ZSTD_decompressSequences_body sample_mem sample_ctx 8 40 (take sz dst') (length sample_seqs) =
        Inr (mem', length ?x, d) \<and> rd mem' 8 (length ?x) = ?x \<and> kept 8 (block_end sample_ctx 8 40) sample_mem mem' \<and>
      bd_rep d = final_rep (bd_rep sample_ctx) (nums sample_seqs)"
    by (intro block_roundtrip [OF ok(1,2) refl tab ct _ enc sample_ready dt]) (simp_all add: sample_fields)
  moreover have "length ?x = 13" by simp
  ultimately show ?thesis using enc unfolding ok(3) by (simp only:) blast
qed

end
