(* ===== verification/Msg_Packet.thy ===== *)
theory Msg_Packet
  imports Prelude "HOL-Library.Sublist"
begin

text \<open>
  The packets of the message transport and the two codecs that put them on a byte stream
  (\<^verbatim>\<open>Packet.kt\<close>, \<^verbatim>\<open>PacketCodec.kt\<close>, \<^verbatim>\<open>LengthPrefixedPacketCodec.kt\<close>), and the payload
  compression applied around them (\<^verbatim>\<open>PayloadCompression.kt\<close>). The byte buffer is a class of
  the I/O library underneath: its operations are an argument of the codecs and
  \<^verbatim>\<open>buffer_laws\<close> states what its documentation promises of them. An exception is a value
  of \<^verbatim>\<open>packet_error\<close>.
\<close>

subsection \<open>Packets\<close>

datatype packet_error =
    Unknown_packet_type nat
  | Unknown_compression nat
  | Unsupported_version nat
  | Payload_too_long nat
  | Frame_too_long nat
  | Frame_too_short nat
  | Frame_mismatch nat nat
  | Incomplete_packet
  | Illegal_argument
  | Already_compressed
  | Codec_failure

datatype PacketType = OneWay | Request | Response

fun PacketType_code :: "PacketType \<Rightarrow> nat" where
  "PacketType_code OneWay = 0"
| "PacketType_code Request = 1"
| "PacketType_code Response = 2"

definition PacketType_fromCode :: "nat \<Rightarrow> packet_error + PacketType" where
  "PacketType_fromCode code =
     (if code = 0 then Inr OneWay else if code = 1 then Inr Request
      else if code = 2 then Inr Response else Inl (Unknown_packet_type code))"

datatype Compression = Compression_None | Compression_Zstd | Compression_Zlib

fun Compression_code :: "Compression \<Rightarrow> nat" where
  "Compression_code Compression_None = 0"
| "Compression_code Compression_Zstd = 1"
| "Compression_code Compression_Zlib = 2"

definition Compression_fromCode :: "nat \<Rightarrow> packet_error + Compression" where
  "Compression_fromCode code =
     (if code = 0 then Inr Compression_None else if code = 1 then Inr Compression_Zstd
      else if code = 2 then Inr Compression_Zlib else Inl (Unknown_compression code))"

record Packet =
  pk_type :: PacketType
  pk_messageId :: u32
  pk_bizType :: int
  pk_payload :: bytes
  pk_extHeader :: bytes
  pk_compression :: Compression
  pk_reserved :: int

text \<open>The constructor with the two checks of its initializer.\<close>

definition Packet_new ::
  "PacketType \<Rightarrow> u32 \<Rightarrow> int \<Rightarrow> bytes \<Rightarrow> bytes \<Rightarrow> Compression \<Rightarrow> int \<Rightarrow> packet_error + Packet" where
  "Packet_new ty mid biz pay ext cmp res =
     (if \<not> (0 \<le> biz \<and> biz \<le> 255) then Inl Illegal_argument
      else if \<not> (0 \<le> res \<and> res \<le> 0xFFFF) then Inl Illegal_argument
      else Inr \<lparr>pk_type = ty, pk_messageId = mid, pk_bizType = biz, pk_payload = pay,
                pk_extHeader = ext, pk_compression = cmp, pk_reserved = res\<rparr>)"

definition PROTOCOL_VERSION :: nat where
  "PROTOCOL_VERSION = 1"

definition FIXED_HEADER_SIZE :: nat where
  "FIXED_HEADER_SIZE = 16"

definition Packet_size :: "Packet \<Rightarrow> nat" where
  "Packet_size p = FIXED_HEADER_SIZE + length (pk_extHeader p) + length (pk_payload p)"

definition Packet_withPayload :: "Packet \<Rightarrow> bytes \<Rightarrow> Compression \<Rightarrow> packet_error + Packet" where
  "Packet_withPayload p newPayload newCompression =
     Packet_new (pk_type p) (pk_messageId p) (pk_bizType p) newPayload (pk_extHeader p)
       newCompression (pk_reserved p)"

subsection \<open>The byte buffer of the I/O library\<close>

definition be_bytes :: "nat \<Rightarrow> nat \<Rightarrow> bytes" where
  "be_bytes n v = rev (le_bytes n v)"

definition be_val :: "bytes \<Rightarrow> nat" where
  "be_val bs = le_val (rev bs)"

lemma length_be_bytes [simp]: "length (be_bytes n v) = n"
  by (simp add: be_bytes_def)

lemma be_val_be_bytes [simp]: "be_val (be_bytes n v) = v mod 256 ^ n"
  by (simp add: be_val_def be_bytes_def le_simps)

lemma be_bytes_be_val: "length bs = n \<Longrightarrow> be_bytes n (be_val bs) = bs"
  using le_bytes_le_val [of "rev bs"] by (simp add: be_val_def be_bytes_def)

lemma be_val_less: "length bs = n \<Longrightarrow> be_val bs < 256 ^ n"
  using le_val_bound [of "rev bs"] by (simp add: be_val_def)

text \<open>
  The operations the codecs call. A \<^verbatim>\<open>Short\<close> is written from an \<^verbatim>\<open>Int\<close>, whose high half is
  discarded; the unsigned reads yield the value, \<^verbatim>\<open>getInt\<close> the 32 bits themselves.
\<close>

record 'b Buffer_ops =
  writeByte :: "'b \<Rightarrow> byte \<Rightarrow> 'b"
  writeShort :: "'b \<Rightarrow> nat \<Rightarrow> 'b"
  writeInt :: "'b \<Rightarrow> u32 \<Rightarrow> 'b"
  writeBytes :: "'b \<Rightarrow> bytes \<Rightarrow> 'b"
  readableBytes :: "'b \<Rightarrow> nat"
  getUnsignedByte :: "'b \<Rightarrow> nat \<Rightarrow> nat"
  getUnsignedShort :: "'b \<Rightarrow> nat \<Rightarrow> nat"
  getInt :: "'b \<Rightarrow> nat \<Rightarrow> u32"
  skip :: "'b \<Rightarrow> nat \<Rightarrow> 'b"
  readBytes :: "'b \<Rightarrow> nat \<Rightarrow> bytes \<times> 'b"

text \<open>What the buffer promises, over the readable bytes \<^verbatim>\<open>view b\<close>: multi-byte values are big-endian.\<close>

definition buffer_laws :: "'b Buffer_ops \<Rightarrow> ('b \<Rightarrow> bytes) \<Rightarrow> bool" where
  "buffer_laws B view \<longleftrightarrow>
     (\<forall>b x. view (writeByte B b x) = view b @ [x]) \<and>
     (\<forall>b v. view (writeShort B b v) = view b @ be_bytes 2 v) \<and>
     (\<forall>b w. view (writeInt B b w) = view b @ be_bytes 4 (unat w)) \<and>
     (\<forall>b xs. view (writeBytes B b xs) = view b @ xs) \<and>
     (\<forall>b. readableBytes B b = length (view b)) \<and>
     (\<forall>b i. i < length (view b) \<longrightarrow> getUnsignedByte B b i = unat (view b ! i)) \<and>
     (\<forall>b i. i + 2 \<le> length (view b) \<longrightarrow> getUnsignedShort B b i = be_val (take 2 (drop i (view b)))) \<and>
     (\<forall>b i. i + 4 \<le> length (view b) \<longrightarrow> getInt B b i = of_nat (be_val (take 4 (drop i (view b))))) \<and>
     (\<forall>b n. n \<le> length (view b) \<longrightarrow> view (skip B b n) = drop n (view b)) \<and>
     (\<forall>b n. n \<le> length (view b) \<longrightarrow>
        fst (readBytes B b n) = take n (view b) \<and> view (snd (readBytes B b n)) = drop n (view b))"

lemma buffer_lawsD:
  assumes "buffer_laws B view"
  shows "view (writeByte B b x) = view b @ [x]"
    and "view (writeShort B b v) = view b @ be_bytes 2 v"
    and "view (writeInt B b w) = view b @ be_bytes 4 (unat w)"
    and "view (writeBytes B b xs) = view b @ xs"
    and "readableBytes B b = length (view b)"
    and "i < length (view b) \<Longrightarrow> getUnsignedByte B b i = unat (view b ! i)"
    and "i + 2 \<le> length (view b) \<Longrightarrow> getUnsignedShort B b i = be_val (take 2 (drop i (view b)))"
    and "i + 4 \<le> length (view b) \<Longrightarrow> getInt B b i = of_nat (be_val (take 4 (drop i (view b))))"
    and "n \<le> length (view b) \<Longrightarrow> view (skip B b n) = drop n (view b)"
    and "n \<le> length (view b) \<Longrightarrow> fst (readBytes B b n) = take n (view b)"
    and "n \<le> length (view b) \<Longrightarrow> view (snd (readBytes B b n)) = drop n (view b)"
  using assms unfolding buffer_laws_def by simp_all

text \<open>A buffer that is the list of its readable bytes keeps the laws.\<close>

definition list_buffer :: "bytes Buffer_ops" where
  "list_buffer =
     \<lparr>writeByte = \<lambda>b x. b @ [x],
      writeShort = \<lambda>b v. b @ be_bytes 2 v,
      writeInt = \<lambda>b w. b @ be_bytes 4 (unat w),
      writeBytes = \<lambda>b xs. b @ xs,
      readableBytes = length,
      getUnsignedByte = \<lambda>b i. unat (byte_at b i),
      getUnsignedShort = \<lambda>b i. be_val (rd b i 2),
      getInt = \<lambda>b i. of_nat (be_val (rd b i 4)),
      skip = \<lambda>b n. drop n b,
      readBytes = \<lambda>b n. (take n b, drop n b)\<rparr>"

lemma list_buffer_laws: "buffer_laws list_buffer (\<lambda>b. b)"
  by (simp add: buffer_laws_def list_buffer_def byte_at_def rd_in_range)

subsection \<open>The packet codec\<close>

definition DEFAULT_MAX_PAYLOAD :: int where
  "DEFAULT_MAX_PAYLOAD = 64 * 1024 * 1024"

definition PacketCodec_encode :: "'b Buffer_ops \<Rightarrow> Packet \<Rightarrow> 'b \<Rightarrow> 'b" where
  "PacketCodec_encode B item out =
     (let out = writeByte B out (of_nat PROTOCOL_VERSION);
          out = writeByte B out (of_nat (Compression_code (pk_compression item)));
          out = writeByte B out (of_nat (PacketType_code (pk_type item)));
          out = writeByte B out (of_int (pk_bizType item));
          out = writeInt B out (pk_messageId item);
          out = writeShort B out (length (pk_extHeader item));
          out = writeInt B out (of_nat (length (pk_payload item)));
          out = writeShort B out (nat (pk_reserved item));
          out = (if pk_extHeader item \<noteq> [] then writeBytes B out (pk_extHeader item) else out)
      in if pk_payload item \<noteq> [] then writeBytes B out (pk_payload item) else out)"

text \<open>
  The result is the packet and the buffer behind it, or no packet and the untouched buffer
  while the packet is incomplete.
\<close>

definition PacketCodec_decode ::
  "'b Buffer_ops \<Rightarrow> int \<Rightarrow> 'b \<Rightarrow> packet_error + Packet option \<times> 'b" where
  "PacketCodec_decode B maxPayloadLength buf =
     (if readableBytes B buf < FIXED_HEADER_SIZE then Inr (None, buf)
      else let version = getUnsignedByte B buf 0
      in if version \<noteq> PROTOCOL_VERSION then Inl (Unsupported_version version)
      else bind_res (Compression_fromCode (getUnsignedByte B buf 1)) (\<lambda>compression.
           bind_res (PacketType_fromCode (getUnsignedByte B buf 2)) (\<lambda>type.
             let bizType = int (getUnsignedByte B buf 3);
                 messageId = getInt B buf 4;
                 extHeaderLen = getUnsignedShort B buf 8;
                 payloadLen = unat (getInt B buf 10);
                 reserved = int (getUnsignedShort B buf 14)
             in if int payloadLen > maxPayloadLength then Inl (Payload_too_long payloadLen)
             else let total = FIXED_HEADER_SIZE + extHeaderLen + payloadLen
             in if readableBytes B buf < total then Inr (None, buf)
             else let buf = skip B buf FIXED_HEADER_SIZE;
                      (extHeader, buf) = (if extHeaderLen > 0 then readBytes B buf extHeaderLen
                                          else ([], buf));
                      (payload, buf) = (if payloadLen > 0 then readBytes B buf payloadLen
                                        else ([], buf))
             in bind_res (Packet_new type messageId bizType payload extHeader compression reserved)
                  (\<lambda>p. Inr (Some p, buf)))))"

subsection \<open>The length-prefixed codec\<close>

definition PREFIX :: nat where
  "PREFIX = 4"

definition maxFrameLength :: "int \<Rightarrow> int" where
  "maxFrameLength maxPayloadLength = int FIXED_HEADER_SIZE + 0xFFFF + maxPayloadLength"

definition LengthPrefixed_encode :: "'b Buffer_ops \<Rightarrow> Packet \<Rightarrow> 'b \<Rightarrow> 'b" where
  "LengthPrefixed_encode B item out =
     PacketCodec_encode B item
       (writeInt B out (of_nat (FIXED_HEADER_SIZE + length (pk_extHeader item)
                                + length (pk_payload item))))"

definition LengthPrefixed_decode ::
  "'b Buffer_ops \<Rightarrow> int \<Rightarrow> 'b \<Rightarrow> packet_error + Packet option \<times> 'b" where
  "LengthPrefixed_decode B maxPayloadLength buf =
     (if readableBytes B buf < PREFIX then Inr (None, buf)
      else let len = unat (getInt B buf 0)
      in if int len > maxFrameLength maxPayloadLength then Inl (Frame_too_long len)
      else if readableBytes B buf - PREFIX < len then Inr (None, buf)
      else if len < FIXED_HEADER_SIZE then Inl (Frame_too_short len)
      else let packetLength = FIXED_HEADER_SIZE + getUnsignedShort B buf (PREFIX + 8)
                              + unat (getInt B buf (PREFIX + 10))
      in if packetLength \<noteq> len then Inl (Frame_mismatch len packetLength)
      else bind_res (PacketCodec_decode B maxPayloadLength (skip B buf PREFIX))
             (\<lambda>(r, buf). case r of None \<Rightarrow> Inl Incomplete_packet | Some p \<Rightarrow> Inr (Some p, buf)))"

subsection \<open>Payload compression\<close>

text \<open>
  The two compressors are platform objects: each is a pair of a compressor and a bounded
  decompressor, and an argument here.
\<close>

record Payload_codec =
  codec_compress :: "bytes \<Rightarrow> packet_error + bytes"
  codec_decompress :: "bytes \<Rightarrow> int \<Rightarrow> packet_error + bytes"

definition compress_payload ::
  "Payload_codec \<Rightarrow> Payload_codec \<Rightarrow> bytes \<Rightarrow> Compression \<Rightarrow> packet_error + bytes" where
  "compress_payload ZstdCodec ZlibCodec payload compression =
     (case compression of
        Compression_None \<Rightarrow> Inr payload
      | Compression_Zstd \<Rightarrow> codec_compress ZstdCodec payload
      | Compression_Zlib \<Rightarrow> codec_compress ZlibCodec payload)"

definition decompress_payload ::
  "Payload_codec \<Rightarrow> Payload_codec \<Rightarrow> bytes \<Rightarrow> Compression \<Rightarrow> int \<Rightarrow> packet_error + bytes" where
  "decompress_payload ZstdCodec ZlibCodec payload compression maxOutputSize =
     (if maxOutputSize < 0 then Inl Illegal_argument
      else case compression of
        Compression_None \<Rightarrow> Inr payload
      | Compression_Zstd \<Rightarrow> codec_decompress ZstdCodec payload maxOutputSize
      | Compression_Zlib \<Rightarrow> codec_decompress ZlibCodec payload maxOutputSize)"

definition compress_packet ::
  "Payload_codec \<Rightarrow> Payload_codec \<Rightarrow> Packet \<Rightarrow> Compression \<Rightarrow> packet_error + Packet" where
  "compress_packet ZstdCodec ZlibCodec packet compression =
     (if pk_compression packet \<noteq> Compression_None then Inl Already_compressed
      else if compression = Compression_None then Inr packet
      else bind_res (compress_payload ZstdCodec ZlibCodec (pk_payload packet) compression)
             (\<lambda>body. Packet_withPayload packet body compression))"

definition decompress_packet ::
  "Payload_codec \<Rightarrow> Payload_codec \<Rightarrow> Packet \<Rightarrow> int \<Rightarrow> packet_error + Packet" where
  "decompress_packet ZstdCodec ZlibCodec packet maxOutputSize =
     (if pk_compression packet = Compression_None then Inr packet
      else bind_res (decompress_payload ZstdCodec ZlibCodec (pk_payload packet)
                       (pk_compression packet) maxOutputSize)
             (\<lambda>body. Packet_withPayload packet body Compression_None))"

text \<open>The output of a codec is collected in chunks, each a copy of the filled part of a working buffer.\<close>

definition workingChunkSize :: "int \<Rightarrow> int" where
  "workingChunkSize inputSize = min (max inputSize 1024) (64 * 1024)"

record ByteCollector =
  bc_chunks :: "bytes list"
  bc_size :: nat

definition ByteCollector_append :: "bytes \<Rightarrow> int \<Rightarrow> ByteCollector \<Rightarrow> ByteCollector" where
  "ByteCollector_append source count c =
     (if count \<le> 0 then c
      else c\<lparr>bc_chunks := bc_chunks c @ [take (nat count) (source @ replicate (nat count - length source) 0)],
             bc_size := bc_size c + nat count\<rparr>)"

definition ByteCollector_toByteArray :: "ByteCollector \<Rightarrow> bytes" where
  "ByteCollector_toByteArray c =
     fst (fold (\<lambda>chunk (result, offset). (write_at result offset chunk, offset + length chunk))
            (bc_chunks c) (replicate (bc_size c) 0, 0))"

lemma collect_chunks:
  "length (concat chunks) \<le> length buf \<Longrightarrow>
   fst (fold (\<lambda>chunk (result, offset). (write_at result offset chunk, offset + length chunk))
          chunks (pre @ buf, length pre)) = pre @ concat chunks @ drop (length (concat chunks)) buf"
proof (induction chunks arbitrary: pre buf)
  case (Cons c cs)
  have "write_at (pre @ buf) (length pre) c = (pre @ c) @ drop (length c) buf"
    by (simp add: write_at_def)
  with Cons.IH [of "drop (length c) buf" "pre @ c"] Cons.prems show ?case
    by (simp add: add.commute)
qed simp

text \<open>The collected bytes are the parts appended, one after the other.\<close>

lemma collector_concat:
  "ByteCollector_toByteArray
     (fold (\<lambda>(source, count). ByteCollector_append source (int count)) parts \<lparr>bc_chunks = [], bc_size = 0\<rparr>) =
   concat (map (\<lambda>(source, count). take count (source @ replicate (count - length source) 0)) parts)"
proof -
  let ?app = "\<lambda>(source, count). ByteCollector_append source (int count)"
  let ?part = "\<lambda>(source, count). take count (source @ replicate (count - length source) 0)"
  have inv: "concat (bc_chunks (fold ?app parts c)) = concat (bc_chunks c) @ concat (map ?part parts) \<and>
      bc_size (fold ?app parts c) = bc_size c + length (concat (map ?part parts))" for c
    by (induction parts arbitrary: c) (auto simp: ByteCollector_append_def)
  let ?c = "fold ?app parts \<lparr>bc_chunks = [], bc_size = 0\<rparr>"
  have "length (concat (bc_chunks ?c)) = bc_size ?c" using inv by simp
  then show ?thesis
    using collect_chunks [of "bc_chunks ?c" "replicate (bc_size ?c) 0" "[]"] inv
    by (simp add: ByteCollector_toByteArray_def)
qed

subsection \<open>The wire format\<close>

text \<open>
  The reference layout: version, compression, type and business type in a byte each, the
  message id, the length of the extension header, the length of the payload and the reserved
  flags, then the two bodies.
\<close>

definition packet_header ::
  "Compression \<Rightarrow> PacketType \<Rightarrow> byte \<Rightarrow> u32 \<Rightarrow> nat \<Rightarrow> nat \<Rightarrow> nat \<Rightarrow> bytes" where
  "packet_header cmp ty biz mid el pl res =
     [1, of_nat (Compression_code cmp), of_nat (PacketType_code ty), biz] @
     be_bytes 4 (unat mid) @ be_bytes 2 el @ be_bytes 4 pl @ be_bytes 2 res"

definition packet_bytes :: "Packet \<Rightarrow> bytes" where
  "packet_bytes p =
     packet_header (pk_compression p) (pk_type p) (of_int (pk_bizType p)) (pk_messageId p)
       (length (pk_extHeader p)) (length (pk_payload p)) (nat (pk_reserved p)) @
     pk_extHeader p @ pk_payload p"

text \<open>The packets the wire format can carry within a payload limit.\<close>

definition packet_fits :: "int \<Rightarrow> Packet \<Rightarrow> bool" where
  "packet_fits maxPayloadLength p \<longleftrightarrow>
     0 \<le> pk_bizType p \<and> pk_bizType p \<le> 255 \<and> 0 \<le> pk_reserved p \<and> pk_reserved p \<le> 0xFFFF \<and>
     length (pk_extHeader p) \<le> 0xFFFF \<and> length (pk_payload p) < 2 ^ 32 \<and>
     int (length (pk_payload p)) \<le> maxPayloadLength"

lemma length_packet_header [simp]: "length (packet_header cmp ty biz mid el pl res) = 16"
  by (simp add: packet_header_def)

lemma length_packet_bytes [simp]: "length (packet_bytes p) = Packet_size p"
  by (simp add: packet_bytes_def Packet_size_def FIXED_HEADER_SIZE_def)

lemma be_bytes_of_nat_u32: "be_bytes 4 (unat (of_nat v :: u32)) = be_bytes 4 v"
  by (simp add: be_bytes_def le_bytes_unat_of_nat)

lemma view_encode:
  assumes "buffer_laws B view"
  shows "view (PacketCodec_encode B p out) = view out @ packet_bytes p"
  unfolding PacketCodec_encode_def Let_def packet_bytes_def packet_header_def
  by (simp add: buffer_lawsD [OF assms] be_bytes_of_nat_u32 PROTOCOL_VERSION_def)

lemma view_lp_encode:
  assumes "buffer_laws B view"
  shows "view (LengthPrefixed_encode B p out) = view out @ be_bytes 4 (Packet_size p) @ packet_bytes p"
  unfolding LengthPrefixed_encode_def
  using view_encode [OF assms]
  by (simp add: buffer_lawsD(3) [OF assms] be_bytes_of_nat_u32 Packet_size_def del: of_nat_add)

text \<open>The fields of a header are read from its sixteen bytes.\<close>

lemma header_read:
  assumes laws: "buffer_laws B view" and len: "16 \<le> length (view buf)"
    and hdr: "take 16 (view buf) = packet_header cmp ty biz mid el pl res"
  shows "getUnsignedByte B buf 0 = 1"
    and "getUnsignedByte B buf 1 = Compression_code cmp"
    and "getUnsignedByte B buf 2 = PacketType_code ty"
    and "getUnsignedByte B buf 3 = unat biz"
    and "getInt B buf 4 = mid"
    and "getUnsignedShort B buf 8 = el mod 65536"
    and "unat (getInt B buf 10) = pl mod 2 ^ 32"
    and "getUnsignedShort B buf 14 = res mod 65536"
proof -
  define h where "h = packet_header cmp ty biz mid el pl res"
  obtain bs where v: "view buf = h @ bs"
    using hdr by (metis append_take_drop_id h_def)
  have codes: "unat (of_nat (Compression_code cmp) :: byte) = Compression_code cmp"
    "unat (of_nat (PacketType_code ty) :: byte) = PacketType_code ty"
    by (cases cmp; simp) (cases ty; simp)
  note rules = buffer_lawsD(6-8) [OF laws] v h_def packet_header_def codes
  show "getUnsignedByte B buf 0 = 1" "getUnsignedByte B buf 1 = Compression_code cmp"
    "getUnsignedByte B buf 2 = PacketType_code ty" "getUnsignedByte B buf 3 = unat biz"
    using len by (simp_all add: rules nth_append)
  have "unat mid mod 256 ^ 4 = unat mid"
    using unsigned_less [of mid, where ?'a = nat] by simp
  then show "getInt B buf 4 = mid"
    using len by (simp add: rules)
  show "getUnsignedShort B buf 8 = el mod 65536" "unat (getInt B buf 10) = pl mod 2 ^ 32"
    "getUnsignedShort B buf 14 = res mod 65536"
    using len by (simp_all add: rules unat_of_nat)
qed

lemma fromCode_code [simp]:
  "Compression_fromCode (Compression_code cmp) = Inr cmp"
  "PacketType_fromCode (PacketType_code ty) = Inr ty"
  by (cases cmp; simp add: Compression_fromCode_def) (cases ty; simp add: PacketType_fromCode_def)

lemma fromCode_Inr:
  "Compression_fromCode c = Inr cmp \<longleftrightarrow> c = Compression_code cmp"
  "PacketType_fromCode c = Inr ty \<longleftrightarrow> c = PacketType_code ty"
  by (cases cmp; auto simp: Compression_fromCode_def) (cases ty; auto simp: PacketType_fromCode_def)

lemma decode_header:
  assumes laws: "buffer_laws B view" and len: "16 \<le> length (view buf)"
    and hdr: "take 16 (view buf) = packet_header cmp ty biz mid el pl res"
    and el: "el < 65536" and pl: "pl < 2 ^ 32" and res: "res < 65536"
  shows "int pl > lim \<Longrightarrow> PacketCodec_decode B lim buf = Inl (Payload_too_long pl)"
    and "int pl \<le> lim \<Longrightarrow> length (view buf) < 16 + el + pl \<Longrightarrow>
         PacketCodec_decode B lim buf = Inr (None, buf)"
    and "int pl \<le> lim \<Longrightarrow> 16 + el + pl \<le> length (view buf) \<Longrightarrow>
         \<exists>buf'. view buf' = drop (16 + el + pl) (view buf) \<and>
           PacketCodec_decode B lim buf =
             Inr (Some \<lparr>pk_type = ty, pk_messageId = mid, pk_bizType = int (unat biz),
                        pk_payload = take pl (drop (16 + el) (view buf)),
                        pk_extHeader = take el (drop 16 (view buf)),
                        pk_compression = cmp, pk_reserved = int res\<rparr>, buf')"
proof -
  have pl': "pl mod 4294967296 = pl" using pl by simp
  have long: "\<not> length (view buf) < 16" using len by simp
  note rules = header_read [OF laws len hdr] header_read(2) [OF laws len hdr, unfolded One_nat_def]
    el res pl' buffer_lawsD(5) [OF laws] long
    PacketCodec_decode_def FIXED_HEADER_SIZE_def PROTOCOL_VERSION_def Let_def
  show "int pl > lim \<Longrightarrow> PacketCodec_decode B lim buf = Inl (Payload_too_long pl)"
    by (simp add: rules)
  show "int pl \<le> lim \<Longrightarrow> length (view buf) < 16 + el + pl \<Longrightarrow>
         PacketCodec_decode B lim buf = Inr (None, buf)"
    by (simp add: rules)
  assume fits: "int pl \<le> lim" "16 + el + pl \<le> length (view buf)"
  define b1 where "b1 = skip B buf 16"
  define b2 where "b2 = (if el > 0 then snd (readBytes B b1 el) else b1)"
  define b3 where "b3 = (if pl > 0 then snd (readBytes B b2 pl) else b2)"
  have v1: "view b1 = drop 16 (view buf)"
    using len by (simp add: b1_def buffer_lawsD(9) [OF laws])
  have v2: "view b2 = drop (16 + el) (view buf)" and e2: "0 < el \<Longrightarrow> readBytes B b1 el = (take el (view b1), b2)"
    using fits by (auto simp: b2_def v1 buffer_lawsD(10,11) [OF laws] add.commute prod_eq_iff)
  have v3: "view b3 = drop (16 + el + pl) (view buf)" and e3: "0 < pl \<Longrightarrow> readBytes B b2 pl = (take pl (view b2), b3)"
    using fits by (auto simp: b3_def v2 buffer_lawsD(10,11) [OF laws] ac_simps prod_eq_iff)
  have biz: "int (unat biz) \<le> 255" using unat_byte_less [of biz] by linarith
  have r2: "(if el > 0 then readBytes B b1 el else ([], b1)) = (take el (view b1), b2)"
    using e2 by (auto simp: b2_def)
  have r3: "(if pl > 0 then readBytes B b2 pl else ([], b2)) = (take pl (view b2), b3)"
    using e3 by (auto simp: b3_def)
  have "PacketCodec_decode B lim buf =
          bind_res (Packet_new ty mid (int (unat biz)) (take pl (view b2)) (take el (view b1)) cmp (int res))
            (\<lambda>p. Inr (Some p, b3))"
    using fits r2 r3 by (simp add: rules flip: b1_def)
  then show "\<exists>buf'. view buf' = drop (16 + el + pl) (view buf) \<and>
           PacketCodec_decode B lim buf =
             Inr (Some \<lparr>pk_type = ty, pk_messageId = mid, pk_bizType = int (unat biz),
                        pk_payload = take pl (drop (16 + el) (view buf)),
                        pk_extHeader = take el (drop 16 (view buf)),
                        pk_compression = cmp, pk_reserved = int res\<rparr>, buf')"
    using v1 v2 v3 biz res by (auto simp: Packet_new_def)
qed

lemma split4: "length xs = 16 \<Longrightarrow>
  xs = [xs ! 0, xs ! 1, xs ! 2, xs ! 3] @ take 4 (drop 4 xs) @ take 2 (drop 8 xs) @ take 4 (drop 10 xs) @ take 2 (drop 14 xs)"
  by (rule nth_equalityI) (auto simp: nth_append nth_Cons' less_Suc_eq numeral_eq_Suc)

text \<open>A header the decoder accepts is the layout of the fields it reads.\<close>

lemma header_accepted:
  assumes laws: "buffer_laws B view" and len: "16 \<le> length (view buf)"
    and b0: "getUnsignedByte B buf 0 = 1" and b1: "getUnsignedByte B buf 1 = Compression_code cmp"
    and b2: "getUnsignedByte B buf 2 = PacketType_code ty"
  shows "take 16 (view buf) =
           packet_header cmp ty (view buf ! 3) (getInt B buf 4) (getUnsignedShort B buf 8)
             (unat (getInt B buf 10)) (getUnsignedShort B buf 14)"
proof -
  let ?v = "view buf"
  have w: "unat (of_nat (be_val (take 4 (drop i ?v))) :: u32) = be_val (take 4 (drop i ?v))"
    if "i + 4 \<le> 16" for i
    using be_val_less [of "take 4 (drop i ?v)" 4] len that by (simp add: unat_of_nat)
  have f: "be_bytes 4 (unat (getInt B buf 4)) = take 4 (drop 4 ?v)"
    "be_bytes 2 (getUnsignedShort B buf 8) = take 2 (drop 8 ?v)"
    "be_bytes 4 (unat (getInt B buf 10)) = take 4 (drop 10 ?v)"
    "be_bytes 2 (getUnsignedShort B buf 14) = take 2 (drop 14 ?v)"
    using len by (simp_all add: buffer_lawsD(7,8) [OF laws] w be_bytes_be_val)
  have "unat (?v ! 0) = 1" "unat (?v ! 1) = Compression_code cmp" "unat (?v ! 2) = PacketType_code ty"
    using len b0 b1 b2 buffer_lawsD(6) [OF laws, of 0 buf] buffer_lawsD(6) [OF laws, of 1 buf]
      buffer_lawsD(6) [OF laws, of 2 buf] by linarith+
  then have c: "1 = ?v ! 0" "of_nat (Compression_code cmp) = ?v ! 1" "of_nat (PacketType_code ty) = ?v ! 2"
    by (metis of_nat_1 of_nat_unat ucast_id)+
  have "take 16 ?v = [?v ! 0, ?v ! 1, ?v ! 2, ?v ! 3] @ take 4 (drop 4 ?v) @ take 2 (drop 8 ?v) @
          take 4 (drop 10 ?v) @ take 2 (drop 14 ?v)"
    using split4 [of "take 16 ?v"] len by (simp add: drop_take)
  then show ?thesis
    unfolding packet_header_def f c by simp
qed

lemma decode_Inr:
  assumes laws: "buffer_laws B view" and dec: "PacketCodec_decode B lim buf = Inr (r, buf')"
  shows "length (view buf) < 16 \<and> r = None \<and> buf' = buf \<or>
    16 \<le> length (view buf) \<and>
    (\<exists>cmp ty. take 16 (view buf) =
       packet_header cmp ty (view buf ! 3) (getInt B buf 4) (getUnsignedShort B buf 8)
             (unat (getInt B buf 10)) (getUnsignedShort B buf 14)) \<and>
    int (unat (getInt B buf 10)) \<le> lim"
proof (cases "length (view buf) < 16")
  case True
  then show ?thesis
    using dec by (simp add: PacketCodec_decode_def FIXED_HEADER_SIZE_def buffer_lawsD(5) [OF laws])
next
  case False
  then have len: "16 \<le> length (view buf)" by simp
  have b0: "getUnsignedByte B buf 0 = 1" and small: "int (unat (getInt B buf 10)) \<le> lim"
    and fc: "\<exists>cmp ty. Compression_fromCode (getUnsignedByte B buf 1) = Inr cmp \<and>
                PacketType_fromCode (getUnsignedByte B buf 2) = Inr ty"
    using dec False unfolding PacketCodec_decode_def FIXED_HEADER_SIZE_def PROTOCOL_VERSION_def
    by (auto simp: Let_def buffer_lawsD(5) [OF laws] bind_res_Inr_iff split: if_splits)
  from fc obtain cmp ty where "getUnsignedByte B buf 1 = Compression_code cmp"
    "getUnsignedByte B buf 2 = PacketType_code ty" by (auto simp: fromCode_Inr)
  from header_accepted [OF laws len b0 this] small len show ?thesis by blast
qed

lemma getUnsignedShort_less:
  "buffer_laws B view \<Longrightarrow> i + 2 \<le> length (view buf) \<Longrightarrow> getUnsignedShort B buf i < 65536"
  using be_val_less [of "take 2 (drop i (view buf))" 2] by (simp add: buffer_lawsD(7))

lemma getInt_unat_less: "unat (getInt B buf i) < 2 ^ 32"
  using unsigned_less [of "getInt B buf i", where ?'a = nat] by simp

lemma decode_sound:
  assumes laws: "buffer_laws B view" and dec: "PacketCodec_decode B lim buf = Inr (r, buf')"
  shows "case r of None \<Rightarrow> buf' = buf
    | Some p \<Rightarrow> packet_fits lim p \<and> view buf = packet_bytes p @ view buf'"
proof (cases "length (view buf) < 16")
  case True
  with decode_Inr [OF laws dec] show ?thesis by auto
next
  case False
  define el pl res where "el = getUnsignedShort B buf 8" and "pl = unat (getInt B buf 10)"
    and "res = getUnsignedShort B buf 14"
  from False decode_Inr [OF laws dec] obtain cmp ty where len: "16 \<le> length (view buf)"
    and hdr: "take 16 (view buf) = packet_header cmp ty (view buf ! 3) (getInt B buf 4) el pl res"
    and small: "int pl \<le> lim" unfolding el_def pl_def res_def by blast
  have bounds: "el < 65536" "pl < 2 ^ 32" "res < 65536"
    using len by (simp_all add: el_def pl_def res_def getUnsignedShort_less [OF laws]
      getInt_unat_less [simplified])
  note D = decode_header [OF laws len hdr bounds]
  show ?thesis
  proof (cases "length (view buf) < 16 + el + pl")
    case True
    with D(2) [OF small] dec show ?thesis by auto
  next
    case False
    with D(3) [OF small] dec have view': "view buf' = drop (16 + el + pl) (view buf)"
      and r: "r = Some \<lparr>pk_type = ty, pk_messageId = getInt B buf 4, pk_bizType = int (unat (view buf ! 3)),
                pk_payload = take pl (drop (16 + el) (view buf)),
                pk_extHeader = take el (drop 16 (view buf)), pk_compression = cmp, pk_reserved = int res\<rparr>"
      by auto
    have "view buf = packet_header cmp ty (view buf ! 3) (getInt B buf 4) el pl res @
            take el (drop 16 (view buf)) @ take pl (drop (16 + el) (view buf)) @ view buf'"
      by (metis append_take_drop_id drop_drop add.commute hdr view')
    moreover have "uint (view buf ! 3) \<le> 255"
      using unsigned_less [of "view buf ! 3", where ?'a = int] by simp
    ultimately show ?thesis
      using False bounds small by (simp add: r packet_bytes_def packet_fits_def)
  qed
qed

text \<open>A buffer that holds the frame of a packet, or the beginning of one.\<close>

lemma take_packet_bytes:
  "take 16 (packet_bytes p @ rest) =
     packet_header (pk_compression p) (pk_type p) (of_int (pk_bizType p)) (pk_messageId p)
       (length (pk_extHeader p)) (length (pk_payload p)) (nat (pk_reserved p))"
  by (simp add: packet_bytes_def)

lemma packet_fits_sizes:
  assumes "packet_fits lim p"
  shows "length (pk_extHeader p) < 65536" "length (pk_payload p) < 2 ^ 32" "nat (pk_reserved p) < 65536"
    "int (length (pk_payload p)) \<le> lim"
  using assms by (auto simp: packet_fits_def)

lemma decode_frame:
  assumes laws: "buffer_laws B view" and fits: "packet_fits lim p" and buf: "view buf = packet_bytes p @ rest"
  shows "\<exists>buf'. PacketCodec_decode B lim buf = Inr (Some p, buf') \<and> view buf' = rest"
proof -
  note sz = packet_fits_sizes [OF fits]
  have hdr: "take 16 (view buf) =
      packet_header (pk_compression p) (pk_type p) (of_int (pk_bizType p)) (pk_messageId p)
       (length (pk_extHeader p)) (length (pk_payload p)) (nat (pk_reserved p))"
    by (simp only: buf take_packet_bytes)
  have len: "16 + length (pk_extHeader p) + length (pk_payload p) \<le> length (view buf)"
    by (simp add: buf Packet_size_def FIXED_HEADER_SIZE_def)
  have biz: "uint (of_int (pk_bizType p) :: byte) = pk_bizType p"
    using fits by (simp add: packet_fits_def uint_word_of_int)
  have "16 \<le> length (view buf)" using len by simp
  from decode_header(3) [OF laws this hdr sz(1-3) sz(4) len] fits show ?thesis
    by (auto simp: buf packet_bytes_def biz packet_fits_def)
qed

lemma decode_strict_prefix:
  assumes laws: "buffer_laws B view" and fits: "packet_fits lim p"
    and buf: "strict_prefix (view buf) (packet_bytes p)"
  shows "PacketCodec_decode B lim buf = Inr (None, buf)"
proof (cases "length (view buf) < 16")
  case True
  then show ?thesis
    by (simp add: PacketCodec_decode_def FIXED_HEADER_SIZE_def buffer_lawsD(5) [OF laws])
next
  case False
  note sz = packet_fits_sizes [OF fits]
  from buf obtain more where more: "packet_bytes p = view buf @ more" "more \<noteq> []"
    by (auto simp: strict_prefix_def prefix_def)
  have "take 16 (view buf) = take 16 (packet_bytes p)" using False by (simp add: more(1))
  then have hdr: "take 16 (view buf) =
      packet_header (pk_compression p) (pk_type p) (of_int (pk_bizType p)) (pk_messageId p)
       (length (pk_extHeader p)) (length (pk_payload p)) (nat (pk_reserved p))"
    using take_packet_bytes [of p "[]"] by simp
  have "length (view buf) < 16 + length (pk_extHeader p) + length (pk_payload p)"
    using arg_cong [OF more(1), of length] more(2)
    by (simp add: Packet_size_def FIXED_HEADER_SIZE_def)
  moreover have "16 \<le> length (view buf)" using False by simp
  ultimately show ?thesis
    using decode_header(2) [OF laws _ hdr sz(1-3) sz(4)] by blast
qed

text \<open>
  C6. Framing of the packet codec, on any buffer that keeps its laws and for every packet the
  format can carry: the encoder appends one frame of the packet's size; a buffer that holds
  the frame yields the packet and leaves exactly the bytes behind it; and while only a proper
  part of the frame has arrived the decoder reports no packet and consumes nothing.
\<close>

theorem packet_roundtrip:
  assumes "buffer_laws B view" and "packet_fits lim p"
  shows "\<exists>frame. view (PacketCodec_encode B p out) = view out @ frame \<and> length frame = Packet_size p \<and>
    (\<forall>buf rest. view buf = frame @ rest \<longrightarrow>
       (\<exists>buf'. PacketCodec_decode B lim buf = Inr (Some p, buf') \<and> view buf' = rest)) \<and>
    (\<forall>buf. strict_prefix (view buf) frame \<longrightarrow> PacketCodec_decode B lim buf = Inr (None, buf))"
  using view_encode [OF assms(1)] decode_frame [OF assms] decode_strict_prefix [OF assms]
  by (intro exI [of _ "packet_bytes p"]) simp

definition sample_packet :: Packet where
  "sample_packet = \<lparr>pk_type = Request, pk_messageId = 7, pk_bizType = 3, pk_payload = [1, 2, 3],
     pk_extHeader = [9], pk_compression = Compression_None, pk_reserved = 4\<rparr>"

theorem packet_roundtrip_witness:
  "packet_fits DEFAULT_MAX_PAYLOAD sample_packet \<and>
   (\<exists>frame. PacketCodec_encode list_buffer sample_packet [0] = 0 # frame \<and> length frame = 20 \<and>
     PacketCodec_decode list_buffer DEFAULT_MAX_PAYLOAD (frame @ [5, 6]) = Inr (Some sample_packet, [5, 6]) \<and>
     PacketCodec_decode list_buffer DEFAULT_MAX_PAYLOAD (butlast frame) = Inr (None, butlast frame))"
proof -
  have fits: "packet_fits DEFAULT_MAX_PAYLOAD sample_packet"
    by (simp add: packet_fits_def sample_packet_def DEFAULT_MAX_PAYLOAD_def)
  have pre: "frame \<noteq> [] \<Longrightarrow> strict_prefix (butlast frame) frame" for frame :: bytes
    by (metis append_butlast_last_id not_Cons_self2 prefixI self_append_conv strict_prefixI)
  obtain frame where f: "PacketCodec_encode list_buffer sample_packet [0] = [0] @ frame"
    "length frame = Packet_size sample_packet"
    "\<forall>buf rest. buf = frame @ rest \<longrightarrow>
       (\<exists>buf'. PacketCodec_decode list_buffer DEFAULT_MAX_PAYLOAD buf = Inr (Some sample_packet, buf') \<and> buf' = rest)"
    "\<forall>buf. strict_prefix buf frame \<longrightarrow> PacketCodec_decode list_buffer DEFAULT_MAX_PAYLOAD buf = Inr (None, buf)"
    using packet_roundtrip [OF list_buffer_laws fits, of "[0]"] by blast
  have len: "length frame = 20"
    using f(2) by (simp add: Packet_size_def FIXED_HEADER_SIZE_def sample_packet_def)
  then have "frame \<noteq> []" by auto
  then show ?thesis using fits f len pre by simp
qed

text \<open>
  C14. Soundness of the packet decoder on arbitrary input: it either consumes nothing, or it
  returns a packet within the limits whose encoding is exactly the bytes it consumed.
\<close>

theorem packet_decode_sound:
  assumes "buffer_laws B view" and "PacketCodec_decode B lim buf = Inr (r, buf')"
  shows "(r = None \<and> buf' = buf) \<or>
    (\<exists>p. r = Some p \<and> packet_fits lim p \<and>
       (\<forall>out. view (PacketCodec_encode B p out) @ view buf' = view out @ view buf))"
  using decode_sound [OF assms] view_encode [OF assms(1)] by (cases r) auto

theorem packet_decode_sound_witness:
  "\<exists>p. packet_fits 100 p \<and>
     PacketCodec_encode list_buffer p [] @ [8] = [1, 0, 2, 3, 0, 0, 0, 7, 0, 1, 0, 0, 0, 2, 0, 4, 9, 5, 6, 8]"
proof -
  have d: "PacketCodec_decode list_buffer 100 [1, 0, 2, 3, 0, 0, 0, 7, 0, 1, 0, 0, 0, 2, 0, 4, 9, 5, 6, 8] =
    Inr (Some \<lparr>pk_type = Response, pk_messageId = 7, pk_bizType = 3, pk_payload = [5, 6],
               pk_extHeader = [9], pk_compression = Compression_None, pk_reserved = 4\<rparr>, [8])"
    by code_simp
  show ?thesis
    using packet_decode_sound [OF list_buffer_laws d] by auto
qed

subsection \<open>Frames with a length prefix\<close>

lemma prefix_read:
  assumes laws: "buffer_laws B view" and buf: "view buf = be_bytes 4 n @ rest"
  shows "unat (getInt B buf 0) = n mod 2 ^ 32"
  using buffer_lawsD(8) [OF laws, of 0 buf] by (simp add: buf unat_of_nat)

lemma lp_header_read:
  assumes laws: "buffer_laws B view" and len: "20 \<le> length (view buf)"
    and hdr: "take 16 (drop 4 (view buf)) = packet_header cmp ty biz mid el pl res"
  shows "getUnsignedShort B buf (PREFIX + 8) = el mod 65536" (is ?short)
    and "unat (getInt B buf (PREFIX + 10)) = pl mod 2 ^ 32" (is ?int)
proof -
  let ?b = "skip B buf 4"
  have v: "view ?b = drop 4 (view buf)" using len by (simp add: buffer_lawsD(9) [OF laws])
  then have l: "16 \<le> length (view ?b)" using len by simp
  have "getUnsignedShort B buf 12 = getUnsignedShort B ?b 8" "getInt B buf 14 = getInt B ?b 10"
    using len l by (simp_all add: buffer_lawsD(7,8) [OF laws] v)
  then show ?short ?int
    using header_read(6,7) [OF laws l, of cmp ty biz mid el pl res] hdr by (simp_all add: v PREFIX_def)
qed

lemma lp_decode_frame:
  assumes laws: "buffer_laws B view" and fits: "packet_fits lim p" and small: "Packet_size p < 2 ^ 32"
    and buf: "view buf = be_bytes 4 (Packet_size p) @ packet_bytes p @ rest"
  shows "\<exists>buf'. LengthPrefixed_decode B lim buf = Inr (Some p, buf') \<and> view buf' = rest"
proof -
  have len: "length (view buf) = 4 + Packet_size p + length rest" by (simp add: buf)
  have size: "Packet_size p = 16 + length (pk_extHeader p) + length (pk_payload p)"
    by (simp add: Packet_size_def FIXED_HEADER_SIZE_def)
  have "unat (getInt B buf 0) = Packet_size p"
    using prefix_read [OF laws buf] small by simp
  moreover have "take 16 (drop 4 (view buf)) =
      packet_header (pk_compression p) (pk_type p) (of_int (pk_bizType p)) (pk_messageId p)
       (length (pk_extHeader p)) (length (pk_payload p)) (nat (pk_reserved p))"
    by (simp add: buf packet_bytes_def)
  from lp_header_read [OF laws _ this]
  have "getUnsignedShort B buf (PREFIX + 8) = length (pk_extHeader p)"
    "unat (getInt B buf (PREFIX + 10)) = length (pk_payload p)"
    using len size packet_fits_sizes [OF fits] by simp_all
  moreover have "view (skip B buf PREFIX) = packet_bytes p @ rest"
    by (simp add: buffer_lawsD(9) [OF laws] PREFIX_def buf)
  from decode_frame [OF laws fits this] obtain buf' where
    "PacketCodec_decode B lim (skip B buf PREFIX) = Inr (Some p, buf')" "view buf' = rest" by blast
  moreover have "\<not> maxFrameLength lim < int (Packet_size p)"
    using packet_fits_sizes [OF fits] by (simp add: maxFrameLength_def FIXED_HEADER_SIZE_def size)
  ultimately show ?thesis
    using len size by (simp add: LengthPrefixed_decode_def Let_def buffer_lawsD(5) [OF laws]
      FIXED_HEADER_SIZE_def) (simp add: PREFIX_def)
qed

lemma lp_decode_strict_prefix:
  assumes laws: "buffer_laws B view" and fits: "packet_fits lim p" and small: "Packet_size p < 2 ^ 32"
    and buf: "strict_prefix (view buf) (be_bytes 4 (Packet_size p) @ packet_bytes p)"
  shows "LengthPrefixed_decode B lim buf = Inr (None, buf)"
proof (cases "length (view buf) < 4")
  case True
  then show ?thesis by (simp add: LengthPrefixed_decode_def PREFIX_def buffer_lawsD(5) [OF laws])
next
  case False
  from buf obtain more where more: "be_bytes 4 (Packet_size p) @ packet_bytes p = view buf @ more" "more \<noteq> []"
    by (auto simp: strict_prefix_def prefix_def)
  have "be_bytes 4 (Packet_size p) = take 4 (view buf)"
    using arg_cong [OF more(1), of "take 4"] False by simp
  then have "view buf = be_bytes 4 (Packet_size p) @ drop 4 (view buf)"
    by (metis append_take_drop_id)
  from prefix_read [OF laws this] small have "unat (getInt B buf 0) = Packet_size p" by simp
  moreover have "length (view buf) - 4 < Packet_size p"
    using arg_cong [OF more(1), of length] more(2) False by (cases more) auto
  moreover have "\<not> maxFrameLength lim < int (Packet_size p)"
    using packet_fits_sizes [OF fits] by (simp add: maxFrameLength_def FIXED_HEADER_SIZE_def Packet_size_def)
  ultimately show ?thesis
    using False by (simp add: LengthPrefixed_decode_def Let_def buffer_lawsD(5) [OF laws] PREFIX_def)
qed

lemma lp_decode_sound:
  assumes laws: "buffer_laws B view" and dec: "LengthPrefixed_decode B lim buf = Inr (r, buf')"
  shows "case r of None \<Rightarrow> buf' = buf
    | Some p \<Rightarrow> packet_fits lim p \<and> Packet_size p < 2 ^ 32 \<and>
        view buf = be_bytes 4 (Packet_size p) @ packet_bytes p @ view buf'"
proof (cases r)
  case None
  then show ?thesis using dec
    by (auto simp: LengthPrefixed_decode_def Let_def bind_res_Inr_iff split: if_splits option.splits prod.splits)
next
  case (Some p)
  define len where "len = unat (getInt B buf 0)"
  have inner: "PacketCodec_decode B lim (skip B buf PREFIX) = Inr (Some p, buf')"
    and full: "PREFIX + len \<le> length (view buf)" "16 \<le> len"
    and fills: "16 + getUnsignedShort B buf (PREFIX + 8) + unat (getInt B buf (PREFIX + 10)) = len"
    using dec Some unfolding LengthPrefixed_decode_def
    by (auto simp: Let_def bind_res_Inr_iff buffer_lawsD(5) [OF laws] FIXED_HEADER_SIZE_def len_def
      split: if_splits option.splits prod.splits)
  have skip: "view (skip B buf PREFIX) = drop 4 (view buf)"
    using full by (simp add: buffer_lawsD(9) [OF laws] PREFIX_def)
  with decode_sound [OF laws inner] have fits: "packet_fits lim p"
    and bytes: "drop 4 (view buf) = packet_bytes p @ view buf'" by simp_all
  have "20 \<le> length (view buf)" using full by (simp add: PREFIX_def)
  from lp_header_read [OF laws this] fills bytes have size: "len = Packet_size p"
    using take_packet_bytes [of p "view buf'"] packet_fits_sizes [OF fits]
    by (simp add: Packet_size_def FIXED_HEADER_SIZE_def)
  have "len = be_val (take 4 (view buf))"
    using full be_val_less [of "take 4 (view buf)" 4]
    by (simp add: len_def buffer_lawsD(8) [OF laws] PREFIX_def unat_of_nat)
  then have "be_bytes 4 len = take 4 (view buf)"
    using full by (simp add: be_bytes_be_val PREFIX_def)
  then have "view buf = be_bytes 4 (Packet_size p) @ packet_bytes p @ view buf'"
    using bytes size by (metis append_take_drop_id)
  moreover have "len < 2 ^ 32" unfolding len_def by (rule getInt_unat_less)
  ultimately show ?thesis using Some fits size by simp
qed

lemma lp_decode_iff:
  assumes laws: "buffer_laws B view"
  shows "(\<exists>buf'. LengthPrefixed_decode B lim buf = Inr (Some p, buf') \<and> view buf' = rest) \<longleftrightarrow>
    packet_fits lim p \<and> Packet_size p < 2 ^ 32 \<and>
    view buf = be_bytes 4 (Packet_size p) @ packet_bytes p @ rest"
proof
  assume "\<exists>buf'. LengthPrefixed_decode B lim buf = Inr (Some p, buf') \<and> view buf' = rest"
  then obtain buf' where "LengthPrefixed_decode B lim buf = Inr (Some p, buf')" "view buf' = rest" by blast
  with lp_decode_sound [OF laws this(1)] show "packet_fits lim p \<and> Packet_size p < 2 ^ 32 \<and>
    view buf = be_bytes 4 (Packet_size p) @ packet_bytes p @ rest" by simp
qed (use lp_decode_frame [OF laws] in blast)



subsection \<open>Extension headers that do not fit\<close>

lemma packet_header_mod: "packet_header cmp ty biz mid (el mod 65536) pl res = packet_header cmp ty biz mid el pl res"
  using le_bytes_mod [of 2 el] by (simp add: packet_header_def be_bytes_def)

text \<open>
  C37. The length field of the extension header has sixteen bits and the constructor does not
  bound the header. A packet with a longer one is encoded without an error, and the decoder
  returns another packet from its frame: the extension header is cut to its length modulo
  65536, and the bytes cut off are taken for payload and for the packets that follow.
\<close>

theorem long_extHeader_truncated:
  assumes laws: "buffer_laws B view" and long: "length (pk_extHeader p) > 0xFFFF"
    and range: "0 \<le> pk_reserved p" "pk_reserved p \<le> 0xFFFF"
    and pay: "length (pk_payload p) < 2 ^ 32" "int (length (pk_payload p)) \<le> lim"
    and buf: "view buf = view (PacketCodec_encode B p out)" and out: "view out = []"
  shows "\<exists>q buf'. PacketCodec_decode B lim buf = Inr (Some q, buf') \<and> q \<noteq> p \<and>
    pk_extHeader q = take (length (pk_extHeader p) mod 65536) (pk_extHeader p) \<and>
    length (view buf') = 65536 * (length (pk_extHeader p) div 65536)"
proof -
  let ?n = "length (pk_extHeader p)" and ?pl = "length (pk_payload p)"
  have v: "view buf = packet_bytes p" using view_encode [OF laws, of p out] buf out by simp
  have hdr: "take 16 (view buf) =
      packet_header (pk_compression p) (pk_type p) (of_int (pk_bizType p)) (pk_messageId p)
       (?n mod 65536) ?pl (nat (pk_reserved p))"
    using take_packet_bytes [of p "[]"] by (simp add: v packet_header_mod)
  have len: "length (view buf) = 16 + ?n + ?pl"
    by (simp add: v Packet_size_def FIXED_HEADER_SIZE_def)
  have less: "?n mod 65536 \<le> ?n" by simp
  from decode_header(3) [OF laws _ hdr _ pay(1) _ pay(2)] len less range(2)
  obtain q buf' where q: "PacketCodec_decode B lim buf = Inr (Some q, buf')"
    "pk_extHeader q = take (?n mod 65536) (drop 16 (view buf))"
    and rest: "view buf' = drop (16 + ?n mod 65536 + ?pl) (view buf)"
    by fastforce
  have ext: "pk_extHeader q = take (?n mod 65536) (pk_extHeader p)"
    by (simp add: q(2) v packet_bytes_def)
  have "?n mod 65536 < ?n" using long mod_less_divisor [of 65536 ?n] by linarith
  then have "length (pk_extHeader q) < ?n" by (simp add: ext)
  then have "q \<noteq> p" by auto
  moreover have "length (view buf') = 65536 * (?n div 65536)"
    by (simp add: rest len minus_mod_eq_mult_div)
  ultimately show ?thesis using q(1) ext by blast
qed

theorem long_extHeader_truncated_witness:
  "\<exists>q buf'. PacketCodec_decode list_buffer 100
       (PacketCodec_encode list_buffer (sample_packet\<lparr>pk_extHeader := replicate 65536 0\<rparr>) []) = Inr (Some q, buf') \<and>
     pk_extHeader q = [] \<and> length buf' = 65536"
  using long_extHeader_truncated [OF list_buffer_laws, of "sample_packet\<lparr>pk_extHeader := replicate 65536 0\<rparr>" 100
      "PacketCodec_encode list_buffer (sample_packet\<lparr>pk_extHeader := replicate 65536 0\<rparr>) []" "[]"]
  by (auto simp: sample_packet_def)

subsection \<open>Compressed packets\<close>

text \<open>
  What a payload codec promises: decompressing what it compressed yields the input again,
  provided the input is within the bound on the output.
\<close>

definition codec_law :: "Payload_codec \<Rightarrow> bool" where
  "codec_law c \<longleftrightarrow>
     (\<forall>x y m. codec_compress c x = Inr y \<and> int (length x) \<le> m \<longrightarrow> codec_decompress c y m = Inr x)"

lemma compress_packet_Inr:
  assumes "compress_packet ZstdCodec ZlibCodec p cmp = Inr q"
  obtains body where "compress_payload ZstdCodec ZlibCodec (pk_payload p) cmp = Inr body"
    and "q = p\<lparr>pk_payload := body, pk_compression := cmp\<rparr>" and "pk_compression p = Compression_None"
  using assms
  by (auto simp: compress_packet_def compress_payload_def Packet_withPayload_def Packet_new_def
    bind_res_Inr_iff split: if_splits)

lemma decompress_compress_packet:
  assumes laws: "codec_law ZstdCodec" "codec_law ZlibCodec"
    and comp: "compress_packet ZstdCodec ZlibCodec p cmp = Inr q" and ok: "packet_fits lim q"
    and small: "int (length (pk_payload p)) \<le> m"
  shows "decompress_packet ZstdCodec ZlibCodec q m = Inr p"
proof -
  from comp obtain body where b: "compress_payload ZstdCodec ZlibCodec (pk_payload p) cmp = Inr body"
    and q: "q = p\<lparr>pk_payload := body, pk_compression := cmp\<rparr>" and plain: "pk_compression p = Compression_None"
    by (rule compress_packet_Inr)
  have m: "\<not> m < 0" using small by linarith
  have "cmp \<noteq> Compression_None \<Longrightarrow> decompress_payload ZstdCodec ZlibCodec body cmp m = Inr (pk_payload p)"
    using b laws small m by (cases cmp) (auto simp: compress_payload_def decompress_payload_def codec_law_def)
  moreover have "cmp = Compression_None \<Longrightarrow> q = p"
    using b plain by (simp add: q compress_payload_def)
  ultimately show ?thesis
    using ok plain by (auto simp: q decompress_packet_def Packet_withPayload_def Packet_new_def packet_fits_def)
qed

text \<open>
  C20. A packet survives the whole path. Whenever compressing its payload succeeds and the
  result fits the wire format, the frame of the compressed packet is decoded and decompressed
  into the original packet, with whatever follows in the buffer left in place.
\<close>

theorem compressed_packet_roundtrip:
  assumes "buffer_laws B view" and "codec_law ZstdCodec" and "codec_law ZlibCodec"
    and "compress_packet ZstdCodec ZlibCodec p compression = Inr q" and "packet_fits lim q"
    and "int (length (pk_payload p)) \<le> maxOutputSize"
    and "view out = []" and "view buf = view (PacketCodec_encode B q out) @ rest"
  shows "\<exists>buf'. PacketCodec_decode B lim buf = Inr (Some q, buf') \<and> view buf' = rest \<and>
    decompress_packet ZstdCodec ZlibCodec q maxOutputSize = Inr p"
  using decode_frame [OF assms(1,5), of buf rest] decompress_compress_packet [OF assms(2-6)]
    view_encode [OF assms(1), of q out] assms(7,8) by auto

definition reversing_codec :: Payload_codec where
  "reversing_codec =
     \<lparr>codec_compress = \<lambda>x. Inr (rev x),
      codec_decompress = \<lambda>y m. if int (length y) \<le> m then Inr (rev y) else Inl Codec_failure\<rparr>"

theorem compressed_packet_roundtrip_witness:
  "\<exists>q buf'. compress_packet reversing_codec reversing_codec sample_packet Compression_Zlib = Inr q \<and>
     pk_payload q = [3, 2, 1] \<and>
     PacketCodec_decode list_buffer 100 (PacketCodec_encode list_buffer q [] @ [5]) = Inr (Some q, [5]) \<and>
     decompress_packet reversing_codec reversing_codec q 3 = Inr sample_packet"
proof -
  let ?q = "sample_packet\<lparr>pk_payload := [3, 2, 1], pk_compression := Compression_Zlib\<rparr>"
  have c: "compress_packet reversing_codec reversing_codec sample_packet Compression_Zlib = Inr ?q"
    by (simp add: compress_packet_def compress_payload_def reversing_codec_def sample_packet_def
      Packet_withPayload_def Packet_new_def)
  have l: "codec_law reversing_codec" by (simp add: codec_law_def reversing_codec_def)
  have f: "packet_fits 100 ?q" "int (length (pk_payload sample_packet)) \<le> 3"
    by (simp_all add: packet_fits_def sample_packet_def)
  show ?thesis
    using compressed_packet_roundtrip [OF list_buffer_laws l l c f refl refl, of "[5]"] c by simp
qed

end
