(* ===== verification/Msg_Ring.thy ===== *)
theory Msg_Ring
  imports Prelude
begin

text \<open>
  The first-in first-out ring of the reactor-local queues (\<^verbatim>\<open>Ring.kt\<close>): a circular array of
  optional references that doubles when it is full. The interface of a queue is the locale
  \<^verbatim>\<open>fifo\<close>, interpreted on the ring, and every run of the ring's operations agrees with the
  same run on a list. Sizes are natural numbers: an array of the platform has fewer than
  \<open>2 ^ 31\<close> elements.
\<close>

subsection \<open>The ring\<close>

record 'a Ring =
  rg_items :: "'a option list"
  rg_head :: nat
  rg_size :: nat

definition Ring_new :: "nat \<Rightarrow> 'a Ring" where
  "Ring_new initial = \<lparr>rg_items = replicate (max initial 4) None, rg_head = 0, rg_size = 0\<rparr>"

definition Ring_isEmpty :: "'a Ring \<Rightarrow> bool" where
  "Ring_isEmpty r \<longleftrightarrow> rg_size r = 0"

definition Ring_grow :: "'a Ring \<Rightarrow> 'a Ring" where
  "Ring_grow r =
     (let n = length (rg_items r);
          bigger = replicate (n * 2) None;
          bigger = fold (\<lambda>i b. b[i := rg_items r ! ((rg_head r + i) mod n)]) [0..<rg_size r] bigger
      in r\<lparr>rg_items := bigger, rg_head := 0\<rparr>)"

definition Ring_addLast :: "'a \<Rightarrow> 'a Ring \<Rightarrow> 'a Ring" where
  "Ring_addLast x r =
     (let r = (if rg_size r = length (rg_items r) then Ring_grow r else r)
      in r\<lparr>rg_items := (rg_items r)[(rg_head r + rg_size r) mod length (rg_items r) := Some x],
           rg_size := rg_size r + 1\<rparr>)"

definition Ring_removeFirstOrNull :: "'a Ring \<Rightarrow> 'a option \<times> 'a Ring" where
  "Ring_removeFirstOrNull r =
     (if rg_size r = 0 then (None, r)
      else let x = rg_items r ! rg_head r
      in (x, r\<lparr>rg_items := (rg_items r)[rg_head r := None],
               rg_head := (rg_head r + 1) mod length (rg_items r),
               rg_size := rg_size r - 1\<rparr>))"

definition Ring_clear :: "'a Ring \<Rightarrow> 'a Ring" where
  "Ring_clear r =
     r\<lparr>rg_items := fold (\<lambda>i b. b[(rg_head r + i) mod length b := None]) [0..<rg_size r] (rg_items r),
       rg_head := 0, rg_size := 0\<rparr>"

subsection \<open>Contents and invariant\<close>

definition ring_at :: "'a Ring \<Rightarrow> nat \<Rightarrow> 'a option" where
  "ring_at r i = rg_items r ! ((rg_head r + i) mod length (rg_items r))"

definition ring_contents :: "'a Ring \<Rightarrow> 'a list" where
  "ring_contents r = map (\<lambda>i. the (ring_at r i)) [0..<rg_size r]"

text \<open>The slots in use hold references and all others are cleared, so nothing is retained.\<close>

definition ring_ok :: "'a Ring \<Rightarrow> bool" where
  "ring_ok r \<longleftrightarrow>
     rg_head r < length (rg_items r) \<and> rg_size r \<le> length (rg_items r) \<and>
     (\<forall>i<length (rg_items r). ring_at r i \<noteq> None \<longleftrightarrow> i < rg_size r)"

lemma ring_okD:
  assumes "ring_ok r"
  shows "rg_head r < length (rg_items r)" "rg_size r \<le> length (rg_items r)"
    "0 < length (rg_items r)" "i < length (rg_items r) \<Longrightarrow> ring_at r i \<noteq> None \<longleftrightarrow> i < rg_size r"
  using assms by (auto simp: ring_ok_def)

lemma length_ring_contents [simp]: "length (ring_contents r) = rg_size r"
  by (simp add: ring_contents_def)

text \<open>Two distances from the head that stay within one turn name different slots.\<close>

lemma turn_less:
  assumes "i < j" "j < n"
  shows "(h + i) mod n \<noteq> (h + j) mod (n :: nat)"
proof
  assume eq: "(h + i) mod n = (h + j) mod n"
  have "n dvd (h + j) - (h + i)"
    using mod_eq_dvd_iff_nat [of "h + i" "h + j" n] assms(1) eq by simp
  then have "n dvd j - i" by simp
  moreover have "0 < j - i" "j - i < n" using assms by simp_all
  ultimately show False using dvd_imp_le [of n "j - i"] by simp
qed

lemma turn_eq_iff: "i < n \<Longrightarrow> j < n \<Longrightarrow> (h + i) mod n = (h + j) mod (n :: nat) \<longleftrightarrow> i = j"
  using turn_less [of i j n h] turn_less [of j i n h] by (cases i j rule: linorder_cases) auto

lemma ring_new_ok: "ring_ok (Ring_new n)" and ring_new_contents: "ring_contents (Ring_new n) = []"
  by (auto simp: ring_ok_def ring_at_def Ring_new_def ring_contents_def)

lemma fold_copy_nth:
  "m \<le> length b \<Longrightarrow> length (fold (\<lambda>i b. b[i := f i]) [0..<m] b) = length b \<and>
   (\<forall>k<length b. fold (\<lambda>i b. b[i := f i]) [0..<m] b ! k = (if k < m then f k else b ! k))"
  by (induction m) (auto simp: nth_list_update less_Suc_eq)

lemma ring_grow:
  assumes "ring_ok r"
  shows "ring_ok (Ring_grow r)" "ring_contents (Ring_grow r) = ring_contents r"
    "rg_size (Ring_grow r) = rg_size r" "length (rg_items (Ring_grow r)) = 2 * length (rg_items r)"
proof -
  let ?n = "length (rg_items r)"
  note ok = ring_okD [OF assms]
  have items: "length (rg_items (Ring_grow r)) = 2 * ?n"
    "\<forall>k<2 * ?n. rg_items (Ring_grow r) ! k = (if k < rg_size r then ring_at r k else None)"
    using fold_copy_nth [of "rg_size r" "replicate (2 * ?n) None" "\<lambda>i. rg_items r ! ((rg_head r + i) mod ?n)"] ok(2)
    by (auto simp: Ring_grow_def Let_def ring_at_def mult.commute)
  show sz: "rg_size (Ring_grow r) = rg_size r" by (simp add: Ring_grow_def Let_def)
  have hd: "rg_head (Ring_grow r) = 0" by (simp add: Ring_grow_def Let_def)
  have at: "ring_at (Ring_grow r) k = (if k < rg_size r then ring_at r k else None)" if "k < 2 * ?n" for k
    using items that by (simp add: ring_at_def [of "Ring_grow r"] hd)
  show "length (rg_items (Ring_grow r)) = 2 * ?n" by (rule items(1))
  show "ring_ok (Ring_grow r)"
    using ok at by (auto simp: ring_ok_def [of "Ring_grow r"] items(1) hd sz)
  show "ring_contents (Ring_grow r) = ring_contents r"
    using ok(2) by (simp add: ring_contents_def sz at)
qed

lemma ring_addLast_room:
  assumes ok: "ring_ok r" and room: "rg_size r < length (rg_items r)"
  shows "ring_ok (Ring_addLast x r)" "ring_contents (Ring_addLast x r) = ring_contents r @ [x]"
    "rg_size (Ring_addLast x r) = Suc (rg_size r)"
proof -
  let ?n = "length (rg_items r)"
  note okD = ring_okD [OF ok]
  have s: "rg_size (Ring_addLast x r) = Suc (rg_size r)" "rg_head (Ring_addLast x r) = rg_head r"
    "length (rg_items (Ring_addLast x r)) = ?n"
    using room by (simp_all add: Ring_addLast_def)
  have at: "ring_at (Ring_addLast x r) k = (if k = rg_size r then Some x else ring_at r k)" if "k < ?n" for k
    using room that okD(3) turn_eq_iff [OF room that, of "rg_head r"]
    by (auto simp: ring_at_def Ring_addLast_def nth_list_update)
  show "rg_size (Ring_addLast x r) = Suc (rg_size r)" by (rule s(1))
  show "ring_ok (Ring_addLast x r)"
    using okD at room by (auto simp: ring_ok_def [of "Ring_addLast x r"] s less_Suc_eq)
  show "ring_contents (Ring_addLast x r) = ring_contents r @ [x]"
    using room by (simp add: ring_contents_def s at)
qed

lemma ring_addLast:
  assumes ok: "ring_ok r"
  shows "ring_ok (Ring_addLast x r)" "ring_contents (Ring_addLast x r) = ring_contents r @ [x]"
    "rg_size (Ring_addLast x r) = Suc (rg_size r)"
proof -
  have full: "Ring_addLast x r = Ring_addLast x (Ring_grow r)" if "rg_size r = length (rg_items r)"
    using ring_grow [OF ok] ring_okD(3) [OF ok] that by (simp add: Ring_addLast_def)
  have "rg_size (Ring_grow r) < length (rg_items (Ring_grow r))"
    using ring_grow(3,4) [OF ok] ring_okD(2,3) [OF ok] by linarith
  note grown = ring_addLast_room [OF ring_grow(1) [OF ok] this, of x]
  show "ring_ok (Ring_addLast x r)" "ring_contents (Ring_addLast x r) = ring_contents r @ [x]"
    "rg_size (Ring_addLast x r) = Suc (rg_size r)"
    using full grown ring_grow [OF ok] ring_addLast_room [OF ok, of x] ring_okD(2) [OF ok]
    by (cases "rg_size r = length (rg_items r)"; simp)+
qed

lemma ring_remove_empty: "rg_size r = 0 \<Longrightarrow> Ring_removeFirstOrNull r = (None, r)"
  by (simp add: Ring_removeFirstOrNull_def)

lemma ring_remove:
  assumes ok: "ring_ok r" and some: "0 < rg_size r"
  shows "fst (Ring_removeFirstOrNull r) = Some (hd (ring_contents r))"
    "ring_ok (snd (Ring_removeFirstOrNull r))"
    "ring_contents (snd (Ring_removeFirstOrNull r)) = tl (ring_contents r)"
proof -
  let ?n = "length (rg_items r)" and ?r = "snd (Ring_removeFirstOrNull r)"
  note okD = ring_okD [OF ok]
  have s: "rg_size ?r = rg_size r - 1" "rg_head ?r = (rg_head r + 1) mod ?n"
    "length (rg_items ?r) = ?n" "rg_items ?r = (rg_items r)[rg_head r := None]"
    using some by (simp_all add: Ring_removeFirstOrNull_def Let_def)
  have at: "ring_at ?r k = (if Suc k = ?n then None else ring_at r (Suc k))" if k: "k < ?n" for k
  proof -
    have "(rg_head ?r + k) mod ?n = (rg_head r + Suc k) mod ?n" by (simp add: s mod_add_left_eq)
    moreover have "Suc k = ?n \<Longrightarrow> (rg_head r + Suc k) mod ?n = rg_head r" using okD(1) by simp
    moreover have "Suc k < ?n \<Longrightarrow> (rg_head r + Suc k) mod ?n \<noteq> rg_head r"
      using turn_less [of 0 "Suc k" ?n "rg_head r"] okD(1) by simp
    ultimately show ?thesis
      using okD(1) k by (cases "Suc k = ?n") (auto simp: ring_at_def s(3,4))
  qed
  have first: "ring_at r 0 = rg_items r ! rg_head r" using okD(1) by (simp add: ring_at_def)
  then have "rg_items r ! rg_head r \<noteq> None" using okD(4) [of 0] okD(3) some by simp
  then show "fst (Ring_removeFirstOrNull r) = Some (hd (ring_contents r))"
    using some by (simp add: Ring_removeFirstOrNull_def Let_def ring_contents_def hd_map first)
  show "ring_ok ?r"
    using okD at some by (auto simp: ring_ok_def [of ?r] s less_diff_conv)
  show "ring_contents ?r = tl (ring_contents r)"
  proof (rule nth_equalityI)
    fix i assume "i < length (ring_contents ?r)"
    then have i: "Suc i < rg_size r" "i < rg_size r - Suc 0" by (simp_all add: s)
    then show "ring_contents ?r ! i = tl (ring_contents r) ! i"
      using at [of i] okD(2) by (simp add: ring_contents_def s(1) nth_tl)
  qed (simp add: s)
qed

lemma fold_clear_nth:
  "0 < length b \<Longrightarrow> length (fold (\<lambda>i b. b[(h + i) mod length b := None]) [0..<m] b) = length b \<and>
   (\<forall>k<length b. fold (\<lambda>i b. b[(h + i) mod length b := None]) [0..<m] b ! k =
      (if \<exists>i<m. k = (h + i) mod length b then None else b ! k))"
proof (induction m)
  case (Suc m)
  let ?b = "fold (\<lambda>i b. b[(h + i) mod length b := None]) [0..<m] b"
  have "(h + m) mod length b < length ?b" using Suc by simp
  then show ?case using Suc by (auto simp: nth_list_update less_Suc_eq)
qed simp

lemma ring_clear:
  assumes ok: "ring_ok r"
  shows "ring_ok (Ring_clear r)" "ring_contents (Ring_clear r) = []"
proof -
  let ?n = "length (rg_items r)"
  have "rg_items r ! k = None" if k: "k < ?n" and "\<not> (\<exists>i<rg_size r. k = (rg_head r + i) mod ?n)" for k
  proof -
    have "k = (rg_head r + (k + ?n - rg_head r) mod ?n) mod ?n"
      using ring_okD(1) [OF ok] k by (simp add: mod_add_right_eq)
    then show ?thesis
      using that ring_okD(4) [OF ok, of "(k + ?n - rg_head r) mod ?n"] ring_okD(3) [OF ok]
      by (metis mod_less_divisor ring_at_def)
  qed
  then show "ring_ok (Ring_clear r)"
    using fold_clear_nth [of "rg_items r" "rg_head r" "rg_size r"] ring_okD(3) [OF ok]
    by (auto simp: ring_ok_def ring_at_def Ring_clear_def)
  show "ring_contents (Ring_clear r) = []" by (simp add: ring_contents_def Ring_clear_def)
qed

subsection \<open>The interface of a queue\<close>

locale fifo =
  fixes add :: "'a \<Rightarrow> 'q \<Rightarrow> 'q" and remove :: "'q \<Rightarrow> 'a option \<times> 'q" and reset :: "'q \<Rightarrow> 'q"
    and contents :: "'q \<Rightarrow> 'a list" and ok :: "'q \<Rightarrow> bool"
  assumes ok_add: "ok q \<Longrightarrow> ok (add x q)"
    and contents_add: "ok q \<Longrightarrow> contents (add x q) = contents q @ [x]"
    and remove_empty: "ok q \<Longrightarrow> contents q = [] \<Longrightarrow> remove q = (None, q)"
    and remove_first: "ok q \<Longrightarrow> contents q = x # xs \<Longrightarrow>
      fst (remove q) = Some x \<and> ok (snd (remove q)) \<and> contents (snd (remove q)) = xs"
    and ok_reset: "ok q \<Longrightarrow> ok (reset q)"
    and contents_reset: "ok q \<Longrightarrow> contents (reset q) = []"

datatype 'a fifo_op = Add_last 'a | Remove_first | Clear

text \<open>A run of operations yields what the removals returned and the final queue.\<close>

fun run_fifo ::
  "('a \<Rightarrow> 'q \<Rightarrow> 'q) \<Rightarrow> ('q \<Rightarrow> 'a option \<times> 'q) \<Rightarrow> ('q \<Rightarrow> 'q) \<Rightarrow> 'a fifo_op list \<Rightarrow> 'q \<Rightarrow>
   'a option list \<times> 'q" where
  "run_fifo add remove reset [] q = ([], q)"
| "run_fifo add remove reset (Add_last x # ops) q = run_fifo add remove reset ops (add x q)"
| "run_fifo add remove reset (Remove_first # ops) q =
     (let (y, q) = remove q; (ys, q) = run_fifo add remove reset ops q in (y # ys, q))"
| "run_fifo add remove reset (Clear # ops) q = run_fifo add remove reset ops (reset q)"

definition list_add :: "'a \<Rightarrow> 'a list \<Rightarrow> 'a list" where
  "list_add x xs = xs @ [x]"

fun list_remove :: "'a list \<Rightarrow> 'a option \<times> 'a list" where
  "list_remove [] = (None, [])"
| "list_remove (x # xs) = (Some x, xs)"

context fifo
begin

lemma ok_remove: "ok q \<Longrightarrow> ok (snd (remove q))"
  using remove_empty remove_first by (cases "contents q") auto

lemma remove_list: "ok q \<Longrightarrow> list_remove (contents q) = (fst (remove q), contents (snd (remove q)))"
  using remove_empty remove_first by (cases "contents q") auto

lemma fst_remove_None: "ok q \<Longrightarrow> fst (remove q) = None \<longleftrightarrow> contents q = []"
  using remove_empty remove_first by (cases "contents q") auto

lemma run_list:
  assumes "ok q"
  shows "run_fifo list_add list_remove (\<lambda>_. []) ops (contents q) =
     (fst (run_fifo add remove reset ops q), contents (snd (run_fifo add remove reset ops q))) \<and>
     ok (snd (run_fifo add remove reset ops q))"
  using assms
proof (induction ops arbitrary: q)
  case (Cons a ops)
  then show ?case
  proof (cases a)
    case Remove_first
    then show ?thesis
      using Cons.IH [OF ok_remove [OF Cons.prems]] remove_list [OF Cons.prems]
      by (simp add: Let_def case_prod_unfold)
  next
    case (Add_last x)
    with Cons.IH [OF ok_add [OF Cons.prems, of x]] contents_add [OF Cons.prems, of x]
    show ?thesis by (simp add: list_add_def)
  next
    case Clear
    with Cons.IH [OF ok_reset [OF Cons.prems]] contents_reset [OF Cons.prems] show ?thesis by simp
  qed
qed simp

end

lemma ring_contents_Nil: "ring_contents r = [] \<longleftrightarrow> rg_size r = 0"
  by (simp flip: length_0_conv)

interpretation ring: fifo Ring_addLast Ring_removeFirstOrNull Ring_clear ring_contents ring_ok
proof
  fix q :: "'a Ring" and x and xs
  assume q: "ring_ok q" "ring_contents q = x # xs"
  then have "0 < rg_size q" using ring_contents_Nil [of q] by simp
  from ring_remove [OF q(1) this] q(2)
  show "fst (Ring_removeFirstOrNull q) = Some x \<and> ring_ok (snd (Ring_removeFirstOrNull q)) \<and>
        ring_contents (snd (Ring_removeFirstOrNull q)) = xs" by simp
qed (simp_all add: ring_addLast ring_clear ring_contents_Nil ring_remove_empty)

text \<open>
  C21. The ring is a first-in first-out queue. Whatever sequence of insertions, removals and
  clearings is run on a new ring, the removals return what they return on a list and the
  contents at the end are the same; the size is the number of elements, and all slots not in
  use are cleared.
\<close>

theorem ring_refines_list:
  "(let (outs, r) = run_fifo Ring_addLast Ring_removeFirstOrNull Ring_clear ops (Ring_new initial)
    in (outs, ring_contents r) = run_fifo list_add list_remove (\<lambda>_. []) ops [] \<and>
       rg_size r = length (ring_contents r) \<and> (Ring_isEmpty r \<longleftrightarrow> ring_contents r = []) \<and> ring_ok r)"
  using ring.run_list [OF ring_new_ok, of ops initial]
  by (simp add: ring_new_contents Ring_isEmpty_def ring_contents_Nil case_prod_unfold)

end
