(* ===== verification/Msg_Queue.thy ===== *)
theory Msg_Queue
  imports Msg_Ring
begin

text \<open>
  The bounded queue between the read loop and the handler loop of a connection
  (\<^verbatim>\<open>ReactorQueue.kt\<close>), owned by one reactor thread. Every operation runs to its end or to
  the point where the calling coroutine parks, so an operation is a function from the queue
  to an outcome, the new queue and the wake-ups it caused. The producer and the consumer
  around the queue are a step relation, whose reachable states keep the order of the items,
  the bound and the pairing of parked coroutines with wake-ups.

  A continuation is identified by its job. The arguments \<^verbatim>\<open>accepts\<close> and \<^verbatim>\<open>active\<close> are the
  answers of the libraries underneath: whether the reactor takes a resumption, and whether
  the calling job is still active when it is about to park.
\<close>

subsection \<open>The queue\<close>

datatype ('j, 'a) wake =
    Resume_take 'j "'a option"
  | Resume_put 'j
  | Resume_closed 'j
  | Resume_cancelled 'j
  | Report_refused

datatype 'r outcome = Returned 'r | Suspended | Threw_closed | Threw_cancelled

record ('j, 'a) ReactorQueue =
  rq_items :: "'a Ring"
  rq_takeWaiter :: "'j option"
  rq_putWaiter :: "'j option"
  rq_closed :: bool
  rq_watchedA :: "'j option"
  rq_watchedB :: "'j option"

definition ReactorQueue_new :: "nat \<Rightarrow> ('j, 'a) ReactorQueue" where
  "ReactorQueue_new capacity =
     \<lparr>rq_items = Ring_new (min capacity 16), rq_takeWaiter = None, rq_putWaiter = None,
      rq_closed = False, rq_watchedA = None, rq_watchedB = None\<rparr>"

definition onRefused :: "('j, 'a) ReactorQueue \<Rightarrow> ('j, 'a) ReactorQueue \<times> ('j, 'a) wake list" where
  "onRefused q = (q\<lparr>rq_closed := True\<rparr>, [Report_refused])"

definition resumeTake ::
  "bool \<Rightarrow> 'j \<Rightarrow> 'a option \<Rightarrow> ('j, 'a) ReactorQueue \<Rightarrow> ('j, 'a) ReactorQueue \<times> ('j, 'a) wake list" where
  "resumeTake accepts c item q = (if accepts then (q, [Resume_take c item]) else onRefused q)"

definition resumePut ::
  "bool \<Rightarrow> 'j \<Rightarrow> ('j, 'a) ReactorQueue \<Rightarrow> ('j, 'a) ReactorQueue \<times> ('j, 'a) wake list" where
  "resumePut accepts c q = (if accepts then (q, [Resume_put c]) else onRefused q)"

text \<open>Handing over or appending an item: \<^verbatim>\<open>Returned False\<close> when the queue is full.\<close>

definition offer ::
  "nat \<Rightarrow> bool \<Rightarrow> 'a \<Rightarrow> ('j, 'a) ReactorQueue \<Rightarrow>
   bool outcome \<times> ('j, 'a) ReactorQueue \<times> ('j, 'a) wake list" where
  "offer capacity accepts item q =
     (if rq_closed q then (Threw_closed, q, [])
      else case rq_takeWaiter q of
        Some c \<Rightarrow> (Returned True, resumeTake accepts c (Some item) (q\<lparr>rq_takeWaiter := None\<rparr>))
      | None \<Rightarrow>
          if rg_size (rq_items q) < capacity
          then (Returned True, q\<lparr>rq_items := Ring_addLast item (rq_items q)\<rparr>, [])
          else (Returned False, q, []))"

text \<open>
  Watching a job for cancellation: a cancelled job throws, a job watched already is left, and
  a third job evicts the older watch.
\<close>

definition watch :: "bool \<Rightarrow> 'j \<Rightarrow> ('j, 'a) ReactorQueue \<Rightarrow> ('j, 'a) ReactorQueue option" where
  "watch active job q =
     (if \<not> active then None
      else if rq_watchedA q = Some job \<or> rq_watchedB q = Some job then Some q
      else if rq_watchedA q = None then Some (q\<lparr>rq_watchedA := Some job\<rparr>)
      else if rq_watchedB q = None then Some (q\<lparr>rq_watchedB := Some job\<rparr>)
      else Some (q\<lparr>rq_watchedA := rq_watchedB q, rq_watchedB := Some job\<rparr>))"

definition parkTake ::
  "bool \<Rightarrow> 'j \<Rightarrow> ('j, 'a) ReactorQueue \<Rightarrow> 'r outcome \<times> ('j, 'a) ReactorQueue \<times> ('j, 'a) wake list" where
  "parkTake active job q =
     (case watch active job q of
        None \<Rightarrow> (Threw_cancelled, q, [])
      | Some q \<Rightarrow> (Suspended, q\<lparr>rq_takeWaiter := Some job\<rparr>, []))"

definition parkPut ::
  "bool \<Rightarrow> 'j \<Rightarrow> ('j, 'a) ReactorQueue \<Rightarrow> 'r outcome \<times> ('j, 'a) ReactorQueue \<times> ('j, 'a) wake list" where
  "parkPut active job q =
     (case watch active job q of
        None \<Rightarrow> (Threw_cancelled, q, [])
      | Some q \<Rightarrow> (Suspended, q\<lparr>rq_putWaiter := Some job\<rparr>, []))"

text \<open>
  Sending runs until the item is taken over or the caller parks; a woken sender offers again
  and parks again, which is the same code.
\<close>

definition send ::
  "nat \<Rightarrow> bool \<Rightarrow> bool \<Rightarrow> 'j \<Rightarrow> 'a \<Rightarrow> ('j, 'a) ReactorQueue \<Rightarrow>
   unit outcome \<times> ('j, 'a) ReactorQueue \<times> ('j, 'a) wake list" where
  "send capacity accepts active job item q =
     (case offer capacity accepts item q of
        (Returned True, r) \<Rightarrow> (Returned (), r)
      | (Returned False, q, ws) \<Rightarrow> parkPut active job q
      | (Threw_closed, r) \<Rightarrow> (Threw_closed, r)
      | (_, r) \<Rightarrow> (Threw_cancelled, r))"

definition receive ::
  "bool \<Rightarrow> bool \<Rightarrow> 'j \<Rightarrow> ('j, 'a) ReactorQueue \<Rightarrow>
   'a option outcome \<times> ('j, 'a) ReactorQueue \<times> ('j, 'a) wake list" where
  "receive accepts active job q =
     (let (x, items) = Ring_removeFirstOrNull (rq_items q)
      in if x \<noteq> None
         then let q = q\<lparr>rq_items := items\<rparr>
              in (Returned x,
                  (case rq_putWaiter q of
                     None \<Rightarrow> (q, [])
                   | Some p \<Rightarrow> resumePut accepts p (q\<lparr>rq_putWaiter := None\<rparr>)))
         else if rq_closed q then (Returned None, q, [])
         else parkTake active job q)"

definition close ::
  "bool \<Rightarrow> ('j, 'a) ReactorQueue \<Rightarrow> ('j, 'a) ReactorQueue \<times> ('j, 'a) wake list" where
  "close accepts q =
     (if rq_closed q then (q, [])
      else let q = q\<lparr>rq_closed := True\<rparr>;
               (q, ws) = (case rq_takeWaiter q of
                            Some c \<Rightarrow> if Ring_isEmpty (rq_items q)
                                      then resumeTake accepts c None (q\<lparr>rq_takeWaiter := None\<rparr>)
                                      else (q, [])
                          | None \<Rightarrow> (q, []));
               (q, ws') = (case rq_putWaiter q of
                             Some p \<Rightarrow> (q\<lparr>rq_putWaiter := None\<rparr>, [Resume_closed p])
                           | None \<Rightarrow> (q, []))
           in (q\<lparr>rq_watchedA := None, rq_watchedB := None\<rparr>, ws @ ws'))"

definition onCancelled ::
  "'j \<Rightarrow> ('j, 'a) ReactorQueue \<Rightarrow> ('j, 'a) ReactorQueue \<times> ('j, 'a) wake list" where
  "onCancelled job q =
     (let (q, ws) = (if rq_takeWaiter q = Some job
                     then (q\<lparr>rq_takeWaiter := None\<rparr>, [Resume_cancelled job]) else (q, []));
          (q, ws') = (if rq_putWaiter q = Some job
                      then (q\<lparr>rq_putWaiter := None\<rparr>, [Resume_cancelled job]) else (q, []))
      in (q, ws @ ws'))"

subsection \<open>The producer and the consumer\<close>

datatype party = Producer | Consumer

datatype 'a producer = P_idle | P_waiting 'a | P_woken 'a | P_stopped

datatype 'a consumer = C_idle | C_waiting | C_woken "'a option" | C_stopped

text \<open>
  The history variables record what the queue accepted, what the consumer got, whether the
  reactor refused a resumption, and whether a coroutine was resumed that was not parked.
\<close>

record 'a system =
  sy_queue :: "(party, 'a) ReactorQueue"
  sy_producer :: "'a producer"
  sy_consumer :: "'a consumer"
  sy_accepted :: "'a list"
  sy_received :: "'a list"
  sy_refused :: bool
  sy_stray :: bool

definition initial_system :: "nat \<Rightarrow> 'a system" where
  "initial_system capacity =
     \<lparr>sy_queue = ReactorQueue_new capacity, sy_producer = P_idle, sy_consumer = C_idle,
      sy_accepted = [], sy_received = [], sy_refused = False, sy_stray = False\<rparr>"

fun deliver :: "(party, 'a) wake \<Rightarrow> 'a system \<Rightarrow> 'a system" where
  "deliver (Resume_take Consumer x) s =
     (if sy_consumer s = C_waiting then s\<lparr>sy_consumer := C_woken x\<rparr> else s\<lparr>sy_stray := True\<rparr>)"
| "deliver (Resume_put Producer) s =
     (case sy_producer s of P_waiting x \<Rightarrow> s\<lparr>sy_producer := P_woken x\<rparr> | _ \<Rightarrow> s\<lparr>sy_stray := True\<rparr>)"
| "deliver (Resume_closed Producer) s =
     (case sy_producer s of P_waiting x \<Rightarrow> s\<lparr>sy_producer := P_stopped\<rparr> | _ \<Rightarrow> s\<lparr>sy_stray := True\<rparr>)"
| "deliver (Resume_cancelled Producer) s =
     (case sy_producer s of P_waiting x \<Rightarrow> s\<lparr>sy_producer := P_stopped\<rparr> | _ \<Rightarrow> s\<lparr>sy_stray := True\<rparr>)"
| "deliver (Resume_cancelled Consumer) s =
     (if sy_consumer s = C_waiting then s\<lparr>sy_consumer := C_stopped\<rparr> else s\<lparr>sy_stray := True\<rparr>)"
| "deliver Report_refused s = s\<lparr>sy_refused := True\<rparr>"
| "deliver _ s = s\<lparr>sy_stray := True\<rparr>"

definition perform :: "(party, 'a) ReactorQueue \<times> (party, 'a) wake list \<Rightarrow> 'a system \<Rightarrow> 'a system" where
  "perform r s = fold deliver (snd r) (s\<lparr>sy_queue := fst r\<rparr>)"

fun producer_after :: "'a \<Rightarrow> unit outcome \<Rightarrow> 'a system \<Rightarrow> 'a system" where
  "producer_after x (Returned _) s = s\<lparr>sy_producer := P_idle, sy_accepted := sy_accepted s @ [x]\<rparr>"
| "producer_after x Suspended s = s\<lparr>sy_producer := P_waiting x\<rparr>"
| "producer_after x _ s = s\<lparr>sy_producer := P_stopped\<rparr>"

fun consumer_after :: "'a option outcome \<Rightarrow> 'a system \<Rightarrow> 'a system" where
  "consumer_after (Returned (Some x)) s = s\<lparr>sy_received := sy_received s @ [x]\<rparr>"
| "consumer_after Suspended s = s\<lparr>sy_consumer := C_waiting\<rparr>"
| "consumer_after _ s = s\<lparr>sy_consumer := C_stopped\<rparr>"

inductive queue_step :: "nat \<Rightarrow> 'a system \<Rightarrow> 'a system \<Rightarrow> bool" for capacity where
  Send: "sy_producer s = P_idle \<or> sy_producer s = P_woken x \<Longrightarrow>
    send capacity accepts active Producer x (sy_queue s) = (res, r) \<Longrightarrow>
    queue_step capacity s (perform r (producer_after x res s))"
| Receive: "sy_consumer s = C_idle \<Longrightarrow>
    receive accepts active Consumer (sy_queue s) = (res, r) \<Longrightarrow>
    queue_step capacity s (perform r (consumer_after res s))"
| Take: "sy_consumer s = C_woken (Some x) \<Longrightarrow>
    queue_step capacity s (s\<lparr>sy_consumer := C_idle, sy_received := sy_received s @ [x]\<rparr>)"
| Take_end: "sy_consumer s = C_woken None \<Longrightarrow>
    queue_step capacity s (s\<lparr>sy_consumer := C_stopped\<rparr>)"
| Close: "queue_step capacity s (perform (close accepts (sy_queue s)) s)"
| Cancel: "rq_watchedA (sy_queue s) = Some j \<or> rq_watchedB (sy_queue s) = Some j \<Longrightarrow>
    queue_step capacity s (perform (onCancelled j (sy_queue s)) s)"

inductive queue_reachable :: "nat \<Rightarrow> 'a system \<Rightarrow> bool" for capacity where
  Start: "queue_reachable capacity (initial_system capacity)"
| Step: "queue_reachable capacity s \<Longrightarrow> queue_step capacity s s' \<Longrightarrow> queue_reachable capacity s'"

subsection \<open>The invariant\<close>

fun in_flight :: "'a consumer \<Rightarrow> 'a list" where
  "in_flight (C_woken (Some x)) = [x]"
| "in_flight _ = []"

definition watched :: "party \<Rightarrow> (party, 'a) ReactorQueue \<Rightarrow> bool" where
  "watched j q \<longleftrightarrow> rq_watchedA q = Some j \<or> rq_watchedB q = Some j"

text \<open>What holds of the queue alone: the bound, and waiter slots that name parked coroutines.\<close>

definition slots_ok :: "nat \<Rightarrow> 'a system \<Rightarrow> bool" where
  "slots_ok capacity s \<longleftrightarrow>
     ring_ok (rq_items (sy_queue s)) \<and> rg_size (rq_items (sy_queue s)) \<le> capacity \<and> \<not> sy_stray s \<and>
     (sy_refused s \<longrightarrow> rq_closed (sy_queue s)) \<and>
     (\<forall>j. rq_takeWaiter (sy_queue s) = Some j \<longrightarrow> j = Consumer \<and> sy_consumer s = C_waiting) \<and>
     (\<forall>j. rq_putWaiter (sy_queue s) = Some j \<longrightarrow> j = Producer \<and> (\<exists>x. sy_producer s = P_waiting x)) \<and>
     (rq_watchedA (sy_queue s) = rq_watchedB (sy_queue s) \<longrightarrow> rq_watchedA (sy_queue s) = None)"

text \<open>
  What holds as long as no resumption was refused: a parked consumer faces an empty open
  queue, a parked producer a full open one, both are watched, and nothing is lost,
  duplicated or reordered.
\<close>

definition flow_ok :: "nat \<Rightarrow> 'a system \<Rightarrow> bool" where
  "flow_ok capacity s \<longleftrightarrow>
     (sy_consumer s = C_waiting \<longrightarrow>
        rq_takeWaiter (sy_queue s) = Some Consumer \<and> ring_contents (rq_items (sy_queue s)) = [] \<and>
        \<not> rq_closed (sy_queue s) \<and> watched Consumer (sy_queue s)) \<and>
     (\<forall>x. sy_producer s = P_waiting x \<longrightarrow>
        rq_putWaiter (sy_queue s) = Some Producer \<and> rg_size (rq_items (sy_queue s)) = capacity \<and>
        \<not> rq_closed (sy_queue s) \<and> watched Producer (sy_queue s)) \<and>
     sy_accepted s = sy_received s @ in_flight (sy_consumer s) @ ring_contents (rq_items (sy_queue s))"

definition queue_inv :: "nat \<Rightarrow> 'a system \<Rightarrow> bool" where
  "queue_inv capacity s \<longleftrightarrow> slots_ok capacity s \<and> (\<not> sy_refused s \<longrightarrow> flow_ok capacity s)"

lemmas queue_inv_defs = queue_inv_def slots_ok_def flow_ok_def

lemma queue_inv_initial: "queue_inv capacity (initial_system capacity)"
  by (simp add: queue_inv_defs initial_system_def ReactorQueue_new_def ring_new_ok ring_new_contents)
    (simp add: Ring_new_def)

lemma party_not: "j \<noteq> Producer \<longleftrightarrow> j = Consumer" "j \<noteq> Consumer \<longleftrightarrow> j = Producer"
  by (cases j; simp)+

text \<open>A job that parks is watched afterwards, and so is whoever was watched before.\<close>

lemma watch_Some:
  assumes "watch active job q = Some q'"
    and "rq_watchedA q = rq_watchedB q \<longrightarrow> rq_watchedA q = None"
  shows "\<exists>a b. q' = q\<lparr>rq_watchedA := a, rq_watchedB := b\<rparr> \<and> (a = b \<longrightarrow> a = None)"
    and "watched job q'" and "watched j q \<Longrightarrow> watched j q'"
proof -
  show "\<exists>a b. q' = q\<lparr>rq_watchedA := a, rq_watchedB := b\<rparr> \<and> (a = b \<longrightarrow> a = None)"
    by (intro exI [of _ "rq_watchedA q'"] exI [of _ "rq_watchedB q'"])
      (use assms in \<open>auto simp: watch_def split: if_splits\<close>)
  show "watched job q'"
    using assms(1) by (auto simp: watch_def watched_def split: if_splits)
  show "watched j q \<Longrightarrow> watched j q'"
    using assms by (cases j; cases job)
      (auto simp: watch_def watched_def split: if_splits, (metis party.exhaust option.exhaust)+)
qed

lemma send_cases:
  assumes "send capacity accepts active job x q = (res, r)"
  obtains (closed) "rq_closed q" "res = Threw_closed" "r = (q, [])"
  | (handed) c where "\<not> rq_closed q" "rq_takeWaiter q = Some c" "res = Returned ()"
      "r = resumeTake accepts c (Some x) (q\<lparr>rq_takeWaiter := None\<rparr>)"
  | (appended) "\<not> rq_closed q" "rq_takeWaiter q = None" "rg_size (rq_items q) < capacity" "res = Returned ()"
      "r = (q\<lparr>rq_items := Ring_addLast x (rq_items q)\<rparr>, [])"
  | (cancelled) "res = Threw_cancelled" "r = (q, [])"
  | (parked) q' where "\<not> rq_closed q" "rq_takeWaiter q = None" "capacity \<le> rg_size (rq_items q)"
      "watch active job q = Some q'" "res = Suspended" "r = (q'\<lparr>rq_putWaiter := Some job\<rparr>, [])"
  using assms
  by (cases "rq_closed q"; cases "rq_takeWaiter q"; cases "rg_size (rq_items q) < capacity"; cases "watch active job q")
    (auto simp: send_def offer_def parkPut_def)

lemma receive_cases:
  assumes "receive accepts active job q = (res, r)" and ok: "ring_ok (rq_items q)"
  obtains (item) x xs q' where "ring_contents (rq_items q) = x # xs" "res = Returned (Some x)"
      "q' = q\<lparr>rq_items := snd (Ring_removeFirstOrNull (rq_items q))\<rparr>"
      "r = (case rq_putWaiter q of None \<Rightarrow> (q', []) | Some p \<Rightarrow> resumePut accepts p (q'\<lparr>rq_putWaiter := None\<rparr>))"
  | (ended) "rq_closed q" "ring_contents (rq_items q) = []" "res = Returned None" "r = (q, [])"
  | (cancelled) "ring_contents (rq_items q) = []" "res = Threw_cancelled" "r = (q, [])"
  | (parked) q' where "\<not> rq_closed q" "ring_contents (rq_items q) = []"
      "watch active job q = Some q'" "res = Suspended" "r = (q'\<lparr>rq_takeWaiter := Some job\<rparr>, [])"
proof (cases "ring_contents (rq_items q)")
  case Nil
  with ring.remove_empty [OF ok] assms(1) ended cancelled parked show ?thesis
    by (cases "rq_closed q"; cases "watch active job q") (auto simp: receive_def parkTake_def)
next
  case (Cons x xs)
  with ring.remove_first [OF ok] assms(1) item show ?thesis
    by (auto simp: receive_def case_prod_unfold Let_def)
qed

lemma queue_inv_send:
  assumes inv: "queue_inv capacity s" and p: "sy_producer s = P_idle \<or> sy_producer s = P_woken x"
    and send: "send capacity accepts active Producer x (sy_queue s) = (res, r)"
  shows "queue_inv capacity (perform r (producer_after x res s))"
  using send
proof (cases rule: send_cases)
  case (handed c)
  with inv have c: "c = Consumer" "sy_consumer s = C_waiting" and open_flow: "\<not> sy_refused s" "flow_ok capacity s"
    by (auto simp: queue_inv_def slots_ok_def)
  have "rq_putWaiter (sy_queue s) = None" "\<forall>x. sy_producer s \<noteq> P_waiting x"
    using inv p by (auto simp: queue_inv_def slots_ok_def)
  with inv handed c open_flow show ?thesis
    by (cases accepts) (simp_all add: queue_inv_defs perform_def resumeTake_def onRefused_def)
next
  case appended
  then show ?thesis
    using inv p ring.ok_add [of "rq_items (sy_queue s)" x] ring.contents_add [of "rq_items (sy_queue s)" x]
    by (auto simp: queue_inv_defs perform_def watched_def ring_addLast(3))
next
  case (parked q')
  with inv have two: "rq_watchedA (sy_queue s) = rq_watchedB (sy_queue s) \<longrightarrow> rq_watchedA (sy_queue s) = None"
    and open_flow: "\<not> sy_refused s" "flow_ok capacity s"
    by (auto simp: queue_inv_def slots_ok_def)
  obtain a b where q': "q' = (sy_queue s)\<lparr>rq_watchedA := a, rq_watchedB := b\<rparr>" "a = b \<longrightarrow> a = None"
    using watch_Some(1) [OF parked(4) two] by blast
  have "watched Producer q'" "watched Consumer (sy_queue s) \<longrightarrow> watched Consumer q'"
    using watch_Some(2,3) [OF parked(4) two] by blast+
  with parked inv p open_flow q' show ?thesis
    by (auto simp: queue_inv_defs perform_def watched_def)
qed (use inv p in \<open>auto simp: queue_inv_defs perform_def\<close>)

lemma queue_inv_receive:
  assumes inv: "queue_inv capacity s" and c: "sy_consumer s = C_idle"
    and receive: "receive accepts active Consumer (sy_queue s) = (res, r)"
  shows "queue_inv capacity (perform r (consumer_after res s))"
proof -
  have ok: "ring_ok (rq_items (sy_queue s))" using inv by (simp add: queue_inv_defs)
  from receive ok show ?thesis
  proof (cases rule: receive_cases)
    case (item x xs q')
    with ring.remove_first [OF ok item(1)] inv c show ?thesis
      by (cases accepts; cases "sy_producer s"; cases "rq_putWaiter (sy_queue s)")
        (auto simp: queue_inv_defs perform_def resumePut_def onRefused_def watched_def
          simp flip: length_ring_contents)
  next
    case (parked q')
    with inv have two: "rq_watchedA (sy_queue s) = rq_watchedB (sy_queue s) \<longrightarrow> rq_watchedA (sy_queue s) = None"
      and open_flow: "\<not> sy_refused s" "flow_ok capacity s"
      by (auto simp: queue_inv_def slots_ok_def)
    obtain a b where q': "q' = (sy_queue s)\<lparr>rq_watchedA := a, rq_watchedB := b\<rparr>" "a = b \<longrightarrow> a = None"
      using watch_Some(1) [OF parked(3) two] by blast
    have "watched Consumer q'" "watched Producer (sy_queue s) \<longrightarrow> watched Producer q'"
      using watch_Some(2,3) [OF parked(3) two] by blast+
    with parked inv c open_flow q' show ?thesis
      by (auto simp: queue_inv_defs perform_def watched_def)
  qed (use inv c in \<open>auto simp: queue_inv_defs perform_def\<close>)
qed

text \<open>On an intact queue, who is parked decides both waiter slots.\<close>

lemma queue_inv_slots:
  assumes "queue_inv capacity s"
  shows "rq_takeWaiter (sy_queue s) = None \<or>
      rq_takeWaiter (sy_queue s) = Some Consumer \<and> sy_consumer s = C_waiting"
    and "rq_putWaiter (sy_queue s) = None \<or>
      rq_putWaiter (sy_queue s) = Some Producer \<and> (\<exists>x. sy_producer s = P_waiting x)"
  using assms unfolding queue_inv_def slots_ok_def by (metis option.exhaust)+

lemma queue_inv_close:
  assumes inv: "queue_inv capacity s"
  shows "queue_inv capacity (perform (close accepts (sy_queue s)) s)"
proof (cases "rq_closed (sy_queue s)")
  case True
  then show ?thesis using inv by (simp add: close_def perform_def)
next
  case False
  with inv have flow: "slots_ok capacity s" "flow_ok capacity s" "\<not> sy_refused s"
    by (auto simp: queue_inv_def slots_ok_def)
  note rules = queue_inv_defs perform_def close_def resumeTake_def onRefused_def Ring_isEmpty_def
    ring_contents_Nil
  from queue_inv_slots [OF inv] show ?thesis
    by (elim disjE conjE exE; cases accepts) (use False flow in \<open>simp_all add: rules\<close>)
qed

lemma queue_inv_cancel:
  assumes inv: "queue_inv capacity s"
  shows "queue_inv capacity (perform (onCancelled j (sy_queue s)) s)"
proof -
  note rules = queue_inv_defs perform_def onCancelled_def watched_def
  from queue_inv_slots [OF inv] show ?thesis
    by (elim disjE conjE exE; cases j) (use inv in \<open>simp_all add: rules\<close>)
qed

lemma queue_inv_step:
  assumes "queue_step capacity s s'" and "queue_inv capacity s"
  shows "queue_inv capacity s'"
  using assms
proof cases
  case (Take x)
  with assms(2) show ?thesis by (auto simp: queue_inv_defs)
next
  case Take_end
  with assms(2) show ?thesis by (auto simp: queue_inv_defs)
next
  case (Send x accepts active res r)
  then show ?thesis using queue_inv_send [OF assms(2)] by simp
next
  case (Receive accepts active res r)
  then show ?thesis using queue_inv_receive [OF assms(2)] by simp
next
  case (Close accepts)
  then show ?thesis using queue_inv_close [OF assms(2)] by simp
next
  case (Cancel j)
  then show ?thesis using queue_inv_cancel [OF assms(2)] by simp
qed

lemma queue_reachable_inv: "queue_reachable capacity s \<Longrightarrow> queue_inv capacity s"
  by (induction rule: queue_reachable.induct) (auto intro: queue_inv_initial queue_inv_step)

subsection \<open>Order, bound and wake-ups\<close>

text \<open>
  C8. In every state the producer and the consumer can bring the queue to, under any
  interleaving of sends, receives, closing, cancellation and refused resumptions: the queue
  holds at most \<^verbatim>\<open>capacity\<close> items and no coroutine is ever resumed that is not parked; and
  unless the reactor refused a resumption, the items accepted are those received, then the one
  handed over, then the contents, in this order.
\<close>

theorem queue_fifo:
  assumes "queue_reachable capacity s"
  shows "rg_size (rq_items (sy_queue s)) \<le> capacity \<and> \<not> sy_stray s \<and>
    (\<not> sy_refused s \<longrightarrow>
       sy_accepted s = sy_received s @ in_flight (sy_consumer s) @ ring_contents (rq_items (sy_queue s)))"
  using queue_reachable_inv [OF assms] by (simp add: queue_inv_defs)

lemma waiting_producer_served:
  assumes inv: "queue_inv capacity s" and "\<not> sy_refused s" and "0 < capacity" and "sy_producer s = P_waiting x"
  shows "\<exists>y q'. receive True active Consumer (sy_queue s) = (Returned (Some y), q', [Resume_put Producer])"
proof -
  have ok: "ring_ok (rq_items (sy_queue s))" and size: "rg_size (rq_items (sy_queue s)) = capacity"
    and put: "rq_putWaiter (sy_queue s) = Some Producer"
    using assms by (auto simp: queue_inv_defs)
  obtain res r where rec: "receive True active Consumer (sy_queue s) = (res, r)"
    by (cases "receive True active Consumer (sy_queue s)")
  from rec ok show ?thesis
  proof (cases rule: receive_cases)
    case (item y ys q')
    then show ?thesis using rec put by (auto simp: resumePut_def)
  qed (use size assms(3) ring_contents_Nil [of "rq_items (sy_queue s)"] in auto)
qed

text \<open>
  C10. No wake-up is lost. As long as no resumption was refused, a queue of positive capacity
  never has both sides parked and a closed queue has none; if the producer is parked the next
  receive takes an item and resumes it, and if the consumer is parked the next send hands it
  the item and a close resumes it with the end of the stream.
\<close>

theorem queue_no_lost_wakeup:
  assumes "queue_reachable capacity s" and "\<not> sy_refused s" and "0 < capacity"
  shows "(\<forall>x. sy_producer s = P_waiting x \<longrightarrow>
      sy_consumer s \<noteq> C_waiting \<and> \<not> rq_closed (sy_queue s) \<and>
      (\<forall>active. \<exists>y q'. receive True active Consumer (sy_queue s) = (Returned (Some y), q', [Resume_put Producer]))) \<and>
    (sy_consumer s = C_waiting \<longrightarrow>
      \<not> rq_closed (sy_queue s) \<and>
      (\<forall>active y. \<exists>q'. send capacity True active Producer y (sy_queue s) =
         (Returned (), q', [Resume_take Consumer (Some y)])) \<and>
      (\<exists>q'. close True (sy_queue s) = (q', [Resume_take Consumer None])))"
proof (intro conjI allI impI)
  note inv = queue_reachable_inv [OF assms(1)]
  {
    fix x assume x: "sy_producer s = P_waiting x"
    show "\<not> rq_closed (sy_queue s)" using inv x assms(2) by (simp add: queue_inv_defs)
    show "sy_consumer s \<noteq> C_waiting" using inv x assms(2,3) by (auto simp: queue_inv_defs ring_contents_Nil)
    show "\<exists>y q'. receive True active Consumer (sy_queue s) = (Returned (Some y), q', [Resume_put Producer])" for active
      using waiting_producer_served [OF inv assms(2,3) x] .
  }
  assume w: "sy_consumer s = C_waiting"
  have take: "rq_takeWaiter (sy_queue s) = Some Consumer" and empty: "rg_size (rq_items (sy_queue s)) = 0"
    and opened: "\<not> rq_closed (sy_queue s)"
    using inv w assms(2) by (auto simp: queue_inv_defs ring_contents_Nil)
  have put: "rq_putWaiter (sy_queue s) = None"
    using queue_inv_slots(2) [OF inv] inv assms(2,3) empty by (auto simp: queue_inv_defs)
  show "\<not> rq_closed (sy_queue s)" by (rule opened)
  show "\<exists>q'. send capacity True active Producer y (sy_queue s) = (Returned (), q', [Resume_take Consumer (Some y)])"
    for active y using take opened by (simp add: send_def offer_def resumeTake_def)
  show "\<exists>q'. close True (sy_queue s) = (q', [Resume_take Consumer None])"
    using take opened empty put by (simp add: close_def resumeTake_def Ring_isEmpty_def)
qed

text \<open>Two sends into a queue of one slot, the second of which parks.\<close>

definition after_send :: "nat \<Rightarrow> 'a \<Rightarrow> 'a system \<Rightarrow> 'a system" where
  "after_send capacity x s =
     (let (res, r) = send capacity True True Producer x (sy_queue s) in perform r (producer_after x res s))"

lemma after_send_reachable:
  "queue_reachable capacity s \<Longrightarrow> sy_producer s = P_idle \<Longrightarrow> queue_reachable capacity (after_send capacity x s)"
  by (erule queue_reachable.Step)
    (auto simp: after_send_def Let_def case_prod_unfold intro: queue_step.Send [OF _ prod.collapse [symmetric]])

definition blocked_system :: "nat system" where
  "blocked_system = after_send 1 6 (after_send 1 5 (initial_system 1))"

lemma blocked_system_facts:
  "queue_reachable 1 blocked_system" "sy_producer blocked_system = P_waiting 6"
  "sy_refused blocked_system = False" "sy_accepted blocked_system = [5]" "sy_consumer blocked_system = C_idle"
proof -
  have "sy_producer (after_send 1 5 (initial_system 1) :: nat system) = P_idle" by code_simp
  then show "queue_reachable 1 blocked_system"
    unfolding blocked_system_def
    by (intro after_send_reachable queue_reachable.Start) (simp_all add: initial_system_def)
qed (code_simp+)

theorem queue_fifo_witness:
  "queue_reachable 1 blocked_system \<and>
   [5] = sy_received blocked_system @ ring_contents (rq_items (sy_queue blocked_system))"
  using queue_fifo [OF blocked_system_facts(1)] blocked_system_facts by simp

theorem queue_no_lost_wakeup_witness:
  "\<exists>y q'. receive True True Consumer (sy_queue blocked_system) = (Returned (Some y), q', [Resume_put Producer])"
  using queue_no_lost_wakeup [OF blocked_system_facts(1)] blocked_system_facts by simp

end
