(* ===== verification/Msg_IdMap.thy ===== *)
theory Msg_IdMap
  imports Prelude
begin

text \<open>
  The registry of pending requests (\<^verbatim>\<open>IdMap.kt\<close>): a hash table from request ids to values with
  linear probing, deletion by shifting the rest of a cluster back, and doubling at half load.
  The probing loops run until they meet a free slot, so they carry a number of rounds, the
  size of the table, and yield \<^verbatim>\<open>None\<close> when it does not suffice; that it always suffices is
  part of what is proved. The interface of a registry is the locale \<^verbatim>\<open>registry\<close>, interpreted on
  the table. Sizes are natural numbers: a table has fewer than \<open>2 ^ 31\<close> slots.
\<close>

subsection \<open>The table\<close>

record 'v IdMap =
  im_keys :: "u32 list"
  im_vals :: "'v option list"
  im_size :: nat

function tableSize_loop :: "nat \<Rightarrow> nat \<Rightarrow> nat" where
  "tableSize_loop n s = (if 0 < s \<and> s < n * 2 then tableSize_loop n (push_bit 1 s) else s)"
  by auto
termination
  by (relation "measure (\<lambda>(n, s). n * 2 - s)") (auto simp: push_bit_eq_mult)

declare tableSize_loop.simps [simp del]

definition tableSize :: "nat \<Rightarrow> nat" where
  "tableSize n = tableSize_loop n 16"

definition IdMap_new :: "nat \<Rightarrow> 'v IdMap" where
  "IdMap_new initial =
     \<lparr>im_keys = replicate (tableSize initial) 0, im_vals = replicate (tableSize initial) None, im_size = 0\<rparr>"

definition slot :: "u32 \<Rightarrow> nat \<Rightarrow> nat" where
  "slot k msk = unat (drop_bit 7 (k * (- 0x61c88647)) AND of_nat msk)"

text \<open>The probing loop that \<^verbatim>\<open>set\<close> and \<^verbatim>\<open>remove\<close> share: the first slot that is free or holds the key.\<close>

fun find_slot :: "nat \<Rightarrow> 'v IdMap \<Rightarrow> u32 \<Rightarrow> nat \<Rightarrow> nat option" where
  "find_slot 0 m k i = None"
| "find_slot (Suc rounds) m k i =
     (if im_vals m ! i = None then Some i
      else if im_keys m ! i = k then Some i
      else find_slot rounds m k ((i + 1) AND (length (im_keys m) - 1)))"

definition IdMap_put :: "'v IdMap \<Rightarrow> u32 \<Rightarrow> 'v \<Rightarrow> 'v IdMap option" where
  "IdMap_put m k v =
     (let mask = length (im_keys m) - 1
      in case find_slot (length (im_keys m)) m k (slot k mask) of
           None \<Rightarrow> None
         | Some i \<Rightarrow>
             if im_vals m ! i \<noteq> None then Some (m\<lparr>im_vals := (im_vals m)[i := Some v]\<rparr>)
             else Some (m\<lparr>im_keys := (im_keys m)[i := k], im_vals := (im_vals m)[i := Some v],
                          im_size := im_size m + 1\<rparr>))"

text \<open>Growing inserts every entry into an empty table of twice the size, with the map's own \<^verbatim>\<open>set\<close>.\<close>

definition IdMap_grow :: "('v IdMap \<Rightarrow> u32 \<Rightarrow> 'v \<Rightarrow> 'v IdMap option) \<Rightarrow> 'v IdMap \<Rightarrow> 'v IdMap option" where
  "IdMap_grow set_op m =
     fold (\<lambda>i acc. case im_vals m ! i of
                     None \<Rightarrow> acc
                   | Some v \<Rightarrow> Option.bind acc (\<lambda>m'. set_op m' (im_keys m ! i) v))
       [0..<length (im_keys m)]
       (Some \<lparr>im_keys = replicate (length (im_keys m) * 2) 0,
              im_vals = replicate (length (im_keys m) * 2) None, im_size = 0\<rparr>)"

primrec set_depth :: "nat \<Rightarrow> 'v IdMap \<Rightarrow> u32 \<Rightarrow> 'v \<Rightarrow> 'v IdMap option" where
  "set_depth 0 = (\<lambda>m k v. None)"
| "set_depth (Suc d) = (\<lambda>m k v.
     Option.bind (if (im_size m + 1) * 2 > length (im_keys m) then IdMap_grow (set_depth d) m else Some m)
       (\<lambda>m. IdMap_put m k v))"

text \<open>The insertions made while growing do not grow again, so two levels of calls are enough.\<close>

definition IdMap_set :: "'v IdMap \<Rightarrow> u32 \<Rightarrow> 'v \<Rightarrow> 'v IdMap option" where
  "IdMap_set = set_depth 2"

definition between :: "nat \<Rightarrow> nat \<Rightarrow> nat \<Rightarrow> nat \<Rightarrow> bool" where
  "between msk i j home \<longleftrightarrow>
     (if i \<le> j then i + 1 \<le> home \<and> home \<le> j else (i + 1 \<le> home \<and> home \<le> msk) \<or> home \<le> j)"

fun shift_back :: "nat \<Rightarrow> 'v IdMap \<Rightarrow> nat \<Rightarrow> nat \<Rightarrow> 'v IdMap option" where
  "shift_back 0 m i j = None"
| "shift_back (Suc rounds) m i j =
     (if im_vals m ! j = None then Some m
      else let mask = length (im_keys m) - 1;
               home = slot (im_keys m ! j) mask
           in if \<not> between mask i j home
              then shift_back rounds
                     (m\<lparr>im_keys := (im_keys m)[i := im_keys m ! j],
                        im_vals := (im_vals m)[i := im_vals m ! j, j := None]\<rparr>) j ((j + 1) AND mask)
              else shift_back rounds m i ((j + 1) AND mask))"

definition IdMap_remove :: "'v IdMap \<Rightarrow> u32 \<Rightarrow> ('v option \<times> 'v IdMap) option" where
  "IdMap_remove m k =
     (let mask = length (im_keys m) - 1
      in case find_slot (length (im_keys m)) m k (slot k mask) of
           None \<Rightarrow> None
         | Some i \<Rightarrow>
             (case im_vals m ! i of
                None \<Rightarrow> Some (None, m)
              | Some v \<Rightarrow>
                  map_option (\<lambda>m. (Some v, m))
                    (shift_back (length (im_keys m))
                       (m\<lparr>im_vals := (im_vals m)[i := None], im_size := im_size m - 1\<rparr>)
                       i ((i + 1) AND mask))))"

definition IdMap_values :: "'v IdMap \<Rightarrow> 'v list" where
  "IdMap_values m = List.map_filter (\<lambda>v. v) (im_vals m)"

definition IdMap_clear :: "'v IdMap \<Rightarrow> 'v IdMap" where
  "IdMap_clear m = m\<lparr>im_vals := replicate (length (im_vals m)) None, im_size := 0\<rparr>"

subsection \<open>Circular distances\<close>

text \<open>The number of steps from one slot to another, going up and around.\<close>

definition steps :: "nat \<Rightarrow> nat \<Rightarrow> nat \<Rightarrow> nat" where
  "steps n a b = (if a \<le> b then b - a else b + n - a)"

definition next_slot :: "nat \<Rightarrow> nat \<Rightarrow> nat" where
  "next_slot n i = (if i + 1 = n then 0 else i + 1)"

lemma steps_less: "a < n \<Longrightarrow> b < n \<Longrightarrow> steps n a b < n"
  by (auto simp: steps_def)

lemma steps_0_iff: "a < n \<Longrightarrow> b < n \<Longrightarrow> steps n a b = 0 \<longleftrightarrow> a = b"
  by (auto simp: steps_def)

lemma steps_inj: "a < n \<Longrightarrow> b < n \<Longrightarrow> c < n \<Longrightarrow> steps n a b = steps n a c \<longleftrightarrow> b = c"
  by (auto simp: steps_def split: if_splits)

lemma steps_self [simp]: "steps n a a = 0"
  by (simp add: steps_def)

lemma next_slot_less: "i < n \<Longrightarrow> next_slot n i < n"
  by (auto simp: next_slot_def)

lemma steps_next: "a < n \<Longrightarrow> b < n \<Longrightarrow> next_slot n b \<noteq> a \<Longrightarrow> steps n a (next_slot n b) = Suc (steps n a b)"
  by (auto simp: steps_def next_slot_def split: if_splits)

lemma next_steps: "a < n \<Longrightarrow> b < n \<Longrightarrow> a \<noteq> b \<Longrightarrow> Suc (steps n (next_slot n a) b) = steps n a b"
  by (auto simp: steps_def next_slot_def split: if_splits)

lemma steps_around: "a < n \<Longrightarrow> b < n \<Longrightarrow> next_slot n b = a \<Longrightarrow> steps n a b = n - 1"
  by (auto simp: steps_def next_slot_def split: if_splits)

lemma steps_via:
  "a < n \<Longrightarrow> b < n \<Longrightarrow> c < n \<Longrightarrow> steps n a b < steps n a c \<Longrightarrow> d < n \<Longrightarrow> steps n b d < steps n b c \<Longrightarrow>
   steps n a d < steps n a c"
  by (auto simp: steps_def split: if_splits)

lemma between_steps:
  "i < n \<Longrightarrow> j < n \<Longrightarrow> h < n \<Longrightarrow> i \<noteq> j \<Longrightarrow> between (n - 1) i j h \<longleftrightarrow> \<not> steps n h i < steps n h j"
  by (auto simp: between_def steps_def)

lemma and_mask_nat: "(x :: nat) AND (2 ^ b - 1) = x mod 2 ^ b"
  using take_bit_eq_mask [of b x] by (simp add: mask_eq_exp_minus_1 take_bit_eq_mod)

lemma next_slot_mask: "n = 2 ^ b \<Longrightarrow> i < n \<Longrightarrow> (i + 1) AND (n - 1) = next_slot n i"
  by (auto simp: and_mask_nat next_slot_def mod_if simp del: One_nat_def)

lemma slot_less: "0 < n \<Longrightarrow> slot k (n - 1) < n"
proof -
  assume n: "0 < n"
  have "slot k (n - 1) \<le> unat (of_nat (n - 1) :: u32)"
    unfolding slot_def by (simp add: word_and_le1 flip: word_le_nat_alt)
  also have "\<dots> \<le> n - 1" by (simp add: unat_of_nat del: of_nat_diff)
  finally show ?thesis using n by simp
qed

subsection \<open>The invariant\<close>

abbreviation cap :: "'v IdMap \<Rightarrow> nat" where
  "cap m \<equiv> length (im_keys m)"

definition home :: "'v IdMap \<Rightarrow> u32 \<Rightarrow> nat" where
  "home m k = slot k (cap m - 1)"

definition used :: "'v IdMap \<Rightarrow> nat \<Rightarrow> bool" where
  "used m p \<longleftrightarrow> p < cap m \<and> im_vals m ! p \<noteq> None"

definition shaped :: "'v IdMap \<Rightarrow> bool" where
  "shaped m \<longleftrightarrow> (\<exists>b\<ge>4. cap m = 2 ^ b) \<and> length (im_vals m) = cap m"

definition keys_distinct :: "'v IdMap \<Rightarrow> bool" where
  "keys_distinct m \<longleftrightarrow> (\<forall>p q. used m p \<longrightarrow> used m q \<longrightarrow> im_keys m ! p = im_keys m ! q \<longrightarrow> p = q)"

text \<open>Probing from the home of a key meets no free slot before the key.\<close>

definition probes_ok :: "'v IdMap \<Rightarrow> bool" where
  "probes_ok m \<longleftrightarrow>
     (\<forall>p q. used m p \<longrightarrow> q < cap m \<longrightarrow> steps (cap m) (home m (im_keys m ! p)) q < steps (cap m) (home m (im_keys m ! p)) p \<longrightarrow> used m q)"

definition counted :: "'v IdMap \<Rightarrow> bool" where
  "counted m \<longleftrightarrow> im_size m = card {p. used m p} \<and> im_size m * 2 \<le> cap m"

definition idmap_ok :: "'v IdMap \<Rightarrow> bool" where
  "idmap_ok m \<longleftrightarrow> shaped m \<and> keys_distinct m \<and> probes_ok m \<and> counted m"

text \<open>The entries, and the finite map they make.\<close>

definition entries :: "'v IdMap \<Rightarrow> (u32 \<times> 'v) set" where
  "entries m = {(im_keys m ! p, v) | p v. p < cap m \<and> im_vals m ! p = Some v}"

definition idmap_lookup :: "'v IdMap \<Rightarrow> u32 \<Rightarrow> 'v option" where
  "idmap_lookup m k =
     map_of (List.map_filter (\<lambda>p. map_option (Pair (im_keys m ! p)) (im_vals m ! p)) [0..<cap m]) k"

lemma shapedD:
  assumes "shaped m"
  shows "16 \<le> cap m" "0 < cap m" "length (im_vals m) = cap m"
    "i < cap m \<Longrightarrow> (i + 1) AND (cap m - 1) = next_slot (cap m) i" "home m k < cap m"
proof -
  from assms obtain b where b: "4 \<le> b" "cap m = 2 ^ b" by (auto simp: shaped_def)
  have "2 ^ 4 \<le> (2 :: nat) ^ b" using b(1) by (intro power_increasing) simp_all
  with b show n: "16 \<le> cap m" by simp
  then show "0 < cap m" by linarith
  then show "home m k < cap m" unfolding home_def by (rule slot_less)
  show "length (im_vals m) = cap m" using assms by (simp add: shaped_def)
  show "i < cap m \<Longrightarrow> (i + 1) AND (cap m - 1) = next_slot (cap m) i"
    by (rule next_slot_mask [OF b(2)])
qed

lemma finite_used [simp]: "finite {p. used m p}"
  by (rule finite_subset [of _ "{..<cap m}"]) (auto simp: used_def)

lemma set_map_filter: "set (List.map_filter f xs) = {y. \<exists>x\<in>set xs. f x = Some y}"
  by (induction xs) (auto simp: map_filter_simps split: option.splits)

lemma lookup_Some:
  assumes "keys_distinct m"
  shows "idmap_lookup m k = Some v \<longleftrightarrow> (k, v) \<in> entries m"
proof -
  let ?xs = "List.map_filter (\<lambda>p. map_option (Pair (im_keys m ! p)) (im_vals m ! p)) [0..<cap m]"
  have set: "set ?xs = entries m" by (auto simp: set_map_filter entries_def)
  show ?thesis
  proof
    assume "idmap_lookup m k = Some v"
    then show "(k, v) \<in> entries m" using set by (auto simp: idmap_lookup_def dest: map_of_SomeD)
  next
    assume kv: "(k, v) \<in> entries m"
    with set have "(k, v) \<in> set ?xs" by simp
    from weak_map_of_SomeI [OF this] obtain w where w: "idmap_lookup m k = Some w"
      unfolding idmap_lookup_def by blast
    then have "(k, w) \<in> entries m" using set by (auto simp: idmap_lookup_def dest: map_of_SomeD)
    with kv obtain p q where "used m p" "used m q" "im_keys m ! p = im_keys m ! q"
      "im_vals m ! p = Some w" "im_vals m ! q = Some v" by (auto simp: entries_def used_def)
    with assms have "w = v" unfolding keys_distinct_def by (metis option.inject)
    with w show "idmap_lookup m k = Some v" by simp
  qed
qed

lemma lookup_eqI:
  assumes "keys_distinct m" and "\<And>k v. (k, v) \<in> entries m \<longleftrightarrow> f k = Some v"
  shows "idmap_lookup m = f"
proof
  fix k
  have "idmap_lookup m k = Some v \<longleftrightarrow> f k = Some v" for v
    by (simp only: lookup_Some [OF assms(1)] assms(2))
  then show "idmap_lookup m k = f k" by (metis option.exhaust)
qed

subsection \<open>Probing\<close>

lemma free_slot:
  assumes "idmap_ok m" obtains e where "e < cap m" and "im_vals m ! e = None"
proof -
  have sh: "0 < cap m" using assms shapedD(2) by (auto simp: idmap_ok_def)
  have "card {p. used m p} * 2 \<le> cap m" using assms by (simp add: idmap_ok_def counted_def)
  then have "card {p. used m p} < cap m" using sh by linarith
  moreover have "{p. used m p} = {..<cap m}" if "\<forall>e<cap m. im_vals m ! e \<noteq> None"
    using that by (auto simp: used_def)
  ultimately have "\<not> (\<forall>e<cap m. im_vals m ! e \<noteq> None)"
    by (metis card_lessThan less_irrefl)
  then show ?thesis using that by blast
qed

definition found_at :: "'v IdMap \<Rightarrow> u32 \<Rightarrow> nat \<Rightarrow> bool" where
  "found_at m k r \<longleftrightarrow> r < cap m \<and> (im_vals m ! r = None \<or> im_keys m ! r = k) \<and>
     (\<forall>q<cap m. steps (cap m) (home m k) q < steps (cap m) (home m k) r \<longrightarrow>
        used m q \<and> im_keys m ! q \<noteq> k)"

lemma find_slot_found:
  assumes sh: "shaped m" and e: "e < cap m" "im_vals m ! e = None" and i: "i < cap m"
    and before: "\<forall>q<cap m. steps (cap m) (home m k) q < steps (cap m) (home m k) i \<longrightarrow>
        used m q \<and> im_keys m ! q \<noteq> k"
    and ahead: "steps (cap m) (home m k) i \<le> steps (cap m) (home m k) e"
    and rounds: "steps (cap m) (home m k) e < rounds + steps (cap m) (home m k) i"
  shows "\<exists>r. find_slot rounds m k i = Some r \<and> found_at m k r"
  using i before ahead rounds
proof (induction rounds arbitrary: i)
  case (Suc rounds)
  let ?n = "cap m" and ?h = "home m k"
  note n = shapedD [OF sh]
  show ?case
  proof (cases "im_vals m ! i = None \<or> im_keys m ! i = k")
    case True
    then show ?thesis using Suc.prems by (auto simp: found_at_def)
  next
    case False
    then have "i \<noteq> e" using e by auto
    then have less: "steps ?n ?h i < steps ?n ?h e"
      using Suc.prems(1,3) e(1) n(5) [of k] steps_inj [of ?h ?n i e] by linarith
    then have "next_slot ?n i \<noteq> ?h"
      using steps_around [of ?h ?n i] steps_less [of ?h ?n e] Suc.prems(1) e(1) n(5) [of k] by force
    then have nxt: "steps ?n ?h (next_slot ?n i) = Suc (steps ?n ?h i)"
      using steps_next n(5) Suc.prems(1) by metis
    have "\<forall>q<?n. steps ?n ?h q < steps ?n ?h (next_slot ?n i) \<longrightarrow> used m q \<and> im_keys m ! q \<noteq> k"
      using Suc.prems(1,2) False steps_inj [OF n(5) [of k] _ Suc.prems(1)]
      by (auto simp: nxt less_Suc_eq used_def)
    from Suc.IH [OF next_slot_less [OF Suc.prems(1)] this] nxt less Suc.prems(4) False n(4) [OF Suc.prems(1)]
    show ?thesis by auto
  qed
qed simp

lemma find_slot_ok:
  assumes "idmap_ok m"
  shows "\<exists>r. find_slot (cap m) m k (home m k) = Some r \<and> found_at m k r"
proof -
  from assms obtain e where e: "e < cap m" "im_vals m ! e = None" by (rule free_slot)
  have sh: "shaped m" using assms by (simp add: idmap_ok_def)
  have "steps (cap m) (home m k) e < cap m" by (rule steps_less [OF shapedD(5) [OF sh] e(1)])
  then show ?thesis
    by (intro find_slot_found [OF sh e]) (simp_all add: shapedD(5) [OF sh])
qed

lemma found_free:
  assumes ok: "idmap_ok m" and f: "found_at m k r" and free: "im_vals m ! r = None" and p: "used m p"
  shows "im_keys m ! p \<noteq> k"
proof
  assume k: "im_keys m ! p = k"
  have sh: "shaped m" and probes: "probes_ok m" using ok by (simp_all add: idmap_ok_def)
  have "r < cap m" "p < cap m" using f p by (simp_all add: found_at_def used_def)
  moreover have "\<not> used m r" using free by (simp add: used_def)
  ultimately have "\<not> steps (cap m) (home m k) r < steps (cap m) (home m k) p"
    using probes p k by (auto simp: probes_ok_def)
  moreover have "\<not> steps (cap m) (home m k) p < steps (cap m) (home m k) r"
    using f k \<open>p < cap m\<close> by (auto simp: found_at_def)
  ultimately have "r = p"
    using steps_inj [OF shapedD(5) [OF sh, of k] \<open>r < cap m\<close> \<open>p < cap m\<close>] by linarith
  then show False using p free by (simp add: used_def)
qed

lemma found_lookup:
  assumes ok: "idmap_ok m" and f: "found_at m k r"
  shows "idmap_lookup m k = im_vals m ! r"
proof (cases "im_vals m ! r")
  case None
  then have "\<forall>v. (k, v) \<notin> entries m"
    using found_free [OF ok f None] by (auto simp: entries_def used_def)
  then show ?thesis using None lookup_Some [of m k] ok by (auto simp: idmap_ok_def)
next
  case (Some v)
  then have "(k, v) \<in> entries m" using f by (auto simp: entries_def found_at_def)
  then show ?thesis using Some lookup_Some [of m k v] ok by (simp add: idmap_ok_def)
qed

text \<open>The two ways a table changes at one slot.\<close>

lemma put_existing:
  assumes ok: "idmap_ok m" and f: "found_at m k r" and u: "im_vals m ! r \<noteq> None"
  shows "idmap_ok (m\<lparr>im_vals := (im_vals m)[r := Some v]\<rparr>)" (is "idmap_ok ?m")
    and "idmap_lookup (m\<lparr>im_vals := (im_vals m)[r := Some v]\<rparr>) = (idmap_lookup m)(k \<mapsto> v)"
proof -
  have sh: "shaped m" and r: "r < cap m" "im_keys m ! r = k" and dist: "keys_distinct m"
    using ok f u by (auto simp: idmap_ok_def found_at_def)
  note len = shapedD(3) [OF sh]
  have used: "used ?m p \<longleftrightarrow> used m p" for p
    using u r len by (auto simp: used_def nth_list_update)
  show ok': "idmap_ok ?m"
    using ok used by (simp add: idmap_ok_def shaped_def keys_distinct_def probes_ok_def counted_def home_def)
  have "(k', w) \<in> entries ?m \<longleftrightarrow> (if k' = k then w = v else (k', w) \<in> entries m)" for k' w
    using dist r u len by (auto simp: entries_def keys_distinct_def used_def nth_list_update)
  then show "idmap_lookup ?m = (idmap_lookup m)(k \<mapsto> v)"
    using ok' by (intro lookup_eqI) (auto simp: idmap_ok_def lookup_Some [OF dist])
qed

lemma put_free:
  fixes v :: 'v
  assumes ok: "idmap_ok m" and f: "found_at m k r" and u: "im_vals m ! r = None"
    and room: "(im_size m + 1) * 2 \<le> cap m"
  defines "m' \<equiv> m\<lparr>im_keys := (im_keys m)[r := k], im_vals := (im_vals m)[r := Some v], im_size := im_size m + 1\<rparr>"
  shows "idmap_ok m'" and "idmap_lookup m' = (idmap_lookup m)(k \<mapsto> v)"
proof -
  have sh: "shaped m" and r: "r < cap m" and dist: "keys_distinct m" and probes: "probes_ok m"
    and count: "counted m"
    using ok f u by (auto simp: idmap_ok_def found_at_def)
  note len = shapedD(3) [OF sh] and absent = found_free [OF ok f u]
  have used: "used m' p \<longleftrightarrow> used m p \<or> p = r" for p
    using r len by (auto simp: m'_def used_def nth_list_update)
  have key: "im_keys m' ! p = (if p = r then k else im_keys m ! p)" for p
    using r by (auto simp: m'_def nth_list_update)
  have hm: "home m' = home m" "cap m' = cap m" by (simp_all add: m'_def home_def fun_eq_iff)
  have "\<not> used m r" using u by (simp add: used_def)
  moreover have "{p. used m' p} = insert r {p. used m p}" by (auto simp: used)
  ultimately have "card {p. used m' p} = Suc (card {p. used m p})" by simp
  then have "counted m'" using count room by (simp add: counted_def hm) (simp add: m'_def)
  moreover have dist': "keys_distinct m'"
    using dist absent by (auto simp: keys_distinct_def used key)
  moreover have "probes_ok m'"
    using probes f by (auto simp: probes_ok_def used key hm found_at_def)
  moreover have "shaped m'" using sh by (simp add: shaped_def m'_def)
  ultimately show "idmap_ok m'" by (simp add: idmap_ok_def)
  have "(k', w) \<in> entries m' \<longleftrightarrow> (if k' = k then w = v else (k', w) \<in> entries m)" for k' w
    using r len u absent
    by (auto simp: entries_def key hm used_def m'_def nth_list_update) (metis option.distinct(1))
  then show "idmap_lookup m' = (idmap_lookup m)(k \<mapsto> v)"
    using dist' by (intro lookup_eqI) (auto simp: lookup_Some [OF dist])
qed

lemma idmap_put:
  assumes ok: "idmap_ok m" and room: "(im_size m + 1) * 2 \<le> cap m"
  shows "\<exists>m'. IdMap_put m k v = Some m' \<and> idmap_ok m' \<and> idmap_lookup m' = (idmap_lookup m)(k \<mapsto> v) \<and>
    cap m' = cap m \<and> im_size m' \<le> Suc (im_size m)"
proof -
  from find_slot_ok [OF ok] obtain r where r: "find_slot (cap m) m k (home m k) = Some r" "found_at m k r"
    by blast
  have put: "IdMap_put m k v =
      (if im_vals m ! r \<noteq> None then Some (m\<lparr>im_vals := (im_vals m)[r := Some v]\<rparr>)
       else Some (m\<lparr>im_keys := (im_keys m)[r := k], im_vals := (im_vals m)[r := Some v],
                    im_size := im_size m + 1\<rparr>))"
    unfolding IdMap_put_def Let_def home_def [symmetric] r(1) by simp
  show ?thesis
    using put_existing [OF ok r(2), of v] put_free [OF ok r(2) _ room, of v]
    by (cases "im_vals m ! r = None") (simp_all add: put)
qed

lemma set_depth_room:
  assumes ok: "idmap_ok m" and room: "(im_size m + 1) * 2 \<le> cap m"
  shows "set_depth (Suc d) m k v = IdMap_put m k v"
  using room by simp

subsection \<open>Growing\<close>

lemma empty_table_ok:
  fixes m :: "'v IdMap"
  assumes "4 \<le> b"
  defines "m \<equiv> \<lparr>im_keys = replicate (2 ^ b) 0, im_vals = replicate (2 ^ b) None, im_size = 0\<rparr>"
  shows "idmap_ok m" and "idmap_lookup m = Map.empty"
proof -
  have u: "\<not> used m p" for p by (auto simp: used_def m_def)
  then show "idmap_ok m"
    using assms by (auto simp: idmap_ok_def shaped_def keys_distinct_def probes_ok_def counted_def)
  have "entries m = {}" by (auto simp: entries_def m_def)
  then show "idmap_lookup m = Map.empty"
    using u by (intro lookup_eqI) (auto simp: keys_distinct_def)
qed

text \<open>After the first \<^verbatim>\<open>i\<close> slots of the old table have been inserted into the new one.\<close>

definition grown :: "'v IdMap \<Rightarrow> nat \<Rightarrow> 'v IdMap \<Rightarrow> bool" where
  "grown m i m' \<longleftrightarrow> idmap_ok m' \<and> cap m' = cap m * 2 \<and> im_size m' \<le> card {p. p < i \<and> used m p} \<and>
     (\<forall>k v. idmap_lookup m' k = Some v \<longleftrightarrow> (\<exists>p<i. p < cap m \<and> im_keys m ! p = k \<and> im_vals m ! p = Some v))"

lemma grown_Suc:
  assumes ok: "idmap_ok m" and g: "grown m i m'" and i: "i < cap m" and v: "im_vals m ! i = Some v"
  shows "\<exists>m''. set_depth (Suc d) m' (im_keys m ! i) v = Some m'' \<and> grown m (Suc i) m''"
proof -
  have u: "used m i" using i v by (simp add: used_def)
  have split: "{p. p < Suc i \<and> used m p} = insert i {p. p < i \<and> used m p}" using u by (auto simp: less_Suc_eq)
  have "card {p. p < Suc i \<and> used m p} \<le> card {p. used m p}" by (rule card_mono) auto
  moreover have card: "card {p. p < Suc i \<and> used m p} = Suc (card {p. p < i \<and> used m p})"
    by (simp add: split)
  ultimately have room: "(im_size m' + 1) * 2 \<le> cap m'"
    using g ok by (simp add: grown_def idmap_ok_def counted_def)
  have ok': "idmap_ok m'" using g by (simp add: grown_def)
  from idmap_put [OF ok' room] obtain m'' where m'': "IdMap_put m' (im_keys m ! i) v = Some m''"
    "idmap_ok m''" "idmap_lookup m'' = (idmap_lookup m')(im_keys m ! i \<mapsto> v)" "cap m'' = cap m'"
    "im_size m'' \<le> Suc (im_size m')" by blast
  have "idmap_lookup m'' k = Some w \<longleftrightarrow> (\<exists>p<Suc i. p < cap m \<and> im_keys m ! p = k \<and> im_vals m ! p = Some w)" for k w
  proof (cases "k = im_keys m ! i")
    case True
    have "w = v" if p: "p < cap m" "im_keys m ! p = k" "im_vals m ! p = Some w" for p
    proof -
      have "used m p" using p by (simp add: used_def)
      then have "p = i" using ok u p(2) True by (auto simp: idmap_ok_def keys_distinct_def)
      then show ?thesis using p v by simp
    qed
    then have "(\<exists>p<Suc i. p < cap m \<and> im_keys m ! p = k \<and> im_vals m ! p = Some w) \<longleftrightarrow> w = v"
      using i v True by blast
    then show ?thesis using True m''(3) by auto
  next
    case False
    then show ?thesis using m''(3) g by (auto simp: grown_def less_Suc_eq)
  qed
  then have "grown m (Suc i) m''"
    using m'' g card by (simp add: grown_def)
  then show ?thesis using m''(1) set_depth_room [OF ok' room] by auto
qed

lemma grow_ok:
  assumes ok: "idmap_ok m"
  shows "\<exists>m'. IdMap_grow (set_depth (Suc d)) m = Some m' \<and> grown m (cap m) m'"
proof -
  let ?step = "\<lambda>i acc. case im_vals m ! i of None \<Rightarrow> acc
      | Some v \<Rightarrow> Option.bind acc (\<lambda>m'. set_depth (Suc d) m' (im_keys m ! i) v)"
  let ?empty = "\<lparr>im_keys = replicate (cap m * 2) 0, im_vals = replicate (cap m * 2) None, im_size = 0\<rparr> :: 'a IdMap"
  obtain b where b: "4 \<le> b" "cap m = 2 ^ b" using ok by (auto simp: idmap_ok_def shaped_def)
  have "\<exists>m'. fold ?step [0..<i] (Some ?empty) = Some m' \<and> grown m i m'" if "i \<le> cap m" for i
    using that
  proof (induction i)
    case 0
    show ?case
      using empty_table_ok [of "Suc b", where ?'v = 'a] b by (simp add: grown_def mult.commute)
  next
    case (Suc i)
    then obtain m' where m': "fold ?step [0..<i] (Some ?empty) = Some m'" "grown m i m'" by auto
    show ?case
    proof (cases "im_vals m ! i")
      case None
      have "{p. p < Suc i \<and> used m p} = {p. p < i \<and> used m p}"
        using None by (auto simp: less_Suc_eq used_def)
      then have "grown m (Suc i) m'" using m'(2) None by (auto simp: grown_def less_Suc_eq)
      then show ?thesis using m'(1) None by simp
    next
      case (Some v)
      from grown_Suc [OF ok m'(2) _ Some, of d] Suc.prems m'(1) Some show ?thesis by auto
    qed
  qed
  from this [of "cap m"] show ?thesis unfolding IdMap_grow_def by blast
qed

text \<open>Setting an entry always ends and updates the finite map.\<close>

lemma idmap_set:
  assumes ok: "idmap_ok m"
  shows "\<exists>m'. IdMap_set m k v = Some m' \<and> idmap_ok m' \<and> idmap_lookup m' = (idmap_lookup m)(k \<mapsto> v)"
proof (cases "(im_size m + 1) * 2 \<le> cap m")
  case True
  then show ?thesis
    using idmap_put [OF ok True, of k v] set_depth_room [OF ok True, of 1 k v]
    by (auto simp: IdMap_set_def numeral_2_eq_2)
next
  case False
  from grow_ok [OF ok, of 0] obtain m' where m': "IdMap_grow (set_depth 1) m = Some m'" "grown m (cap m) m'"
    by auto
  have ok': "idmap_ok m'" using m'(2) by (simp add: grown_def)
  have "card {p. p < cap m \<and> used m p} = im_size m"
    using ok by (auto simp: idmap_ok_def counted_def used_def intro: arg_cong [of _ _ card])
  then have "im_size m' * 2 \<le> cap m" "cap m' = cap m * 2"
    using m'(2) ok by (auto simp: grown_def idmap_ok_def counted_def)
  moreover have "16 \<le> cap m" using ok shapedD(1) [of m] by (simp add: idmap_ok_def)
  ultimately have room: "(im_size m' + 1) * 2 \<le> cap m'" by simp
  have "(k, v) \<in> entries m \<longleftrightarrow> idmap_lookup m' k = Some v" for k v
    using m'(2) by (auto simp: grown_def entries_def)
  then have "idmap_lookup m = idmap_lookup m'"
    using ok by (intro lookup_eqI) (auto simp: idmap_ok_def)
  then show ?thesis
    using idmap_put [OF ok' room, of k v] m'(1) False
    by (auto simp: IdMap_set_def numeral_2_eq_2)
qed

subsection \<open>Removing\<close>

text \<open>
  While a cluster is shifted back there is a hole \<^verbatim>\<open>i\<close>, and only entries at the cursor \<^verbatim>\<open>j\<close> or
  behind it may have the hole on their probing path.
\<close>

definition shifting :: "'v IdMap \<Rightarrow> nat \<Rightarrow> nat \<Rightarrow> bool" where
  "shifting m i j \<longleftrightarrow> shaped m \<and> keys_distinct m \<and> i < cap m \<and> j < cap m \<and> i \<noteq> j \<and> \<not> used m i \<and>
     (\<forall>p q. used m p \<longrightarrow> q < cap m \<longrightarrow>
        steps (cap m) (home m (im_keys m ! p)) q < steps (cap m) (home m (im_keys m ! p)) p \<longrightarrow>
        used m q \<or> q = i \<and> steps (cap m) i j \<le> steps (cap m) i p)"

lemma shifting_end:
  assumes s: "shifting m i j" and j: "\<not> used m j"
  shows "probes_ok m"
  unfolding probes_ok_def
proof (intro allI impI)
  fix p q
  assume p: "used m p" and q: "q < cap m"
    and before: "steps (cap m) (home m (im_keys m ! p)) q < steps (cap m) (home m (im_keys m ! p)) p"
  let ?n = "cap m" and ?h = "home m (im_keys m ! p)"
  have h: "?h < ?n" and ij: "i < ?n" "j < ?n" "i \<noteq> j" and pn: "p < ?n"
    using s p shapedD(5) by (auto simp: shifting_def used_def)
  show "used m q"
  proof (rule ccontr)
    assume "\<not> used m q"
    then have "q = i" "steps ?n i j \<le> steps ?n i p" using s p q before by (auto simp: shifting_def)
    moreover have "j \<noteq> p" using p j by auto
    ultimately have "steps ?n i j < steps ?n i p"
      using steps_inj [OF ij(1,2) pn] by linarith
    then have "steps ?n ?h j < steps ?n ?h p"
      using steps_via [OF h ij(1) pn _ ij(2)] before \<open>q = i\<close> by simp
    then have "j = i" using s p ij(2) j by (auto simp: shifting_def)
    then show False using ij(3) by simp
  qed
qed

definition shifted :: "'v IdMap \<Rightarrow> nat \<Rightarrow> nat \<Rightarrow> 'v IdMap" where
  "shifted m i j = m\<lparr>im_keys := (im_keys m)[i := im_keys m ! j], im_vals := (im_vals m)[i := im_vals m ! j, j := None]\<rparr>"

lemma shifted_facts:
  assumes s: "shifting m i j" and u: "used m j"
  shows "used (shifted m i j) p \<longleftrightarrow> (used m p \<or> p = i) \<and> p \<noteq> j"
    and "im_keys (shifted m i j) ! p = (if p = i then im_keys m ! j else im_keys m ! p)"
    and "cap (shifted m i j) = cap m" and "home (shifted m i j) = home m"
    and "entries (shifted m i j) = entries m" and "card {p. used (shifted m i j) p} = card {p. used m p}"
    and "shaped (shifted m i j)" and "im_size (shifted m i j) = im_size m"
proof -
  have sh: "shaped m" and ij: "i < cap m" "j < cap m" "i \<noteq> j" "\<not> used m i"
    using s by (auto simp: shifting_def)
  note len = shapedD(3) [OF sh]
  show used: "used (shifted m i j) p \<longleftrightarrow> (used m p \<or> p = i) \<and> p \<noteq> j" for p
    using ij u len by (auto simp: shifted_def used_def nth_list_update)
  show key: "im_keys (shifted m i j) ! p = (if p = i then im_keys m ! j else im_keys m ! p)" for p
    using ij by (auto simp: shifted_def nth_list_update)
  show cap: "cap (shifted m i j) = cap m" "shaped (shifted m i j)" "im_size (shifted m i j) = im_size m"
    using sh by (simp_all add: shifted_def shaped_def)
  then show "home (shifted m i j) = home m" by (simp add: home_def fun_eq_iff)
  have val: "im_vals (shifted m i j) ! p = (if p = j then None else if p = i then im_vals m ! j else im_vals m ! p)" for p
    using ij len by (auto simp: shifted_def nth_list_update)
  have "im_vals m ! i = None" using ij by (simp add: used_def)
  then show "entries (shifted m i j) = entries m"
    using ij unfolding entries_def cap key val by (auto split: if_splits) (metis option.distinct(1))+
  have "{p. used (shifted m i j) p} = insert i ({p. used m p} - {j})" using ij by (auto simp: used)
  moreover have "card {p. used m p} = Suc (card ({p. used m p} - {j}))"
    by (rule card.remove) (use u in simp_all)
  ultimately show "card {p. used (shifted m i j) p} = card {p. used m p}"
    using ij(4) by (simp del: card_Diff_insert)
qed

lemma next_slot_neq: "shaped m \<Longrightarrow> j < cap m \<Longrightarrow> next_slot (cap m) j \<noteq> j"
  using shapedD(1) [of m] by (auto simp: next_slot_def)

lemma shifting_shifted:
  assumes s: "shifting m i j" and u: "used m j"
    and crosses: "steps (cap m) (home m (im_keys m ! j)) i < steps (cap m) (home m (im_keys m ! j)) j"
  shows "shifting (shifted m i j) j (next_slot (cap m) j)"
proof -
  let ?n = "cap m" and ?m = "shifted m i j"
  note M = shifted_facts [OF s u]
  have sh: "shaped m" and dist: "keys_distinct m" and ij: "i < ?n" "j < ?n" "i \<noteq> j" "\<not> used m i"
    and path: "\<And>p q. used m p \<Longrightarrow> q < ?n \<Longrightarrow>
      steps ?n (home m (im_keys m ! p)) q < steps ?n (home m (im_keys m ! p)) p \<Longrightarrow> used m q \<or> q = i"
    using s by (auto simp: shifting_def)
  have dist': "keys_distinct ?m"
    using dist u unfolding keys_distinct_def M(1,2) by (auto split: if_splits)
  have near: "steps ?n j (next_slot ?n j) \<le> steps ?n j p" if "p \<noteq> j" "p < ?n" for p
    using that ij(2) steps_0_iff [of j ?n p] steps_next [of j ?n j] next_slot_neq [OF sh ij(2)] by simp
  have "used ?m q \<or> q = j \<and> steps ?n j (next_slot ?n j) \<le> steps ?n j p"
    if p: "used ?m p" and q: "q < ?n"
      and lt: "steps ?n (home m (im_keys ?m ! p)) q < steps ?n (home m (im_keys ?m ! p)) p" for p q
  proof (cases "p = i")
    case True
    with lt crosses have "steps ?n (home m (im_keys m ! j)) q < steps ?n (home m (im_keys m ! j)) i"
      by (simp add: M(2))
    moreover from this have "q \<noteq> j" using crosses by auto
    moreover from calculation have "q = i \<or> used m q" using path [OF u q] crosses by force
    ultimately show ?thesis by (auto simp: M(1))
  next
    case False
    with p have "used m p" "p \<noteq> j" by (auto simp: M(1))
    moreover from this have "p < ?n" by (simp add: used_def)
    ultimately have "used m p" "p \<noteq> j" "p < ?n" by simp_all
    with path [OF this(1) q] lt False near [of p] show ?thesis by (auto simp: M(1,2))
  qed
  then show ?thesis
    using M dist' ij next_slot_less [OF ij(2)] next_slot_neq [OF sh ij(2)]
    by (auto simp: shifting_def)
qed

lemma shifting_stay:
  assumes s: "shifting m i j" and u: "used m j" and far: "next_slot (cap m) j \<noteq> i"
    and clear: "\<not> steps (cap m) (home m (im_keys m ! j)) i < steps (cap m) (home m (im_keys m ! j)) j"
  shows "shifting m i (next_slot (cap m) j)"
proof -
  have ij: "i < cap m" "j < cap m" using s by (auto simp: shifting_def)
  have "steps (cap m) i (next_slot (cap m) j) \<le> steps (cap m) i p"
    if "steps (cap m) i j \<le> steps (cap m) i p" "p \<noteq> j" "p < cap m" for p
    using that steps_inj [OF ij, of p] steps_next [OF ij far] by linarith
  with s far clear next_slot_less [OF ij(2)] show ?thesis
    unfolding shifting_def used_def by blast
qed

lemma shift_back_ok:
  assumes "shifting m i j" and "e < cap m" and "\<not> used m e" and "e \<noteq> i"
    and "steps (cap m) i j \<le> steps (cap m) i e" and "steps (cap m) j e < rounds"
  shows "\<exists>m'. shift_back rounds m i j = Some m' \<and> shaped m' \<and> keys_distinct m' \<and> probes_ok m' \<and>
    entries m' = entries m \<and> card {p. used m' p} = card {p. used m p} \<and> im_size m' = im_size m \<and> cap m' = cap m"
  using assms
proof (induction rounds arbitrary: m i j)
  case (Suc rounds)
  let ?n = "cap m" and ?h = "home m (im_keys m ! j)"
  have sh: "shaped m" and dist: "keys_distinct m" and ij: "i < ?n" "j < ?n" "i \<noteq> j"
    using Suc.prems(1) by (auto simp: shifting_def)
  note nxt = shapedD(4) [OF sh ij(2)]
  have btw: "between (?n - 1) i j ?h \<longleftrightarrow> \<not> steps ?n ?h i < steps ?n ?h j"
    by (rule between_steps [OF ij(1,2) shapedD(5) [OF sh] ij(3)])
  have unfold: "used m j \<Longrightarrow> shift_back (Suc rounds) m i j =
      (if \<not> between (?n - 1) i j ?h then shift_back rounds (shifted m i j) j (next_slot ?n j)
       else shift_back rounds m i (next_slot ?n j))"
    using nxt by (auto simp: used_def shifted_def home_def)
  show ?case
  proof (cases "used m j")
    case False
    then show ?thesis
      using shifting_end [OF Suc.prems(1)] sh dist ij(2) by (simp add: used_def)
  next
    case True
    then have ej: "e \<noteq> j" using Suc.prems(3) by auto
    have closer: "steps ?n (next_slot ?n j) e < rounds"
      using next_steps [OF ij(2) Suc.prems(2)] ej Suc.prems(6) by auto
    show ?thesis
    proof (cases "steps ?n ?h i < steps ?n ?h j")
      case crosses: True
      note M = shifted_facts [OF Suc.prems(1) True]
      have "steps ?n j (next_slot ?n j) \<le> steps ?n j e"
        using steps_0_iff [OF ij(2) Suc.prems(2)] ej steps_next [OF ij(2) ij(2)] next_slot_neq [OF sh ij(2)]
        by simp
      moreover have "\<not> used (shifted m i j) e" using Suc.prems(3,4) by (simp add: M(1))
      moreover have "shift_back (Suc rounds) m i j = shift_back rounds (shifted m i j) j (next_slot ?n j)"
        using unfold [OF True] crosses btw by simp
      ultimately show ?thesis
        using Suc.IH [OF shifting_shifted [OF Suc.prems(1) True crosses], unfolded M(3,5,6,8)]
          Suc.prems(2) ej closer by metis
    next
      case clear: False
      have less: "steps ?n i j < steps ?n i e"
        using Suc.prems(5) steps_inj [OF ij(1,2) Suc.prems(2)] ej by linarith
      then have far: "next_slot ?n j \<noteq> i"
        using steps_around [OF ij(1,2)] steps_less [OF ij(1) Suc.prems(2)] by force
      have "steps ?n i (next_slot ?n j) \<le> steps ?n i e"
        using less steps_next [OF ij(1,2) far] by simp
      then show ?thesis
        using Suc.IH [OF shifting_stay [OF Suc.prems(1) True far clear]] Suc.prems(2-4) closer
          unfold [OF True] clear btw by simp
    qed
  qed
qed simp

lemma shifting_start:
  assumes ok: "idmap_ok m" and u: "used m r"
  defines "m0 \<equiv> m\<lparr>im_vals := (im_vals m)[r := None], im_size := im_size m - 1\<rparr>"
  shows "shifting m0 r (next_slot (cap m) r)" and "used m0 p \<longleftrightarrow> used m p \<and> p \<noteq> r"
    and "entries m0 = {(k, v) \<in> entries m. k \<noteq> im_keys m ! r}" and "cap m0 = cap m"
proof -
  have sh: "shaped m" and dist: "keys_distinct m" and probes: "probes_ok m" and r: "r < cap m"
    using ok u by (auto simp: idmap_ok_def used_def)
  note len = shapedD(3) [OF sh]
  show used: "used m0 p \<longleftrightarrow> used m p \<and> p \<noteq> r" for p
    using r len by (auto simp: m0_def used_def nth_list_update)
  have same: "im_keys m0 = im_keys m" "home m0 = home m" "shaped m0"
    using sh by (simp_all add: m0_def home_def fun_eq_iff shaped_def)
  show "cap m0 = cap m" by (simp add: same)
  have near: "steps (cap m) r (next_slot (cap m) r) \<le> steps (cap m) r p" if "p \<noteq> r" "p < cap m" for p
    using that r steps_0_iff [of r "cap m" p] steps_next [of r "cap m" r] next_slot_neq [OF sh r] by simp
  have "keys_distinct m0" using dist by (auto simp: keys_distinct_def used same)
  moreover have "used m0 q \<or> q = r \<and> steps (cap m) r (next_slot (cap m) r) \<le> steps (cap m) r p"
    if p: "used m0 p" "q < cap m"
      and lt: "steps (cap m) (home m (im_keys m ! p)) q < steps (cap m) (home m (im_keys m ! p)) p" for p q
  proof -
    have "used m p" "p \<noteq> r" "p < cap m" using p(1) unfolding used by (simp_all add: used_def)
    with probes lt p(2) near [of p] show ?thesis by (auto simp: probes_ok_def used)
  qed
  ultimately show "shifting m0 r (next_slot (cap m) r)"
    using r next_slot_less [OF r] next_slot_neq [OF sh r]
    by (auto simp: shifting_def used same)
  show "entries m0 = {(k, v) \<in> entries m. k \<noteq> im_keys m ! r}"
  proof -
    have "p = r" if "p < cap m" "im_vals m ! p = Some v" "im_keys m ! p = im_keys m ! r" for p v
      using dist u that by (auto simp: keys_distinct_def used_def)
    then show ?thesis
      using r len by (auto simp: entries_def m0_def nth_list_update split: if_splits) metis
  qed
qed

text \<open>Removing a key always ends, returns its value and deletes it from the finite map.\<close>

lemma idmap_remove:
  assumes ok: "idmap_ok m"
  shows "\<exists>m'. IdMap_remove m k = Some (idmap_lookup m k, m') \<and> idmap_ok m' \<and>
    idmap_lookup m' = (idmap_lookup m)(k := None)"
proof -
  from find_slot_ok [OF ok] obtain r where r: "find_slot (cap m) m k (home m k) = Some r" "found_at m k r"
    by blast
  note look = found_lookup [OF ok r(2)]
  have sh: "shaped m" and dist: "keys_distinct m" and count: "counted m" and rn: "r < cap m"
    using ok r(2) by (auto simp: idmap_ok_def found_at_def)
  show ?thesis
  proof (cases "im_vals m ! r")
    case None
    then have "IdMap_remove m k = Some (None, m)"
      unfolding IdMap_remove_def Let_def home_def [symmetric] r(1) by simp
    moreover have "(idmap_lookup m)(k := None) = idmap_lookup m" using look None by (simp add: fun_upd_idem)
    ultimately show ?thesis using ok look None by simp
  next
    case (Some v)
    then have u: "used m r" and k: "im_keys m ! r = k" using r(2) rn by (auto simp: used_def found_at_def)
    define m0 where "m0 = m\<lparr>im_vals := (im_vals m)[r := None], im_size := im_size m - 1\<rparr>"
    note S = shifting_start [OF ok u, folded m0_def]
    obtain e where e: "e < cap m" "im_vals m ! e = None" using free_slot [OF ok] .
    then have er: "e \<noteq> r" "\<not> used m0 e" using Some unfolding S(2) by (auto simp: used_def)
    have "steps (cap m) r (next_slot (cap m) r) \<le> steps (cap m) r e"
      using er(1) e(1) rn steps_0_iff [of r "cap m" e] steps_next [of r "cap m" r] next_slot_neq [OF sh rn] by simp
    moreover have "steps (cap m) (next_slot (cap m) r) e < cap m"
      by (rule steps_less [OF next_slot_less [OF rn] e(1)])
    ultimately obtain m' where m': "shift_back (cap m) m0 r (next_slot (cap m) r) = Some m'"
      "shaped m'" "keys_distinct m'" "probes_ok m'" "entries m' = entries m0"
      "card {p. used m' p} = card {p. used m0 p}" "im_size m' = im_size m0" "cap m' = cap m"
      using shift_back_ok [OF S(1), of e "cap m"] e(1) er by (auto simp: S(4))
    have "card {p. used m0 p} = card ({p. used m p} - {r})"
      by (rule arg_cong [of _ _ card]) (auto simp: S(2))
    then have "card {p. used m0 p} = card {p. used m p} - 1" using u by simp
    then have "im_size m' = card {p. used m' p}" "im_size m' \<le> im_size m"
      using m'(6,7) count by (simp_all add: counted_def m0_def)
    then have "idmap_ok m'" using m'(2-4,8) count by (simp add: idmap_ok_def counted_def)
    moreover have "IdMap_remove m k = Some (Some v, m')"
      using Some m'(1) shapedD(4) [OF sh rn]
      unfolding IdMap_remove_def Let_def home_def [symmetric] r(1) by (simp add: m0_def)
    moreover have "idmap_lookup m' = (idmap_lookup m)(k := None)"
      using m'(3,5) S(3) k by (intro lookup_eqI) (auto simp: lookup_Some [OF dist])
    ultimately show ?thesis using look Some by simp
  qed
qed

lemma tableSize_power: "\<exists>b\<ge>4. tableSize n = 2 ^ b"
proof -
  have "\<exists>b\<ge>a. tableSize_loop n (2 ^ a) = 2 ^ b" for a
  proof (induction n "2 ^ a :: nat" arbitrary: a rule: tableSize_loop.induct)
    case (1 n)
    show ?case
    proof (cases "(2 :: nat) ^ a < n * 2")
      case True
      then have "\<exists>b\<ge>Suc a. tableSize_loop n (2 ^ Suc a) = 2 ^ b"
        by (intro 1) (simp_all add: push_bit_eq_mult)
      then show ?thesis
        using True by (auto simp: tableSize_loop.simps [of n "2 ^ a"] push_bit_eq_mult mult.commute
          intro: Suc_leD)
    qed (auto simp: tableSize_loop.simps [of n "2 ^ a"])
  qed
  from this [of 4] show ?thesis by (simp add: tableSize_def)
qed

lemma idmap_new: "idmap_ok (IdMap_new n)" "idmap_lookup (IdMap_new n) = Map.empty"
  using tableSize_power [of n] empty_table_ok by (auto simp: IdMap_new_def)

lemma idmap_clear:
  assumes ok: "idmap_ok m"
  shows "idmap_ok (IdMap_clear m)" "idmap_lookup (IdMap_clear m) = Map.empty"
proof -
  have len: "length (im_vals m) = cap m" using ok shapedD(3) by (auto simp: idmap_ok_def)
  have u: "\<not> used (IdMap_clear m) p" for p by (auto simp: used_def IdMap_clear_def len)
  then show "idmap_ok (IdMap_clear m)"
    using ok by (auto simp: idmap_ok_def shaped_def keys_distinct_def probes_ok_def counted_def IdMap_clear_def)
  have "entries (IdMap_clear m) = {}" by (auto simp: entries_def IdMap_clear_def len)
  then show "idmap_lookup (IdMap_clear m) = Map.empty"
    using u by (intro lookup_eqI) (auto simp: keys_distinct_def)
qed

subsection \<open>The interface of a registry\<close>

locale registry =
  fixes put :: "'m \<Rightarrow> 'k \<Rightarrow> 'v \<Rightarrow> 'm option" and del :: "'m \<Rightarrow> 'k \<Rightarrow> ('v option \<times> 'm) option"
    and reset :: "'m \<Rightarrow> 'm" and look :: "'m \<Rightarrow> 'k \<Rightarrow> 'v option" and ok :: "'m \<Rightarrow> bool"
  assumes put_ok: "ok m \<Longrightarrow> \<exists>m'. put m k v = Some m' \<and> ok m' \<and> look m' = (look m)(k \<mapsto> v)"
    and del_ok: "ok m \<Longrightarrow> \<exists>m'. del m k = Some (look m k, m') \<and> ok m' \<and> look m' = (look m)(k := None)"
    and reset_ok: "ok m \<Longrightarrow> ok (reset m) \<and> look (reset m) = Map.empty"

datatype ('k, 'v) reg_op = Set_entry 'k 'v | Remove_entry 'k | Clear_all

text \<open>A run yields what the removals returned and the final registry, or \<^verbatim>\<open>None\<close> if a loop did not end.\<close>

fun run_registry ::
  "('m \<Rightarrow> 'k \<Rightarrow> 'v \<Rightarrow> 'm option) \<Rightarrow> ('m \<Rightarrow> 'k \<Rightarrow> ('v option \<times> 'm) option) \<Rightarrow> ('m \<Rightarrow> 'm) \<Rightarrow>
   ('k, 'v) reg_op list \<Rightarrow> 'm \<Rightarrow> ('v option list \<times> 'm) option" where
  "run_registry put del reset [] m = Some ([], m)"
| "run_registry put del reset (Set_entry k v # ops) m =
     Option.bind (put m k v) (run_registry put del reset ops)"
| "run_registry put del reset (Remove_entry k # ops) m =
     Option.bind (del m k) (\<lambda>(x, m). map_option (apfst ((#) x)) (run_registry put del reset ops m))"
| "run_registry put del reset (Clear_all # ops) m = run_registry put del reset ops (reset m)"

fun run_map :: "('k, 'v) reg_op list \<Rightarrow> ('k \<rightharpoonup> 'v) \<Rightarrow> 'v option list \<times> ('k \<rightharpoonup> 'v)" where
  "run_map [] f = ([], f)"
| "run_map (Set_entry k v # ops) f = run_map ops (f(k \<mapsto> v))"
| "run_map (Remove_entry k # ops) f = apfst ((#) (f k)) (run_map ops (f(k := None)))"
| "run_map (Clear_all # ops) f = run_map ops Map.empty"

context registry
begin

lemma run_ok:
  assumes "ok m"
  shows "\<exists>m'. run_registry put del reset ops m = Some (fst (run_map ops (look m)), m') \<and>
     look m' = snd (run_map ops (look m)) \<and> ok m'"
  using assms
proof (induction ops arbitrary: m)
  case (Cons a ops)
  show ?case
  proof (cases a)
    case (Set_entry k v)
    from put_ok [OF Cons.prems, of k v] obtain m' where
      "put m k v = Some m'" "ok m'" "look m' = (look m)(k \<mapsto> v)" by blast
    with Cons.IH [of m'] show ?thesis by (simp add: Set_entry fun_upd_def)
  next
    case (Remove_entry k)
    from del_ok [OF Cons.prems, of k] obtain m' where
      "del m k = Some (look m k, m')" "ok m'" "look m' = (look m)(k := None)" by blast
    with Cons.IH [of m'] show ?thesis by (auto simp: Remove_entry fun_upd_def)
  next
    case Clear_all
    with Cons.IH [of "reset m"] reset_ok [OF Cons.prems] show ?thesis by simp
  qed
qed simp

text \<open>What a removal returned is gone: the same key is not found again until it is set.\<close>

lemma removed_once:
  assumes "ok m" and "del m k = Some (x, m')"
  shows "\<exists>m''. del m' k = Some (None, m'')"
  using del_ok [OF assms(1), of k] assms(2) del_ok [of m' k] by auto

end

interpretation idmap: registry IdMap_set IdMap_remove IdMap_clear idmap_lookup idmap_ok
  by unfold_locales (simp_all add: idmap_set idmap_remove idmap_clear)

lemma idmap_size:
  assumes ok: "idmap_ok m"
  shows "im_size m = card (dom (idmap_lookup m))" and "set (IdMap_values m) = ran (idmap_lookup m)"
proof -
  have dist: "keys_distinct m" and len: "length (im_vals m) = cap m"
    using ok shapedD(3) by (auto simp: idmap_ok_def)
  have "dom (idmap_lookup m) = (\<lambda>p. im_keys m ! p) ` {p. used m p}"
    by (auto simp: dom_def lookup_Some [OF dist] entries_def used_def)
  moreover have "inj_on (\<lambda>p. im_keys m ! p) {p. used m p}"
    using dist by (auto simp: inj_on_def keys_distinct_def)
  ultimately show "im_size m = card (dom (idmap_lookup m))"
    using ok by (simp add: card_image idmap_ok_def counted_def)
  show "set (IdMap_values m) = ran (idmap_lookup m)"
    using len by (auto simp: IdMap_values_def set_map_filter ran_def lookup_Some [OF dist] entries_def in_set_conv_nth)
qed

text \<open>
  C4. The registry is a finite map. Whatever sequence of settings, removals and clearings is
  run on a new table, every probing and shifting loop ends, the removals return what they
  return on the map, the table at the end represents the resulting map, its size is the
  number of keys and the values it enumerates are those of the map.
\<close>

theorem idmap_refines_map:
  "\<exists>m. run_registry IdMap_set IdMap_remove IdMap_clear ops (IdMap_new initial) =
         Some (fst (run_map ops Map.empty), m) \<and>
       idmap_lookup m = snd (run_map ops Map.empty) \<and>
       im_size m = card (dom (idmap_lookup m)) \<and> set (IdMap_values m) = ran (idmap_lookup m)"
  using idmap.run_ok [OF idmap_new(1) [of initial], of ops] idmap_size
  by (auto simp: idmap_new(2))

end
