(* ===== verification/Spec2Isabelle.thy ===== *)
theory Spec2Isabelle
  imports Zstd_FSE_Decompress Zstd_CCtx Zstd_Frame_Sizes Zstd_XXHash Zstd_Regen
    Msg_Packet Msg_Queue Msg_IdMap
begin

text \<open>
  Verification of msgtrans: its packets, the data structures of its connections, and the
  compression library it carries.

  The repository is a message transport written in Kotlin that carries packets whose payload
  may be compressed (\<open>src/msgtrans/src/commonMain/kotlin/msgtrans\<close>). For Android it compiles a bundled
  copy of the Zstandard library, version 1.5.7, the single file
  \<open>src/msgtrans/src/nativeInterop/zstd/zstd.c\<close>. Of the transport this development models the packets and
  their codecs, the ring, the queue between the loops of a connection and the registry of pending requests. Of
  the library it models the parts that determine the compressed format and its safety: error values, memory
  and bit access, entropy coding, the sequences of a block, the frame container, the checksum, and
  the parameters of a compression.

  \<^bold>\<open>How the parts interact.\<close> A frame is a header, blocks and a checksum. A block holds literals and
  sequences. The encoder stores sequences (literal length, match length, offset) in a sequence store,
  codes their three numbers with finite state entropy, and writes the states and the extra bits to a bit
  stream that is read backwards. The decoder reads a header with three tables, follows the bit stream,
  turns offset codes into offsets with a history of three offsets, and executes each sequence by two
  copies into the output.

  A connection compresses the payload of a packet, encodes the packet into a buffer and queues it in a ring;
  the peer decodes it from the bytes that have arrived, decompresses it, and hands a request over the queue to
  its handler loop or matches a response with the registry.

  \<^bold>\<open>Conventions.\<close> Sizes and indices are natural numbers where the code checks that they cannot
  overflow, machine words (or numbers with the reduction written out) where the code relies on the
  width. \<open>size_t\<close> has 64 bits. An error is the left side of a sum type, \<open>ZSTD_ErrorCode + 'a\<close>. A
  buffer is a list of bytes; reading beyond its end gives 0 and writing there has no effect, and the
  safety theorems show that the code does not rely on either. Where pointers into one buffer may
  overlap, the buffer is a flat memory and pointers are addresses in it. Loops are recursive functions
  with a proved measure. One loop has no measure that holds for every input, the step over cells of
  low probability in \<open>fse_skip_low\<close>; it carries the size of the table as fuel, which is enough because
  the step visits every cell once (\<open>fse_walk_bij\<close>, \<open>fse_skip_low_spec\<close>). The probing and shifting loops of
  the registry carry the size of the table as fuel, which is enough because at least half of the slots are free
  (\<open>find_slot_ok\<close>, \<open>shift_back_ok\<close>), and setting an entry carries a depth of two calls, which is enough because
  the insertions made while growing do not grow (\<open>grow_ok\<close>). What the Kotlin code takes from libraries is an
  argument: the operations of the byte buffer with \<open>buffer_laws\<close>, the payload codecs with \<open>codec_law\<close>, and
  the answers of the coroutine library and of the reactor, which are arbitrary.

  \<^bold>\<open>Theories\<close>, from the bottom up:
  \<^item> \<open>Prelude\<close>: bytes and words, byte lists as memory, little-endian values, bit fields, results.
  \<^item> \<open>Zstd_Errors\<close>: the error enumeration and its encoding in a \<open>size_t\<close> (\<open>error_private.h\<close>).
  \<^item> \<open>Zstd_Mem\<close>: the memory accessors of \<open>mem.h\<close>, for hosts of either byte order.
  \<^item> \<open>Zstd_Bits\<close>: bit counting and rotation of \<open>bits.h\<close>, against a specification of the highest and
    the lowest bit.
  \<^item> \<open>Zstd_Bitstream\<close>, \<open>Zstd_Bit_Channel\<close>: the bit streams of \<open>bitstream.h\<close>. The writer refines a
    list of fields, the reader a number whose top bits it takes off; closing and opening connect the two,
    and the writer never leaves its buffer.
  \<^item> \<open>Zstd_FSE\<close>, \<open>Zstd_FSE_Spread\<close>, \<open>Zstd_FSE_Tables\<close>: finite state entropy (\<open>fse_compress.c\<close>,
    \<open>fse_decompress.c\<close>). The symbol spread gives each symbol its cells; the coding and the decoding table
    are inverse; the decoding table is closed.
  \<^item> \<open>Zstd_FSE_Stream\<close>: compressing a block of symbols with two states and decompressing it, by way of
    the locale \<open>state_coder\<close>, whose laws are those of \<open>Zstd_FSE_Tables\<close>.
  \<^item> \<open>Zstd_NCount\<close>, \<open>Zstd_FSE_Decompress\<close>: reading normalized counts (\<open>entropy_common.c\<close>), and the safety
    of the whole FSE decoder on untrusted bytes.
  \<^item> \<open>Zstd_CParams\<close>, \<open>Zstd_CCtx_Params\<close>, \<open>Zstd_CCtx\<close>: compression parameters, their bounds and
    adjustment, sets of parameters, and the compression context as a state machine whose reachable states
    keep the parameters valid.
  \<^item> \<open>Zstd_Frame\<close>, \<open>Zstd_Frame_Sizes\<close>: frame and block headers, skippable frames, the size of a frame.
  \<^item> \<open>Zstd_XXHash\<close>: XXH32 and XXH64, one shot and streaming (\<open>xxhash.h\<close>).
  \<^item> \<open>Zstd_Copy\<close>, \<open>Zstd_Exec\<close>: the overshooting copies of \<open>zstd_internal.h\<close> and
    \<open>zstd_decompress_block.c\<close>, and the execution of a sequence, against copying byte by byte.
  \<^item> \<open>Zstd_SeqStore\<close>, \<open>Zstd_SeqOffsets\<close>: the sequence store of \<open>zstd_compress_internal.h\<close>, the history of
    offsets and the sequences exchanged with the caller (\<open>zstd_compress.c\<close>).
  \<^item> \<open>Zstd_SeqTables\<close>: the decoding tables of the sequences section, predefined or read from a block.
  \<^item> \<open>Zstd_SeqEncode\<close>, \<open>Zstd_SeqDecode\<close>: writing and reading the sequences of a block
    (\<open>zstd_compress_sequences.c\<close>, \<open>zstd_decompress_block.c\<close>). Both follow one description of the fields in the
    bit stream, by way of a second interpretation of \<open>state_coder\<close> that also covers tables of one symbol.
  \<^item> \<open>Zstd_Block\<close>, \<open>Zstd_Regen\<close>: the three block decoders and their equivalence; what a block means
    as a function on lists (\<open>lz_block\<close>), the refinement of it by the decoder, its safety on any input, and
    the round trip from the sequence store through the encoder and the decoder back to the data.
  \<^item> \<open>Msg_Packet\<close>: packets, the packet codec, the length-prefixed codec and payload compression (\<open>Packet.kt\<close>,
    \<open>PacketCodec.kt\<close>, \<open>LengthPrefixedPacketCodec.kt\<close>, \<open>PayloadCompression.kt\<close>): framing, soundness on any input,
    strictness, the path through compression, and what happens to extension headers that are too long.
  \<^item> \<open>Msg_Ring\<close>: the ring (\<open>Ring.kt\<close>) as an implementation of the locale \<open>fifo\<close>.
  \<^item> \<open>Msg_Queue\<close>: the queue between two coroutines (\<open>ReactorQueue.kt\<close>) with a step relation of producer and
    consumer; order, bound and wake-ups in every reachable state.
  \<^item> \<open>Msg_IdMap\<close>: the registry (\<open>IdMap.kt\<close>) as an implementation of the locale \<open>registry\<close>.

  \<^bold>\<open>Not modelled.\<close> The Huffman coder and with it the literals section, the match finders and the
  optimal parser (any list of sequences is allowed instead of what they choose), long distance matching,
  multithreading, the workspace allocator, the buffering of the streaming interface, the dictionary
  builder, and the connection and the transports of the Kotlin code, which are coroutines around sockets, timers
  and TLS. Within the modelled parts, branches that
  the build disables (32-bit hosts, assembly, vector code, prefetching) are left out, and so are
  assertions, which the build compiles away.
\<close>

end
